(* ===== verification/Prelude.thy ===== *)
theory Prelude
  imports Main "HOL-Library.Monad_Syntax" "HOL-Library.Multiset"
begin

text \<open>
  Shared vocabulary of the development: the panic monad, checked unsigned subtraction, checked
  indexing and slicing of vectors, association lists for hash maps, decimal printing and parsing,
  and the generic lemmas the component theories build on.

  A Rust function that can panic is modelled by a function into \<open>'a option\<close>: \<open>None\<close> is a panic
  (\<open>panic!\<close>, \<open>fatal!\<close>, a failed \<open>assert!\<close>, \<open>unwrap\<close> of nothing, an index out of range, an unsigned
  subtraction below zero), \<open>Some v\<close> is a normal return of \<open>v\<close>. A Rust \<open>Result<T, E>\<close> is a sum
  \<open>'e + 'a\<close> with \<open>Inl\<close> the error. A \<open>u64\<close> or \<open>usize\<close> is a \<open>nat\<close>; subtraction below zero is a panic,
  as in a build with overflow checks.
\<close>

named_theorems panic_simps \<open>unfolding rules of the checked operations\<close>
named_theorems vcg \<open>introduction rules that walk through the panic monad\<close>
named_theorems frames \<open>what each operation leaves alone, as rules for \<open>outcome\<close>\<close>

type_synonym 'a panics = "'a option"
type_synonym bytes = string

section \<open>Checked operations\<close>

definition usub :: "nat \<Rightarrow> nat \<Rightarrow> nat panics" where
  "usub a b = (if b \<le> a then Some (a - b) else None)"

definition ensure :: "bool \<Rightarrow> unit panics" where
  "ensure b = (if b then Some () else None)"

definition vec_get :: "'a list \<Rightarrow> nat \<Rightarrow> 'a panics" where
  "vec_get xs i = (if i < length xs then Some (xs ! i) else None)"

definition vec_set :: "'a list \<Rightarrow> nat \<Rightarrow> 'a \<Rightarrow> 'a list panics" where
  "vec_set xs i v = (if i < length xs then Some (xs[i := v]) else None)"

definition vec_range :: "'a list \<Rightarrow> nat \<Rightarrow> nat \<Rightarrow> 'a list panics" where
  "vec_range xs lo hi =
     (if lo \<le> hi \<and> hi \<le> length xs then Some (take (hi - lo) (drop lo xs)) else None)"

definition vec_last :: "'a list \<Rightarrow> 'a option" where
  "vec_last xs = (if xs = [] then None else Some (last xs))"

definition vec_first :: "'a list \<Rightarrow> 'a option" where
  "vec_first xs = (case xs of [] \<Rightarrow> None | x # _ \<Rightarrow> Some x)"

lemma usub_Some [simp]: "usub a b = Some c \<longleftrightarrow> b \<le> a \<and> c = a - b"
  by (auto simp: usub_def)

lemma usub_None [simp]: "usub a b = None \<longleftrightarrow> a < b"
  by (auto simp: usub_def)

lemma usub_le [panic_simps]: "b \<le> a \<Longrightarrow> usub a b = Some (a - b)"
  by simp

lemma ensure_Some [simp]: "ensure b = Some u \<longleftrightarrow> b"
  by (auto simp: ensure_def)

lemma ensure_None [simp]: "ensure b = None \<longleftrightarrow> \<not> b"
  by (auto simp: ensure_def)

lemma ensure_True [simp]: "ensure True = Some ()"
  by (simp add: ensure_def)

lemma ensure_False [simp]: "ensure False = None"
  by (simp add: ensure_def)

lemma bind_ensure [simp]: "Option.bind (ensure b) f = (if b then f () else None)"
  by (simp add: ensure_def)

lemma vec_get_Some [simp]: "vec_get xs i = Some x \<longleftrightarrow> i < length xs \<and> x = xs ! i"
  by (auto simp: vec_get_def)

lemma vec_get_None [simp]: "vec_get xs i = None \<longleftrightarrow> length xs \<le> i"
  by (auto simp: vec_get_def)

lemma vec_get_lt [panic_simps]: "i < length xs \<Longrightarrow> vec_get xs i = Some (xs ! i)"
  by simp

lemma vec_set_Some [simp]: "vec_set xs i v = Some ys \<longleftrightarrow> i < length xs \<and> ys = xs[i := v]"
  by (auto simp: vec_set_def)

lemma vec_range_Some [simp]:
  "vec_range xs lo hi = Some ys \<longleftrightarrow>
     lo \<le> hi \<and> hi \<le> length xs \<and> ys = take (hi - lo) (drop lo xs)"
  by (auto simp: vec_range_def)

lemma vec_last_Some [simp]: "vec_last xs = Some x \<longleftrightarrow> xs \<noteq> [] \<and> x = last xs"
  by (auto simp: vec_last_def)

lemma vec_last_None [simp]: "vec_last xs = None \<longleftrightarrow> xs = []"
  by (auto simp: vec_last_def)

lemma vec_last_Nil [simp]: "vec_last [] = None"
  by simp

lemma vec_last_ne [panic_simps]: "xs \<noteq> [] \<Longrightarrow> vec_last xs = Some (last xs)"
  by simp

lemma vec_first_Some [simp]: "vec_first xs = Some x \<longleftrightarrow> xs \<noteq> [] \<and> x = hd xs"
  by (cases xs) (auto simp: vec_first_def)

lemma vec_first_None [simp]: "vec_first xs = None \<longleftrightarrow> xs = []"
  by (cases xs) (auto simp: vec_first_def)

section \<open>Outcomes of computations that may panic\<close>

text \<open>
  \<open>outcome P x\<close>: if the computation \<open>x\<close> returns, its result satisfies \<open>P\<close>. The rules of \<open>vcg\<close> take
  a monadic definition apart from the outside in; an operation called on the way is passed by its rule
  in \<open>frames\<close>, which has the form \<open>(\<And>y. R y \<Longrightarrow> Q y) \<Longrightarrow> outcome Q (op ...)\<close> for an arbitrary \<open>Q\<close>, so
  that \<open>intro vcg frames\<close> composes the facts of the callees.
\<close>

definition outcome :: "('a \<Rightarrow> bool) \<Rightarrow> 'a panics \<Rightarrow> bool" where
  "outcome P x \<longleftrightarrow> (\<forall>y. x = Some y \<longrightarrow> P y)"

lemma outcome_simps [simp]:
  "outcome P None"
  "outcome P (Some y) \<longleftrightarrow> P y"
  "outcome P (Option.bind x f) \<longleftrightarrow> outcome (\<lambda>y. outcome P (f y)) x"
  "outcome P (map_option g x) \<longleftrightarrow> outcome (\<lambda>y. P (g y)) x"
  by (auto simp: outcome_def bind_eq_Some_conv)

lemma outcome_ensure [simp]: "outcome P (ensure b) \<longleftrightarrow> (b \<longrightarrow> P ())"
  by (simp add: outcome_def)

lemma outcome_usub [simp]: "outcome P (usub a c) \<longleftrightarrow> (c \<le> a \<longrightarrow> P (a - c))"
  by (auto simp: outcome_def bind_eq_Some_conv)

lemma outcome_rules [vcg]:
  "outcome P None"
  "\<And>y. P y \<Longrightarrow> outcome P (Some y)"
  "\<And>x f. outcome (\<lambda>y. outcome P (f y)) x \<Longrightarrow> outcome P (Option.bind x f)"
  "\<And>x g. outcome (\<lambda>y. P (g y)) x \<Longrightarrow> outcome P (map_option g x)"
  "\<And>b x y. (b \<Longrightarrow> outcome P x) \<Longrightarrow> (\<not> b \<Longrightarrow> outcome P y) \<Longrightarrow> outcome P (if b then x else y)"
  "\<And>f a b. outcome P (f a b) \<Longrightarrow> outcome P (case (a, b) of (x, y) \<Rightarrow> f x y)"
  by (auto simp: outcome_def bind_eq_Some_conv)

lemma outcome_cases [vcg]:
  "\<And>o' x f. (o' = None \<Longrightarrow> outcome P x) \<Longrightarrow> (\<And>y. o' = Some y \<Longrightarrow> outcome P (f y))
     \<Longrightarrow> outcome P (case o' of None \<Rightarrow> x | Some y \<Rightarrow> f y)"
  "\<And>s f g. (\<And>a. s = Inl a \<Longrightarrow> outcome P (f a)) \<Longrightarrow> (\<And>b. s = Inr b \<Longrightarrow> outcome P (g b))
     \<Longrightarrow> outcome P (case s of Inl a \<Rightarrow> f a | Inr b \<Rightarrow> g b)"
  "\<And>p f. (\<And>a b. p = (a, b) \<Longrightarrow> outcome P (f a b)) \<Longrightarrow> outcome P (case p of (x, y) \<Rightarrow> f x y)"
  "\<And>v f. outcome P (f v) \<Longrightarrow> outcome P (let x = v in f x)"
  by (auto split: option.split sum.split prod.split)

lemmas outcome_connectives [vcg] = conjI allI impI

lemma outcome_checked [vcg]:
  "\<And>b P. (b \<Longrightarrow> P ()) \<Longrightarrow> outcome P (ensure b)"
  "\<And>a c P. (c \<le> a \<Longrightarrow> P (a - c)) \<Longrightarrow> outcome P (usub a c)"
  by simp_all

lemma outcome_any: "(\<And>y. x = Some y \<Longrightarrow> P y) \<Longrightarrow> outcome P x"
  by (simp add: outcome_def)

lemma outcome_conseq: "outcome P x \<Longrightarrow> (\<And>y. P y \<Longrightarrow> Q y) \<Longrightarrow> outcome Q x"
  by (simp add: outcome_def)

lemma outcomeD: "outcome P x \<Longrightarrow> x = Some y \<Longrightarrow> P y"
  by (simp add: outcome_def)

section \<open>Hash maps as association lists\<close>

text \<open>
  A \<open>HashMap\<close> that the code iterates over is an association list with distinct keys; the list
  order stands for the iteration order of the hash table. \<open>amap_set\<close> overwrites in place or adds
  the new key at the end, \<open>amap_del\<close> removes the key.
\<close>

type_synonym ('k, 'v) amap = "('k \<times> 'v) list"

fun amap_set :: "'k \<Rightarrow> 'v \<Rightarrow> ('k, 'v) amap \<Rightarrow> ('k, 'v) amap" where
  "amap_set k v [] = [(k, v)]"
| "amap_set k v ((k', v') # m) = (if k = k' then (k, v) # m else (k', v') # amap_set k v m)"

definition amap_del :: "'k \<Rightarrow> ('k, 'v) amap \<Rightarrow> ('k, 'v) amap" where
  "amap_del k m = filter (\<lambda>p. fst p \<noteq> k) m"

abbreviation amap_keys :: "('k, 'v) amap \<Rightarrow> 'k set" where
  "amap_keys m \<equiv> set (map fst m)"

abbreviation amap_wf :: "('k, 'v) amap \<Rightarrow> bool" where
  "amap_wf m \<equiv> distinct (map fst m)"

lemma map_of_amap_set [simp]: "map_of (amap_set k v m) = (map_of m)(k \<mapsto> v)"
  by (induction m) auto

lemma amap_keys_set: "fst ` set (amap_set k v m) = insert k (fst ` set m)"
  by (induction k v m rule: amap_set.induct) auto

lemma amap_wf_set [simp]: "amap_wf m \<Longrightarrow> amap_wf (amap_set k v m)"
  by (induction k v m rule: amap_set.induct) (auto simp: amap_keys_set)

lemma map_of_amap_del [simp]: "map_of (amap_del k m) = (map_of m)(k := None)"
  by (induction m) (auto simp: amap_del_def)

lemma amap_keys_del: "fst ` set (amap_del k m) = fst ` set m - {k}"
  by (auto simp: amap_del_def)

lemma amap_wf_del [simp]: "amap_wf m \<Longrightarrow> amap_wf (amap_del k m)"
  by (induction m) (auto simp: amap_del_def)

lemma map_of_None_keys: "map_of m k = None \<longleftrightarrow> k \<notin> fst ` set m"
  by (simp add: map_of_eq_None_iff)

lemma map_of_Some_keys: "(\<exists>v. map_of m k = Some v) \<longleftrightarrow> k \<in> fst ` set m"
  using map_of_None_keys[of m k] by (cases "map_of m k") auto

lemma amap_keys_map [simp]: "map fst (map (\<lambda>(k, v). (k, f k v)) m) = map fst m"
  by (induction m) auto

lemma map_of_map_value: "map_of (map (\<lambda>(k, v). (k, f k v)) m) k = map_option (f k) (map_of m k)"
  by (induction m) auto

section \<open>Lists\<close>

lemma dropWhile_le_sorted:
  fixes ys :: "nat list"
  shows "sorted ys \<Longrightarrow> dropWhile (\<lambda>y. y \<le> x) ys = filter (\<lambda>y. x < y) ys"
  by (induction ys) (auto intro!: filter_True[symmetric])

lemma find_append: "find P (xs @ ys) = (case find P xs of None \<Rightarrow> find P ys | Some x \<Rightarrow> Some x)"
  by (induction xs) auto

end
