(* ===== verification/Proto.thy ===== *)
theory Proto
  imports Prelude
begin

text \<open>
  The messages of \<open>raft-rs/proto/proto/eraftpb.proto\<close> as records, the error values of
  \<open>raft-rs/src/errors.rs\<close> with their hand-written equality, and the configuration-change helpers of
  \<open>raft-rs/proto/src/confchange.rs\<close> and \<open>confstate.rs\<close>. Every field has its protobuf default in the
  \<open>_default\<close> constants. \<open>bytes\<close> are character lists, a \<open>String\<close> is a character list too.
\<close>

section \<open>Messages\<close>

datatype entry_type = EntryNormal | EntryConfChange | EntryConfChangeV2

record entry =
  e_type :: entry_type
  e_term :: nat
  e_index :: nat
  e_data :: bytes
  e_context :: bytes
  e_sync_log :: bool

definition entry_default :: entry where
  "entry_default = \<lparr>e_type = EntryNormal, e_term = 0, e_index = 0, e_data = [], e_context = [],
     e_sync_log = False\<rparr>"

record conf_state =
  cs_voters :: "nat list"
  cs_learners :: "nat list"
  cs_voters_outgoing :: "nat list"
  cs_learners_next :: "nat list"
  cs_auto_leave :: bool

definition conf_state_default :: conf_state where
  "conf_state_default = \<lparr>cs_voters = [], cs_learners = [], cs_voters_outgoing = [],
     cs_learners_next = [], cs_auto_leave = False\<rparr>"

record snapshot_metadata =
  sm_conf_state :: conf_state
  sm_index :: nat
  sm_term :: nat

definition snapshot_metadata_default :: snapshot_metadata where
  "snapshot_metadata_default = \<lparr>sm_conf_state = conf_state_default, sm_index = 0, sm_term = 0\<rparr>"

record snapshot =
  snap_data :: bytes
  snap_metadata :: snapshot_metadata

definition snapshot_default :: snapshot where
  "snapshot_default = \<lparr>snap_data = [], snap_metadata = snapshot_metadata_default\<rparr>"

abbreviation snap_index :: "snapshot \<Rightarrow> nat" where
  "snap_index s \<equiv> sm_index (snap_metadata s)"

abbreviation snap_term :: "snapshot \<Rightarrow> nat" where
  "snap_term s \<equiv> sm_term (snap_metadata s)"

definition snapshot_is_empty :: "snapshot \<Rightarrow> bool" where
  "snapshot_is_empty s \<longleftrightarrow> snap_index s = 0"

datatype message_type =
    MsgHup | MsgBeat | MsgPropose | MsgAppend | MsgAppendResponse | MsgRequestVote
  | MsgRequestVoteResponse | MsgSnapshot | MsgHeartbeat | MsgHeartbeatResponse | MsgUnreachable
  | MsgSnapStatus | MsgCheckQuorum | MsgTransferLeader | MsgTimeoutNow | MsgReadIndex
  | MsgReadIndexResp | MsgRequestPreVote | MsgRequestPreVoteResponse

record message =
  m_type :: message_type
  m_to :: nat
  m_from :: nat
  m_term :: nat
  m_log_term :: nat
  m_index :: nat
  m_entries :: "entry list"
  m_commit :: nat
  m_commit_term :: nat
  m_snapshot :: snapshot
  m_request_snapshot :: nat
  m_reject :: bool
  m_reject_hint :: nat
  m_context :: bytes
  m_deprecated_priority :: nat
  m_priority :: int

definition message_default :: message where
  "message_default = \<lparr>m_type = MsgHup, m_to = 0, m_from = 0, m_term = 0, m_log_term = 0,
     m_index = 0, m_entries = [], m_commit = 0, m_commit_term = 0, m_snapshot = snapshot_default,
     m_request_snapshot = 0, m_reject = False, m_reject_hint = 0, m_context = [],
     m_deprecated_priority = 0, m_priority = 0\<rparr>"

record hard_state =
  hs_term :: nat
  hs_vote :: nat
  hs_commit :: nat

definition hard_state_default :: hard_state where
  "hard_state_default = \<lparr>hs_term = 0, hs_vote = 0, hs_commit = 0\<rparr>"

datatype conf_change_transition = Auto | Implicit | Explicit

datatype conf_change_type = AddNode | RemoveNode | AddLearnerNode

record conf_change =
  cc_change_type :: conf_change_type
  cc_node_id :: nat
  cc_context :: bytes
  cc_id :: nat

definition conf_change_default :: conf_change where
  "conf_change_default = \<lparr>cc_change_type = AddNode, cc_node_id = 0, cc_context = [], cc_id = 0\<rparr>"

record conf_change_single =
  ccs_change_type :: conf_change_type
  ccs_node_id :: nat

record conf_change_v2 =
  ccv2_transition :: conf_change_transition
  ccv2_changes :: "conf_change_single list"
  ccv2_context :: bytes

definition conf_change_v2_default :: conf_change_v2 where
  "conf_change_v2_default = \<lparr>ccv2_transition = Auto, ccv2_changes = [], ccv2_context = []\<rparr>"

section \<open>Errors\<close>

text \<open>An I/O error carries its kind, the boxed error of \<open>Other\<close> its text.\<close>

datatype storage_error =
    Compacted | Unavailable | LogTemporarilyUnavailable | SnapshotOutOfDate
  | SnapshotTemporarilyUnavailable | Other string

datatype error =
    Io string | Store storage_error | StepLocalMsg | StepPeerNotFound | ProposalDropped
  | ConfigInvalid string | CodecError string | Exists nat string | NotExists nat string
  | ConfChangeError string | RequestSnapshotDropped | Stopped | NotIsVoter | NoLeader

type_synonym 'a result = "error + 'a"

definition storage_error_eq :: "storage_error \<Rightarrow> storage_error \<Rightarrow> bool" where
  "storage_error_eq a b =
     (case a of
        Compacted \<Rightarrow> b = Compacted
      | Unavailable \<Rightarrow> b = Unavailable
      | LogTemporarilyUnavailable \<Rightarrow> b = LogTemporarilyUnavailable
      | SnapshotOutOfDate \<Rightarrow> b = SnapshotOutOfDate
      | SnapshotTemporarilyUnavailable \<Rightarrow> b = SnapshotTemporarilyUnavailable
      | Other _ \<Rightarrow> False)"

definition error_eq :: "error \<Rightarrow> error \<Rightarrow> bool" where
  "error_eq a b =
     (case a of
        StepPeerNotFound \<Rightarrow> b = StepPeerNotFound
      | ProposalDropped \<Rightarrow> b = ProposalDropped
      | Store e1 \<Rightarrow> (case b of Store e2 \<Rightarrow> storage_error_eq e1 e2 | _ \<Rightarrow> False)
      | Io e1 \<Rightarrow> (case b of Io e2 \<Rightarrow> e1 = e2 | _ \<Rightarrow> False)
      | StepLocalMsg \<Rightarrow> b = StepLocalMsg
      | ConfigInvalid e1 \<Rightarrow> (case b of ConfigInvalid e2 \<Rightarrow> e1 = e2 | _ \<Rightarrow> False)
      | RequestSnapshotDropped \<Rightarrow> b = RequestSnapshotDropped
      | ConfChangeError e1 \<Rightarrow> (case b of ConfChangeError e2 \<Rightarrow> e1 = e2 | _ \<Rightarrow> False)
      | _ \<Rightarrow> False)"

section \<open>Configuration changes\<close>

definition new_conf_change_single :: "nat \<Rightarrow> conf_change_type \<Rightarrow> conf_change_single" where
  "new_conf_change_single node_id ty = \<lparr>ccs_change_type = ty, ccs_node_id = node_id\<rparr>"

text \<open>Decimal printing (\<open>Display\<close> of \<open>u64\<close>) and parsing (\<open>str::parse::<u64>\<close>).\<close>

definition digit_char :: "nat \<Rightarrow> char" where
  "digit_char d = char_of (48 + d)"

fun string_of_nat :: "nat \<Rightarrow> string" where
  "string_of_nat n =
     (if n < 10 then [digit_char n] else string_of_nat (n div 10) @ [digit_char (n mod 10)])"

declare string_of_nat.simps [simp del]

definition to_digit :: "char \<Rightarrow> nat option" where
  "to_digit c = (let n = of_char c :: nat in if 48 \<le> n \<and> n \<le> 57 then Some (n - 48) else None)"

abbreviation u64_max :: nat where
  "u64_max \<equiv> 18446744073709551615"

fun parse_digits :: "nat \<Rightarrow> string \<Rightarrow> string + nat" where
  "parse_digits acc [] = Inr acc"
| "parse_digits acc (c # cs) =
     (case to_digit c of
        None \<Rightarrow> Inl ''invalid digit found in string''
      | Some d \<Rightarrow> if acc * 10 + d \<le> u64_max then parse_digits (acc * 10 + d) cs
                  else Inl ''number too large to fit in target type'')"

definition parse_u64 :: "string \<Rightarrow> string + nat" where
  "parse_u64 s = (case s of
       [] \<Rightarrow> Inl ''cannot parse integer from empty string''
     | c # cs \<Rightarrow>
         if (c = CHR ''+'' \<or> c = CHR ''-'') \<and> cs = [] then Inl ''invalid digit found in string''
         else if c = CHR ''+'' then parse_digits 0 cs
         else parse_digits 0 s)"

text \<open>\<open>str::trim\<close> and \<open>str::split_ascii_whitespace\<close> on ASCII text.\<close>

definition is_ascii_ws :: "char \<Rightarrow> bool" where
  "is_ascii_ws c \<longleftrightarrow> (of_char c :: nat) \<in> {9, 10, 12, 13, 32}"

definition is_trim_ws :: "char \<Rightarrow> bool" where
  "is_trim_ws c \<longleftrightarrow> (of_char c :: nat) \<in> {9, 10, 11, 12, 13, 32}"

definition trim :: "string \<Rightarrow> string" where
  "trim s = rev (dropWhile is_trim_ws (rev (dropWhile is_trim_ws s)))"

function split_ascii_whitespace :: "string \<Rightarrow> string list" where
  "split_ascii_whitespace s =
     (let s' = dropWhile is_ascii_ws s in
      if s' = [] then []
      else takeWhile (\<lambda>c. \<not> is_ascii_ws c) s'
             # split_ascii_whitespace (dropWhile (\<lambda>c. \<not> is_ascii_ws c) s'))"
  by pat_completeness auto
termination
proof (relation "measure length", simp, simp, goal_cases)
  case (1 s)
  let ?s' = "dropWhile is_ascii_ws s"
  have "\<not> is_ascii_ws (hd ?s')"
    using 1 hd_dropWhile[of is_ascii_ws s] by simp
  then have "length (dropWhile (\<lambda>c. \<not> is_ascii_ws c) ?s') < length ?s'"
    using 1 by (cases ?s') (auto simp: less_Suc_eq_le length_dropWhile_le)
  also have "\<dots> \<le> length s"
    by (rule length_dropWhile_le)
  finally show ?case .
qed

declare split_ascii_whitespace.simps [simp del]

definition parse_token :: "string \<Rightarrow> string + conf_change_single" where
  "parse_token tok =
     (if length tok < 2 then Inl (''unknown token '' @ tok)
      else
        let c = hd tok;
            ty = (if c = CHR ''v'' then Some AddNode
                  else if c = CHR ''l'' then Some AddLearnerNode
                  else if c = CHR ''r'' then Some RemoveNode else None)
        in case ty of
             None \<Rightarrow> Inl (''unknown token '' @ tok)
           | Some ty \<Rightarrow> (case parse_u64 (tl tok) of
                 Inr nid \<Rightarrow> Inr \<lparr>ccs_change_type = ty, ccs_node_id = nid\<rparr>
               | Inl e \<Rightarrow> Inl (''parse token '' @ tok @ '' fail: '' @ e)))"

fun parse_tokens :: "string list \<Rightarrow> string + conf_change_single list" where
  "parse_tokens [] = Inr []"
| "parse_tokens (tok # toks) = (case parse_token tok of
       Inl e \<Rightarrow> Inl e
     | Inr cc \<Rightarrow> (case parse_tokens toks of Inl e \<Rightarrow> Inl e | Inr ccs \<Rightarrow> Inr (cc # ccs)))"

definition parse_conf_change :: "string \<Rightarrow> string + conf_change_single list" where
  "parse_conf_change s0 =
     (let s = trim s0 in if s = [] then Inr [] else parse_tokens (split_ascii_whitespace s))"

definition stringify_single :: "conf_change_single \<Rightarrow> string" where
  "stringify_single cc =
     (case ccs_change_type cc of AddNode \<Rightarrow> CHR ''v'' | AddLearnerNode \<Rightarrow> CHR ''l''
        | RemoveNode \<Rightarrow> CHR ''r'') # string_of_nat (ccs_node_id cc)"

fun stringify_from :: "nat \<Rightarrow> conf_change_single list \<Rightarrow> string" where
  "stringify_from i [] = []"
| "stringify_from i (cc # ccs) =
     (if i > 0 then [CHR '' ''] else []) @ stringify_single cc @ stringify_from (Suc i) ccs"

definition stringify_conf_change :: "conf_change_single list \<Rightarrow> string" where
  "stringify_conf_change ccs = stringify_from 0 ccs"

text \<open>The trait \<open>ConfChangeI\<close> has two implementors, the legacy and the current message.\<close>

datatype conf_change_i = V1 conf_change | V2 conf_change_v2

fun into_v2 :: "conf_change_i \<Rightarrow> conf_change_v2" where
  "into_v2 (V1 cc) = conf_change_v2_default
     \<lparr>ccv2_changes := [new_conf_change_single (cc_node_id cc) (cc_change_type cc)],
      ccv2_context := cc_context cc\<rparr>"
| "into_v2 (V2 cc) = cc"

definition as_v2 :: "conf_change_i \<Rightarrow> conf_change_v2" where
  "as_v2 c = into_v2 c"

fun as_v1 :: "conf_change_i \<Rightarrow> conf_change option" where
  "as_v1 (V1 cc) = Some cc"
| "as_v1 (V2 cc) = None"

definition v2_enter_joint :: "conf_change_v2 \<Rightarrow> bool option" where
  "v2_enter_joint cc =
     (if ccv2_transition cc \<noteq> Auto \<or> length (ccv2_changes cc) > 1
      then (case ccv2_transition cc of Auto \<Rightarrow> Some True | Implicit \<Rightarrow> Some True
              | Explicit \<Rightarrow> Some False)
      else None)"

definition v2_leave_joint :: "conf_change_v2 \<Rightarrow> bool" where
  "v2_leave_joint cc \<longleftrightarrow> ccv2_transition cc = Auto \<and> ccv2_changes cc = []"

fun contains_all :: "nat list \<Rightarrow> nat list \<Rightarrow> bool" where
  "contains_all [] rhs = True"
| "contains_all (l # lhs) rhs = (if l \<notin> set rhs then False else contains_all lhs rhs)"

definition eq_without_order :: "nat list \<Rightarrow> nat list \<Rightarrow> bool" where
  "eq_without_order lhs rhs \<longleftrightarrow>
     (if \<not> contains_all lhs rhs then False else if \<not> contains_all rhs lhs then False else True)"

definition conf_state_eq :: "conf_state \<Rightarrow> conf_state \<Rightarrow> bool" where
  "conf_state_eq lhs rhs \<longleftrightarrow>
     (if cs_voters lhs = cs_voters rhs \<and> cs_learners lhs = cs_learners rhs
         \<and> cs_voters_outgoing lhs = cs_voters_outgoing rhs
         \<and> cs_learners_next lhs = cs_learners_next rhs \<and> cs_auto_leave lhs = cs_auto_leave rhs
      then True
      else eq_without_order (cs_voters lhs) (cs_voters rhs)
         \<and> eq_without_order (cs_learners lhs) (cs_learners rhs)
         \<and> eq_without_order (cs_voters_outgoing lhs) (cs_voters_outgoing rhs)
         \<and> eq_without_order (cs_learners_next lhs) (cs_learners_next rhs)
         \<and> cs_auto_leave lhs = cs_auto_leave rhs)"

definition conf_state_from :: "nat list \<Rightarrow> nat list \<Rightarrow> conf_state" where
  "conf_state_from voters learners =
     conf_state_default\<lparr>cs_voters := voters, cs_learners := learners\<rparr>"

section \<open>Properties\<close>

lemma contains_all_iff [simp]: "contains_all xs ys \<longleftrightarrow> set xs \<subseteq> set ys"
  by (induction xs) auto

lemma eq_without_order_iff [simp]: "eq_without_order xs ys \<longleftrightarrow> set xs = set ys"
  by (auto simp: eq_without_order_def)

section \<open>Parsing what was printed\<close>

lemma digit_char_digit: "d < 10 \<Longrightarrow> to_digit (digit_char d) = Some d"
  by (simp add: to_digit_def digit_char_def)

lemma digit_char_plain: "d < 10 \<Longrightarrow> \<not> is_trim_ws (digit_char d) \<and> \<not> is_ascii_ws (digit_char d)
    \<and> digit_char d \<noteq> CHR ''+'' \<and> digit_char d \<noteq> CHR ''-''"
proof -
  assume d: "d < 10"
  then have n: "(of_char (digit_char d) :: nat) = 48 + d" by (simp add: digit_char_def)
  have "digit_char d \<noteq> CHR ''+''" "digit_char d \<noteq> CHR ''-''"
    using n d by auto
  then show ?thesis using n d by (auto simp: is_trim_ws_def is_ascii_ws_def)
qed

lemma string_of_nat_digits: "\<exists>ds. string_of_nat n = map digit_char ds \<and> ds \<noteq> [] \<and> (\<forall>d \<in> set ds. d < 10)"
proof (induction n rule: string_of_nat.induct)
  case (1 n)
  show ?case
  proof (cases "n < 10")
    case True
    then show ?thesis by (intro exI[of _ "[n]"]) (simp add: string_of_nat.simps)
  next
    case False
    then obtain ds where "string_of_nat (n div 10) = map digit_char ds" "\<forall>d \<in> set ds. d < 10"
      using 1 by blast
    then show ?thesis
      using False by (intro exI[of _ "ds @ [n mod 10]"]) (auto simp: string_of_nat.simps[of n])
  qed
qed

lemma parse_digits_append:
  "parse_digits a (xs @ ys) = (case parse_digits a xs of Inl e \<Rightarrow> Inl e | Inr b \<Rightarrow> parse_digits b ys)"
  by (induction a xs rule: parse_digits.induct) (auto split: option.splits)

lemma parse_digits_string_of_nat: "n \<le> u64_max \<Longrightarrow> parse_digits 0 (string_of_nat n) = Inr n"
proof (induction n rule: string_of_nat.induct)
  case (1 n)
  show ?case
  proof (cases "n < 10")
    case True
    then show ?thesis by (simp add: string_of_nat.simps digit_char_digit)
  next
    case False
    have "parse_digits 0 (string_of_nat (n div 10)) = Inr (n div 10)"
      using 1 False by (meson div_le_dividend le_trans)
    moreover have "n div 10 * 10 + n mod 10 = n" by simp
    ultimately show ?thesis
      using 1(2) False
      by (simp add: string_of_nat.simps[of n] parse_digits_append digit_char_digit del: mult_div_mod_eq)
  qed
qed

lemma parse_u64_string_of_nat: "n \<le> u64_max \<Longrightarrow> parse_u64 (string_of_nat n) = Inr n"
proof -
  assume n: "n \<le> u64_max"
  obtain d ds where ds: "string_of_nat n = digit_char d # map digit_char ds" "d < 10"
    using string_of_nat_digits[of n] by (metis list.exhaust list.set_intros(1) list.simps(9))
  have "parse_digits 0 (digit_char d # map digit_char ds) = Inr n"
    using parse_digits_string_of_nat[OF n] ds(1) by simp
  then show ?thesis using ds digit_char_plain[OF ds(2)] by (simp add: parse_u64_def)
qed

text \<open>A printed token: not empty and free of white space.\<close>

definition plain_token :: "string \<Rightarrow> bool" where
  "plain_token tok \<longleftrightarrow> tok \<noteq> [] \<and> (\<forall>c \<in> set tok. \<not> is_ascii_ws c \<and> \<not> is_trim_ws c)"

lemma stringify_single_plain: "plain_token (stringify_single cc)"
proof -
  obtain ds where "string_of_nat (ccs_node_id cc) = map digit_char ds" "\<forall>d \<in> set ds. d < 10"
    using string_of_nat_digits by blast
  then show ?thesis
    using digit_char_plain
    by (auto simp: plain_token_def stringify_single_def is_ascii_ws_def is_trim_ws_def
        split: conf_change_type.splits)
qed

lemma parse_token_stringify:
  "ccs_node_id cc \<le> u64_max \<Longrightarrow> parse_token (stringify_single cc) = Inr cc"
proof -
  assume n: "ccs_node_id cc \<le> u64_max"
  have "string_of_nat (ccs_node_id cc) \<noteq> []" using string_of_nat_digits by (metis map_is_Nil_conv)
  then show ?thesis
    using parse_u64_string_of_nat[OF n]
    by (cases cc; cases "ccs_change_type cc")
      (auto simp: parse_token_def stringify_single_def Let_def neq_Nil_conv)
qed

fun join_tokens :: "string list \<Rightarrow> string" where
  "join_tokens [] = []"
| "join_tokens [tok] = tok"
| "join_tokens (tok # toks) = tok @ CHR '' '' # join_tokens toks"

lemma stringify_from_join:
  "stringify_from (Suc i) ccs = concat (map (\<lambda>cc. CHR '' '' # stringify_single cc) ccs)"
  by (induction ccs arbitrary: i) auto

lemma join_tokens_Cons: "join_tokens (tok # toks) = tok @ concat (map (\<lambda>tk. CHR '' '' # tk) toks)"
  by (induction toks arbitrary: tok rule: induct_list012) auto

lemma stringify_join: "stringify_conf_change ccs = join_tokens (map stringify_single ccs)"
  by (cases ccs) (simp_all add: stringify_conf_change_def stringify_from_join join_tokens_Cons comp_def)

lemma dropWhile_plain: "plain_token tok \<Longrightarrow> dropWhile is_ascii_ws (tok @ rest) = tok @ rest"
  "plain_token tok \<Longrightarrow> dropWhile is_trim_ws (tok @ rest) = tok @ rest"
  by (cases tok; simp add: plain_token_def)+

lemma split_join:
  "\<forall>tok \<in> set toks. plain_token tok \<Longrightarrow> split_ascii_whitespace (join_tokens toks) = toks"
proof (induction toks rule: join_tokens.induct)
  case 1
  then show ?case by (simp add: split_ascii_whitespace.simps)
next
  case (2 tok)
  then have p: "plain_token tok" by simp
  then have tw: "takeWhile (\<lambda>c. \<not> is_ascii_ws c) tok = tok" "dropWhile (\<lambda>c. \<not> is_ascii_ws c) tok = []"
    by (simp_all add: plain_token_def)
  show ?case using dropWhile_plain(1)[OF p, of "[]"] p
    by (subst split_ascii_whitespace.simps) (simp add: Let_def tw plain_token_def split_ascii_whitespace.simps)
next
  case (3 tok tok2 toks)
  let ?rest = "CHR '' '' # join_tokens (tok2 # toks)"
  have p: "plain_token tok" using 3 by simp
  then have all: "\<forall>c \<in> set tok. \<not> is_ascii_ws c" by (simp add: plain_token_def)
  have sp: "is_ascii_ws CHR '' ''" by (simp add: is_ascii_ws_def)
  have tw: "takeWhile (\<lambda>c. \<not> is_ascii_ws c) (tok @ ?rest) = tok" "dropWhile (\<lambda>c. \<not> is_ascii_ws c) (tok @ ?rest) = ?rest"
    using all sp by (simp_all add: takeWhile_append dropWhile_append)
  have "split_ascii_whitespace ?rest = split_ascii_whitespace (join_tokens (tok2 # toks))"
    by (subst (1 2) split_ascii_whitespace.simps) (simp add: sp)
  then show ?case using 3 p dropWhile_plain(1)[OF p, of ?rest] tw
    by (subst split_ascii_whitespace.simps) (simp add: Let_def plain_token_def)
qed

lemma trim_join:
  assumes "\<forall>tok \<in> set toks. plain_token tok"
  shows "trim (join_tokens toks) = join_tokens toks"
proof (cases toks rule: rev_cases)
  case (snoc init tok)
  obtain pre where pre: "join_tokens toks = pre @ tok" "toks \<noteq> []"
  proof -
    have "\<exists>pre. join_tokens (init @ [tok]) = pre @ tok"
      by (induction init rule: induct_list012) auto
    then show ?thesis using that snoc by auto
  qed
  have "plain_token (rev tok)" using assms snoc by (simp add: plain_token_def)
  then have "dropWhile is_trim_ws (rev (join_tokens toks)) = rev (join_tokens toks)"
    using dropWhile_plain(2)[of "rev tok" "rev pre"] pre by simp
  moreover have "dropWhile is_trim_ws (join_tokens toks) = join_tokens toks"
    using assms dropWhile_plain(2) pre(2) by (cases toks) (auto simp: join_tokens_Cons)
  ultimately show ?thesis by (simp add: trim_def)
qed (simp add: trim_def)

lemma parse_tokens_stringify:
  "\<forall>cc \<in> set ccs. ccs_node_id cc \<le> u64_max \<Longrightarrow> parse_tokens (map stringify_single ccs) = Inr ccs"
  by (induction ccs) (auto simp: parse_token_stringify)

text \<open>
  \<open>parse_conf_change\<close> reads back what \<open>stringify_conf_change\<close> writes: for every list of single
  changes with 64-bit node ids the text parses, without an error, to the same list.
\<close>

theorem parse_stringify_roundtrip:
  assumes "\<forall>cc \<in> set ccs. ccs_node_id cc \<le> u64_max"
  shows "parse_conf_change (stringify_conf_change ccs) = Inr ccs"
proof (cases "ccs = []")
  case True
  then show ?thesis by (simp add: parse_conf_change_def stringify_conf_change_def trim_def)
next
  case False
  have plain: "\<forall>tok \<in> set (map stringify_single ccs). plain_token tok"
    by (simp add: stringify_single_plain)
  then have "join_tokens (map stringify_single ccs) \<noteq> []"
    using False by (cases ccs) (auto simp: join_tokens_Cons plain_token_def)
  then show ?thesis
    using trim_join[OF plain] split_join[OF plain] parse_tokens_stringify[OF assms]
    by (simp add: parse_conf_change_def stringify_join Let_def)
qed

theorem parse_stringify_roundtrip_witness:
  "parse_conf_change (stringify_conf_change
     [new_conf_change_single 12 AddNode, new_conf_change_single 3 RemoveNode]) =
   Inr [new_conf_change_single 12 AddNode, new_conf_change_single 3 RemoveNode]"
  by (rule parse_stringify_roundtrip) (simp add: new_conf_change_single_def)

end
