(* ===== verification/Util.thy ===== *)
theory Util
  imports Proto
begin

text \<open>
  The helpers of \<open>raft-rs/src/util.rs\<close>: size-limited prefixes of an entry vector, continuity of an
  append message with further entries, majorities and the union view of two voter sets. The size
  of an entry on the wire is computed by generated protobuf code, so it is a parameter
  \<open>compute_size\<close> here.
\<close>

definition NO_LIMIT :: nat where
  "NO_LIMIT = u64_max"

text \<open>The closure of \<open>take_while\<close> with its captured running size.\<close>

fun limit_count :: "(entry \<Rightarrow> nat) \<Rightarrow> nat \<Rightarrow> nat \<Rightarrow> entry list \<Rightarrow> nat" where
  "limit_count compute_size mx sz [] = 0"
| "limit_count compute_size mx sz (e # es) =
     (if sz = 0 then Suc (limit_count compute_size mx (sz + compute_size e) es)
      else let sz' = sz + compute_size e in
           if sz' \<le> mx then Suc (limit_count compute_size mx sz' es) else 0)"

definition limit_size :: "(entry \<Rightarrow> nat) \<Rightarrow> entry list \<Rightarrow> nat option \<Rightarrow> entry list" where
  "limit_size compute_size entries mx =
     (if length entries \<le> 1 then entries
      else case mx of
             None \<Rightarrow> entries
           | Some m \<Rightarrow> if m = NO_LIMIT then entries
                       else take (limit_count compute_size m 0 entries) entries)"

definition is_continuous_ents :: "message \<Rightarrow> entry list \<Rightarrow> bool" where
  "is_continuous_ents msg ents =
     (if m_entries msg \<noteq> [] \<and> ents \<noteq> []
      then let expected_next_idx = e_index (last (m_entries msg)) + 1
           in expected_next_idx = e_index (hd ents)
      else True)"

definition majority :: "nat \<Rightarrow> nat" where
  "majority n = n div 2 + 1"

definition union_contains :: "nat set \<Rightarrow> nat set \<Rightarrow> nat \<Rightarrow> bool" where
  "union_contains first second i \<longleftrightarrow> i \<in> first \<or> i \<in> second"

definition union_iter :: "nat set \<Rightarrow> nat set \<Rightarrow> nat list" where
  "union_iter first second = sorted_list_of_set (first \<union> second)"

definition union_is_empty :: "nat set \<Rightarrow> nat set \<Rightarrow> bool" where
  "union_is_empty first second \<longleftrightarrow> first = {} \<and> second = {}"

definition union_len :: "nat set \<Rightarrow> nat set \<Rightarrow> nat panics" where
  "union_len first second = usub (card first + card second) (card (second \<inter> first))"

definition entry_approximate_size :: "entry \<Rightarrow> nat" where
  "entry_approximate_size e = length (e_data e) + length (e_context e) + 12"

section \<open>Properties\<close>

definition entries_size :: "(entry \<Rightarrow> nat) \<Rightarrow> entry list \<Rightarrow> nat" where
  "entries_size compute_size es = sum_list (map compute_size es)"

lemma limit_count_le: "limit_count cs mx sz es \<le> length es"
  by (induction cs mx sz es rule: limit_count.induct) (auto simp: Let_def)

lemma limit_count_bound:
  assumes "limit_count cs mx sz es > 0" "sz > 0" "sz \<le> mx"
  shows "sz + entries_size cs (take (limit_count cs mx sz es) es) \<le> mx"
  using assms
proof (induction cs mx sz es rule: limit_count.induct)
  case (2 cs mx sz e es)
  show ?case
  proof (cases "limit_count cs mx (sz + cs e) es")
    case 0
    then show ?thesis using 2 by (auto simp: entries_size_def Let_def split: if_splits)
  next
    case (Suc n)
    then show ?thesis using 2 by (fastforce simp: entries_size_def Let_def split: if_splits)
  qed
qed simp

text \<open>How far a non-empty, size-limited prefix can exceed the limit: only through its first entry.\<close>

lemma limit_count_size:
  "\<forall>e \<in> set es. cs e > 0 \<Longrightarrow> es \<noteq> [] \<Longrightarrow>
     limit_count cs mx 0 es = 1 \<or>
     (limit_count cs mx 0 es > 1 \<and> entries_size cs (take (limit_count cs mx 0 es) es) \<le> mx)"
proof -
  assume pos: "\<forall>e \<in> set es. cs e > 0" and "es \<noteq> []"
  then obtain e rest where es: "es = e # rest" by (cases es) auto
  have ce: "cs e > 0" using pos es by simp
  show ?thesis
  proof (cases rest)
    case Nil
    then show ?thesis by (simp add: es)
  next
    case (Cons e' rest')
    show ?thesis
    proof (cases "limit_count cs mx (cs e) rest > 0")
      case True
      then have "cs e \<le> mx" using Cons ce by (auto simp: Let_def split: if_splits)
      then show ?thesis
        using limit_count_bound[OF True ce] True by (simp add: es entries_size_def)
    next
      case False
      then show ?thesis by (simp add: es)
    qed
  qed
qed

lemma limit_size_prefix: "\<exists>n. limit_size cs es mx = take n es \<and> (es \<noteq> [] \<longrightarrow> n > 0)"
proof (cases "length es \<le> 1 \<or> mx = None \<or> mx = Some NO_LIMIT")
  case True
  then have "limit_size cs es mx = take (Suc (length es)) es"
    by (auto simp: limit_size_def split: option.splits)
  then show ?thesis by blast
next
  case False
  then obtain m where m: "mx = Some m" and "m \<noteq> NO_LIMIT" and len: "length es > 1" by auto
  then have "limit_size cs es mx = take (limit_count cs m 0 es) es"
    by (simp add: limit_size_def)
  moreover have "limit_count cs m 0 es > 0" using len by (cases es) auto
  ultimately show ?thesis by blast
qed

lemma limit_size_Nil [simp]: "limit_size cs [] mx = []"
  by (simp add: limit_size_def)

lemma limit_size_None [simp]: "limit_size cs es None = es"
  by (simp add: limit_size_def)

lemma limit_size_eq_Nil [simp]: "limit_size cs es mx = [] \<longleftrightarrow> es = []"
  using limit_size_prefix[of cs es mx] by auto

lemma majority_gt_half: "2 * majority n > n"
  by (simp add: majority_def)

lemma majority_le: "n > 0 \<Longrightarrow> majority n \<le> n"
  by (simp add: majority_def)

lemma union_len_eq:
  "finite A \<Longrightarrow> finite B \<Longrightarrow> union_len A B = Some (card (A \<union> B))"
proof -
  assume fin: "finite A" "finite B"
  have "card A + card B = card (A \<union> B) + card (A \<inter> B)"
    by (rule card_Un_Int[OF fin])
  then show ?thesis by (auto simp: union_len_def Int_commute)
qed

text \<open>A vector of entries whose indexes count up from \<open>i\<close>.\<close>

definition numbered :: "nat \<Rightarrow> entry list \<Rightarrow> bool" where
  "numbered i es \<longleftrightarrow> (\<forall>k < length es. e_index (es ! k) = i + k)"

lemma numbered_Nil [simp]: "numbered i []"
  by (simp add: numbered_def)

lemma numbered_nth: "numbered i es \<Longrightarrow> k < length es \<Longrightarrow> e_index (es ! k) = i + k"
  by (simp add: numbered_def)

lemma numbered_Cons: "numbered i (e # es) \<longleftrightarrow> e_index e = i \<and> numbered (Suc i) es"
  by (force simp: numbered_def nth_Cons less_Suc_eq_0_disj split: nat.splits)

lemma numbered_append [simp]:
  "numbered i (xs @ ys) \<longleftrightarrow> numbered i xs \<and> numbered (i + length xs) ys"
  by (induction xs arbitrary: i) (auto simp: numbered_Cons)

lemma numbered_take: "numbered i es \<Longrightarrow> numbered i (take n es)"
  by (simp add: numbered_def)

lemma numbered_drop: "numbered i es \<Longrightarrow> numbered (i + n) (drop n es)"
  by (simp add: numbered_def)

lemma numbered_hd: "numbered i es \<Longrightarrow> es \<noteq> [] \<Longrightarrow> e_index (hd es) = i"
  by (cases es) (auto simp: numbered_Cons)

lemma numbered_last: "numbered i es \<Longrightarrow> es \<noteq> [] \<Longrightarrow> e_index (last es) = i + length es - 1"
  using numbered_nth[of i es "length es - 1"] by (cases es rule: rev_cases) auto

lemma limit_count_maximal:
  "limit_count cs mx sz es < length es \<Longrightarrow> 0 < sz \<or> limit_count cs mx sz es > 0 \<Longrightarrow> (\<forall>e \<in> set es. 0 < cs e) \<Longrightarrow>
     mx < sz + entries_size cs (take (Suc (limit_count cs mx sz es)) es)"
proof (induction cs mx sz es rule: limit_count.induct)
  case (2 cs mx sz e es)
  show ?case
  proof (cases "sz = 0 \<or> sz + cs e \<le> mx")
    case True
    have "mx < sz + cs e + entries_size cs (take (Suc (limit_count cs mx (sz + cs e) es)) es)"
      by (cases "sz = 0") (use 2 True in \<open>auto simp: Let_def split: if_splits\<close>)
    then show ?thesis using True by (auto simp: entries_size_def Let_def)
  next
    case False
    then show ?thesis by (simp add: entries_size_def Let_def)
  qed
qed simp

text \<open>
  \<open>limit_size\<close> keeps a prefix of the entries that is not empty unless there was nothing to keep;
  what it keeps fits into the limit unless it is a single entry, and it stops only where the next
  entry would exceed the limit. The hypothesis says that an encoded entry is not empty.
\<close>

theorem limit_size_spec:
  assumes pos: "\<forall>e \<in> set es. 0 < cs e"
  shows "\<exists>n. limit_size cs es mx = take n es \<and> (es \<noteq> [] \<longrightarrow> 0 < n) \<and>
    (case mx of
       None \<Rightarrow> limit_size cs es mx = es
     | Some m \<Rightarrow> if m = NO_LIMIT then limit_size cs es mx = es
         else (length (limit_size cs es mx) \<le> 1 \<or> entries_size cs (limit_size cs es mx) \<le> m) \<and>
              (n < length es \<longrightarrow> m < entries_size cs (take (Suc n) es)))"
proof (cases "length es \<le> 1 \<or> mx = None \<or> mx = Some NO_LIMIT")
  case True
  then have "limit_size cs es mx = take (Suc (length es)) es"
    by (auto simp: limit_size_def split: option.splits)
  then show ?thesis using True
    by (intro exI[of _ "Suc (length es)"]) (auto split: option.splits)
next
  case False
  then obtain m where m: "mx = Some m" "m \<noteq> NO_LIMIT" "length es > 1" by (cases mx) auto
  then have m3: "es \<noteq> []" by auto
  let ?n = "limit_count cs m 0 es"
  have eq: "limit_size cs es mx = take ?n es" using m by (simp add: limit_size_def)
  have n: "0 < ?n" using m3 by (cases es) auto
  have "?n = 1 \<or> entries_size cs (take ?n es) \<le> m" using limit_count_size[OF pos m3, of m] by auto
  moreover have "?n < length es \<longrightarrow> m < entries_size cs (take (Suc ?n) es)"
    using limit_count_maximal[of cs m 0 es] n pos by simp
  ultimately show ?thesis using eq n m by (intro exI[of _ ?n]) auto
qed

theorem limit_size_spec_witness:
  "\<exists>n > 0. limit_size (\<lambda>e. 5) [entry_default, entry_default, entry_default] (Some 12) =
       take n [entry_default, entry_default, entry_default] \<and>
     (n < 3 \<longrightarrow> 12 < entries_size (\<lambda>e. 5) (take (Suc n) [entry_default, entry_default, entry_default]))"
  using limit_size_spec[of "[entry_default, entry_default, entry_default]" "\<lambda>e. 5" "Some 12"]
  by (auto simp: NO_LIMIT_def numeral_3_eq_3)

end
