(* ===== verification/Storage.thy ===== *)
theory Storage
  imports Util
begin

text \<open>
  The trait \<open>Storage\<close> and its in-memory implementation \<open>MemStorage\<close> (\<open>raft-rs/src/storage.rs\<close>).

  Everything the consensus core takes from outside the repository or generically is one record
  \<open>'s env\<close>: the methods of the storage type parameter \<open>T: Storage\<close>, the generated protobuf codec
  (entry sizes, reading and writing configuration changes) and the random number source. A storage
  method with interior mutability returns the new storage beside its result.
\<close>

record raft_state =
  rs_hard_state :: hard_state
  rs_conf_state :: conf_state

definition raft_state_default :: raft_state where
  "raft_state_default = \<lparr>rs_hard_state = hard_state_default, rs_conf_state = conf_state_default\<rparr>"

definition raft_state_initialized :: "raft_state \<Rightarrow> bool" where
  "raft_state_initialized rs \<longleftrightarrow> rs_conf_state rs \<noteq> conf_state_default"

datatype get_entries_for =
    SendAppend (sa_to: nat) (sa_term: nat) (sa_aggressively: bool)
  | GenReady
  | TransferLeader
  | CommitByVote
  | Empty bool

fun can_async :: "get_entries_for \<Rightarrow> bool" where
  "can_async (SendAppend _ _ _) = True"
| "can_async (Empty b) = b"
| "can_async _ = False"

record 's env =
  env_compute_size :: "entry \<Rightarrow> nat"
  env_cc_write :: "conf_change \<Rightarrow> bytes result"
  env_ccv2_write :: "conf_change_v2 \<Rightarrow> bytes result"
  env_cc_parse :: "bytes \<Rightarrow> conf_change result"
  env_ccv2_parse :: "bytes \<Rightarrow> conf_change_v2 result"
  env_gen_range :: "nat \<Rightarrow> nat \<Rightarrow> nat \<Rightarrow> nat"
  st_initial_state :: "'s \<Rightarrow> raft_state result"
  st_entries :: "'s \<Rightarrow> nat \<Rightarrow> nat \<Rightarrow> nat option \<Rightarrow> get_entries_for
                   \<Rightarrow> (entry list result \<times> 's) panics"
  st_term :: "'s \<Rightarrow> nat \<Rightarrow> nat result panics"
  st_first_index :: "'s \<Rightarrow> nat result"
  st_last_index :: "'s \<Rightarrow> nat result"
  st_snapshot :: "'s \<Rightarrow> nat \<Rightarrow> nat \<Rightarrow> (snapshot result \<times> 's) panics"

text \<open>\<open>Result::unwrap\<close>.\<close>

definition unwrap :: "'a result \<Rightarrow> 'a panics" where
  "unwrap r = (case r of Inl _ \<Rightarrow> None | Inr v \<Rightarrow> Some v)"

section \<open>MemStorageCore\<close>

record mem_storage =
  ms_raft_state :: raft_state
  ms_entries :: "entry list"
  ms_snapshot_metadata :: snapshot_metadata
  ms_trigger_snap_unavailable :: bool
  ms_trigger_log_unavailable :: bool
  ms_get_entries_context :: "get_entries_for option"

definition mem_storage_new :: mem_storage where
  "mem_storage_new = \<lparr>ms_raft_state = raft_state_default, ms_entries = [],
     ms_snapshot_metadata = snapshot_metadata_default, ms_trigger_snap_unavailable = False,
     ms_trigger_log_unavailable = False, ms_get_entries_context = None\<rparr>"

definition mem_set_hardstate :: "hard_state \<Rightarrow> mem_storage \<Rightarrow> mem_storage" where
  "mem_set_hardstate hs s = s\<lparr>ms_raft_state := (ms_raft_state s)\<lparr>rs_hard_state := hs\<rparr>\<rparr>"

definition mem_set_conf_state :: "conf_state \<Rightarrow> mem_storage \<Rightarrow> mem_storage" where
  "mem_set_conf_state cs s = s\<lparr>ms_raft_state := (ms_raft_state s)\<lparr>rs_conf_state := cs\<rparr>\<rparr>"

definition mem_first_index :: "mem_storage \<Rightarrow> nat" where
  "mem_first_index s = (case ms_entries s of
       e # _ \<Rightarrow> e_index e
     | [] \<Rightarrow> sm_index (ms_snapshot_metadata s) + 1)"

definition mem_last_index :: "mem_storage \<Rightarrow> nat" where
  "mem_last_index s = (case vec_last (ms_entries s) of
       Some e \<Rightarrow> e_index e
     | None \<Rightarrow> sm_index (ms_snapshot_metadata s))"

definition mem_has_entry_at :: "mem_storage \<Rightarrow> nat \<Rightarrow> bool" where
  "mem_has_entry_at s index \<longleftrightarrow>
     ms_entries s \<noteq> [] \<and> index \<ge> mem_first_index s \<and> index \<le> mem_last_index s"

definition mem_commit_to :: "nat \<Rightarrow> mem_storage \<Rightarrow> mem_storage panics" where
  "mem_commit_to index s = do {
     ensure (mem_has_entry_at s index);
     e0 \<leftarrow> vec_get (ms_entries s) 0;
     diff \<leftarrow> usub index (e_index e0);
     e \<leftarrow> vec_get (ms_entries s) diff;
     let hs = (rs_hard_state (ms_raft_state s))\<lparr>hs_commit := index, hs_term := e_term e\<rparr>;
     Some (mem_set_hardstate hs s)
   }"

definition mem_apply_snapshot :: "snapshot \<Rightarrow> mem_storage \<Rightarrow> unit result \<times> mem_storage" where
  "mem_apply_snapshot snap s =
     (let meta = snap_metadata snap; index = sm_index meta in
      if mem_first_index s > index then (Inl (Store SnapshotOutOfDate), s)
      else
        let hs = rs_hard_state (ms_raft_state s);
            hs' = hs\<lparr>hs_term := max (hs_term hs) (sm_term meta), hs_commit := index\<rparr>
        in (Inr (), s\<lparr>ms_snapshot_metadata := meta, ms_entries := [],
              ms_raft_state := \<lparr>rs_hard_state = hs', rs_conf_state = sm_conf_state meta\<rparr>\<rparr>))"

definition mem_core_snapshot :: "mem_storage \<Rightarrow> snapshot panics" where
  "mem_core_snapshot s =
     (let index = hs_commit (rs_hard_state (ms_raft_state s));
          snap_idx = sm_index (ms_snapshot_metadata s)
      in do {
        t \<leftarrow> (if index = snap_idx then Some (sm_term (ms_snapshot_metadata s))
             else if index > snap_idx then do {
               e0 \<leftarrow> vec_get (ms_entries s) 0;
               i \<leftarrow> usub index (e_index e0);
               e \<leftarrow> vec_get (ms_entries s) i;
               Some (e_term e) }
             else None);
        Some \<lparr>snap_data = [], snap_metadata =
          \<lparr>sm_conf_state = rs_conf_state (ms_raft_state s), sm_index = index, sm_term = t\<rparr>\<rparr>
      })"

definition mem_compact :: "nat \<Rightarrow> mem_storage \<Rightarrow> mem_storage panics" where
  "mem_compact compact_index s =
     (if compact_index \<le> mem_first_index s then Some s
      else if compact_index > mem_last_index s + 1 then None
      else case vec_first (ms_entries s) of
             None \<Rightarrow> Some s
           | Some entry \<Rightarrow> do {
               offset \<leftarrow> usub compact_index (e_index entry);
               ensure (offset \<le> length (ms_entries s));
               Some (s\<lparr>ms_entries := drop offset (ms_entries s)\<rparr>) })"

definition mem_append :: "entry list \<Rightarrow> mem_storage \<Rightarrow> mem_storage panics" where
  "mem_append ents s =
     (case ents of
        [] \<Rightarrow> Some s
      | e0 # _ \<Rightarrow>
          if mem_first_index s > e_index e0 then None
          else if mem_last_index s + 1 < e_index e0 then None
          else do {
            diff \<leftarrow> usub (e_index e0) (mem_first_index s);
            ensure (diff \<le> length (ms_entries s));
            Some (s\<lparr>ms_entries := take diff (ms_entries s) @ ents\<rparr>) })"

definition mem_commit_to_and_set_conf_states ::
  "nat \<Rightarrow> conf_state option \<Rightarrow> mem_storage \<Rightarrow> mem_storage panics" where
  "mem_commit_to_and_set_conf_states idx cs s = do {
     s' \<leftarrow> mem_commit_to idx s;
     Some (case cs of None \<Rightarrow> s' | Some c \<Rightarrow> mem_set_conf_state c s') }"

definition mem_trigger_snap_unavailable :: "mem_storage \<Rightarrow> mem_storage" where
  "mem_trigger_snap_unavailable s = s\<lparr>ms_trigger_snap_unavailable := True\<rparr>"

definition mem_trigger_log_unavailable :: "bool \<Rightarrow> mem_storage \<Rightarrow> mem_storage" where
  "mem_trigger_log_unavailable v s = s\<lparr>ms_trigger_log_unavailable := v\<rparr>"

definition mem_take_get_entries_context ::
  "mem_storage \<Rightarrow> get_entries_for option \<times> mem_storage" where
  "mem_take_get_entries_context s =
     (ms_get_entries_context s, s\<lparr>ms_get_entries_context := None\<rparr>)"

section \<open>MemStorage\<close>

definition mem_initial_state :: "mem_storage \<Rightarrow> raft_state result" where
  "mem_initial_state s = Inr (ms_raft_state s)"

definition mem_initialize_with_conf_state :: "conf_state \<Rightarrow> mem_storage \<Rightarrow> mem_storage panics" where
  "mem_initialize_with_conf_state cs s = do {
     rs \<leftarrow> unwrap (mem_initial_state s);
     ensure (\<not> raft_state_initialized rs);
     Some (mem_set_conf_state cs s) }"

definition mem_new_with_conf_state :: "conf_state \<Rightarrow> mem_storage panics" where
  "mem_new_with_conf_state cs = mem_initialize_with_conf_state cs mem_storage_new"

definition mem_entries ::
  "(entry \<Rightarrow> nat) \<Rightarrow> mem_storage \<Rightarrow> nat \<Rightarrow> nat \<Rightarrow> nat option \<Rightarrow> get_entries_for
     \<Rightarrow> (entry list result \<times> mem_storage) panics" where
  "mem_entries compute_size s low high max_size context =
     (if low < mem_first_index s then Some (Inl (Store Compacted), s)
      else if high > mem_last_index s + 1 then None
      else if ms_trigger_log_unavailable s \<and> can_async context
      then Some (Inl (Store LogTemporarilyUnavailable),
                 s\<lparr>ms_get_entries_context := Some context\<rparr>)
      else do {
        e0 \<leftarrow> vec_get (ms_entries s) 0;
        lo \<leftarrow> usub low (e_index e0);
        hi \<leftarrow> usub high (e_index e0);
        ents \<leftarrow> vec_range (ms_entries s) lo hi;
        Some (Inr (limit_size compute_size ents max_size), s) })"

definition mem_term :: "mem_storage \<Rightarrow> nat \<Rightarrow> nat result panics" where
  "mem_term s idx =
     (if idx = sm_index (ms_snapshot_metadata s) then Some (Inr (sm_term (ms_snapshot_metadata s)))
      else let offset = mem_first_index s in
        if idx < offset then Some (Inl (Store Compacted))
        else if idx > mem_last_index s then Some (Inl (Store Unavailable))
        else do {
          i \<leftarrow> usub idx offset;
          e \<leftarrow> vec_get (ms_entries s) i;
          Some (Inr (e_term e)) })"

definition mem_snapshot ::
  "mem_storage \<Rightarrow> nat \<Rightarrow> nat \<Rightarrow> (snapshot result \<times> mem_storage) panics" where
  "mem_snapshot s request_index to =
     (if ms_trigger_snap_unavailable s
      then Some (Inl (Store SnapshotTemporarilyUnavailable),
                 s\<lparr>ms_trigger_snap_unavailable := False\<rparr>)
      else do {
        snap \<leftarrow> mem_core_snapshot s;
        let snap' = (if snap_index snap < request_index
                     then snap\<lparr>snap_metadata := (snap_metadata snap)\<lparr>sm_index := request_index\<rparr>\<rparr>
                     else snap);
        Some (Inr snap', s) })"

text \<open>\<open>impl Storage for MemStorage\<close> inside an environment that fixes the other parameters.\<close>

definition mem_env :: "'t env \<Rightarrow> mem_storage env" where
  "mem_env E = \<lparr>env_compute_size = env_compute_size E,
     env_cc_write = env_cc_write E, env_ccv2_write = env_ccv2_write E,
     env_cc_parse = env_cc_parse E, env_ccv2_parse = env_ccv2_parse E,
     env_gen_range = env_gen_range E,
     st_initial_state = mem_initial_state,
     st_entries = mem_entries (env_compute_size E),
     st_term = mem_term,
     st_first_index = (\<lambda>s. Inr (mem_first_index s)),
     st_last_index = (\<lambda>s. Inr (mem_last_index s)),
     st_snapshot = mem_snapshot\<rparr>"

section \<open>The storage contract\<close>

text \<open>
  What the log relies on: a storage holds a run of entries numbered from \<open>sv_base + 1\<close>, answers term
  queries inside the run, and may or may not know the term of the position just before it. Reads of
  entries answer with a size-limited prefix of the range, or report that the range is temporarily
  unavailable to a caller that can wait. Reading does not change what is stored.
\<close>

record 's store_view =
  sv_ok :: "'s \<Rightarrow> bool"
  sv_base :: "'s \<Rightarrow> nat"
  sv_base_term :: "'s \<Rightarrow> nat option"
  sv_ents :: "'s \<Rightarrow> entry list"

definition same_view :: "'s store_view \<Rightarrow> 's \<Rightarrow> 's \<Rightarrow> bool" where
  "same_view W s s' \<longleftrightarrow> sv_ok W s' \<and> sv_base W s' = sv_base W s \<and>
     sv_base_term W s' = sv_base_term W s \<and> sv_ents W s' = sv_ents W s"

definition view_range :: "'s store_view \<Rightarrow> 's \<Rightarrow> nat \<Rightarrow> nat \<Rightarrow> entry list" where
  "view_range W s lo hi = take (hi - lo) (drop (lo - sv_base W s - 1) (sv_ents W s))"

locale log_storage =
  fixes E :: "'s env" and W :: "'s store_view"
  assumes numbered_ents: "sv_ok W s \<Longrightarrow> numbered (sv_base W s + 1) (sv_ents W s)"
    and first_index: "sv_ok W s \<Longrightarrow> st_first_index E s = Inr (sv_base W s + 1)"
    and last_index: "sv_ok W s \<Longrightarrow> st_last_index E s = Inr (sv_base W s + length (sv_ents W s))"
    and base_term: "sv_ok W s \<Longrightarrow> st_term E s (sv_base W s) =
      Some (case sv_base_term W s of Some t \<Rightarrow> Inr t | None \<Rightarrow> Inl (Store Compacted))"
    and entry_term: "sv_ok W s \<Longrightarrow> sv_base W s < i \<Longrightarrow> i \<le> sv_base W s + length (sv_ents W s) \<Longrightarrow>
      st_term E s i = Some (Inr (e_term (sv_ents W s ! (i - sv_base W s - 1))))"
    and read_entries: "sv_ok W s \<Longrightarrow> sv_base W s < lo \<Longrightarrow> lo < hi \<Longrightarrow>
      hi \<le> sv_base W s + length (sv_ents W s) + 1 \<Longrightarrow>
      \<exists>r s'. st_entries E s lo hi mx ctx = Some (r, s') \<and> same_view W s s' \<and>
        (r = Inr (limit_size (env_compute_size E) (view_range W s lo hi) mx) \<or>
         r = Inl (Store LogTemporarilyUnavailable) \<and> can_async ctx)"
begin

lemma read_sync:
  assumes "sv_ok W s" "sv_base W s < lo" "lo < hi" "hi \<le> sv_base W s + length (sv_ents W s) + 1"
    "\<not> can_async ctx"
  shows "\<exists>s'. st_entries E s lo hi mx ctx =
      Some (Inr (limit_size (env_compute_size E) (view_range W s lo hi) mx), s') \<and> same_view W s s'"
  using read_entries[OF assms(1-4), of mx ctx] assms(5) by auto

end

definition mem_base :: "mem_storage \<Rightarrow> nat" where
  "mem_base s = mem_first_index s - 1"

definition mem_ok :: "mem_storage \<Rightarrow> bool" where
  "mem_ok s \<longleftrightarrow> numbered (mem_first_index s) (ms_entries s) \<and>
     sm_index (ms_snapshot_metadata s) < mem_first_index s"

definition mem_view :: "mem_storage store_view" where
  "mem_view = \<lparr>sv_ok = mem_ok, sv_base = mem_base,
     sv_base_term = (\<lambda>s. if mem_base s = sm_index (ms_snapshot_metadata s)
                          then Some (sm_term (ms_snapshot_metadata s)) else None),
     sv_ents = ms_entries\<rparr>"

lemma mem_view_sel [simp]: "sv_ok mem_view = mem_ok" "sv_base mem_view = mem_base"
  "sv_ents mem_view = ms_entries"
  by (simp_all add: mem_view_def)

lemma mem_first_index_Suc: "mem_ok s \<Longrightarrow> mem_first_index s = mem_base s + 1"
  by (auto simp: mem_ok_def mem_base_def)

lemma mem_first_index_hd: "ms_entries s \<noteq> [] \<Longrightarrow> mem_first_index s = e_index (hd (ms_entries s))"
  by (cases "ms_entries s") (auto simp: mem_first_index_def)

lemma mem_last_index_eq: "mem_ok s \<Longrightarrow> mem_last_index s = mem_base s + length (ms_entries s)"
proof (cases "ms_entries s = []")
  case True
  then show ?thesis by (simp add: mem_last_index_def mem_base_def mem_first_index_def)
next
  case False
  assume ok: "mem_ok s"
  then have "e_index (last (ms_entries s)) = mem_first_index s + length (ms_entries s) - 1"
    using False by (intro numbered_last) (auto simp: mem_ok_def)
  then show ?thesis using False mem_first_index_Suc[OF ok] by (simp add: mem_last_index_def vec_last_def)
qed

lemma mem_term_in_run:
  assumes "mem_ok s" "mem_base s < i" "i \<le> mem_base s + length (ms_entries s)"
  shows "mem_term s i = Some (Inr (e_term (ms_entries s ! (i - mem_base s - 1))))"
proof -
  have "i \<noteq> sm_index (ms_snapshot_metadata s)"
    using assms(1,2) mem_first_index_Suc[OF assms(1)] by (auto simp: mem_ok_def)
  then show ?thesis
    using assms mem_first_index_Suc[OF assms(1)] mem_last_index_eq[OF assms(1)]
    by (simp add: mem_term_def usub_def vec_get_def)
qed

lemma mem_entries_in_run:
  assumes "mem_ok s" "mem_base s < lo" "lo < hi" "hi \<le> mem_base s + length (ms_entries s) + 1"
  shows "mem_entries cs s lo hi mx ctx =
    (if ms_trigger_log_unavailable s \<and> can_async ctx
     then Some (Inl (Store LogTemporarilyUnavailable), s\<lparr>ms_get_entries_context := Some ctx\<rparr>)
     else Some (Inr (limit_size cs (view_range mem_view s lo hi) mx), s))"
proof -
  have "ms_entries s \<noteq> []" using assms by auto
  then have hd: "vec_get (ms_entries s) 0 = Some (hd (ms_entries s))"
    "e_index (hd (ms_entries s)) = mem_base s + 1"
    using mem_first_index_hd[of s] mem_first_index_Suc[OF assms(1)] by (auto simp: hd_conv_nth)
  then show ?thesis
    using assms mem_first_index_Suc[OF assms(1)] mem_last_index_eq[OF assms(1)]
    by (auto simp: mem_entries_def hd usub_def vec_range_def view_range_def)
qed

lemma mem_context_same_view: "mem_ok s \<Longrightarrow> same_view mem_view s (s\<lparr>ms_get_entries_context := c\<rparr>)"
  by (cases "ms_entries s")
    (simp_all add: same_view_def mem_ok_def mem_view_def mem_base_def mem_first_index_def)

lemma mem_same_view: "mem_ok s \<Longrightarrow> same_view mem_view s s"
  by (simp add: same_view_def)

interpretation mem: log_storage "mem_env E" mem_view for E
proof
  fix s assume ok: "sv_ok mem_view s"
  then have ok': "mem_ok s" by simp
  show "numbered (sv_base mem_view s + 1) (sv_ents mem_view s)"
    using ok' mem_first_index_Suc[OF ok'] by (simp add: mem_ok_def)
  show "st_first_index (mem_env E) s = Inr (sv_base mem_view s + 1)"
    by (simp add: mem_env_def mem_first_index_Suc[OF ok'])
  show "st_last_index (mem_env E) s = Inr (sv_base mem_view s + length (sv_ents mem_view s))"
    by (simp add: mem_env_def mem_last_index_eq[OF ok'])
  show "st_term (mem_env E) s (sv_base mem_view s) =
      Some (case sv_base_term mem_view s of Some t \<Rightarrow> Inr t | None \<Rightarrow> Inl (Store Compacted))"
    using mem_first_index_Suc[OF ok'] by (simp add: mem_env_def mem_view_def mem_term_def)
next
  fix s i assume "sv_ok mem_view s" "sv_base mem_view s < i"
    "i \<le> sv_base mem_view s + length (sv_ents mem_view s)"
  then show "st_term (mem_env E) s i =
      Some (Inr (e_term (sv_ents mem_view s ! (i - sv_base mem_view s - 1))))"
    using mem_term_in_run by (simp add: mem_env_def)
next
  fix s lo hi mx ctx assume "sv_ok mem_view s" "sv_base mem_view s < lo" "lo < hi"
    "hi \<le> sv_base mem_view s + length (sv_ents mem_view s) + 1"
  then show "\<exists>r s'. st_entries (mem_env E) s lo hi mx ctx = Some (r, s') \<and> same_view mem_view s s' \<and>
        (r = Inr (limit_size (env_compute_size (mem_env E)) (view_range mem_view s lo hi) mx) \<or>
         r = Inl (Store LogTemporarilyUnavailable) \<and> can_async ctx)"
    by (simp add: mem_env_def mem_entries_in_run mem_context_same_view mem_same_view)
qed


section \<open>Operations of the in-memory storage\<close>

lemma mem_append_eq:
  assumes ok: "mem_ok s" and num: "numbered i ents" and ne: "ents \<noteq> []"
  shows "mem_append ents s =
    (if mem_first_index s \<le> i \<and> i \<le> mem_last_index s + 1
     then Some (s\<lparr>ms_entries := take (i - mem_first_index s) (ms_entries s) @ ents\<rparr>) else None)"
  using ne numbered_hd[OF num ne] mem_last_index_eq[OF ok] mem_first_index_Suc[OF ok]
  by (cases ents) (auto simp: mem_append_def usub_def)

lemma mem_first_index_append:
  assumes ok: "mem_ok s" and num: "numbered i ents" and ne: "ents \<noteq> []"
    and i: "mem_first_index s \<le> i" and that: "i \<le> mem_last_index s + 1"
  shows "mem_first_index (s\<lparr>ms_entries := take (i - mem_first_index s) (ms_entries s) @ ents\<rparr>)
      = mem_first_index s"
proof (cases "i = mem_first_index s")
  case True
  then show ?thesis using ne numbered_hd[OF num ne] by (cases ents) (auto simp: mem_first_index_def)
next
  case False
  then have "i - mem_first_index s > 0" "ms_entries s \<noteq> []"
    using i that mem_last_index_eq[OF ok] mem_first_index_Suc[OF ok] by auto
  then show ?thesis
    by (cases "ms_entries s"; cases "i - mem_first_index s") (auto simp: mem_first_index_def)
qed

text \<open>
  Appending to \<open>MemStorage\<close>: for a run of entries that starts inside or right after the stored
  range, the entries from the start of the run on are replaced by the run, everything before is
  kept, the storage stays well formed, and every appended position can be read back with its term.
  Any other start (compacted, or leaving a gap) panics.
\<close>

theorem mem_append_spec:
  assumes ok: "mem_ok s" and num: "numbered i ents" and ne: "ents \<noteq> []"
  shows "if mem_first_index s \<le> i \<and> i \<le> mem_last_index s + 1
     then \<exists>s'. mem_append ents s = Some s' \<and> mem_ok s' \<and> mem_first_index s' = mem_first_index s \<and>
       ms_entries s' = take (i - mem_first_index s) (ms_entries s) @ ents \<and>
       mem_last_index s' = i + length ents - 1 \<and>
       (\<forall>k < length ents. mem_term s' (i + k) = Some (Inr (e_term (ents ! k))))
     else mem_append ents s = None"
proof (cases "mem_first_index s \<le> i \<and> i \<le> mem_last_index s + 1")
  case True
  define s' where "s' = s\<lparr>ms_entries := take (i - mem_first_index s) (ms_entries s) @ ents\<rparr>"
  have fi: "mem_first_index s' = mem_first_index s"
    using mem_first_index_append[OF ok num ne] True by (simp add: s'_def)
  have len: "length (take (i - mem_first_index s) (ms_entries s)) = i - mem_first_index s"
    using True mem_last_index_eq[OF ok] mem_first_index_Suc[OF ok] by (auto simp: min_def)
  have es: "ms_entries s' = take (i - mem_first_index s) (ms_entries s) @ ents"
    by (simp add: s'_def)
  have "ms_snapshot_metadata s' = ms_snapshot_metadata s" by (simp add: s'_def)
  then have ok': "mem_ok s'"
    using ok num True len by (auto simp: mem_ok_def fi numbered_take es)
  have base: "mem_base s' + 1 = mem_first_index s" using mem_first_index_Suc[OF ok'] fi by simp
  have term_k: "mem_term s' (i + k) = Some (Inr (e_term (ents ! k)))" if "k < length ents" for k
  proof -
    have "ms_entries s' ! (i + k - mem_base s' - 1) = ents ! k"
      using True len base by (simp add: es nth_append)
    then show ?thesis
      using mem_term_in_run[OF ok', of "i + k"] that True len base by (simp add: es)
  qed
  have "mem_last_index s' = i + length ents - 1"
    using mem_last_index_eq[OF ok'] True len base by (simp add: es)
  then show ?thesis using True mem_append_eq[OF ok num ne] fi ok' term_k es by (simp add: s'_def)
next
  case False
  then have "mem_append ents s = None" by (subst mem_append_eq[OF ok num ne]) (rule if_not_P)
  then show ?thesis using False by (simp only: if_False)
qed

definition sample_entry :: "nat \<Rightarrow> nat \<Rightarrow> entry" where
  "sample_entry i t = entry_default\<lparr>e_index := i, e_term := t\<rparr>"

definition sample_store :: mem_storage where
  "sample_store = mem_storage_new\<lparr>ms_entries := [sample_entry 1 1, sample_entry 2 1, sample_entry 3 2]\<rparr>"

lemma sample_entry_sel [simp]: "e_index (sample_entry i t) = i" "e_term (sample_entry i t) = t"
  "e_data (sample_entry i t) = []" "e_context (sample_entry i t) = []"
  by (simp_all add: sample_entry_def entry_default_def)

text \<open>
  A concrete environment: entries of a size that depends on their data, an empty codec, and a random
  source that always draws the lower bound.
\<close>

definition sample_env :: "mem_storage env" where
  "sample_env = mem_env \<lparr>env_compute_size = (\<lambda>e. 2 + length (e_data e)),
     env_cc_write = (\<lambda>_. Inr []), env_ccv2_write = (\<lambda>_. Inr []),
     env_cc_parse = (\<lambda>_. Inl (CodecError [])), env_ccv2_parse = (\<lambda>_. Inl (CodecError [])),
     env_gen_range = (\<lambda>_ lo _. lo), st_initial_state = (\<lambda>s :: unit. Inr raft_state_default),
     st_entries = (\<lambda>_ _ _ _ _. None), st_term = (\<lambda>_ _. None), st_first_index = (\<lambda>_. Inr 1),
     st_last_index = (\<lambda>_. Inr 0), st_snapshot = (\<lambda>_ _ _. None)\<rparr>"

lemma sample_env_storage: "log_storage sample_env mem_view"
  unfolding sample_env_def by (rule mem.log_storage_axioms)

lemmas sample_store_defs = sample_store_def mem_storage_new_def
  snapshot_metadata_default_def

lemma sample_store_ok: "mem_ok sample_store"
  by (simp add: mem_ok_def numbered_Cons mem_first_index_def sample_store_defs)

theorem mem_append_spec_witness:
  "\<exists>s'. mem_append [sample_entry 2 3] sample_store = Some s' \<and>
     map e_term (ms_entries s') = [1, 3] \<and> mem_term s' 2 = Some (Inr 3)"
proof -
  have "mem_first_index sample_store = 1" "mem_last_index sample_store = 3"
    by (simp_all add: mem_first_index_def mem_last_index_def vec_last_def sample_store_defs)
  then show ?thesis
    using mem_append_spec[OF sample_store_ok, of 2 "[sample_entry 2 3]"]
    by (auto simp: numbered_Cons sample_store_defs)
qed

lemma mem_compact_eq:
  assumes ok: "mem_ok s" and "mem_first_index s < ci" "ci \<le> mem_last_index s + 1"
  shows "mem_compact ci s = Some (s\<lparr>ms_entries := drop (ci - mem_first_index s) (ms_entries s)\<rparr>)"
proof -
  have ne: "ms_entries s \<noteq> []"
    using assms mem_last_index_eq[OF ok] mem_first_index_Suc[OF ok] by auto
  then show ?thesis
    using assms mem_last_index_eq[OF ok] mem_first_index_Suc[OF ok] mem_first_index_hd[OF ne]
    by (cases "ms_entries s") (auto simp: mem_compact_def vec_first_def usub_def)
qed

text \<open>
  Compacting \<open>MemStorage\<close> up to an index inside the log drops exactly the entries before it and
  keeps the position of the log. Compacting everything, which the documented precondition
  \<open>compact_index <= last_index + 1\<close> allows, loses the position: the snapshot metadata is not advanced,
  so that the last index falls back to the index of the old snapshot.
\<close>

theorem mem_compact_spec:
  assumes ok: "mem_ok s" and ci: "mem_first_index s < ci"
  shows "(ci \<le> mem_last_index s \<longrightarrow> (\<exists>s'. mem_compact ci s = Some s' \<and> mem_ok s' \<and>
            mem_first_index s' = ci \<and> mem_last_index s' = mem_last_index s \<and>
            ms_entries s' = drop (ci - mem_first_index s) (ms_entries s))) \<and>
         (ci = mem_last_index s + 1 \<longrightarrow> (\<exists>s'. mem_compact ci s = Some s' \<and>
            mem_last_index s' = sm_index (ms_snapshot_metadata s) \<and>
            mem_last_index s' < mem_last_index s)) \<and>
         (mem_last_index s + 1 < ci \<longrightarrow> mem_compact ci s = None)"
proof -
  let ?s' = "s\<lparr>ms_entries := drop (ci - mem_first_index s) (ms_entries s)\<rparr>"
  note pos = mem_last_index_eq[OF ok] mem_first_index_Suc[OF ok]
  have num: "numbered ci (drop (ci - mem_first_index s) (ms_entries s))"
    using numbered_drop[of "mem_first_index s" "ms_entries s" "ci - mem_first_index s"] ok ci
    by (simp add: mem_ok_def)
  have inside: "mem_first_index ?s' = ci \<and> mem_ok ?s' \<and> mem_last_index ?s' = mem_last_index s"
    if "ci \<le> mem_last_index s"
  proof -
    have ne: "ms_entries ?s' \<noteq> []" using that pos ci by auto
    then have fi: "mem_first_index ?s' = ci"
      using mem_first_index_hd[OF ne] numbered_hd[OF num] by simp
    then have ok': "mem_ok ?s'" using num ok ci by (simp add: mem_ok_def)
    then show ?thesis using fi mem_last_index_eq[OF ok'] mem_first_index_Suc[OF ok'] pos that ci by simp
  qed
  have "ci = mem_last_index s + 1 \<Longrightarrow> ms_entries ?s' = []" using pos by simp
  then have outside: "ci = mem_last_index s + 1 \<Longrightarrow> mem_last_index ?s' = sm_index (ms_snapshot_metadata s)"
    by (simp add: mem_last_index_def)
  have "ci = mem_last_index s + 1 \<Longrightarrow> sm_index (ms_snapshot_metadata s) < mem_last_index s"
    using ok ci by (simp add: mem_ok_def)
  then show ?thesis
    using mem_compact_eq[OF ok ci] inside outside ci by (auto simp: mem_compact_def)
qed

theorem mem_compact_spec_witness:
  "(\<exists>s'. mem_compact 4 sample_store = Some s' \<and> mem_last_index s' = 0) \<and> mem_last_index sample_store = 3"
proof -
  have "mem_first_index sample_store = 1" "mem_last_index sample_store = 3"
    by (simp_all add: mem_first_index_def mem_last_index_def vec_last_def sample_store_defs)
  then show ?thesis
    using mem_compact_spec[OF sample_store_ok, of 4] by (auto simp: sample_store_defs)
qed

end
