(* ===== verification/Unstable.thy ===== *)
theory Unstable
  imports Storage
begin

text \<open>
  The log tail that has not reached storage yet (\<open>raft-rs/src/log_unstable.rs\<close>). The entry at
  position \<open>i\<close> of \<open>u_entries\<close> has log index \<open>i + u_offset\<close>.
\<close>

record unstable =
  u_snapshot :: "snapshot option"
  u_entries :: "entry list"
  u_entries_size :: nat
  u_offset :: nat

definition unstable_new :: "nat \<Rightarrow> unstable" where
  "unstable_new offset =
     \<lparr>u_snapshot = None, u_entries = [], u_entries_size = 0, u_offset = offset\<rparr>"

definition maybe_first_index :: "unstable \<Rightarrow> nat option" where
  "maybe_first_index u = map_option (\<lambda>snap. snap_index snap + 1) (u_snapshot u)"

definition maybe_last_index :: "unstable \<Rightarrow> nat option" where
  "maybe_last_index u =
     (if length (u_entries u) = 0 then map_option (\<lambda>snap. snap_index snap) (u_snapshot u)
      else Some (u_offset u + length (u_entries u) - 1))"

definition maybe_term :: "unstable \<Rightarrow> nat \<Rightarrow> nat option panics" where
  "maybe_term u idx =
     (if idx < u_offset u then
        Some (case u_snapshot u of
                None \<Rightarrow> None
              | Some snap \<Rightarrow> if idx = snap_index snap then Some (snap_term snap) else None)
      else case maybe_last_index u of
             None \<Rightarrow> Some None
           | Some l \<Rightarrow>
               if idx > l then Some None
               else do {
                 i \<leftarrow> usub idx (u_offset u);
                 e \<leftarrow> vec_get (u_entries u) i;
                 Some (Some (e_term e)) })"

definition unstable_stable_entries :: "nat \<Rightarrow> nat \<Rightarrow> unstable \<Rightarrow> unstable panics" where
  "unstable_stable_entries index t u = do {
     ensure (u_snapshot u = None);
     case vec_last (u_entries u) of
       Some entry \<Rightarrow>
         if e_index entry \<noteq> index \<or> e_term entry \<noteq> t then None
         else Some (u\<lparr>u_offset := e_index entry + 1, u_entries := [], u_entries_size := 0\<rparr>)
     | None \<Rightarrow> None }"

definition unstable_stable_snap :: "nat \<Rightarrow> unstable \<Rightarrow> unstable panics" where
  "unstable_stable_snap index u =
     (case u_snapshot u of
        Some snap \<Rightarrow> if snap_index snap \<noteq> index then None else Some (u\<lparr>u_snapshot := None\<rparr>)
      | None \<Rightarrow> None)"

definition unstable_restore :: "snapshot \<Rightarrow> unstable \<Rightarrow> unstable" where
  "unstable_restore snap u =
     u\<lparr>u_entries := [], u_entries_size := 0, u_offset := snap_index snap + 1,
       u_snapshot := Some snap\<rparr>"

definition unstable_must_check_outofbounds :: "unstable \<Rightarrow> nat \<Rightarrow> nat \<Rightarrow> unit panics" where
  "unstable_must_check_outofbounds u lo hi =
     (if lo > hi then None
      else let upper = u_offset u + length (u_entries u) in
           if lo < u_offset u \<or> hi > upper then None else Some ())"

fun sub_sizes :: "nat \<Rightarrow> entry list \<Rightarrow> nat panics" where
  "sub_sizes sz [] = Some sz"
| "sub_sizes sz (e # es) = do { sz' \<leftarrow> usub sz (entry_approximate_size e); sub_sizes sz' es }"

definition truncate_and_append :: "entry list \<Rightarrow> unstable \<Rightarrow> unstable panics" where
  "truncate_and_append ents u = do {
     e0 \<leftarrow> vec_get ents 0;
     let after = e_index e0;
     u' \<leftarrow> (if after = u_offset u + length (u_entries u) then Some u
           else if after \<le> u_offset u
           then Some (u\<lparr>u_offset := after, u_entries := [], u_entries_size := 0\<rparr>)
           else do {
             unstable_must_check_outofbounds u (u_offset u) after;
             d \<leftarrow> usub after (u_offset u);
             ensure (d \<le> length (u_entries u));
             sz \<leftarrow> sub_sizes (u_entries_size u) (drop d (u_entries u));
             Some (u\<lparr>u_entries_size := sz, u_entries := take d (u_entries u)\<rparr>) });
     Some (u'\<lparr>u_entries := u_entries u' @ ents,
              u_entries_size := u_entries_size u' + sum_list (map entry_approximate_size ents)\<rparr>)
   }"

definition unstable_slice :: "unstable \<Rightarrow> nat \<Rightarrow> nat \<Rightarrow> entry list panics" where
  "unstable_slice u lo hi = do {
     unstable_must_check_outofbounds u lo hi;
     l \<leftarrow> usub lo (u_offset u);
     h \<leftarrow> usub hi (u_offset u);
     vec_range (u_entries u) l h }"

end
