(* ===== verification/Raft_Log.thy ===== *)
theory Raft_Log
  imports Unstable
begin

text \<open>
  \<open>RaftLog<T>\<close> of \<open>raft-rs/src/raft_log.rs\<close>: the storage and the unstable tail seen as one log, with
  the committed, persisted and applied marks. Methods on \<open>&self\<close> that read entries return the log
  too, because a storage may record the caller's context when it is read.
\<close>

record 's raft_log =
  rl_store :: 's
  rl_unstable :: unstable
  rl_committed :: nat
  rl_persisted :: nat
  rl_applied :: nat

definition raft_log_new :: "'s env \<Rightarrow> 's \<Rightarrow> 's raft_log panics" where
  "raft_log_new E store = do {
     first_index \<leftarrow> unwrap (st_first_index E store);
     last_index \<leftarrow> unwrap (st_last_index E store);
     c \<leftarrow> usub first_index 1;
     Some \<lparr>rl_store = store, rl_unstable = unstable_new (last_index + 1), rl_committed = c,
           rl_persisted = last_index, rl_applied = c\<rparr> }"

definition rl_first_index :: "'s env \<Rightarrow> 's raft_log \<Rightarrow> nat panics" where
  "rl_first_index E lg = (case maybe_first_index (rl_unstable lg) of
       Some idx \<Rightarrow> Some idx
     | None \<Rightarrow> unwrap (st_first_index E (rl_store lg)))"

definition rl_last_index :: "'s env \<Rightarrow> 's raft_log \<Rightarrow> nat panics" where
  "rl_last_index E lg = (case maybe_last_index (rl_unstable lg) of
       Some idx \<Rightarrow> Some idx
     | None \<Rightarrow> unwrap (st_last_index E (rl_store lg)))"

definition rl_term :: "'s env \<Rightarrow> 's raft_log \<Rightarrow> nat \<Rightarrow> nat result panics" where
  "rl_term E lg idx = do {
     first_index \<leftarrow> rl_first_index E lg;
     dummy_idx \<leftarrow> usub first_index 1;
     last_index \<leftarrow> rl_last_index E lg;
     if idx < dummy_idx \<or> idx > last_index then Some (Inr 0)
     else do {
       mt \<leftarrow> maybe_term (rl_unstable lg) idx;
       case mt of
         Some t \<Rightarrow> Some (Inr t)
       | None \<Rightarrow> do {
           r \<leftarrow> st_term E (rl_store lg) idx;
           case r of
             Inr t \<Rightarrow> Some (Inr t)
           | Inl e \<Rightarrow> (case e of Store Compacted \<Rightarrow> Some (Inl e) | Store Unavailable \<Rightarrow> Some (Inl e)
                        | _ \<Rightarrow> None) } } }"

definition rl_last_term :: "'s env \<Rightarrow> 's raft_log \<Rightarrow> nat panics" where
  "rl_last_term E lg = do {
     last_index \<leftarrow> rl_last_index E lg;
     r \<leftarrow> rl_term E lg last_index;
     unwrap r }"

definition rl_match_term :: "'s env \<Rightarrow> 's raft_log \<Rightarrow> nat \<Rightarrow> nat \<Rightarrow> bool panics" where
  "rl_match_term E lg idx t = do {
     r \<leftarrow> rl_term E lg idx;
     Some (case r of Inr t' \<Rightarrow> t' = t | Inl _ \<Rightarrow> False) }"

fun rl_find_conflict :: "'s env \<Rightarrow> 's raft_log \<Rightarrow> entry list \<Rightarrow> nat panics" where
  "rl_find_conflict E lg [] = Some 0"
| "rl_find_conflict E lg (e # ents) = do {
     b \<leftarrow> rl_match_term E lg (e_index e) (e_term e);
     if \<not> b then Some (e_index e) else rl_find_conflict E lg ents }"

text \<open>The loop of \<open>find_conflict_by_term\<close>; the index decreases, so it ends at 0 at the latest.\<close>

fun find_conflict_loop ::
  "'s env \<Rightarrow> 's raft_log \<Rightarrow> nat \<Rightarrow> nat \<Rightarrow> (nat \<times> nat option) panics" where
  "find_conflict_loop E lg t conflict_index = do {
     r \<leftarrow> rl_term E lg conflict_index;
     case r of
       Inr t' \<Rightarrow> if t' > t then (case conflict_index of
                     0 \<Rightarrow> None
                   | Suc c \<Rightarrow> find_conflict_loop E lg t c)
                 else Some (conflict_index, Some t')
     | Inl _ \<Rightarrow> Some (conflict_index, None) }"

declare find_conflict_loop.simps [simp del]

definition rl_find_conflict_by_term ::
  "'s env \<Rightarrow> 's raft_log \<Rightarrow> nat \<Rightarrow> nat \<Rightarrow> (nat \<times> nat option) panics" where
  "rl_find_conflict_by_term E lg index t = do {
     last_index \<leftarrow> rl_last_index E lg;
     if index > last_index then Some (index, None)
     else find_conflict_loop E lg t index }"

definition rl_commit_to :: "'s env \<Rightarrow> nat \<Rightarrow> 's raft_log \<Rightarrow> 's raft_log panics" where
  "rl_commit_to E to_commit lg =
     (if rl_committed lg \<ge> to_commit then Some lg
      else do {
        last_index \<leftarrow> rl_last_index E lg;
        if last_index < to_commit then None else Some (lg\<lparr>rl_committed := to_commit\<rparr>) })"

definition rl_append :: "'s env \<Rightarrow> entry list \<Rightarrow> 's raft_log \<Rightarrow> (nat \<times> 's raft_log) panics" where
  "rl_append E ents lg =
     (case ents of
        [] \<Rightarrow> do { li \<leftarrow> rl_last_index E lg; Some (li, lg) }
      | e0 # _ \<Rightarrow> do {
          after \<leftarrow> usub (e_index e0) 1;
          if after < rl_committed lg then None
          else do {
            u \<leftarrow> truncate_and_append ents (rl_unstable lg);
            let lg' = lg\<lparr>rl_unstable := u\<rparr>;
            li \<leftarrow> rl_last_index E lg';
            Some (li, lg') } })"

definition rl_maybe_append ::
  "'s env \<Rightarrow> nat \<Rightarrow> nat \<Rightarrow> nat \<Rightarrow> entry list \<Rightarrow> 's raft_log
     \<Rightarrow> ((nat \<times> nat) option \<times> 's raft_log) panics" where
  "rl_maybe_append E idx t committed ents lg = do {
     b \<leftarrow> rl_match_term E lg idx t;
     if b then do {
       conflict_idx \<leftarrow> rl_find_conflict E lg ents;
       lg' \<leftarrow> (if conflict_idx = 0 then Some lg
              else if conflict_idx \<le> rl_committed lg then None
              else do {
                start \<leftarrow> usub conflict_idx (idx + 1);
                tail \<leftarrow> vec_range ents start (length ents);
                (_, lg1) \<leftarrow> rl_append E tail lg;
                Some (if rl_persisted lg1 > conflict_idx - 1
                      then lg1\<lparr>rl_persisted := conflict_idx - 1\<rparr> else lg1) });
       let last_new_index = idx + length ents;
       lg'' \<leftarrow> rl_commit_to E (min committed last_new_index) lg';
       Some (Some (conflict_idx, last_new_index), lg'') }
     else Some (None, lg) }"

definition rl_applied_to :: "nat \<Rightarrow> 's raft_log \<Rightarrow> 's raft_log panics" where
  "rl_applied_to idx lg =
     (if idx = 0 then Some lg
      else if idx > min (rl_committed lg) (rl_persisted lg) \<or> idx < rl_applied lg then None
      else Some (lg\<lparr>rl_applied := idx\<rparr>))"

definition rl_stable_entries :: "nat \<Rightarrow> nat \<Rightarrow> 's raft_log \<Rightarrow> 's raft_log panics" where
  "rl_stable_entries index t lg = do {
     u \<leftarrow> unstable_stable_entries index t (rl_unstable lg);
     Some (lg\<lparr>rl_unstable := u\<rparr>) }"

definition rl_stable_snap :: "nat \<Rightarrow> 's raft_log \<Rightarrow> 's raft_log panics" where
  "rl_stable_snap index lg = do {
     u \<leftarrow> unstable_stable_snap index (rl_unstable lg);
     Some (lg\<lparr>rl_unstable := u\<rparr>) }"

definition rl_unstable_entries :: "'s raft_log \<Rightarrow> entry list" where
  "rl_unstable_entries lg = u_entries (rl_unstable lg)"

definition rl_unstable_snapshot :: "'s raft_log \<Rightarrow> snapshot option" where
  "rl_unstable_snapshot lg = u_snapshot (rl_unstable lg)"

definition rl_must_check_outofbounds ::
  "'s env \<Rightarrow> 's raft_log \<Rightarrow> nat \<Rightarrow> nat \<Rightarrow> error option panics" where
  "rl_must_check_outofbounds E lg low high =
     (if low > high then None
      else do {
        first_index \<leftarrow> rl_first_index E lg;
        if low < first_index then Some (Some (Store Compacted))
        else do {
          last_index \<leftarrow> rl_last_index E lg;
          len \<leftarrow> usub (last_index + 1) first_index;
          if low < first_index \<or> high > first_index + len then None else Some None } })"

definition rl_slice ::
  "'s env \<Rightarrow> nat \<Rightarrow> nat \<Rightarrow> nat option \<Rightarrow> get_entries_for \<Rightarrow> 's raft_log
     \<Rightarrow> (entry list result \<times> 's raft_log) panics" where
  "rl_slice E low high max_size context lg = do {
     err \<leftarrow> rl_must_check_outofbounds E lg low high;
     case err of
       Some e \<Rightarrow> Some (Inl e, lg)
     | None \<Rightarrow>
       if low = high then Some (Inr [], lg)
       else do {
         let offset = u_offset (rl_unstable lg);
         (r, early, lg1) \<leftarrow>
           (if low < offset then
              let unstable_high = min high offset in do {
                (res, store') \<leftarrow> st_entries E (rl_store lg) low unstable_high max_size context;
                let lg1 = lg\<lparr>rl_store := store'\<rparr>;
                case res of
                  Inl e \<Rightarrow> (case e of
                      Store Compacted \<Rightarrow> Some (Inl e, True, lg1)
                    | Store LogTemporarilyUnavailable \<Rightarrow> Some (Inl e, True, lg1)
                    | _ \<Rightarrow> None)
                | Inr entries \<Rightarrow> Some (Inr entries, length entries < unstable_high - low, lg1) }
            else Some (Inr [], False, lg));
         case r of
           Inl e \<Rightarrow> Some (Inl e, lg1)
         | Inr ents \<Rightarrow>
             if early then Some (Inr ents, lg1)
             else do {
               ents' \<leftarrow> (if high > offset then do {
                          us \<leftarrow> unstable_slice (rl_unstable lg1) (max low offset) high;
                          Some (ents @ us) }
                        else Some ents);
               Some (Inr (limit_size (env_compute_size E) ents' max_size), lg1) } } }"

definition rl_entries ::
  "'s env \<Rightarrow> nat \<Rightarrow> nat option \<Rightarrow> get_entries_for \<Rightarrow> 's raft_log
     \<Rightarrow> (entry list result \<times> 's raft_log) panics" where
  "rl_entries E idx max_size context lg = do {
     last_index \<leftarrow> rl_last_index E lg;
     if idx > last_index then Some (Inr [], lg)
     else rl_slice E idx (last_index + 1) max_size context lg }"

text \<open>
  \<open>all_entries\<close> calls itself again after a \<open>Compacted\<close> error, with no bound in the code: \<open>None\<close> also
  stands for not returning.
\<close>

partial_function (option) rl_all_entries ::
  "'s env \<Rightarrow> 's raft_log \<Rightarrow> (entry list \<times> 's raft_log) option" where
  "rl_all_entries E lg = do {
     first_index \<leftarrow> rl_first_index E lg;
     (r, lg') \<leftarrow> rl_entries E first_index None (Empty False) lg;
     case r of
       Inl e \<Rightarrow> if error_eq e (Store Compacted) then rl_all_entries E lg' else None
     | Inr ents \<Rightarrow> Some (ents, lg') }"

declare rl_all_entries.simps [code]

definition rl_is_up_to_date :: "'s env \<Rightarrow> 's raft_log \<Rightarrow> nat \<Rightarrow> nat \<Rightarrow> bool panics" where
  "rl_is_up_to_date E lg last_index t = do {
     lt \<leftarrow> rl_last_term E lg;
     li \<leftarrow> rl_last_index E lg;
     Some (t > lt \<or> (t = lt \<and> last_index \<ge> li)) }"

definition rl_has_next_entries_since :: "'s env \<Rightarrow> 's raft_log \<Rightarrow> nat \<Rightarrow> bool panics" where
  "rl_has_next_entries_since E lg since_idx = do {
     first_index \<leftarrow> rl_first_index E lg;
     let offset = max (since_idx + 1) first_index;
     let high = min (rl_committed lg) (rl_persisted lg) + 1;
     Some (high > offset) }"

definition rl_has_next_entries :: "'s env \<Rightarrow> 's raft_log \<Rightarrow> bool panics" where
  "rl_has_next_entries E lg = rl_has_next_entries_since E lg (rl_applied lg)"

definition rl_next_entries_since ::
  "'s env \<Rightarrow> nat \<Rightarrow> nat option \<Rightarrow> 's raft_log \<Rightarrow> (entry list option \<times> 's raft_log) panics" where
  "rl_next_entries_since E since_idx max_size lg = do {
     first_index \<leftarrow> rl_first_index E lg;
     let offset = max (since_idx + 1) first_index;
     let high = min (rl_committed lg) (rl_persisted lg) + 1;
     if high > offset then do {
       (r, lg') \<leftarrow> rl_slice E offset high max_size GenReady lg;
       vec \<leftarrow> unwrap r;
       Some (Some vec, lg') }
     else Some (None, lg) }"

definition rl_next_entries ::
  "'s env \<Rightarrow> nat option \<Rightarrow> 's raft_log \<Rightarrow> (entry list option \<times> 's raft_log) panics" where
  "rl_next_entries E max_size lg = rl_next_entries_since E (rl_applied lg) max_size lg"

definition rl_snapshot ::
  "'s env \<Rightarrow> nat \<Rightarrow> nat \<Rightarrow> 's raft_log \<Rightarrow> (snapshot result \<times> 's raft_log) panics" where
  "rl_snapshot E request_index to lg =
     (let from_store = do {
            (r, store') \<leftarrow> st_snapshot E (rl_store lg) request_index to;
            Some (r, lg\<lparr>rl_store := store'\<rparr>) }
      in case u_snapshot (rl_unstable lg) of
           Some snap \<Rightarrow> if snap_index snap \<ge> request_index then Some (Inr snap, lg) else from_store
         | None \<Rightarrow> from_store)"

definition rl_maybe_commit ::
  "'s env \<Rightarrow> nat \<Rightarrow> nat \<Rightarrow> 's raft_log \<Rightarrow> (bool \<times> 's raft_log) panics" where
  "rl_maybe_commit E max_index t lg =
     (if max_index > rl_committed lg then do {
        r \<leftarrow> rl_term E lg max_index;
        if (case r of Inr t' \<Rightarrow> t' = t | Inl _ \<Rightarrow> False) then do {
          lg' \<leftarrow> rl_commit_to E max_index lg;
          Some (True, lg') }
        else Some (False, lg) }
      else Some (False, lg))"

definition rl_maybe_persist ::
  "'s env \<Rightarrow> nat \<Rightarrow> nat \<Rightarrow> 's raft_log \<Rightarrow> (bool \<times> 's raft_log) panics" where
  "rl_maybe_persist E index t lg =
     (let first_update_index = (case u_snapshot (rl_unstable lg) of
            Some s \<Rightarrow> snap_index s | None \<Rightarrow> u_offset (rl_unstable lg))
      in if index > rl_persisted lg \<and> index < first_update_index then do {
           r \<leftarrow> st_term E (rl_store lg) index;
           if (case r of Inr t' \<Rightarrow> t' = t | Inl _ \<Rightarrow> False)
           then Some (True, lg\<lparr>rl_persisted := index\<rparr>)
           else Some (False, lg) }
         else Some (False, lg))"

definition rl_maybe_persist_snap :: "nat \<Rightarrow> 's raft_log \<Rightarrow> (bool \<times> 's raft_log) panics" where
  "rl_maybe_persist_snap index lg =
     (if index > rl_persisted lg then
        if index > rl_committed lg then None
        else if index \<ge> u_offset (rl_unstable lg) then None
        else Some (True, lg\<lparr>rl_persisted := index\<rparr>)
      else Some (False, lg))"

definition rl_restore :: "snapshot \<Rightarrow> 's raft_log \<Rightarrow> 's raft_log panics" where
  "rl_restore snap lg = do {
     let index = snap_index snap;
     ensure (index \<ge> rl_committed lg);
     let lg1 = (if rl_persisted lg > rl_committed lg
                then lg\<lparr>rl_persisted := rl_committed lg\<rparr> else lg);
     Some (lg1\<lparr>rl_committed := index, rl_unstable := unstable_restore snap (rl_unstable lg1)\<rparr>) }"

definition rl_commit_info :: "'s env \<Rightarrow> 's raft_log \<Rightarrow> (nat \<times> nat) panics" where
  "rl_commit_info E lg = do {
     r \<leftarrow> rl_term E lg (rl_committed lg);
     t \<leftarrow> unwrap r;
     Some (rl_committed lg, t) }"

section \<open>The log as one list\<close>

text \<open>
  The abstraction of a \<open>RaftLog\<close> over a storage that keeps the contract: a base position with a term
  that may be known, followed by a list of entries. It is the stored run up to the unstable offset
  and the unstable tail, or the pending snapshot and the unstable tail.
\<close>

definition log_base :: "'s store_view \<Rightarrow> 's raft_log \<Rightarrow> nat" where
  "log_base W lg = (case u_snapshot (rl_unstable lg) of
       Some snap \<Rightarrow> snap_index snap | None \<Rightarrow> sv_base W (rl_store lg))"

definition log_base_term :: "'s store_view \<Rightarrow> 's raft_log \<Rightarrow> nat option" where
  "log_base_term W lg = (case u_snapshot (rl_unstable lg) of
       Some snap \<Rightarrow> Some (snap_term snap) | None \<Rightarrow> sv_base_term W (rl_store lg))"

definition log_stable :: "'s store_view \<Rightarrow> 's raft_log \<Rightarrow> entry list" where
  "log_stable W lg = (case u_snapshot (rl_unstable lg) of
       Some _ \<Rightarrow> []
     | None \<Rightarrow> take (u_offset (rl_unstable lg) - sv_base W (rl_store lg) - 1) (sv_ents W (rl_store lg)))"

definition log_ents :: "'s store_view \<Rightarrow> 's raft_log \<Rightarrow> entry list" where
  "log_ents W lg = log_stable W lg @ u_entries (rl_unstable lg)"

definition log_last :: "'s store_view \<Rightarrow> 's raft_log \<Rightarrow> nat" where
  "log_last W lg = log_base W lg + length (log_ents W lg)"

definition log_term :: "'s store_view \<Rightarrow> 's raft_log \<Rightarrow> nat \<Rightarrow> nat option" where
  "log_term W lg i =
     (if i < log_base W lg \<or> log_last W lg < i then Some 0
      else if i = log_base W lg then log_base_term W lg
      else Some (e_term (log_ents W lg ! (i - log_base W lg - 1))))"

definition unstable_sized :: "unstable \<Rightarrow> bool" where
  "unstable_sized u \<longleftrightarrow> u_entries_size u = sum_list (map entry_approximate_size (u_entries u))"

text \<open>
  Well-formed logs: the tail is numbered from the offset and continues the stored run or the pending
  snapshot, and the marks are ordered.
\<close>

definition log_wf :: "'s store_view \<Rightarrow> 's raft_log \<Rightarrow> bool" where
  "log_wf W lg \<longleftrightarrow>
     sv_ok W (rl_store lg) \<and> unstable_sized (rl_unstable lg) \<and>
     numbered (u_offset (rl_unstable lg)) (u_entries (rl_unstable lg)) \<and>
     (case u_snapshot (rl_unstable lg) of
        Some snap \<Rightarrow> u_offset (rl_unstable lg) = snap_index snap + 1
      | None \<Rightarrow> sv_base W (rl_store lg) < u_offset (rl_unstable lg) \<and>
          u_offset (rl_unstable lg) \<le> sv_base W (rl_store lg) + length (sv_ents W (rl_store lg)) + 1 \<and>
          (u_entries (rl_unstable lg) = [] \<longrightarrow>
             u_offset (rl_unstable lg) = sv_base W (rl_store lg) + length (sv_ents W (rl_store lg)) + 1)) \<and>
     log_base W lg \<le> rl_committed lg \<and> rl_committed lg \<le> log_last W lg \<and>
     rl_persisted lg < u_offset (rl_unstable lg) \<and>
     rl_applied lg \<le> rl_committed lg \<and> rl_applied lg \<le> rl_persisted lg"

lemma log_wf_offset:
  assumes "log_wf W lg"
  shows "length (log_stable W lg) = u_offset (rl_unstable lg) - log_base W lg - 1"
    "log_base W lg < u_offset (rl_unstable lg)"
    "log_last W lg = u_offset (rl_unstable lg) + length (u_entries (rl_unstable lg)) - 1"
  using assms
  by (auto simp: log_wf_def log_stable_def log_base_def log_last_def log_ents_def split: option.splits)

lemma log_ents_tail:
  assumes "log_wf W lg" "u_offset (rl_unstable lg) \<le> i" "i \<le> log_last W lg"
  shows "log_ents W lg ! (i - log_base W lg - 1) = u_entries (rl_unstable lg) ! (i - u_offset (rl_unstable lg))"
    "i - u_offset (rl_unstable lg) < length (u_entries (rl_unstable lg))"
  using log_wf_offset[OF assms(1)] assms(2,3) by (auto simp: log_ents_def nth_append)

context log_storage
begin

lemma log_numbered:
  assumes "log_wf W lg" shows "numbered (log_base W lg + 1) (log_ents W lg)"
  using assms log_wf_offset[OF assms] numbered_ents[of "rl_store lg"]
  by (auto simp: log_wf_def log_stable_def log_base_def log_ents_def numbered_take split: option.splits)

lemma rl_first_index_eq:
  assumes "log_wf W lg" shows "rl_first_index E lg = Some (log_base W lg + 1)"
  using assms first_index[of "rl_store lg"]
  by (auto simp: rl_first_index_def maybe_first_index_def log_base_def log_wf_def unwrap_def
      split: option.splits)

lemma rl_last_index_eq:
  assumes "log_wf W lg" shows "rl_last_index E lg = Some (log_last W lg)"
  using assms log_wf_offset[OF assms] last_index[of "rl_store lg"]
  by (auto simp: rl_last_index_def maybe_last_index_def log_base_def log_wf_def unwrap_def
      split: option.splits)

lemma maybe_term_tail:
  assumes "log_wf W lg" "u_offset (rl_unstable lg) \<le> i" "i \<le> log_last W lg"
  shows "maybe_term (rl_unstable lg) i = Some (log_term W lg i)"
proof -
  note tail = log_ents_tail[OF assms] and off = log_wf_offset[OF assms(1)]
  have "maybe_last_index (rl_unstable lg) = Some (log_last W lg)"
    using tail(2) off(3) by (auto simp: maybe_last_index_def)
  moreover have "log_term W lg i = Some (e_term (u_entries (rl_unstable lg) ! (i - u_offset (rl_unstable lg))))"
    using assms tail off(2) by (simp add: log_term_def)
  ultimately show ?thesis using assms(2,3) tail(2) by (simp add: maybe_term_def usub_def vec_get_def)
qed

lemma stored_term:
  assumes "log_wf W lg" "u_snapshot (rl_unstable lg) = None" "log_base W lg \<le> i" "i < u_offset (rl_unstable lg)"
  shows "st_term E (rl_store lg) i =
    Some (case log_term W lg i of Some t \<Rightarrow> Inr t | None \<Rightarrow> Inl (Store Compacted))"
proof (cases "i = log_base W lg")
  case True
  then show ?thesis
    using assms(1,2) base_term[of "rl_store lg"]
    by (simp add: log_term_def log_last_def log_base_def log_base_term_def log_wf_def)
next
  case False
  have base: "log_base W lg = sv_base W (rl_store lg)" using assms(2) by (simp add: log_base_def)
  have i: "sv_base W (rl_store lg) < i" "i \<le> sv_base W (rl_store lg) + length (sv_ents W (rl_store lg))"
    using assms False by (auto simp: base log_wf_def)
  then have "log_ents W lg ! (i - log_base W lg - 1) = sv_ents W (rl_store lg) ! (i - log_base W lg - 1)"
    using assms(2,4) by (auto simp: log_ents_def log_stable_def base nth_append)
  moreover have "i \<le> log_last W lg" using assms(4) log_wf_offset[OF assms(1)] by linarith
  ultimately show ?thesis
    using entry_term[of "rl_store lg" i] assms(1) i by (simp add: log_term_def base log_wf_def)
qed

lemma rl_term_eq:
  assumes "log_wf W lg"
  shows "rl_term E lg i = Some (case log_term W lg i of Some t \<Rightarrow> Inr t | None \<Rightarrow> Inl (Store Compacted))"
proof (cases "i < log_base W lg \<or> log_last W lg < i")
  case True
  then show ?thesis
    by (auto simp: rl_term_def rl_first_index_eq[OF assms] rl_last_index_eq[OF assms] log_term_def usub_def)
next
  case False
  have rng: "rl_term E lg i = do {
       mt \<leftarrow> maybe_term (rl_unstable lg) i;
       case mt of
         Some t \<Rightarrow> Some (Inr t)
       | None \<Rightarrow> do {
           r \<leftarrow> st_term E (rl_store lg) i;
           case r of
             Inr t \<Rightarrow> Some (Inr t)
           | Inl e \<Rightarrow> (case e of Store Compacted \<Rightarrow> Some (Inl e) | Store Unavailable \<Rightarrow> Some (Inl e)
                        | _ \<Rightarrow> None) } }"
    using False
    by (simp add: rl_term_def rl_first_index_eq[OF assms] rl_last_index_eq[OF assms] usub_def)
  consider (tail) "u_offset (rl_unstable lg) \<le> i"
    | (snap) snap where "u_snapshot (rl_unstable lg) = Some snap" "i < u_offset (rl_unstable lg)"
    | (stored) "u_snapshot (rl_unstable lg) = None" "i < u_offset (rl_unstable lg)"
    by fastforce
  then show ?thesis
  proof cases
    case tail
    have "log_term W lg i \<noteq> None" using tail False log_wf_offset(2)[OF assms] by (simp add: log_term_def)
    then show ?thesis using False tail by (auto simp: rng maybe_term_tail[OF assms])
  next
    case snap
    then have "i = snap_index snap" "log_term W lg i = Some (snap_term snap)"
      using assms False by (auto simp: log_wf_def log_base_def log_term_def log_base_term_def)
    then show ?thesis unfolding rng using snap by (simp add: maybe_term_def)
  next
    case stored
    then show ?thesis
      using stored_term[OF assms stored(1) _ stored(2)] False
      by (auto simp: rng maybe_term_def split: option.splits)
  qed
qed

lemma rl_match_term_eq:
  assumes "log_wf W lg" shows "rl_match_term E lg i t = Some (log_term W lg i = Some t)"
  by (auto simp: rl_match_term_def rl_term_eq[OF assms] split: option.splits)

lemma rl_last_term_eq:
  assumes "log_wf W lg"
  shows "rl_last_term E lg = log_term W lg (log_last W lg)"
  by (auto simp: rl_last_term_def rl_last_index_eq[OF assms] rl_term_eq[OF assms] unwrap_def
      split: option.splits)

subsection \<open>Conflicts\<close>

lemma rl_find_conflict_eq:
  assumes "log_wf W lg"
  shows "rl_find_conflict E lg ents =
    Some (case find (\<lambda>e. log_term W lg (e_index e) \<noteq> Some (e_term e)) ents of
            None \<Rightarrow> 0 | Some e \<Rightarrow> e_index e)"
  by (induction ents) (auto simp: rl_match_term_eq[OF assms])

lemma log_term_None: "log_term W lg i = None \<Longrightarrow> i = log_base W lg"
  by (auto simp: log_term_def split: if_splits)

lemma find_conflict_loop_spec:
  assumes wf: "log_wf W lg" and zero: "log_term W lg 0 \<in> {None, Some 0}"
  shows "\<exists>j. find_conflict_loop E lg t i = Some (j, log_term W lg j) \<and> j \<le> i \<and>
    (case log_term W lg j of Some v \<Rightarrow> v \<le> t | None \<Rightarrow> j = log_base W lg) \<and>
    (\<forall>k. j < k \<and> k \<le> i \<longrightarrow> (\<exists>v. log_term W lg k = Some v \<and> t < v))"
proof (induction i)
  case 0
  then show ?case
    using zero log_term_None[of lg 0] by (subst find_conflict_loop.simps) (auto simp: rl_term_eq[OF wf])
next
  case (Suc i)
  show ?case
  proof (cases "\<exists>v. log_term W lg (Suc i) = Some v \<and> t < v")
    case True
    then have "find_conflict_loop E lg t (Suc i) = find_conflict_loop E lg t i"
      by (subst find_conflict_loop.simps) (auto simp: rl_term_eq[OF wf])
    then show ?thesis using Suc True by (auto simp: le_Suc_eq intro: exI)
  next
    case False
    then have "find_conflict_loop E lg t (Suc i) = Some (Suc i, log_term W lg (Suc i))"
      by (subst find_conflict_loop.simps) (auto simp: rl_term_eq[OF wf] split: option.splits)
    then show ?thesis using False log_term_None[of lg "Suc i"] by (auto split: option.splits)
  qed
qed

subsection \<open>Appending\<close>

lemma sub_sizes_eq:
  "sub_sizes (n + sum_list (map entry_approximate_size es)) es = Some n"
  by (induction es arbitrary: n) (auto simp: usub_def add.commute add.left_commute)

lemma truncate_and_append_eq:
  assumes "unstable_sized u" "numbered (u_offset u) (u_entries u)" "numbered i ents" "ents \<noteq> []"
    "i \<le> u_offset u + length (u_entries u)"
  shows "\<exists>u'. truncate_and_append ents u = Some u' \<and> u_snapshot u' = u_snapshot u \<and>
    u_offset u' = min i (u_offset u) \<and> unstable_sized u' \<and>
    u_entries u' = take (i - u_offset u) (u_entries u) @ ents"
proof -
  let ?d = "i - u_offset u"
  have e0: "vec_get ents 0 = Some (hd ents)" "e_index (hd ents) = i"
    using assms(3,4) numbered_hd by (auto simp: hd_conv_nth)
  have split: "sum_list (map entry_approximate_size (u_entries u)) =
      sum_list (map entry_approximate_size (take ?d (u_entries u))) +
      sum_list (map entry_approximate_size (drop ?d (u_entries u)))"
    by (metis append_take_drop_id map_append sum_list.append)
  have sub: "sub_sizes (u_entries_size u) (drop ?d (u_entries u)) =
      Some (sum_list (map entry_approximate_size (take ?d (u_entries u))))"
    using assms(1) sub_sizes_eq split by (simp add: unstable_sized_def)
  consider "i = u_offset u + length (u_entries u)" | "i \<le> u_offset u" "i \<noteq> u_offset u + length (u_entries u)"
    | "u_offset u < i" "i < u_offset u + length (u_entries u)"
    using assms(5) by linarith
  then show ?thesis
  proof cases
    case 3
    then have "?d \<le> length (u_entries u)" by simp
    then show ?thesis using 3
      by (simp add: truncate_and_append_def e0 sub unstable_must_check_outofbounds_def usub_def
          unstable_sized_def[of "u\<lparr>u_entries := _\<rparr>"] unstable_sized_def[of "_\<lparr>u_entries_size := _\<rparr>"] Let_def)
  qed (use assms(1) in \<open>simp_all add: truncate_and_append_def e0 unstable_sized_def\<close>)
qed

end

text \<open>The list view does not depend on the marks.\<close>

lemma log_frame [simp]:
  "log_base W (lg\<lparr>rl_persisted := x\<rparr>) = log_base W lg" "log_base W (lg\<lparr>rl_committed := x\<rparr>) = log_base W lg"
  "log_base W (lg\<lparr>rl_applied := x\<rparr>) = log_base W lg"
  "log_base_term W (lg\<lparr>rl_persisted := x\<rparr>) = log_base_term W lg"
  "log_base_term W (lg\<lparr>rl_committed := x\<rparr>) = log_base_term W lg"
  "log_base_term W (lg\<lparr>rl_applied := x\<rparr>) = log_base_term W lg"
  "log_ents W (lg\<lparr>rl_persisted := x\<rparr>) = log_ents W lg" "log_ents W (lg\<lparr>rl_committed := x\<rparr>) = log_ents W lg"
  "log_ents W (lg\<lparr>rl_applied := x\<rparr>) = log_ents W lg"
  by (simp_all add: log_base_def log_base_term_def log_ents_def log_stable_def split: option.split)

lemma log_last_frame [simp]:
  "log_last W (lg\<lparr>rl_persisted := x\<rparr>) = log_last W lg" "log_last W (lg\<lparr>rl_committed := x\<rparr>) = log_last W lg"
  "log_last W (lg\<lparr>rl_applied := x\<rparr>) = log_last W lg"
  by (simp_all add: log_last_def)

lemma log_term_frame [simp]:
  "log_term W (lg\<lparr>rl_persisted := x\<rparr>) = log_term W lg" "log_term W (lg\<lparr>rl_committed := x\<rparr>) = log_term W lg"
  "log_term W (lg\<lparr>rl_applied := x\<rparr>) = log_term W lg"
  by (simp_all add: log_term_def fun_eq_iff)

context log_storage
begin

lemma rl_append_eq:
  assumes wf: "log_wf W lg" and num: "numbered i ents" "ents \<noteq> []"
    and i: "rl_committed lg < i" "i \<le> log_last W lg + 1"
  shows "\<exists>lg1. rl_append E ents lg = Some (i + length ents - 1, lg1) \<and>
    rl_store lg1 = rl_store lg \<and> rl_committed lg1 = rl_committed lg \<and> rl_applied lg1 = rl_applied lg \<and>
    rl_persisted lg1 = rl_persisted lg \<and>
    log_base W lg1 = log_base W lg \<and> log_base_term W lg1 = log_base_term W lg \<and>
    log_ents W lg1 = take (i - log_base W lg - 1) (log_ents W lg) @ ents \<and>
    log_wf W (lg1\<lparr>rl_persisted := min (rl_persisted lg) (i - 1)\<rparr>)"
proof -
  note off = log_wf_offset[OF wf]
  let ?u = "rl_unstable lg"
  have base: "log_base W lg \<le> rl_committed lg" using wf by (simp add: log_wf_def)
  have le: "i \<le> u_offset ?u + length (u_entries ?u)" using i(2) off by linarith
  obtain u' where u': "truncate_and_append ents ?u = Some u'" "u_snapshot u' = u_snapshot ?u"
    "u_offset u' = min i (u_offset ?u)" "unstable_sized u'"
    "u_entries u' = take (i - u_offset ?u) (u_entries ?u) @ ents"
    using truncate_and_append_eq[OF _ _ num le] wf by (auto simp: log_wf_def)
  define lg1 where "lg1 = lg\<lparr>rl_unstable := u'\<rparr>"
  have snap: "u_offset u' = u_offset ?u" if "u_snapshot ?u \<noteq> None"
    using wf that i(1) base u'(3) by (auto simp: log_wf_def log_base_def split: option.splits)
  have b1: "log_base W lg1 = log_base W lg" "log_base_term W lg1 = log_base_term W lg"
    by (simp_all add: log_base_def log_base_term_def lg1_def u' split: option.split)
  have st: "log_stable W lg1 = take (i - log_base W lg - 1) (log_stable W lg)"
    using u'(2,3) i(1) base by (auto simp: log_stable_def log_base_def lg1_def min_def split: option.splits)
  have ents: "log_ents W lg1 = take (i - log_base W lg - 1) (log_ents W lg) @ ents"
    using off i(1) base st u'(5) by (simp add: log_ents_def) (simp add: lg1_def)
  have len: "length (take (i - log_base W lg - 1) (log_ents W lg)) = i - log_base W lg - 1"
    using i(2) by (simp add: log_last_def)
  have last: "log_last W lg1 = i + length ents - 1"
    using len i(1) base num(2) by (simp add: log_last_def b1 ents)
  have "u_offset u' + length (u_entries u') = i + length ents" using le by (auto simp: u'(3,5) min_def)
  then have lst: "rl_last_index E lg1 = Some (i + length ents - 1)"
    using num(2) by (simp add: rl_last_index_def maybe_last_index_def lg1_def u'(5))
  have num': "numbered (u_offset u') (u_entries u')"
  proof -
    have "min i (u_offset ?u) + length (take (i - u_offset ?u) (u_entries ?u)) = i"
      using le by (auto simp: min_def)
    moreover have "numbered (min i (u_offset ?u)) (take (i - u_offset ?u) (u_entries ?u))"
      using wf by (auto simp: log_wf_def min_def numbered_take)
    ultimately show ?thesis using num(1) by (simp only: u'(3,5) numbered_append)
  qed
  have "u_snapshot ?u = None \<Longrightarrow> sv_base W (rl_store lg) < i" using base i(1) by (simp add: log_base_def)
  then have "log_wf W (lg1\<lparr>rl_persisted := min (rl_persisted lg) (i - 1)\<rparr>)"
    using wf i num(2) num' u' snap last b1 unfolding log_wf_def log_frame
    by (auto simp: lg1_def split: option.splits)
  moreover have "rl_append E ents lg = Some (i + length ents - 1, lg1)"
    using i(1) numbered_hd[OF num] num(2) lst u'(1)
    by (cases ents) (auto simp: rl_append_def usub_def lg1_def)
  ultimately show ?thesis using ents b1 by (auto simp: lg1_def)
qed

lemma rl_commit_to_eq:
  assumes "log_wf W lg" "c \<le> log_last W lg"
  shows "rl_commit_to E c lg = Some (lg\<lparr>rl_committed := max (rl_committed lg) c\<rparr>)"
    "log_wf W (lg\<lparr>rl_committed := max (rl_committed lg) c\<rparr>)"
proof -
  show "rl_commit_to E c lg = Some (lg\<lparr>rl_committed := max (rl_committed lg) c\<rparr>)"
    using assms by (auto simp: rl_commit_to_def rl_last_index_eq[OF assms(1)] max_def)
  show "log_wf W (lg\<lparr>rl_committed := max (rl_committed lg) c\<rparr>)"
    using assms by (auto simp: log_wf_def split: option.splits)
qed

lemma find_conflict_first:
  assumes wf: "log_wf W lg" and num: "numbered (Suc idx) ents"
    and pos: "\<forall>e \<in> set ents. 0 < e_term e" and idx: "idx \<le> log_last W lg"
    and c: "find (\<lambda>e. log_term W lg (e_index e) \<noteq> Some (e_term e)) ents = Some e"
  shows "\<exists>k. k < length ents \<and> e = ents ! k \<and> e_index e = Suc idx + k \<and> e_index e \<le> log_last W lg + 1 \<and>
    (\<forall>j < k. log_term W lg (Suc idx + j) = Some (e_term (ents ! j)))"
proof -
  obtain k where k: "k < length ents" "e = ents ! k" "\<forall>j < k. log_term W lg (e_index (ents ! j)) = Some (e_term (ents ! j))"
    using c by (auto simp: find_Some_iff)
  have prev: "log_term W lg (Suc idx + j) = Some (e_term (ents ! j))" if "j < k" for j
    using k that numbered_nth[OF num, of j] by auto
  have "Suc idx + k \<le> log_last W lg + 1"
  proof (cases k)
    case (Suc j)
    have "e_term (ents ! j) > 0" using pos k(1) Suc by simp
    then have "Suc idx + j \<le> log_last W lg"
      using prev[of j] Suc by (auto simp: log_term_def split: if_splits)
    then show ?thesis using Suc by simp
  qed (use idx in simp)
  then show ?thesis using k(1,2) prev numbered_nth[OF num k(1)] by auto
qed

text \<open>The terms of a list of entries, as a log that starts at \<open>base\<close> sees them.\<close>

lemma log_term_inside:
  "log_base W lg < i \<Longrightarrow> i \<le> log_last W lg \<Longrightarrow> log_term W lg i = Some (e_term (log_ents W lg ! (i - log_base W lg - 1)))"
  by (simp add: log_term_def)

lemma maybe_append_agrees:
  assumes "log_base W lg1 = log_base W lg" "log_base W lg \<le> idx" "idx \<le> log_last W lg"
    "log_ents W lg1 = take (idx + k - log_base W lg) (log_ents W lg) @ drop k ents"
    "idx + k \<le> log_last W lg"
    "\<forall>j < k. log_term W lg (Suc idx + j) = Some (e_term (ents ! j))"
    "k \<le> length ents" "j < length ents"
  shows "log_term W lg1 (Suc idx + j) = Some (e_term (ents ! j))"
proof -
  have last1: "log_last W lg1 = idx + length ents"
    using assms(1-5,7) by (simp add: log_last_def)
  have "log_ents W lg1 ! (idx + j - log_base W lg) = (if j < k then log_ents W lg ! (idx + j - log_base W lg) else ents ! j)"
    using assms(2,4,5,7,8) by (auto simp: nth_append log_last_def)
  moreover have "log_term W lg (Suc idx + j) = Some (e_term (log_ents W lg ! (idx + j - log_base W lg)))" if "j < k"
    using that assms(2,5) by (simp add: log_term_inside)
  ultimately show ?thesis
    using assms(1,2,6,8) last1 by (auto simp: log_term_inside)
qed

lemma rl_maybe_append_no_conflict:
  assumes wf: "log_wf W lg" and m: "log_term W lg idx = Some t" and idx: "idx \<le> log_last W lg"
    and num: "numbered (Suc idx) ents" and pos: "\<forall>e \<in> set ents. 0 < e_term e"
    and c: "find (\<lambda>e. log_term W lg (e_index e) \<noteq> Some (e_term e)) ents = None"
  shows "\<exists>lg'. rl_maybe_append E idx t com ents lg = Some (Some (0, idx + length ents), lg') \<and>
    log_wf W lg' \<and> lg' = lg\<lparr>rl_committed := max (rl_committed lg) (min com (idx + length ents))\<rparr> \<and>
    (\<forall>j < length ents. log_term W lg (Suc idx + j) = Some (e_term (ents ! j)))"
proof -
  have agree: "log_term W lg (Suc idx + j) = Some (e_term (ents ! j))" if "j < length ents" for j
  proof -
    have "log_term W lg (e_index (ents ! j)) = Some (e_term (ents ! j))"
      using c that by (auto simp: find_None_iff)
    then show ?thesis using numbered_nth[OF num that] by simp
  qed
  have "idx + length ents \<le> log_last W lg"
  proof (cases "ents = []")
    case False
    then have eq: "Suc idx + (length ents - 1) = idx + length ents" by (cases ents) auto
    have "log_term W lg (idx + length ents) = Some (e_term (last ents))" "0 < e_term (last ents)"
      using agree[of "length ents - 1", unfolded eq] pos False by (simp_all add: last_conv_nth)
    then show ?thesis by (auto simp: log_term_def split: if_splits)
  qed (use idx in simp)
  then have "min com (idx + length ents) \<le> log_last W lg" by simp
  from rl_commit_to_eq[OF wf this] show ?thesis
    using agree c m
    by (simp add: rl_maybe_append_def rl_match_term_eq[OF wf] rl_find_conflict_eq[OF wf] Let_def)
qed

lemma rl_maybe_append_conflict:
  assumes wf: "log_wf W lg" and m: "log_term W lg idx = Some t" and idx: "idx \<le> log_last W lg"
    and com: "rl_committed lg \<le> idx"
    and num: "numbered (Suc idx) ents" and pos: "\<forall>e \<in> set ents. 0 < e_term e"
    and c: "find (\<lambda>e. log_term W lg (e_index e) \<noteq> Some (e_term e)) ents = Some e"
  shows "\<exists>lg'. rl_maybe_append E idx t cm ents lg = Some (Some (e_index e, idx + length ents), lg') \<and>
    log_wf W lg' \<and> rl_store lg' = rl_store lg \<and> log_base W lg' = log_base W lg \<and>
    rl_applied lg' = rl_applied lg \<and> rl_persisted lg' = min (rl_persisted lg) (e_index e - 1) \<and>
    rl_committed lg' = max (rl_committed lg) (min cm (idx + length ents)) \<and>
    log_ents W lg' = take (e_index e - log_base W lg - 1) (log_ents W lg) @ drop (e_index e - idx - 1) ents \<and>
    (\<forall>j < length ents. log_term W lg' (Suc idx + j) = Some (e_term (ents ! j)))"
proof -
  obtain k where k: "k < length ents" "e_index e = Suc idx + k" "idx + k \<le> log_last W lg"
    "\<forall>j < k. log_term W lg (Suc idx + j) = Some (e_term (ents ! j))"
    using find_conflict_first[OF wf num pos idx c] by auto
  have numd: "numbered (e_index e) (drop k ents)" "drop k ents \<noteq> []"
    using numbered_drop[OF num, of k] k by simp_all
  have lim: "rl_committed lg < e_index e" "e_index e \<le> log_last W lg + 1" using com k by simp_all
  obtain lg1 where lg1: "rl_append E (drop k ents) lg = Some (e_index e + length (drop k ents) - 1, lg1)"
    "rl_store lg1 = rl_store lg" "rl_committed lg1 = rl_committed lg" "rl_applied lg1 = rl_applied lg"
    "rl_persisted lg1 = rl_persisted lg" "log_base W lg1 = log_base W lg"
    "log_ents W lg1 = take (e_index e - log_base W lg - 1) (log_ents W lg) @ drop k ents"
    "log_wf W (lg1\<lparr>rl_persisted := min (rl_persisted lg) (e_index e - 1)\<rparr>)"
    using rl_append_eq[OF wf numd lim] by blast
  define lg2 where "lg2 = lg1\<lparr>rl_persisted := min (rl_persisted lg) (e_index e - 1)\<rparr>"
  have wf2: "log_wf W lg2" using lg1(8) by (simp add: lg2_def)
  have base: "log_base W lg \<le> idx" using wf com by (simp add: log_wf_def)
  have agree: "log_term W lg2 (Suc idx + j) = Some (e_term (ents ! j))" if "j < length ents" for j
    using maybe_append_agrees[of lg1 lg idx k ents j] lg1(6,7) base idx k that by (simp add: lg2_def)
  have "min cm (idx + length ents) \<le> log_last W lg2"
    using lg1(6,7) k base by (simp add: log_last_def lg2_def)
  note commit = rl_commit_to_eq[OF wf2 this]
  have lg2: "(if rl_persisted lg1 > e_index e - 1 then lg1\<lparr>rl_persisted := e_index e - 1\<rparr> else lg1) = lg2"
    using lg1(5) by (auto simp: min_def lg2_def)
  have "rl_maybe_append E idx t cm ents lg = Some (Some (e_index e, idx + length ents),
      lg2\<lparr>rl_committed := max (rl_committed lg2) (min cm (idx + length ents))\<rparr>)"
    using k(1,2) lim m c commit(1) lg1(1) lg2
    by (cases "idx + k < rl_persisted lg1")
      (simp_all add: rl_maybe_append_def rl_match_term_eq[OF wf] rl_find_conflict_eq[OF wf] usub_def
        vec_range_def Let_def)
  then show ?thesis using commit(2) agree lg1 k(2) by (simp add: lg2_def)
qed

end

subsection \<open>Reading ranges\<close>

definition log_range :: "'s store_view \<Rightarrow> 's raft_log \<Rightarrow> nat \<Rightarrow> nat \<Rightarrow> entry list" where
  "log_range W lg lo hi = take (hi - lo) (drop (lo - log_base W lg - 1) (log_ents W lg))"

lemma log_range_refl [simp]: "log_range W lg h h = []"
  by (simp add: log_range_def)

lemma limit_count_append:
  "limit_count cs mx sz P < length P \<Longrightarrow> limit_count cs mx sz (P @ U) = limit_count cs mx sz P"
  by (induction cs mx sz P rule: limit_count.induct) (auto simp: Let_def)

lemma limit_size_append_short:
  assumes "length (limit_size cs P mx) < length P"
  shows "limit_size cs (P @ U) mx = limit_size cs P mx"
proof -
  obtain m where m: "mx = Some m" "m \<noteq> NO_LIMIT" "length P > 1"
    using assms by (auto simp: limit_size_def split: option.splits if_splits)
  then have "limit_count cs m 0 P < length P" using assms by (simp add: limit_size_def)
  then show ?thesis using m by (simp add: limit_size_def limit_count_append)
qed

lemma limit_size_full: "\<not> length (limit_size cs P mx) < length P \<Longrightarrow> limit_size cs P mx = P"
  using limit_size_prefix[of cs P mx] by auto

text \<open>A storage that answered a read.\<close>

lemma same_view_log:
  assumes "same_view W (rl_store lg) s'"
  shows "log_base W (lg\<lparr>rl_store := s'\<rparr>) = log_base W lg" "log_ents W (lg\<lparr>rl_store := s'\<rparr>) = log_ents W lg"
    "log_base_term W (lg\<lparr>rl_store := s'\<rparr>) = log_base_term W lg"
    "log_wf W lg \<Longrightarrow> log_wf W (lg\<lparr>rl_store := s'\<rparr>)"
proof -
  show eqs: "log_base W (lg\<lparr>rl_store := s'\<rparr>) = log_base W lg" "log_ents W (lg\<lparr>rl_store := s'\<rparr>) = log_ents W lg"
    "log_base_term W (lg\<lparr>rl_store := s'\<rparr>) = log_base_term W lg"
    using assms by (auto simp: same_view_def log_base_def log_ents_def log_stable_def log_base_term_def
        split: option.split)
  show "log_wf W lg \<Longrightarrow> log_wf W (lg\<lparr>rl_store := s'\<rparr>)"
    using assms eqs by (auto simp: log_wf_def same_view_def log_last_def split: option.splits)
qed

context log_storage
begin

lemma rl_must_check_eq:
  assumes "log_wf W lg"
  shows "rl_must_check_outofbounds E lg lo hi =
    (if hi < lo then None else if lo \<le> log_base W lg then Some (Some (Store Compacted))
     else if log_last W lg + 1 < hi then None else Some None)"
proof -
  have "log_base W lg \<le> log_last W lg" by (simp add: log_last_def)
  then show ?thesis
    by (auto simp: rl_must_check_outofbounds_def rl_first_index_eq[OF assms] rl_last_index_eq[OF assms] usub_def)
qed

lemma log_range_stored:
  assumes "log_wf W lg" "log_base W lg < lo" "lo \<le> hi" "hi \<le> u_offset (rl_unstable lg)"
    "u_snapshot (rl_unstable lg) = None"
  shows "view_range W (rl_store lg) lo hi = log_range W lg lo hi"
proof -
  have base: "log_base W lg = sv_base W (rl_store lg)" using assms(5) by (simp add: log_base_def)
  have len: "u_offset (rl_unstable lg) - log_base W lg - 1 \<le> length (sv_ents W (rl_store lg))"
    using assms(1,5) by (auto simp: log_wf_def base)
  show ?thesis
  proof (rule nth_equalityI)
    show "length (view_range W (rl_store lg) lo hi) = length (log_range W lg lo hi)"
      using assms(2-4) len log_wf_offset(1)[OF assms(1)]
      by (simp add: view_range_def log_range_def log_ents_def base)
    fix k assume "k < length (view_range W (rl_store lg) lo hi)"
    then have "lo + k - Suc (log_base W lg) < u_offset (rl_unstable lg) - Suc (log_base W lg)" "k < hi - lo"
      using assms(2-4) by (auto simp: view_range_def)
    then show "view_range W (rl_store lg) lo hi ! k = log_range W lg lo hi ! k"
      using assms(2-5) len
      by (simp add: view_range_def log_range_def log_ents_def log_stable_def base nth_append)
  qed
qed

lemma log_range_tail:
  assumes "log_wf W lg" "u_offset (rl_unstable lg) \<le> lo" "lo \<le> hi" "hi \<le> log_last W lg + 1"
  shows "unstable_slice (rl_unstable lg) lo hi = Some (log_range W lg lo hi)"
proof -
  note off = log_wf_offset[OF assms(1)]
  have "drop (lo - log_base W lg - 1) (log_ents W lg) =
      drop (lo - u_offset (rl_unstable lg)) (u_entries (rl_unstable lg))"
    using assms(2) off by (simp add: log_ents_def)
  moreover have "hi \<le> u_offset (rl_unstable lg) + length (u_entries (rl_unstable lg))"
    using assms(4) off by linarith
  ultimately show ?thesis
    using assms(2,3) by (simp add: unstable_slice_def unstable_must_check_outofbounds_def usub_def
        vec_range_def log_range_def Let_def) linarith
qed

lemma log_range_split:
  assumes "log_base W lg < lo" "lo \<le> mid" "mid \<le> hi"
  shows "log_range W lg lo hi = log_range W lg lo mid @ log_range W lg mid hi"
proof -
  have "hi - lo = (mid - lo) + (hi - mid)" "mid - log_base W lg - 1 = (mid - lo) + (lo - log_base W lg - 1)"
    using assms by linarith+
  then show ?thesis by (simp only: log_range_def take_add drop_drop)
qed

text \<open>The part of a slice after the storage has answered.\<close>

lemma slice_rest:
  fixes cs :: "entry \<Rightarrow> nat" and mx :: "nat option"
  assumes wf: "log_wf W lg" and rng: "log_base W lg < lo" "lo < hi" "hi \<le> log_last W lg + 1"
    and lo: "lo < u_offset (rl_unstable lg)"
  defines "uh \<equiv> min hi (u_offset (rl_unstable lg))"
  defines "es \<equiv> limit_size cs (log_range W lg lo uh) mx"
  shows "if length es < uh - lo then limit_size cs (log_range W lg lo hi) mx = es
         else (if hi > u_offset (rl_unstable lg)
               then map_option (\<lambda>us. es @ us)
                 (unstable_slice (rl_unstable lg) (max lo (u_offset (rl_unstable lg))) hi)
               else Some es) = Some (log_range W lg lo hi)"
proof -
  have uh: "lo < uh" "uh \<le> hi" using rng lo by (auto simp: uh_def)
  have lenP: "length (log_range W lg lo uh) = uh - lo"
    using rng uh by (simp add: log_range_def log_last_def)
  have split: "log_range W lg lo hi = log_range W lg lo uh @ log_range W lg uh hi"
    using log_range_split[OF rng(1)] uh by simp
  show ?thesis
  proof (cases "length es < uh - lo")
    case True
    then have "limit_size cs (log_range W lg lo hi) mx = es"
      unfolding split es_def lenP[symmetric] by (rule limit_size_append_short)
    then show ?thesis using True by simp
  next
    case False
    then have eq: "es = log_range W lg lo uh"
      unfolding es_def lenP[symmetric] by (rule limit_size_full)
    show ?thesis
    proof (cases "u_offset (rl_unstable lg) < hi")
      case off: True
      then have "uh = u_offset (rl_unstable lg)" by (simp add: uh_def)
      then show ?thesis
        using False off lo split log_range_tail[OF wf, of uh hi] uh rng(3) by (simp add: eq max_def)
    next
      case off: False
      then have "uh = hi" by (simp add: uh_def)
      then show ?thesis using False off eq by simp
    qed
  qed
qed

lemma rl_slice_across:
  assumes wf: "log_wf W lg" and rng: "log_base W lg < lo" "lo < hi" "hi \<le> log_last W lg + 1"
    and lo: "lo < u_offset (rl_unstable lg)"
  shows "\<exists>r s'. rl_slice E lo hi mx ctx lg = Some (r, lg\<lparr>rl_store := s'\<rparr>) \<and>
    same_view W (rl_store lg) s' \<and>
    (r = Inr (limit_size (env_compute_size E) (log_range W lg lo hi) mx) \<or>
     r = Inl (Store LogTemporarilyUnavailable) \<and> can_async ctx)"
proof -
  let ?off = "u_offset (rl_unstable lg)" and ?lim = "\<lambda>es. limit_size (env_compute_size E) es mx"
  let ?uh = "min hi ?off"
  have chk: "rl_must_check_outofbounds E lg lo hi = Some None"
    using rng by (simp add: rl_must_check_eq[OF wf])
  have none: "u_snapshot (rl_unstable lg) = None"
    using wf lo rng(1) by (auto simp: log_wf_def log_base_def split: option.splits)
  then have base: "log_base W lg = sv_base W (rl_store lg)" by (simp add: log_base_def)
  have read: "sv_ok W (rl_store lg)" "sv_base W (rl_store lg) < lo" "lo < ?uh"
    "?uh \<le> sv_base W (rl_store lg) + length (sv_ents W (rl_store lg)) + 1"
    using wf rng lo none by (auto simp: log_wf_def base)
  have P: "view_range W (rl_store lg) lo ?uh = log_range W lg lo ?uh"
    using log_range_stored[OF wf rng(1) _ _ none, of ?uh] read(3) by simp
  obtain r s' where s': "st_entries E (rl_store lg) lo ?uh mx ctx = Some (r, s')" "same_view W (rl_store lg) s'"
    "r = Inr (?lim (log_range W lg lo ?uh)) \<or> r = Inl (Store LogTemporarilyUnavailable) \<and> can_async ctx"
    using read_entries[OF read, of mx ctx] P by auto
  have "rl_slice E lo hi mx ctx lg =
      Some (case r of Inl e \<Rightarrow> Inl e | Inr _ \<Rightarrow> Inr (?lim (log_range W lg lo hi)), lg\<lparr>rl_store := s'\<rparr>)"
  proof (cases r)
    case (Inl e)
    then show ?thesis using rng lo chk s'(1,3) by (auto simp: rl_slice_def)
  next
    case (Inr es)
    then have es: "es = ?lim (log_range W lg lo ?uh)" using s'(3) by simp
    note rest = slice_rest[OF wf rng lo, of "env_compute_size E" mx, folded es]
    show ?thesis
    proof (cases "length es < ?uh - lo")
      case True
      then have "?lim (log_range W lg lo hi) = es" using rest by simp
      then show ?thesis using rng lo chk s'(1) Inr True by (simp add: rl_slice_def Let_def)
    next
      case False
      then have "(if hi > ?off then map_option (\<lambda>us. es @ us) (unstable_slice (rl_unstable lg) (max lo ?off) hi)
          else Some es) = Some (log_range W lg lo hi)" using rest by simp
      then show ?thesis using rng lo chk s'(1) Inr False
        by (cases "?off < hi") (auto simp: rl_slice_def Let_def)
    qed
  qed
  then show ?thesis using s'(2,3) by auto
qed

lemma rl_slice_eq:
  assumes wf: "log_wf W lg" and rng: "log_base W lg < lo" "lo \<le> hi" "hi \<le> log_last W lg + 1"
  shows "\<exists>r s'. rl_slice E lo hi mx ctx lg = Some (r, lg\<lparr>rl_store := s'\<rparr>) \<and>
    same_view W (rl_store lg) s' \<and>
    (r = Inr (limit_size (env_compute_size E) (log_range W lg lo hi) mx) \<or>
     r = Inl (Store LogTemporarilyUnavailable) \<and> can_async ctx)"
proof -
  have chk: "rl_must_check_outofbounds E lg lo hi = Some None"
    using rng by (simp add: rl_must_check_eq[OF wf])
  have self: "lg\<lparr>rl_store := rl_store lg\<rparr> = lg" "same_view W (rl_store lg) (rl_store lg)"
    using wf by (simp_all add: same_view_def log_wf_def)
  consider "lo = hi" | "lo < hi" "u_offset (rl_unstable lg) \<le> lo" | "lo < hi" "lo < u_offset (rl_unstable lg)"
    using rng(2) by linarith
  then show ?thesis
  proof cases
    case 1
    then show ?thesis using chk self by (intro exI[of _ "Inr []"] exI[of _ "rl_store lg"]) (simp add: rl_slice_def)
  next
    case 2
    then show ?thesis
      using chk log_range_tail[OF wf 2(2) rng(2,3)] self
      by (intro exI[of _ "Inr (limit_size (env_compute_size E) (log_range W lg lo hi) mx)"]
          exI[of _ "rl_store lg"]) (simp add: rl_slice_def max_def)
  next
    case 3
    then show ?thesis using rl_slice_across[OF wf rng(1) 3(1) rng(3) 3(2)] by blast
  qed
qed

lemma rl_next_entries_since_eq:
  assumes wf: "log_wf W lg"
  shows "\<exists>s'. same_view W (rl_store lg) s' \<and> rl_next_entries_since E since mx lg =
    (let lo = max (since + 1) (log_base W lg + 1); hi = min (rl_committed lg) (rl_persisted lg) + 1
     in if lo < hi then Some (Some (limit_size (env_compute_size E) (log_range W lg lo hi) mx), lg\<lparr>rl_store := s'\<rparr>)
        else Some (None, lg))"
proof -
  let ?lo = "max (since + 1) (log_base W lg + 1)" and ?hi = "min (rl_committed lg) (rl_persisted lg) + 1"
  have self: "same_view W (rl_store lg) (rl_store lg)" using wf by (simp add: same_view_def log_wf_def)
  show ?thesis
  proof (cases "?lo < ?hi")
    case True
    have "?hi \<le> log_last W lg + 1" using wf by (auto simp: log_wf_def)
    then obtain r s' where s': "rl_slice E ?lo ?hi mx GenReady lg = Some (r, lg\<lparr>rl_store := s'\<rparr>)"
      "same_view W (rl_store lg) s'"
      "r = Inr (limit_size (env_compute_size E) (log_range W lg ?lo ?hi) mx)"
      using rl_slice_eq[OF wf, of ?lo ?hi mx GenReady] True less_le_trans[OF lessI max.cobounded2]
      by (metis can_async.simps(3) less_imp_le Suc_eq_plus1)
    then show ?thesis using True
      by (auto simp: rl_next_entries_since_def rl_first_index_eq[OF wf] unwrap_def Let_def)
  next
    case False
    then show ?thesis using self
      by (auto simp: rl_next_entries_since_def rl_first_index_eq[OF wf] Let_def)
  qed
qed

lemma rl_maybe_commit_eq:
  assumes wf: "log_wf W lg" and t: "0 < t"
  shows "rl_maybe_commit E max_index t lg =
      (if rl_committed lg < max_index \<and> log_term W lg max_index = Some t
       then Some (True, lg\<lparr>rl_committed := max_index\<rparr>) else Some (False, lg)) \<and>
    (rl_committed lg < max_index \<and> log_term W lg max_index = Some t \<longrightarrow>
       log_wf W (lg\<lparr>rl_committed := max_index\<rparr>))"
proof (cases "rl_committed lg < max_index \<and> log_term W lg max_index = Some t")
  case True
  then have "max_index \<le> log_last W lg" using t by (auto simp: log_term_def split: if_splits)
  moreover have "max (rl_committed lg) max_index = max_index" using True by simp
  ultimately show ?thesis
    using True rl_commit_to_eq[OF wf, of max_index]
    by (simp add: rl_maybe_commit_def rl_term_eq[OF wf])
next
  case False
  then show ?thesis
    by (auto simp: rl_maybe_commit_def rl_term_eq[OF wf] split: option.splits)
qed

lemma rl_restore_eq:
  assumes wf: "log_wf W lg" and "rl_committed lg \<le> snap_index snap"
  shows "\<exists>lg'. rl_restore snap lg = Some lg' \<and> log_wf W lg' \<and> log_base W lg' = snap_index snap \<and>
    log_ents W lg' = [] \<and> log_base_term W lg' = Some (snap_term snap) \<and>
    rl_committed lg' = snap_index snap \<and> rl_applied lg' = rl_applied lg"
  using assms
  by (auto simp: rl_restore_def unstable_restore_def log_wf_def log_base_def log_ents_def log_stable_def
      log_base_term_def log_last_def unstable_sized_def Let_def)

end

section \<open>Properties of the log\<close>

definition sample_log :: "mem_storage raft_log" where
  "sample_log = \<lparr>rl_store = sample_store,
     rl_unstable = \<lparr>u_snapshot = None, u_entries = [sample_entry 4 2], u_entries_size = 12, u_offset = 4\<rparr>,
     rl_committed = 2, rl_persisted = 3, rl_applied = 1\<rparr>"

lemma sample_log_view:
  "log_base mem_view sample_log = 0" "log_last mem_view sample_log = 4"
  "log_ents mem_view sample_log = [sample_entry 1 1, sample_entry 2 1, sample_entry 3 2, sample_entry 4 2]"
  "log_base_term mem_view sample_log = Some 0"
  by (simp_all add: log_base_def log_last_def log_ents_def log_stable_def log_base_term_def sample_log_def
      mem_view_def mem_base_def mem_first_index_def sample_store_defs entry_default_def)

lemma sample_log_wf: "log_wf mem_view sample_log"
  using sample_store_ok sample_log_view(1,2)
  by (simp add: log_wf_def sample_log_def unstable_sized_def entry_approximate_size_def numbered_Cons
      mem_base_def mem_first_index_def)
    (simp add: sample_store_defs entry_default_def)

lemma sample_log_term:
  "log_term mem_view sample_log 2 = Some 1" "log_term mem_view sample_log 3 = Some 2"
  "log_term mem_view sample_log 4 = Some 2" "log_term mem_view sample_log 0 = Some 0"
  by (simp_all add: log_term_def sample_log_view)

lemma sample_log_marks: "rl_committed sample_log = 2" "rl_applied sample_log = 1"
  by (simp_all add: sample_log_def)



text \<open>
  C22. Reading a range of the log. Over a storage that keeps its contract, \<open>slice(low, high)\<close> on a
  well-formed log panics iff \<open>low > high\<close> or, for a range that is not compacted, \<open>high\<close> is beyond
  the end; it reports \<open>Compacted\<close> iff \<open>low\<close> is at or before the base; and otherwise it returns
  exactly the size-limited prefix of the entries of the range, whether they lie in the storage, in
  the unstable tail or across both (or, for a caller that can wait, that they are not available
  yet). The contents of the log do not change.
\<close>

theorem slice_spec:
  assumes env: "log_storage E W" and wf: "log_wf W lg"
  shows "if high < low \<or> (log_base W lg < low \<and> log_last W lg + 1 < high)
    then rl_slice E low high mx ctx lg = None
    else if low \<le> log_base W lg then rl_slice E low high mx ctx lg = Some (Inl (Store Compacted), lg)
    else \<exists>r lg'. rl_slice E low high mx ctx lg = Some (r, lg') \<and> log_wf W lg' \<and>
      log_ents W lg' = log_ents W lg \<and>
      (r = Inr (limit_size (env_compute_size E) (log_range W lg low high) mx) \<or>
       r = Inl (Store LogTemporarilyUnavailable) \<and> can_async ctx)"
proof -
  have refused: "high < low \<or> (log_base W lg < low \<and> log_last W lg + 1 < high) \<Longrightarrow>
      rl_slice E low high mx ctx lg = None"
    by (auto simp: rl_slice_def log_storage.rl_must_check_eq[OF env wf])
  have compacted: "\<not> high < low \<Longrightarrow> low \<le> log_base W lg \<Longrightarrow>
      rl_slice E low high mx ctx lg = Some (Inl (Store Compacted), lg)"
    by (simp add: rl_slice_def log_storage.rl_must_check_eq[OF env wf])
  have read: "\<exists>r lg'. rl_slice E low high mx ctx lg = Some (r, lg') \<and> log_wf W lg' \<and>
      log_ents W lg' = log_ents W lg \<and>
      (r = Inr (limit_size (env_compute_size E) (log_range W lg low high) mx) \<or>
       r = Inl (Store LogTemporarilyUnavailable) \<and> can_async ctx)"
    if "log_base W lg < low" "low \<le> high" "high \<le> log_last W lg + 1"
    using log_storage.rl_slice_eq[OF env wf that, of mx ctx] same_view_log wf by metis
  show ?thesis using refused compacted read by (simp add: not_less not_le)
qed

theorem slice_spec_witness:
  "\<exists>lg'. rl_slice sample_env 2 5 None GenReady sample_log =
     Some (Inr [sample_entry 2 1, sample_entry 3 2, sample_entry 4 2], lg')"
  using slice_spec[OF sample_env_storage sample_log_wf, of 5 2 None GenReady]
  by (auto simp: sample_log_view log_range_def)

text \<open>
  C31. \<open>find_conflict_by_term\<close>, with which both sides of a rejected append skip over conflicting terms:
  on a well-formed log it returns (for an index inside the log) the largest index up to the given
  one whose term is at most the given term, every position above it having a larger term; if the
  term of the base position is not known the search stops there. The loop ends and never runs
  below index 0. The last hypothesis says that position 0 has no term other than 0.
\<close>

theorem find_conflict_by_term_spec:
  assumes env: "log_storage E W" and wf: "log_wf W lg" and zero: "log_term W lg 0 \<in> {None, Some 0}"
  shows "if log_last W lg < index then rl_find_conflict_by_term E lg index t = Some (index, None)
    else \<exists>j. rl_find_conflict_by_term E lg index t = Some (j, log_term W lg j) \<and> j \<le> index \<and>
      (case log_term W lg j of Some v \<Rightarrow> v \<le> t | None \<Rightarrow> j = log_base W lg) \<and>
      (\<forall>k. j < k \<and> k \<le> index \<longrightarrow> (\<exists>v. log_term W lg k = Some v \<and> t < v))"
  using log_storage.find_conflict_loop_spec[OF env wf zero, of t index]
  by (simp add: rl_find_conflict_by_term_def log_storage.rl_last_index_eq[OF env wf])

theorem find_conflict_by_term_spec_witness:
  "rl_find_conflict_by_term sample_env sample_log 4 1 = Some (2, Some 1)"
proof -
  obtain j where j: "rl_find_conflict_by_term sample_env sample_log 4 1 = Some (j, log_term mem_view sample_log j)"
    "j \<le> 4" "case log_term mem_view sample_log j of Some v \<Rightarrow> v \<le> 1 | None \<Rightarrow> j = log_base mem_view sample_log"
    "\<forall>k. j < k \<and> k \<le> 4 \<longrightarrow> (\<exists>v. log_term mem_view sample_log k = Some v \<and> 1 < v)"
    using find_conflict_by_term_spec[OF sample_env_storage sample_log_wf, of 4 1]
    by (auto simp: sample_log_term sample_log_view)
  have "\<not> j < 2" using j(4) sample_log_term(1) by (auto dest: spec[of _ 2])
  moreover have "j \<noteq> 3" "j \<noteq> 4" using j(3) sample_log_term(2,3) by auto
  ultimately have "j = 2" using j(2) by linarith
  then show ?thesis using j(1) sample_log_term(1) by simp
qed

text \<open>
  What is handed to the application. On a well-formed log, \<open>next_entries_since(since)\<close> returns
  exactly the entries after \<open>since\<close> that are both committed and persisted (up to the size limit,
  and at least one of them when there is one), in order; nothing beyond the committed or the
  persisted index is ever handed out.
\<close>

theorem next_entries_since_spec:
  assumes env: "log_storage E W" and wf: "log_wf W lg"
  shows "\<exists>lg'. log_wf W lg' \<and> log_ents W lg' = log_ents W lg \<and>
    rl_next_entries_since E since mx lg =
    (let lo = max (since + 1) (log_base W lg + 1); hi = min (rl_committed lg) (rl_persisted lg) + 1
     in Some (if lo < hi then Some (limit_size (env_compute_size E) (log_range W lg lo hi) mx) else None, lg'))"
proof -
  obtain s' where s': "same_view W (rl_store lg) s'" "rl_next_entries_since E since mx lg =
    (let lo = max (since + 1) (log_base W lg + 1); hi = min (rl_committed lg) (rl_persisted lg) + 1
     in if lo < hi then Some (Some (limit_size (env_compute_size E) (log_range W lg lo hi) mx), lg\<lparr>rl_store := s'\<rparr>)
        else Some (None, lg))"
    using log_storage.rl_next_entries_since_eq[OF env wf] by blast
  show ?thesis
  proof (cases "max (since + 1) (log_base W lg + 1) < min (rl_committed lg) (rl_persisted lg) + 1")
    case True
    then show ?thesis
      using s'(2) same_view_log(2)[OF s'(1)] same_view_log(4)[OF s'(1) wf]
      by (intro exI[of _ "lg\<lparr>rl_store := s'\<rparr>"]) (simp add: Let_def)
  next
    case False
    then show ?thesis using s'(2) wf by (intro exI[of _ lg]) (auto simp: Let_def)
  qed
qed

theorem next_entries_since_spec_witness:
  "\<exists>lg'. rl_next_entries_since sample_env 1 None sample_log = Some (Some [sample_entry 2 1], lg')"
  using next_entries_since_spec[OF sample_env_storage sample_log_wf, of 1 None]
  by (auto simp: sample_log_view log_range_def) (auto simp: sample_log_def)

text \<open>
  A leader's \<open>maybe_commit\<close> advances the committed index only to a larger index whose entry has
  the given (current, hence positive) term, and then does so without a panic; otherwise the log does
  not change. So the committed index never decreases and never jumps to an entry of an older term.
\<close>

theorem maybe_commit_current_term:
  assumes env: "log_storage E W" and wf: "log_wf W lg" and t: "0 < t"
  shows "rl_maybe_commit E max_index t lg =
      (if rl_committed lg < max_index \<and> log_term W lg max_index = Some t
       then Some (True, lg\<lparr>rl_committed := max_index\<rparr>) else Some (False, lg)) \<and>
    (rl_committed lg < max_index \<and> log_term W lg max_index = Some t \<longrightarrow>
       log_wf W (lg\<lparr>rl_committed := max_index\<rparr>))"
  using log_storage.rl_maybe_commit_eq[OF assms] .

theorem maybe_commit_current_term_witness:
  "rl_maybe_commit sample_env 4 2 sample_log = Some (True, sample_log\<lparr>rl_committed := 4\<rparr>) \<and>
   rl_maybe_commit sample_env 4 3 sample_log = Some (False, sample_log)"
  using maybe_commit_current_term[OF sample_env_storage sample_log_wf, of 2 4]
    maybe_commit_current_term[OF sample_env_storage sample_log_wf, of 3 4]
  by (simp add: sample_log_term sample_log_marks)

end
