(* ===== verification/Quorum.thy ===== *)
theory Quorum
  imports Util
begin

text \<open>
  Majority and joint quorums (\<open>raft-rs/src/quorum.rs\<close>, \<open>quorum/majority.rs\<close>, \<open>quorum/joint.rs\<close>). A
  \<open>MajorityConfig\<close> is its set of voters. The iteration order of a hash set is unspecified in the
  code; the model visits identifiers in ascending order.
\<close>

datatype vote_result = Pending | Lost | Won

record ack_index =
  ai_index :: nat
  ai_group_id :: nat

definition ack_index_default :: ack_index where
  "ack_index_default = \<lparr>ai_index = 0, ai_group_id = 0\<rparr>"

text \<open>The trait \<open>AckedIndexer\<close>: a lookup from voters to acknowledged positions.\<close>

type_synonym acked_indexer = "nat \<Rightarrow> ack_index option"

type_synonym majority_config = "nat set"

definition majority_raw_slice :: "majority_config \<Rightarrow> nat list" where
  "majority_raw_slice voters = sorted_list_of_set voters"

definition majority_slice :: "majority_config \<Rightarrow> nat list" where
  "majority_slice voters = sort (majority_raw_slice voters)"

text \<open>The scan over the sorted positions: \<open>Inl\<close> is the early return, \<open>Inr\<close> the final \<open>single_group\<close>.\<close>

fun group_scan :: "nat \<Rightarrow> nat \<Rightarrow> bool \<Rightarrow> ack_index list \<Rightarrow> (nat \<times> bool) + bool" where
  "group_scan quorum_commit_index checked_group_id single_group [] = Inr single_group"
| "group_scan quorum_commit_index checked_group_id single_group (m # ms) =
     (if ai_group_id m = 0 then group_scan quorum_commit_index checked_group_id False ms
      else if checked_group_id = 0
      then group_scan quorum_commit_index (ai_group_id m) single_group ms
      else if checked_group_id = ai_group_id m
      then group_scan quorum_commit_index checked_group_id single_group ms
      else Inl (min (ai_index m) quorum_commit_index, True))"

definition committed_of_matched :: "bool \<Rightarrow> ack_index list \<Rightarrow> (nat \<times> bool) panics" where
  "committed_of_matched use_group_commit matched0 =
     (let matched = sort_key (\<lambda>m. - int (ai_index m)) matched0;
          quorum = majority (length matched)
      in do {
        quorum_index \<leftarrow> vec_get matched (quorum - 1);
        if \<not> use_group_commit then Some (ai_index quorum_index, False)
        else
          let quorum_commit_index = ai_index quorum_index;
              checked_group_id = ai_group_id quorum_index
          in case group_scan quorum_commit_index checked_group_id True matched of
               Inl r \<Rightarrow> Some r
             | Inr single_group \<Rightarrow>
                 if single_group then Some (quorum_commit_index, False)
                 else do { m \<leftarrow> vec_last matched; Some (ai_index m, False) } })"

definition majority_committed_index ::
  "majority_config \<Rightarrow> bool \<Rightarrow> acked_indexer \<Rightarrow> (nat \<times> bool) panics" where
  "majority_committed_index voters use_group_commit l =
     (if voters = {} then Some (u64_max, True)
      else committed_of_matched use_group_commit
             (map (\<lambda>v. case l v of None \<Rightarrow> ack_index_default | Some i \<Rightarrow> i)
                (majority_raw_slice voters)))"

fun count_votes :: "(nat \<Rightarrow> bool option) \<Rightarrow> nat list \<Rightarrow> nat \<times> nat \<Rightarrow> nat \<times> nat" where
  "count_votes check [] (yes, missing) = (yes, missing)"
| "count_votes check (v # vs) (yes, missing) =
     count_votes check vs (case check v of
         Some True \<Rightarrow> (yes + 1, missing)
       | None \<Rightarrow> (yes, missing + 1)
       | _ \<Rightarrow> (yes, missing))"

definition majority_vote_result :: "majority_config \<Rightarrow> (nat \<Rightarrow> bool option) \<Rightarrow> vote_result" where
  "majority_vote_result voters check =
     (if voters = {} then Won
      else
        let (yes, missing) = count_votes check (majority_raw_slice voters) (0, 0);
            q = majority (card voters)
        in if yes \<ge> q then Won else if yes + missing \<ge> q then Pending else Lost)"

record joint_config =
  incoming :: majority_config
  outgoing :: majority_config

definition joint_new :: "nat set \<Rightarrow> joint_config" where
  "joint_new voters = \<lparr>incoming = voters, outgoing = {}\<rparr>"

definition joint_committed_index ::
  "joint_config \<Rightarrow> bool \<Rightarrow> acked_indexer \<Rightarrow> (nat \<times> bool) panics" where
  "joint_committed_index c use_group_commit l = do {
     (i_idx, i_use_gc) \<leftarrow> majority_committed_index (incoming c) use_group_commit l;
     (o_idx, o_use_gc) \<leftarrow> majority_committed_index (outgoing c) use_group_commit l;
     Some (min i_idx o_idx, i_use_gc \<and> o_use_gc) }"

definition joint_vote_result :: "joint_config \<Rightarrow> (nat \<Rightarrow> bool option) \<Rightarrow> vote_result" where
  "joint_vote_result c check =
     (let i = majority_vote_result (incoming c) check;
          o' = majority_vote_result (outgoing c) check
      in if i = Won \<and> o' = Won then Won
         else if i = Lost \<or> o' = Lost then Lost
         else Pending)"

definition joint_clear :: "joint_config \<Rightarrow> joint_config" where
  "joint_clear c = c\<lparr>incoming := {}, outgoing := {}\<rparr>"

definition joint_is_singleton :: "joint_config \<Rightarrow> bool" where
  "joint_is_singleton c \<longleftrightarrow> outgoing c = {} \<and> card (incoming c) = 1"

definition joint_ids :: "joint_config \<Rightarrow> nat list" where
  "joint_ids c = union_iter (incoming c) (outgoing c)"

definition joint_contains :: "joint_config \<Rightarrow> nat \<Rightarrow> bool" where
  "joint_contains c i \<longleftrightarrow> i \<in> incoming c \<or> i \<in> outgoing c"

section \<open>Quorum systems\<close>

text \<open>
  What the protocol needs of a quorum: any two share a member, and adding members keeps a quorum.
  Majorities and joint majorities of the configuration are the two instances; elections and
  commitment are argued once, from these two laws.
\<close>

locale quorum_system =
  fixes is_quorum :: "nat set \<Rightarrow> bool"
  assumes meet: "is_quorum Q \<Longrightarrow> is_quorum R \<Longrightarrow> Q \<inter> R \<noteq> {}"
    and enlarge: "is_quorum Q \<Longrightarrow> Q \<subseteq> R \<Longrightarrow> is_quorum R"
begin

lemma empty_no_quorum: "\<not> is_quorum {}"
  using meet[of "{}" "{}"] by auto

lemma one_choice:
  assumes "is_quorum {v. vote v = Some a}" "is_quorum {v. vote v = Some b}"
  shows "a = b"
  using meet[OF assms] by auto

lemma quorum_of_subset: "is_quorum {v \<in> A. P v} \<Longrightarrow> (\<And>v. P v \<Longrightarrow> R v) \<Longrightarrow> is_quorum {v. R v}"
  by (erule enlarge) auto

lemma common_member: "is_quorum {v. P v} \<Longrightarrow> is_quorum {v. R v} \<Longrightarrow> \<exists>v. P v \<and> R v"
  using meet[of "{v. P v}" "{v. R v}"] by blast

end

definition majority_quorum :: "nat set \<Rightarrow> nat set \<Rightarrow> bool" where
  "majority_quorum voters Q \<longleftrightarrow>
     finite voters \<and> voters \<noteq> {} \<and> majority (card voters) \<le> card (voters \<inter> Q)"

definition joint_quorum :: "joint_config \<Rightarrow> nat set \<Rightarrow> bool" where
  "joint_quorum c Q \<longleftrightarrow>
     majority_quorum (incoming c) Q \<and> (outgoing c = {} \<or> majority_quorum (outgoing c) Q)"

lemma card_overlap:
  assumes "finite V" "A \<subseteq> V" "B \<subseteq> V" "card V < card A + card B"
  shows "A \<inter> B \<noteq> {}"
proof
  assume "A \<inter> B = {}"
  then have "card A + card B = card (A \<union> B)"
    using assms finite_subset by (metis card_Un_disjoint)
  also have "\<dots> \<le> card V" using assms by (intro card_mono) auto
  finally show False using assms(4) by simp
qed

lemma majority_quorum_meet:
  assumes "majority_quorum V Q" "majority_quorum V R"
  shows "V \<inter> Q \<inter> R \<noteq> {}"
proof -
  have "(V \<inter> Q) \<inter> (V \<inter> R) \<noteq> {}"
    using assms by (intro card_overlap[of V]) (auto simp: majority_quorum_def majority_def)
  then show ?thesis by blast
qed

lemma majority_quorum_mono: "majority_quorum V Q \<Longrightarrow> V \<inter> Q \<subseteq> R \<Longrightarrow> majority_quorum V R"
  unfolding majority_quorum_def using card_mono[of "V \<inter> R" "V \<inter> Q"] by fastforce

lemma majority_quorum_Int [simp]: "majority_quorum V (V \<inter> Q) = majority_quorum V Q"
  by (simp add: majority_quorum_def)

interpretation mq: quorum_system "majority_quorum voters" for voters
proof unfold_locales
  show "majority_quorum voters Q \<Longrightarrow> majority_quorum voters R \<Longrightarrow> Q \<inter> R \<noteq> {}" for Q R
    using majority_quorum_meet by blast
  show "majority_quorum voters Q \<Longrightarrow> Q \<subseteq> R \<Longrightarrow> majority_quorum voters R" for Q R
    by (erule majority_quorum_mono) auto
qed

interpretation jq: quorum_system "joint_quorum c" for c
proof unfold_locales
  show "joint_quorum c Q \<Longrightarrow> joint_quorum c R \<Longrightarrow> Q \<inter> R \<noteq> {}" for Q R
    unfolding joint_quorum_def using mq.meet by blast
  show "joint_quorum c Q \<Longrightarrow> Q \<subseteq> R \<Longrightarrow> joint_quorum c R" for Q R
    unfolding joint_quorum_def using mq.enlarge by blast
qed

section \<open>Votes\<close>

lemma count_votes_eq:
  "count_votes check vs (y, m) =
     (y + length (filter (\<lambda>v. check v = Some True) vs),
      m + length (filter (\<lambda>v. check v = None) vs))"
  by (induction check vs "(y, m)" arbitrary: y m rule: count_votes.induct)
    (auto split: option.splits)

lemma length_filter_slice:
  "finite V \<Longrightarrow> length (filter P (majority_raw_slice V)) = card (V \<inter> {v. P v})"
  by (simp add: majority_raw_slice_def distinct_length_filter Int_commute)

lemma majority_vote_result_eq:
  assumes "finite V" "V \<noteq> {}"
  shows "majority_vote_result V check =
    (if majority_quorum V {v. check v = Some True} then Won
     else if majority_quorum V {v. check v \<noteq> Some False} then Pending else Lost)"
proof -
  have "V \<inter> {v. check v \<noteq> Some False} =
        (V \<inter> {v. check v = Some True}) \<union> (V \<inter> {v. check v = None})" by auto
  then have "card (V \<inter> {v. check v \<noteq> Some False}) =
        card (V \<inter> {v. check v = Some True}) + card (V \<inter> {v. check v = None})"
    using assms by (simp add: card_Un_disjoint disjoint_iff)
  then show ?thesis
    using assms by (simp add: majority_vote_result_def count_votes_eq length_filter_slice
        majority_quorum_def)
qed

lemma majority_vote_result_empty [simp]: "majority_vote_result {} check = Won"
  by (simp add: majority_vote_result_def)

text \<open>An assignment of further votes to those that have not voted yet.\<close>

definition extends_votes :: "(nat \<Rightarrow> bool option) \<Rightarrow> (nat \<Rightarrow> bool option) \<Rightarrow> bool" where
  "extends_votes check check' \<longleftrightarrow> (\<forall>v. check v \<noteq> None \<longrightarrow> check' v = check v)"

lemma extends_votes_refl [simp]: "extends_votes check check"
  by (simp add: extends_votes_def)

lemma extends_votes_fill: "extends_votes check (\<lambda>v. case check v of None \<Rightarrow> Some b | x \<Rightarrow> x)"
  by (auto simp: extends_votes_def)

lemma majority_won_mono:
  assumes "finite V" "extends_votes check check'" "majority_vote_result V check = Won"
  shows "majority_vote_result V check' = Won"
proof (cases "V = {}")
  case False
  then have "majority_quorum V {v. check v = Some True}"
    using assms by (auto simp: majority_vote_result_eq split: if_splits)
  then have "majority_quorum V {v. check' v = Some True}"
    by (rule mq.enlarge) (use assms(2) in \<open>auto simp: extends_votes_def\<close>)
  then show ?thesis using assms False by (simp add: majority_vote_result_eq)
qed simp

lemma majority_lost_mono:
  assumes "finite V" "extends_votes check check'" "majority_vote_result V check = Lost"
  shows "majority_vote_result V check' = Lost"
proof -
  have V: "V \<noteq> {}" using assms by auto
  have no: "\<not> majority_quorum V {v. check v \<noteq> Some False}"
    using assms V by (auto simp: majority_vote_result_eq split: if_splits)
  have "{v. check' v \<noteq> Some False} \<subseteq> {v. check v \<noteq> Some False}"
    using assms(2) by (auto simp: extends_votes_def)
  moreover have "{v. check' v = Some True} \<subseteq> {v. check v \<noteq> Some False}"
    using assms(2) by (force simp: extends_votes_def)
  ultimately show ?thesis using no assms V mq.enlarge by (auto simp: majority_vote_result_eq)
qed

lemma majority_fill:
  assumes "finite V"
  shows "majority_vote_result V (\<lambda>v. case check v of None \<Rightarrow> Some True | x \<Rightarrow> x) =
           (if majority_vote_result V check = Lost then Lost else Won)"
    and "majority_vote_result V (\<lambda>v. case check v of None \<Rightarrow> Some False | x \<Rightarrow> x) =
           (if majority_vote_result V check = Won then Won else Lost)"
proof -
  let ?t = "\<lambda>v. case check v of None \<Rightarrow> Some True | x \<Rightarrow> x"
  let ?f = "\<lambda>v. case check v of None \<Rightarrow> Some False | x \<Rightarrow> x"
  have sets: "{v. ?t v = Some True} = {v. check v \<noteq> Some False}"
    "{v. ?t v \<noteq> Some False} = {v. check v \<noteq> Some False}"
    "{v. ?f v = Some True} = {v. check v = Some True}"
    "{v. ?f v \<noteq> Some False} = {v. check v = Some True}"
    by (auto split: option.splits)
  have "majority_quorum V {v. check v = Some True} \<Longrightarrow> majority_quorum V {v. check v \<noteq> Some False}"
    by (erule mq.enlarge) auto
  then show "majority_vote_result V ?t = (if majority_vote_result V check = Lost then Lost else Won)"
    using assms by (cases "V = {}") (auto simp: majority_vote_result_eq sets)
  show "majority_vote_result V ?f = (if majority_vote_result V check = Won then Won else Lost)"
    using assms by (cases "V = {}") (auto simp: majority_vote_result_eq sets)
qed

lemma joint_vote_result_cases:
  "joint_vote_result c check = Won \<longleftrightarrow>
     majority_vote_result (incoming c) check = Won \<and> majority_vote_result (outgoing c) check = Won"
  "joint_vote_result c check = Lost \<longleftrightarrow>
     majority_vote_result (incoming c) check = Lost \<or> majority_vote_result (outgoing c) check = Lost"
  by (auto simp: joint_vote_result_def Let_def)

lemma joint_won_iff_quorum:
  assumes "finite (incoming c)" "finite (outgoing c)" "incoming c \<noteq> {}"
  shows "joint_vote_result c check = Won \<longleftrightarrow> joint_quorum c {v. check v = Some True}"
  using assms
  by (cases "outgoing c = {}")
    (auto simp: joint_vote_result_cases joint_quorum_def majority_vote_result_eq)



text \<open>
  Election safety at the level of vote counting: when every voter grants at most one candidate,
  two candidates that both win the count of the same (simple or joint) configuration are the same.
\<close>

theorem joint_election_unique:
  fixes granted :: "nat \<Rightarrow> nat option"
  assumes "finite (incoming c)" "finite (outgoing c)" "incoming c \<noteq> {}"
    and a: "joint_vote_result c (\<lambda>v. map_option (\<lambda>x. x = a) (granted v)) = Won"
    and b: "joint_vote_result c (\<lambda>v. map_option (\<lambda>x. x = b) (granted v)) = Won"
  shows "a = b"
proof (rule jq.one_choice)
  have eq: "{v. map_option (\<lambda>x. x = y) (granted v) = Some True} = {v. granted v = Some y}" for y
    by auto
  show "joint_quorum c {v. granted v = Some a}" "joint_quorum c {v. granted v = Some b}"
    using assms by (simp_all add: joint_won_iff_quorum eq)
qed

theorem joint_election_unique_witness:
  "joint_vote_result \<lparr>incoming = {1, 2, 3}, outgoing = {3, 4}\<rparr>
     (\<lambda>v. map_option (\<lambda>x. x = 3) ([1 \<mapsto> 3, 2 \<mapsto> 2, 3 \<mapsto> 3, 4 \<mapsto> (3::nat)] v)) = Won \<and>
   joint_vote_result \<lparr>incoming = {1, 2, 3}, outgoing = {3, 4}\<rparr>
     (\<lambda>v. map_option (\<lambda>x. x = 2) ([1 \<mapsto> 3, 2 \<mapsto> 2, 3 \<mapsto> 3, 4 \<mapsto> (3::nat)] v)) \<noteq> Won"
proof -
  let ?c = "\<lparr>incoming = {1, 2, 3}, outgoing = {3, 4::nat}\<rparr>"
  let ?g = "[1 \<mapsto> 3, 2 \<mapsto> 2, 3 \<mapsto> 3, 4 \<mapsto> (3::nat)]"
  have "joint_vote_result ?c (\<lambda>v. map_option (\<lambda>x. x = 3) (?g v)) = Won"
    by (simp add: joint_vote_result_def majority_vote_result_def majority_raw_slice_def
        majority_def Let_def)
  then show ?thesis using joint_election_unique[of ?c 3 ?g 2] by auto
qed

section \<open>Committed index\<close>

definition acked :: "acked_indexer \<Rightarrow> nat \<Rightarrow> ack_index" where
  "acked l v = (case l v of None \<Rightarrow> ack_index_default | Some i \<Rightarrow> i)"

text \<open>A threshold characterises a position of a descending list.\<close>

lemma descending_nth_iff:
  fixes ys :: "nat list"
  assumes "sorted_wrt (\<ge>) ys" "k < length ys"
  shows "i \<le> ys ! k \<longleftrightarrow> k < length (filter (\<lambda>y. i \<le> y) ys)"
  using assms
proof (induction ys arbitrary: k)
  case (Cons y ys)
  show ?case
  proof (cases "i \<le> y")
    case True
    then show ?thesis using Cons by (cases k) auto
  next
    case False
    then have "filter (\<lambda>y. i \<le> y) ys = []"
      using Cons.prems(1) by (fastforce simp: filter_empty_conv)
    moreover have "(y # ys) ! k < i"
      using False Cons.prems by (cases k) (auto simp: less_le_trans nth_mem not_le intro: le_less_trans)
    ultimately show ?thesis using False by simp
  qed
qed simp

lemma sorted_desc_key: "sorted_wrt (\<ge>) (map ai_index (sort_key (\<lambda>m. - int (ai_index m)) ms))"
proof -
  have "sorted (map (\<lambda>m. - int (ai_index m)) (sort_key (\<lambda>m. - int (ai_index m)) ms))"
    by (rule sorted_sort_key)
  then show ?thesis by (simp add: sorted_wrt_map)
qed

lemma length_filter_sort_key:
  "length (filter P (sort_key f xs)) = length (filter P xs)"
  by (metis mset_filter mset_sort size_mset)

text \<open>The position of the quorum in the sorted matches, for the voters' acknowledgements.\<close>

lemma quorum_position:
  fixes l :: acked_indexer
  assumes "finite V" "V \<noteq> {}"
  defines "matched \<equiv> sort_key (\<lambda>m. - int (ai_index m)) (map (acked l) (majority_raw_slice V))"
  shows "length matched = card V"
    and "majority (length matched) - 1 < length matched"
    and "i \<le> ai_index (matched ! (majority (length matched) - 1)) \<longleftrightarrow>
           majority_quorum V {v. i \<le> ai_index (acked l v)}"
    and "set matched = acked l ` V"
proof -
  show len: "length matched = card V" by (simp add: matched_def majority_raw_slice_def)
  have "card V > 0" using assms by (simp add: card_gt_0_iff)
  then show lt: "majority (length matched) - 1 < length matched"
    using len by (simp add: majority_def)
  show "set matched = acked l ` V" using assms by (simp add: matched_def majority_raw_slice_def)
  have "length (filter (\<lambda>y. i \<le> y) (map ai_index matched))
      = card (V \<inter> {v. i \<le> ai_index (acked l v)})"
    using assms by (simp add: matched_def filter_map comp_def length_filter_sort_key
        length_filter_slice)
  moreover have "i \<le> map ai_index matched ! (majority (length matched) - 1) \<longleftrightarrow>
      majority (length matched) - 1 < length (filter (\<lambda>y. i \<le> y) (map ai_index matched))"
    by (rule descending_nth_iff) (use lt in \<open>simp_all add: matched_def sorted_desc_key\<close>)
  ultimately show "i \<le> ai_index (matched ! (majority (length matched) - 1)) \<longleftrightarrow>
           majority_quorum V {v. i \<le> ai_index (acked l v)}"
    using assms(1,2) lt len by (auto simp: majority_quorum_def majority_def)
qed

lemma majority_committed_index_eq:
  fixes l :: acked_indexer
  assumes "finite V" "V \<noteq> {}"
  shows "\<exists>q. majority_committed_index V False l = Some (q, False) \<and>
    (\<forall>i. i \<le> q \<longleftrightarrow> majority_quorum V {v. i \<le> ai_index (acked l v)})"
  using quorum_position[OF assms, where l = l] assms(2)
  by (auto simp: majority_committed_index_def committed_of_matched_def Let_def acked_def[abs_def]
      vec_get_lt)

lemma joint_committed_index_eq:
  assumes "finite (incoming c)" "finite (outgoing c)" "incoming c \<noteq> {}"
    and u64: "\<And>v. ai_index (acked l v) \<le> u64_max"
  shows "\<exists>q. joint_committed_index c False l = Some (q, False) \<and>
    (\<forall>i. i \<le> q \<longleftrightarrow> joint_quorum c {v. i \<le> ai_index (acked l v)})"
proof -
  obtain q where q: "majority_committed_index (incoming c) False l = Some (q, False)"
    and qi: "\<And>i. i \<le> q \<longleftrightarrow> majority_quorum (incoming c) {v. i \<le> ai_index (acked l v)}"
    using majority_committed_index_eq[OF assms(1,3)] by blast
  show ?thesis
  proof (cases "outgoing c = {}")
    case True
    obtain v where "q \<le> ai_index (acked l v)"
      using qi[of q] mq.empty_no_quorum[of "incoming c"] by fastforce
    then have "q \<le> u64_max" using u64[of v] by (rule le_trans)
    then show ?thesis using True q qi
      by (auto simp: joint_committed_index_def majority_committed_index_def joint_quorum_def
          min_def)
  next
    case False
    obtain p where "majority_committed_index (outgoing c) False l = Some (p, False)"
      and "\<And>i. i \<le> p \<longleftrightarrow> majority_quorum (outgoing c) {v. i \<le> ai_index (acked l v)}"
      using majority_committed_index_eq[OF assms(2) False] by blast
    then show ?thesis using False q qi
      by (auto simp: joint_committed_index_def joint_quorum_def)
  qed
qed

text \<open>
  C16. Without group commit, the committed index of a configuration is the largest index that a quorum
  has acknowledged: index \<open>i\<close> is at most the result iff the voters that acknowledged \<open>i\<close> form a
  majority of the incoming and, in a joint configuration, of the outgoing voters. The function does
  not panic. The hypothesis says that acknowledged indexes are 64-bit numbers.
\<close>

theorem joint_committed_index_largest:
  assumes "finite (incoming c)" "finite (outgoing c)" "incoming c \<noteq> {}"
    and u64: "\<And>v. ai_index (acked l v) \<le> u64_max"
  shows "\<exists>q. joint_committed_index c False l = Some (q, False) \<and>
    (\<forall>i. i \<le> q \<longleftrightarrow> joint_quorum c {v. i \<le> ai_index (acked l v)})"
  using joint_committed_index_eq[OF assms] .

text \<open>
  The concrete input of the witness: voters 1, 2, 3 acknowledged 5, 3 and 4, so that index 4 is the
  largest one with two acknowledgements.
\<close>

definition sample_acks :: acked_indexer where
  "sample_acks = [1 \<mapsto> \<lparr>ai_index = 5, ai_group_id = 1\<rparr>, 2 \<mapsto> \<lparr>ai_index = 3, ai_group_id = 1\<rparr>,
     3 \<mapsto> \<lparr>ai_index = 4, ai_group_id = 1\<rparr>, 4 \<mapsto> \<lparr>ai_index = 2, ai_group_id = 2\<rparr>]"

lemma sample_acks_le: "ai_index (acked sample_acks v) \<le> u64_max"
  by (auto simp: acked_def sample_acks_def ack_index_default_def)

lemmas committed_eval = joint_committed_index_def majority_committed_index_def
  committed_of_matched_def majority_raw_slice_def vec_get_def majority_def sample_acks_def

theorem joint_committed_index_largest_witness:
  "joint_committed_index (joint_new {1, 2, 3}) False sample_acks = Some (4, False) \<and>
   joint_quorum (joint_new {1, 2, 3}) {v. 4 \<le> ai_index (acked sample_acks v)} \<and>
   \<not> joint_quorum (joint_new {1, 2, 3}) {v. 5 \<le> ai_index (acked sample_acks v)}"
proof -
  have 4: "joint_committed_index (joint_new {1, 2, 3}) False sample_acks = Some (4, False)"
    by (simp add: committed_eval joint_new_def)
  obtain q
    where "joint_committed_index (joint_new {1, 2, 3}) False sample_acks = Some (q, False)"
      and q: "\<And>i. i \<le> q \<longleftrightarrow>
           joint_quorum (joint_new {1, 2, 3}) {v. i \<le> ai_index (acked sample_acks v)}"
    using joint_committed_index_largest[of "joint_new {1, 2, 3}" sample_acks, OF _ _ _ sample_acks_le]
    by (auto simp: joint_new_def)
  then have "q = 4" using 4 by simp
  then show ?thesis using 4 q[of 4] q[of 5] by simp
qed

text \<open>
  A committed index survives the next election: if a configuration reports \<open>q\<close> as committed and a
  candidate wins the vote of the same configuration, some voter both acknowledged \<open>q\<close> and granted
  its vote, so its log restriction protects the entry.
\<close>

theorem commit_meets_election:
  assumes "finite (incoming c)" "finite (outgoing c)" "incoming c \<noteq> {}"
    and com: "joint_committed_index c False l = Some (q, f)"
    and won: "joint_vote_result c check = Won"
  shows "\<exists>v. q \<le> ai_index (acked l v) \<and> check v = Some True"
proof -
  obtain a where a: "majority_committed_index (incoming c) False l = Some (a, False)"
    and ai: "\<And>i. i \<le> a \<longleftrightarrow> majority_quorum (incoming c) {v. i \<le> ai_index (acked l v)}"
    using majority_committed_index_eq[OF assms(1,3)] by blast
  have "q \<le> a" using com a by (auto simp: joint_committed_index_def bind_eq_Some_conv)
  then have "majority_quorum (incoming c) {v. q \<le> ai_index (acked l v)}" using ai by simp
  moreover have "majority_quorum (incoming c) {v. check v = Some True}"
    using won assms(1-3) by (simp add: joint_won_iff_quorum joint_quorum_def)
  ultimately show ?thesis by (rule mq.common_member)
qed

theorem commit_meets_election_witness:
  "\<exists>v. 4 \<le> ai_index (acked sample_acks v) \<and> [1 \<mapsto> False, 2 \<mapsto> True, 3 \<mapsto> True] v = Some True"
proof (rule commit_meets_election)
  let ?c = "joint_new {1, 2, 3}"
  show "finite (incoming ?c)" "finite (outgoing ?c)" "incoming ?c \<noteq> {}"
    by (simp_all add: joint_new_def)
  show "joint_committed_index ?c False sample_acks = Some (4, False)"
    by (simp add: committed_eval joint_new_def)
  show "joint_vote_result ?c [1 \<mapsto> False, 2 \<mapsto> True, 3 \<mapsto> True] = Won"
    by (simp add: joint_new_def joint_vote_result_def majority_vote_result_def
        majority_raw_slice_def majority_def Let_def)
qed

section \<open>Group commit\<close>

text \<open>What the scan finds once a group is fixed: the first position of another group.\<close>

lemma group_scan_fixed:
  assumes "g \<noteq> 0"
  shows "group_scan q g b ms =
    (case find (\<lambda>m. ai_group_id m \<noteq> 0 \<and> ai_group_id m \<noteq> g) ms of
       Some m \<Rightarrow> Inl (min (ai_index m) q, True)
     | None \<Rightarrow> Inr (b \<and> (\<forall>m \<in> set ms. ai_group_id m \<noteq> 0)))"
  using assms by (induction ms arbitrary: b) (auto split: option.splits)

lemma find_descending:
  assumes "sorted_wrt (\<ge>) (map ai_index ms)" "find P ms = Some m"
  shows "i \<le> ai_index m \<longleftrightarrow> (\<exists>x \<in> set ms. P x \<and> i \<le> ai_index x)"
  using assms by (induction ms) (auto split: if_splits dest: order_trans)

definition two_groups :: "ack_index set \<Rightarrow> bool" where
  "two_groups A \<longleftrightarrow> (\<exists>x \<in> A. \<exists>y \<in> A. ai_group_id x \<noteq> 0 \<and> ai_group_id y \<noteq> 0
     \<and> ai_group_id x \<noteq> ai_group_id y)"

lemma two_groups_other:
  assumes "two_groups A" obtains x where "x \<in> A" "ai_group_id x \<noteq> 0" "ai_group_id x \<noteq> g"
  using assms unfolding two_groups_def by metis

text \<open>The scan with a start group, the group of a position that bounds the result.\<close>

lemma group_scan_spec:
  assumes sorted: "sorted_wrt (\<ge>) (map ai_index ms)" and g: "g \<noteq> 0"
    and anchor: "x \<in> set ms" "ai_group_id x = g"
      "\<And>y. y \<in> set ms \<Longrightarrow> ai_group_id y \<noteq> g \<Longrightarrow> min (ai_index y) q \<le> ai_index x"
  shows "(two_groups (set ms) \<longrightarrow> (\<exists>r. group_scan q g b ms = Inl (r, True) \<and>
           (\<forall>i. i \<le> r \<longleftrightarrow> i \<le> q \<and> two_groups {m \<in> set ms. i \<le> ai_index m}))) \<and>
         (\<not> two_groups (set ms) \<longrightarrow>
           group_scan q g b ms = Inr (b \<and> (\<forall>m \<in> set ms. ai_group_id m \<noteq> 0)))"
proof (cases "find (\<lambda>m. ai_group_id m \<noteq> 0 \<and> ai_group_id m \<noteq> g) ms")
  case None
  then have "\<not> two_groups (set ms)"
    by (auto simp: find_None_iff elim!: two_groups_other[of _ g])
  then show ?thesis using None g by (simp add: group_scan_fixed)
next
  case (Some m)
  note P = find_descending[OF sorted Some]
  have m: "m \<in> set ms" "ai_group_id m \<noteq> 0" "ai_group_id m \<noteq> g"
    using Some by (auto simp: find_Some_iff)
  then have "two_groups (set ms)" using anchor(1,2) g by (auto simp: two_groups_def)
  moreover have "i \<le> min (ai_index m) q \<longleftrightarrow> i \<le> q \<and> two_groups {m \<in> set ms. i \<le> ai_index m}" for i
  proof
    assume i: "i \<le> min (ai_index m) q"
    then have "i \<le> ai_index x" using anchor(3)[OF m(1,3)] by (rule le_trans)
    then show "i \<le> q \<and> two_groups {m \<in> set ms. i \<le> ai_index m}"
      using i m anchor(1,2) g by (auto simp: two_groups_def)
  next
    assume r: "i \<le> q \<and> two_groups {m \<in> set ms. i \<le> ai_index m}"
    then obtain y where "y \<in> {m \<in> set ms. i \<le> ai_index m}" "ai_group_id y \<noteq> 0" "ai_group_id y \<noteq> g"
      using two_groups_other[of "{m \<in> set ms. i \<le> ai_index m}" g] by blast
    then show "i \<le> min (ai_index m) q" using P[of i] r by auto
  qed
  ultimately show ?thesis using Some g by (simp add: group_scan_fixed)
qed

lemma group_scan_ungrouped:
  "\<forall>m \<in> set xs. ai_group_id m = 0 \<Longrightarrow>
     group_scan q 0 b (xs @ ys) = group_scan q 0 (b \<and> xs = []) ys"
  by (induction xs arbitrary: b) auto

text \<open>The scan with no start group: it takes the group of the first grouped position.\<close>

lemma group_scan_zero_spec:
  assumes sorted: "sorted_wrt (\<ge>) (map ai_index ms)"
  shows "(two_groups (set ms) \<longrightarrow> (\<exists>r. group_scan q 0 b ms = Inl (r, True) \<and>
           (\<forall>i. i \<le> r \<longleftrightarrow> i \<le> q \<and> two_groups {m \<in> set ms. i \<le> ai_index m}))) \<and>
         (\<not> two_groups (set ms) \<longrightarrow>
           group_scan q 0 b ms = Inr (b \<and> (\<forall>m \<in> set ms. ai_group_id m \<noteq> 0)))"
proof (cases "\<forall>m \<in> set ms. ai_group_id m = 0")
  case True
  then have "group_scan q 0 b ms = Inr (b \<and> ms = [])"
    using group_scan_ungrouped[of ms q b "[]"] by simp
  moreover have "\<not> two_groups (set ms)" using True by (auto simp: two_groups_def)
  moreover have "(\<forall>m \<in> set ms. ai_group_id m \<noteq> 0) \<longleftrightarrow> ms = []" using True by (cases ms) auto
  ultimately show ?thesis by simp
next
  case False
  then obtain xs x ys where ms: "ms = xs @ x # ys" "\<forall>m \<in> set xs. ai_group_id m = 0"
    "ai_group_id x \<noteq> 0"
    using split_list_first_prop[of ms "\<lambda>m. ai_group_id m \<noteq> 0"] by auto
  have scan: "group_scan q 0 b ms = group_scan q (ai_group_id x) (b \<and> xs = []) (x # ys)"
    using ms by (simp add: group_scan_ungrouped)
  have two: "two_groups {m \<in> set ms. P m} = two_groups {m \<in> set (x # ys). P m}" for P
    using ms by (fastforce simp: two_groups_def)
  have two_all: "two_groups (set ms) = two_groups (set (x # ys))"
    using two[of "\<lambda>_. True"] by (simp only: simp_thms Collect_mem_eq)
  have all: "(\<forall>m \<in> set ms. ai_group_id m \<noteq> 0) \<longleftrightarrow>
      xs = [] \<and> (\<forall>m \<in> set (x # ys). ai_group_id m \<noteq> 0)"
    using ms by (cases xs) auto
  have srt: "sorted_wrt (\<ge>) (map ai_index (x # ys))"
    using sorted ms(1) by (simp add: sorted_wrt_append)
  have bound: "min (ai_index y) q \<le> ai_index x" if "y \<in> set (x # ys)" for y
    using srt that by auto
  show ?thesis
    using group_scan_spec[OF srt ms(3), of x q "b \<and> xs = []"] bound two_all
    unfolding scan two all by auto
qed

lemma group_scan_start:
  assumes "sorted_wrt (\<ge>) (map ai_index ms)" "x \<in> set ms"
  shows "(two_groups (set ms) \<longrightarrow>
           (\<exists>r. group_scan (ai_index x) (ai_group_id x) True ms = Inl (r, True) \<and>
             (\<forall>i. i \<le> r \<longleftrightarrow> i \<le> ai_index x \<and> two_groups {m \<in> set ms. i \<le> ai_index m}))) \<and>
         (\<not> two_groups (set ms) \<longrightarrow>
           group_scan (ai_index x) (ai_group_id x) True ms = Inr (\<forall>m \<in> set ms. ai_group_id m \<noteq> 0))"
  using group_scan_spec[OF assms(1) _ assms(2), of "ai_group_id x" "ai_index x" True]
    group_scan_zero_spec[OF assms(1), of "ai_index x" True]
  by (cases "ai_group_id x = 0") auto

lemma descending_last:
  assumes "sorted_wrt (\<ge>) (map ai_index ms)" "ms \<noteq> []"
  shows "ai_index (last ms) = Min (ai_index ` set ms)"
proof -
  have "ai_index (last ms) \<le> ai_index m" if "m \<in> set ms" for m
    using assms(1) that by (induction ms) auto
  then show ?thesis using assms(2) by (intro Min_eqI[symmetric]) auto
qed

lemma two_groups_image:
  "two_groups {m \<in> acked l ` V. i \<le> ai_index m} = two_groups (acked l ` {v \<in> V. i \<le> ai_index (acked l v)})"
  by (auto simp: two_groups_def)

text \<open>
  C34. Group commit. When the voters carry at least two different (non-zero) commit groups, the
  result is the largest index acknowledged by a majority and, beyond that, by members of two
  different groups, and the flag is set. With a single group that everybody belongs to it is the
  plain majority index; when some voter has no group, the flag is not set and only what every voter
  has acknowledged is committed.
\<close>

theorem majority_group_commit_spec:
  fixes l :: acked_indexer
  assumes "finite V" "V \<noteq> {}"
  shows "\<exists>r. majority_committed_index V True l = Some (r, two_groups (acked l ` V)) \<and>
    (if two_groups (acked l ` V)
     then \<forall>i. i \<le> r \<longleftrightarrow> majority_quorum V {v. i \<le> ai_index (acked l v)}
                    \<and> two_groups (acked l ` {v \<in> V. i \<le> ai_index (acked l v)})
     else if \<forall>v \<in> V. ai_group_id (acked l v) \<noteq> 0
     then \<forall>i. i \<le> r \<longleftrightarrow> majority_quorum V {v. i \<le> ai_index (acked l v)}
     else r = Min ((\<lambda>v. ai_index (acked l v)) ` V))"
proof -
  define ms where "ms = sort_key (\<lambda>m. - int (ai_index m)) (map (acked l) (majority_raw_slice V))"
  define x where "x = ms ! (majority (length ms) - 1)"
  have desc: "sorted_wrt (\<ge>) (map ai_index ms)" by (simp only: ms_def sorted_desc_key)
  have pos: "majority (length ms) - 1 < length ms" "set ms = acked l ` V"
    "\<And>i. i \<le> ai_index x \<longleftrightarrow> majority_quorum V {v. i \<le> ai_index (acked l v)}"
    using quorum_position[OF assms, where l = l] by (simp_all only: ms_def x_def)
  have mem: "x \<in> set ms" using pos(1) by (simp add: x_def)
  then have ne: "ms \<noteq> []" by auto
  note scan = group_scan_start[OF desc mem, unfolded pos(2) pos(3)]
  have res: "majority_committed_index V True l =
      (case group_scan (ai_index x) (ai_group_id x) True ms of
         Inl r \<Rightarrow> Some r
       | Inr sg \<Rightarrow> Some (if sg then ai_index x else ai_index (last ms), False))"
    using assms pos(1) ne
    by (simp add: majority_committed_index_def committed_of_matched_def Let_def acked_def[abs_def]
        vec_get_lt vec_last_def ms_def x_def split: sum.split)
  have last: "ai_index (last ms) = Min ((\<lambda>v. ai_index (acked l v)) ` V)"
    using descending_last[OF desc ne] by (simp only: pos(2) image_image)
  show ?thesis
  proof (cases "two_groups (acked l ` V)")
    case True
    then show ?thesis using scan unfolding res two_groups_image by auto
  next
    case False
    then show ?thesis using scan pos(3) unfolding res last by auto
  qed
qed

theorem majority_group_commit_spec_witness:
  "majority_committed_index {1, 2, 3, 4} True sample_acks = Some (2, True) \<and>
   two_groups (acked sample_acks ` {1, 2, 3, 4})"
proof -
  have "majority_committed_index {1, 2, 3, 4} True sample_acks = Some (2, True)"
    by (simp add: committed_eval)
  then show ?thesis using majority_group_commit_spec[of "{1, 2, 3, 4}" sample_acks] by simp
qed

end
