(* ===== verification/Inflights.thy ===== *)
theory Inflights
  imports Util
begin

text \<open>
  The sliding window of in-flight append messages (\<open>raft-rs/src/tracker/inflights.rs\<close>): a ring
  buffer with a capacity that can be changed while messages are in flight. Of the capacity of the
  backing vector only whether it is non-zero is observable, and kept (\<open>if_allocated\<close>).
\<close>

record inflights =
  if_start :: nat
  if_count :: nat
  if_buffer :: "nat list"
  if_allocated :: bool
  if_cap :: nat
  if_incoming_cap :: "nat option"

definition inflights_new :: "nat \<Rightarrow> inflights" where
  "inflights_new cap = \<lparr>if_start = 0, if_count = 0, if_buffer = [], if_allocated = (cap > 0),
     if_cap = cap, if_incoming_cap = None\<rparr>"

definition inflights_set_cap :: "nat \<Rightarrow> inflights \<Rightarrow> inflights panics" where
  "inflights_set_cap incoming_cap s =
     (if if_cap s = incoming_cap then Some (s\<lparr>if_incoming_cap := None\<rparr>)
      else if if_cap s < incoming_cap then do {
        s' \<leftarrow> (if if_start s + if_count s \<le> if_cap s then do {
                (if if_allocated s then do { usub incoming_cap (length (if_buffer s)); Some () }
                 else Some ());
                Some s }
              else do {
                ensure (if_cap s = length (if_buffer s));
                front \<leftarrow> vec_range (if_buffer s) (if_start s) (length (if_buffer s));
                k \<leftarrow> usub (if_cap s) (if_start s);
                n \<leftarrow> usub (if_count s) k;
                back \<leftarrow> vec_range (if_buffer s) 0 n;
                Some (s\<lparr>if_buffer := front @ back, if_allocated := True, if_start := 0\<rparr>) });
        Some (s'\<lparr>if_cap := incoming_cap, if_incoming_cap := None\<rparr>) }
      else if if_count s = 0 then
        let s' = s\<lparr>if_cap := incoming_cap, if_incoming_cap := None, if_start := 0\<rparr>
        in Some (if if_allocated s
                 then s'\<lparr>if_buffer := [], if_allocated := (incoming_cap > 0)\<rparr> else s')
      else Some (s\<lparr>if_incoming_cap := Some incoming_cap\<rparr>))"

definition inflights_full :: "inflights \<Rightarrow> bool" where
  "inflights_full s \<longleftrightarrow> if_count s = if_cap s \<or>
     (case if_incoming_cap s of None \<Rightarrow> False | Some cap \<Rightarrow> if_count s \<ge> cap)"

definition inflights_add :: "nat \<Rightarrow> inflights \<Rightarrow> inflights panics" where
  "inflights_add inflight s =
     (if inflights_full s then None
      else do {
        s1 \<leftarrow> (if \<not> if_allocated s then do {
                ensure (if_count s = 0);
                ensure (if_start s = 0);
                ensure (if_incoming_cap s = None);
                Some (s\<lparr>if_buffer := [], if_allocated := (if_cap s > 0)\<rparr>) }
              else Some s);
        let next0 = if_start s1 + if_count s1;
        let next = (if next0 \<ge> if_cap s1 then next0 - if_cap s1 else next0);
        ensure (next \<le> length (if_buffer s1));
        let s2 = (if next = length (if_buffer s1)
                  then s1\<lparr>if_buffer := if_buffer s1 @ [inflight], if_allocated := True\<rparr>
                  else s1\<lparr>if_buffer := (if_buffer s1)[next := inflight]\<rparr>);
        Some (s2\<lparr>if_count := if_count s2 + 1\<rparr>) })"

text \<open>The \<open>while\<close> loop of \<open>free_to\<close>, by the number of slots still to visit.\<close>

fun free_loop :: "nat list \<Rightarrow> nat \<Rightarrow> nat \<Rightarrow> nat \<Rightarrow> nat \<Rightarrow> nat \<Rightarrow> (nat \<times> nat) panics" where
  "free_loop buffer cap to 0 i idx = Some (i, idx)"
| "free_loop buffer cap to (Suc n) i idx = do {
     b \<leftarrow> vec_get buffer idx;
     if to < b then Some (i, idx)
     else let idx' = idx + 1; idx'' = (if idx' \<ge> cap then idx' - cap else idx')
          in free_loop buffer cap to n (i + 1) idx'' }"

definition inflights_free_to :: "nat \<Rightarrow> inflights \<Rightarrow> inflights panics" where
  "inflights_free_to to s =
     (if if_count s = 0 then Some s
      else do {
        first \<leftarrow> vec_get (if_buffer s) (if_start s);
        if to < first then Some s
        else do {
          (i, idx) \<leftarrow> free_loop (if_buffer s) (if_cap s) to (if_count s) 0 (if_start s);
          count' \<leftarrow> usub (if_count s) i;
          let s' = s\<lparr>if_count := count', if_start := idx\<rparr>;
          Some (if count' = 0 then
                  (case if_incoming_cap s' of
                     Some incoming_cap \<Rightarrow>
                       s'\<lparr>if_incoming_cap := None, if_start := 0, if_cap := incoming_cap,
                          if_buffer := [], if_allocated := (incoming_cap > 0)\<rparr>
                   | None \<Rightarrow> s')
                else s') } })"

definition inflights_free_first_one :: "inflights \<Rightarrow> inflights panics" where
  "inflights_free_first_one s =
     (if if_count s > 0 then do {
        start \<leftarrow> vec_get (if_buffer s) (if_start s);
        inflights_free_to start s }
      else Some s)"

definition inflights_reset :: "inflights \<Rightarrow> inflights" where
  "inflights_reset s = s\<lparr>if_count := 0, if_start := 0, if_buffer := [], if_allocated := False,
     if_cap := (case if_incoming_cap s of Some c \<Rightarrow> c | None \<Rightarrow> if_cap s),
     if_incoming_cap := None\<rparr>"

definition inflights_buffer_is_allocated :: "inflights \<Rightarrow> bool" where
  "inflights_buffer_is_allocated s = if_allocated s"

definition inflights_maybe_free_buffer :: "inflights \<Rightarrow> inflights" where
  "inflights_maybe_free_buffer s =
     (if if_count s = 0 then s\<lparr>if_start := 0, if_buffer := [], if_allocated := False\<rparr> else s)"

section \<open>The window as a queue\<close>

text \<open>
  What a client of the window sees: the queue of indexes in flight and a fullness test. The laws say
  that adding appends, that an acknowledgement of \<open>x\<close> removes the longest prefix of indexes up to
  \<open>x\<close>, and that both keep the window well formed.
\<close>

locale message_window =
  fixes wf :: "'w \<Rightarrow> bool"
    and items :: "'w \<Rightarrow> nat list"
    and full :: "'w \<Rightarrow> bool"
    and add :: "nat \<Rightarrow> 'w \<Rightarrow> 'w option"
    and free :: "nat \<Rightarrow> 'w \<Rightarrow> 'w option"
  assumes add_law: "wf w \<Longrightarrow> \<not> full w \<Longrightarrow> \<exists>w'. add x w = Some w' \<and> wf w' \<and> items w' = items w @ [x]"
    and add_full: "full w \<Longrightarrow> add x w = None"
    and free_law: "wf w \<Longrightarrow> \<exists>w'. free x w = Some w' \<and> wf w' \<and> items w' = dropWhile (\<lambda>y. y \<le> x) (items w)"
begin

lemma add_Some: "wf w \<Longrightarrow> add x w = Some w' \<longleftrightarrow> \<not> full w \<and> add x w = Some w' \<and> wf w' \<and> items w' = items w @ [x]"
  using add_law[of w x] add_full[of w x] by (cases "full w") auto

lemma free_ascending:
  assumes "wf w" "sorted (items w)" "free x w = Some w'"
  shows "items w' = filter (\<lambda>y. x < y) (items w)" and "sorted (items w')"
proof -
  show items: "items w' = filter (\<lambda>y. x < y) (items w)"
    using free_law[OF assms(1), of x] assms(2,3) by (auto simp: dropWhile_le_sorted)
  show "sorted (items w')" unfolding items using assms(2) sorted_filter[of id] by simp
qed

lemma add_ascending:
  assumes "wf w" "sorted (items w)" "\<forall>y \<in> set (items w). y \<le> x" "add x w = Some w'"
  shows "sorted (items w')"
  using assms add_Some[of w x w'] by (simp add: sorted_append)

end

definition inflights_slot :: "inflights \<Rightarrow> nat \<Rightarrow> nat" where
  "inflights_slot s k = (if if_start s + k \<ge> if_cap s then if_start s + k - if_cap s else if_start s + k)"

definition inflights_items :: "inflights \<Rightarrow> nat list" where
  "inflights_items s = map (\<lambda>k. if_buffer s ! inflights_slot s k) [0..<if_count s]"

definition inflights_wf :: "inflights \<Rightarrow> bool" where
  "inflights_wf s \<longleftrightarrow>
     if_count s \<le> if_cap s \<and> length (if_buffer s) \<le> if_cap s \<and>
     (if_start s < if_cap s \<or> if_start s = 0) \<and>
     (if if_start s + if_count s \<le> if_cap s then if_start s + if_count s \<le> length (if_buffer s)
      else length (if_buffer s) = if_cap s) \<and>
     (\<not> if_allocated s \<longrightarrow> if_buffer s = [] \<and> if_start s = 0 \<and> if_count s = 0) \<and>
     (case if_incoming_cap s of None \<Rightarrow> True | Some c \<Rightarrow> if_count s > 0 \<and> c < if_cap s)"

text \<open>The abstract window: the queue, the capacity and a capacity that waits for the queue to drain.\<close>

record window =
  w_items :: "nat list"
  w_cap :: nat
  w_pending :: "nat option"

definition window_of :: "inflights \<Rightarrow> window" where
  "window_of s = \<lparr>w_items = inflights_items s, w_cap = if_cap s, w_pending = if_incoming_cap s\<rparr>"

definition window_settle :: "window \<Rightarrow> window" where
  "window_settle w = (case w_pending w of
       Some c \<Rightarrow> if w_items w = [] then w\<lparr>w_cap := c, w_pending := None\<rparr> else w
     | None \<Rightarrow> w)"

definition window_full :: "window \<Rightarrow> bool" where
  "window_full w \<longleftrightarrow> length (w_items w) = w_cap w \<or>
     (case w_pending w of None \<Rightarrow> False | Some c \<Rightarrow> c \<le> length (w_items w))"

definition window_add :: "nat \<Rightarrow> window \<Rightarrow> window" where
  "window_add x w = w\<lparr>w_items := w_items w @ [x]\<rparr>"

definition window_free_to :: "nat \<Rightarrow> window \<Rightarrow> window" where
  "window_free_to x w = window_settle (w\<lparr>w_items := dropWhile (\<lambda>y. y \<le> x) (w_items w)\<rparr>)"

definition window_set_cap :: "nat \<Rightarrow> window \<Rightarrow> window" where
  "window_set_cap c w =
     (if w_cap w \<le> c then w\<lparr>w_cap := c, w_pending := None\<rparr>
      else window_settle (w\<lparr>w_pending := Some c\<rparr>))"

definition window_reset :: "window \<Rightarrow> window" where
  "window_reset w = window_settle (w\<lparr>w_items := []\<rparr>)"

lemma length_inflights_items [simp]: "length (inflights_items s) = if_count s"
  by (simp add: inflights_items_def)

lemma inflights_items_Nil [simp]: "inflights_items s = [] \<longleftrightarrow> if_count s = 0"
  by (metis length_0_conv length_inflights_items)

lemma w_items_window_of [simp]: "w_items (window_of s) = inflights_items s"
  by (simp add: window_of_def)

lemma inflights_full_eq: "inflights_full s = window_full (window_of s)"
  by (simp add: inflights_full_def window_full_def window_of_def split: option.splits)

lemma inflights_slot_lt:
  assumes "inflights_wf s" "k < if_count s"
  shows "inflights_slot s k < length (if_buffer s)"
  using assms by (auto simp: inflights_wf_def inflights_slot_def split: if_splits)

lemma inflights_first:
  assumes "inflights_wf s" "if_count s > 0"
  shows "vec_get (if_buffer s) (if_start s) = Some (hd (inflights_items s))"
proof -
  have "inflights_slot s 0 = if_start s"
    using assms by (auto simp: inflights_slot_def inflights_wf_def)
  then show ?thesis
    using inflights_slot_lt[OF assms] assms(2) by (auto simp: hd_conv_nth inflights_items_def)
qed

lemma inflights_slot_inj:
  assumes "inflights_wf s" "k < if_count s" "if_count s < if_cap s"
  shows "inflights_slot s k \<noteq> inflights_slot s (if_count s)"
  using assms by (auto simp: inflights_wf_def inflights_slot_def split: if_splits)

lemma inflights_new_wf: "inflights_wf (inflights_new c)"
  by (simp add: inflights_wf_def inflights_new_def)

lemma inflights_new_window: "window_of (inflights_new c) = \<lparr>w_items = [], w_cap = c, w_pending = None\<rparr>"
  by (simp add: window_of_def inflights_new_def inflights_items_def)

lemma inflights_items_snoc:
  assumes "inflights_wf s" "if_count s < if_cap s" "if_cap s' = if_cap s" "if_start s' = if_start s"
    "if_count s' = if_count s + 1"
    "if_buffer s' = (if inflights_slot s (if_count s) = length (if_buffer s) then if_buffer s @ [x]
        else (if_buffer s)[inflights_slot s (if_count s) := x])"
    "inflights_slot s (if_count s) \<le> length (if_buffer s)"
  shows "inflights_items s' = inflights_items s @ [x]"
proof -
  have slot: "inflights_slot s' k = inflights_slot s k" for k
    using assms(3,4) by (simp add: inflights_slot_def)
  have old: "if_buffer s' ! inflights_slot s k = if_buffer s ! inflights_slot s k" if "k < if_count s" for k
    using inflights_slot_lt[OF assms(1) that] inflights_slot_inj[OF assms(1) that assms(2)] assms(6)
    by (auto simp: nth_append)
  have "if_buffer s' ! inflights_slot s (if_count s) = x" using assms(6,7) by auto
  then show ?thesis using old assms(5) by (simp add: inflights_items_def slot)
qed

lemma inflights_add_refines:
  assumes wf: "inflights_wf s" and nf: "\<not> inflights_full s"
  shows "\<exists>s'. inflights_add x s = Some s' \<and> inflights_wf s' \<and> window_of s' = window_add x (window_of s)"
proof -
  have cnt: "if_count s < if_cap s" using wf nf by (auto simp: inflights_wf_def inflights_full_def)
  define nx where "nx = inflights_slot s (if_count s)"
  have nx: "nx \<le> length (if_buffer s)" "nx < if_cap s"
    using wf cnt by (auto simp: nx_def inflights_wf_def inflights_slot_def split: if_splits)
  let ?s' = "s\<lparr>if_buffer := (if nx = length (if_buffer s) then if_buffer s @ [x] else (if_buffer s)[nx := x]),
      if_allocated := True, if_count := if_count s + 1\<rparr>"
  have "inflights_add x s = Some ?s'"
    using wf nf nx cnt
    by (cases s) (auto simp: inflights_add_def nx_def inflights_slot_def inflights_wf_def Let_def
        split: option.splits)
  moreover have "inflights_wf ?s'"
    using wf nf nx cnt unfolding inflights_wf_def inflights_full_def nx_def inflights_slot_def
    by (auto split: option.splits if_splits)
  moreover have "inflights_items ?s' = inflights_items s @ [x]"
    by (rule inflights_items_snoc[OF wf cnt]) (use nx(1) in \<open>simp_all add: nx_def\<close>)
  then have "window_of ?s' = window_add x (window_of s)"
    by (simp add: window_of_def window_add_def)
  ultimately show ?thesis by blast
qed

lemma inflights_slot_Suc:
  assumes "inflights_wf s" "k < if_count s"
  shows "(if inflights_slot s k + 1 \<ge> if_cap s then inflights_slot s k + 1 - if_cap s
          else inflights_slot s k + 1) = inflights_slot s (Suc k)"
  using assms by (auto simp: inflights_wf_def inflights_slot_def split: if_splits)

lemma free_loop_eq:
  assumes wf: "inflights_wf s" and "k + n = if_count s"
  shows "free_loop (if_buffer s) (if_cap s) to n k (inflights_slot s k) =
    (let j = k + length (takeWhile (\<lambda>y. y \<le> to) (drop k (inflights_items s)))
     in Some (j, inflights_slot s j))"
  using assms(2)
proof (induction n arbitrary: k)
  case (Suc n)
  then have k: "k < if_count s" by simp
  have b: "vec_get (if_buffer s) (inflights_slot s k) = Some (inflights_items s ! k)"
    using inflights_slot_lt[OF wf k] k by (simp add: inflights_items_def)
  have "drop k (inflights_items s) = inflights_items s ! k # drop (Suc k) (inflights_items s)"
    using k by (simp add: Cons_nth_drop_Suc)
  then show ?case
    using Suc.IH[of "Suc k"] Suc.prems inflights_slot_Suc[OF wf k]
    by (auto simp: b Let_def split: if_splits)
qed (simp add: Let_def)

text \<open>What remains when the first \<open>i\<close> messages are taken off.\<close>

definition inflights_skip :: "nat \<Rightarrow> inflights \<Rightarrow> inflights" where
  "inflights_skip i s = s\<lparr>if_count := if_count s - i, if_start := inflights_slot s i\<rparr>"

lemma inflights_skip_items:
  assumes "inflights_wf s" "i \<le> if_count s"
  shows "inflights_items (inflights_skip i s) = drop i (inflights_items s)"
proof (rule nth_equalityI)
  fix k assume "k < length (inflights_items (inflights_skip i s))"
  then have k: "i + k < if_count s" by (simp add: inflights_skip_def)
  then have "inflights_slot (inflights_skip i s) k = inflights_slot s (i + k)"
    using assms by (auto simp: inflights_skip_def inflights_slot_def inflights_wf_def split: if_splits)
  then show "inflights_items (inflights_skip i s) ! k = drop i (inflights_items s) ! k"
    using k less_diff_conv[of k "if_count s" i]
    by (simp add: inflights_items_def inflights_skip_def add.commute)
qed (simp add: inflights_skip_def)

lemma inflights_skip_wf:
  assumes "inflights_wf s" "i \<le> if_count s" "i < if_count s \<or> if_incoming_cap s = None"
  shows "inflights_wf (inflights_skip i s)"
  using assms
  by (auto simp: inflights_wf_def inflights_skip_def inflights_slot_def split: if_splits option.splits)

lemma inflights_free_to_refines:
  assumes wf: "inflights_wf s"
  shows "\<exists>s'. inflights_free_to x s = Some s' \<and> inflights_wf s' \<and>
           window_of s' = window_free_to x (window_of s)"
proof (cases "if_count s = 0 \<or> x < hd (inflights_items s)")
  case True
  have "inflights_free_to x s = Some s" using True by (auto simp: inflights_free_to_def inflights_first[OF wf])
  moreover have "dropWhile (\<lambda>y. y \<le> x) (inflights_items s) = inflights_items s"
    using True inflights_items_Nil[of s]
    by (cases "inflights_items s") (auto simp del: inflights_items_Nil)
  ultimately show ?thesis
    using wf by (auto simp: window_free_to_def window_of_def window_settle_def inflights_wf_def
        split: option.splits)
next
  case False
  define i where "i = length (takeWhile (\<lambda>y. y \<le> x) (inflights_items s))"
  have i: "i \<le> if_count s" unfolding i_def by (metis length_inflights_items length_takeWhile_le)
  have slot0: "inflights_slot s 0 = if_start s"
    using wf False by (auto simp: inflights_slot_def inflights_wf_def)
  have first: "vec_get (if_buffer s) (if_start s) = Some (hd (inflights_items s))"
    using False by (intro inflights_first[OF wf]) simp
  have loop: "free_loop (if_buffer s) (if_cap s) x (if_count s) 0 (if_start s)
      = Some (i, inflights_slot s i)"
    using free_loop_eq[OF wf, of 0 "if_count s" x] slot0 by (simp add: i_def Let_def)
  have items: "dropWhile (\<lambda>y. y \<le> x) (inflights_items s) = drop i (inflights_items s)"
    by (simp add: i_def dropWhile_eq_drop)
  define settled where "settled = (if if_count s = i then (case if_incoming_cap s of
      Some c \<Rightarrow> (inflights_skip i s)\<lparr>if_incoming_cap := None, if_start := 0, if_cap := c,
                  if_buffer := [], if_allocated := (c > 0)\<rparr>
    | None \<Rightarrow> inflights_skip i s) else inflights_skip i s)"
  have "inflights_free_to x s = Some settled"
    using False i
    by (auto simp: inflights_free_to_def settled_def inflights_skip_def usub_le first loop
        split: option.splits)
  moreover have "inflights_wf settled"
    using inflights_skip_wf[OF wf i] i
    by (auto simp: settled_def inflights_wf_def inflights_skip_def split: option.splits)
  moreover have "window_of settled = window_free_to x (window_of s)"
    using inflights_skip_items[OF wf i] i items
    by (auto simp: settled_def window_of_def window_free_to_def window_settle_def
        inflights_skip_def inflights_items_def[of "_\<lparr>if_cap := _\<rparr>"] split: option.splits)
  ultimately show ?thesis by blast
qed

lemma inflights_set_cap_refines:
  assumes wf: "inflights_wf s"
  shows "\<exists>s'. inflights_set_cap c s = Some s' \<and> inflights_wf s' \<and>
           window_of s' = window_set_cap c (window_of s)"
proof -
  consider (same) "if_cap s = c" | (grow) "if_cap s < c" "if_start s + if_count s \<le> if_cap s"
    | (rotate) "if_cap s < c" "if_cap s < if_start s + if_count s" | (shrink) "c < if_cap s"
    by linarith
  then show ?thesis
  proof cases
    case same
    then show ?thesis
      using wf by (auto simp: inflights_set_cap_def inflights_wf_def window_of_def
          window_set_cap_def inflights_items_def inflights_slot_def)
  next
    case grow
    then show ?thesis
      using wf by (auto simp: inflights_set_cap_def inflights_wf_def window_of_def
          window_set_cap_def inflights_items_def inflights_slot_def usub_le)
  next
    case rotate
    let ?b = "drop (if_start s) (if_buffer s) @ take (if_count s - (if_cap s - if_start s)) (if_buffer s)"
    let ?s' = "s\<lparr>if_buffer := ?b, if_allocated := True, if_start := 0, if_cap := c, if_incoming_cap := None\<rparr>"
    have len: "length (if_buffer s) = if_cap s" "if_start s < if_cap s" "if_count s \<le> if_cap s"
      using wf rotate by (auto simp: inflights_wf_def)
    have "inflights_set_cap c s = Some ?s'"
      using rotate len by (auto simp: inflights_set_cap_def usub_le vec_range_def)
    moreover have "inflights_wf ?s'"
      using rotate len by (auto simp: inflights_wf_def min_def)
    moreover have "inflights_items ?s' = inflights_items s"
      using rotate len
      by (intro nth_equalityI) (auto simp: inflights_items_def inflights_slot_def nth_append not_less
          add.commute)
    then have "window_of ?s' = window_set_cap c (window_of s)"
      using rotate by (simp add: window_of_def window_set_cap_def)
    ultimately show ?thesis by blast
  next
    case shrink
    then show ?thesis
      using wf by (auto simp: inflights_set_cap_def inflights_wf_def window_of_def
          window_set_cap_def window_settle_def inflights_items_def inflights_slot_def Let_def)
  qed
qed

lemma inflights_free_first_one_refines:
  assumes wf: "inflights_wf s"
  shows "\<exists>s'. inflights_free_first_one s = Some s' \<and> inflights_wf s' \<and>
           window_of s' = (case inflights_items s of [] \<Rightarrow> window_of s
                           | x # _ \<Rightarrow> window_free_to x (window_of s))"
proof (cases "inflights_items s")
  case Nil
  then have "if_count s = 0" by simp
  then show ?thesis using wf by (auto simp: inflights_free_first_one_def Nil)
next
  case (Cons x xs)
  then have "if_count s > 0" using inflights_items_Nil[of s] by auto
  then have "inflights_free_first_one s = inflights_free_to x s"
    by (simp add: inflights_free_first_one_def inflights_first[OF wf] Cons)
  then show ?thesis using inflights_free_to_refines[OF wf, of x] Cons by simp
qed

lemma inflights_reset_refines:
  assumes "inflights_wf s"
  shows "inflights_wf (inflights_reset s) \<and> window_of (inflights_reset s) = window_reset (window_of s)"
  by (auto simp: inflights_reset_def inflights_wf_def window_of_def window_reset_def
      window_settle_def inflights_items_def split: option.splits)

lemma inflights_maybe_free_buffer_refines:
  assumes "inflights_wf s"
  shows "inflights_wf (inflights_maybe_free_buffer s) \<and> window_of (inflights_maybe_free_buffer s) = window_of s"
  using assms
  by (auto simp: inflights_maybe_free_buffer_def inflights_wf_def window_of_def inflights_items_def
      split: option.splits)

interpretation mw: message_window inflights_wf inflights_items inflights_full inflights_add inflights_free_to
proof unfold_locales
  show "\<exists>s'. inflights_add x s = Some s' \<and> inflights_wf s' \<and> inflights_items s' = inflights_items s @ [x]"
    if "inflights_wf s" "\<not> inflights_full s" for s x
    using inflights_add_refines[OF that, of x] by (auto simp: window_of_def window_add_def)
  show "inflights_full s \<Longrightarrow> inflights_add x s = None" for s x
    by (simp add: inflights_add_def)
  show "\<exists>s'. inflights_free_to x s = Some s' \<and> inflights_wf s' \<and>
      inflights_items s' = dropWhile (\<lambda>y. y \<le> x) (inflights_items s)" if "inflights_wf s" for s x
    using inflights_free_to_refines[OF that, of x]
    by (auto simp: window_of_def window_free_to_def window_settle_def split: option.splits if_splits)
qed

section \<open>Runs of the window\<close>

datatype window_op = WAdd nat | WFreeTo nat | WFreeFirst | WSetCap nat | WReset | WTrim

fun inflights_op :: "window_op \<Rightarrow> inflights \<Rightarrow> inflights panics" where
  "inflights_op (WAdd x) s = inflights_add x s"
| "inflights_op (WFreeTo x) s = inflights_free_to x s"
| "inflights_op WFreeFirst s = inflights_free_first_one s"
| "inflights_op (WSetCap c) s = inflights_set_cap c s"
| "inflights_op WReset s = Some (inflights_reset s)"
| "inflights_op WTrim s = Some (inflights_maybe_free_buffer s)"

fun inflights_run :: "window_op list \<Rightarrow> inflights \<Rightarrow> inflights panics" where
  "inflights_run [] s = Some s"
| "inflights_run (opn # opns) s = do { s' \<leftarrow> inflights_op opn s; inflights_run opns s' }"

fun window_apply :: "window_op \<Rightarrow> window \<Rightarrow> window panics" where
  "window_apply (WAdd x) w = (if window_full w then None else Some (window_add x w))"
| "window_apply (WFreeTo x) w = Some (window_free_to x w)"
| "window_apply WFreeFirst w = Some (case w_items w of [] \<Rightarrow> w | x # _ \<Rightarrow> window_free_to x w)"
| "window_apply (WSetCap c) w = Some (window_set_cap c w)"
| "window_apply WReset w = Some (window_reset w)"
| "window_apply WTrim w = Some w"

fun window_run :: "window_op list \<Rightarrow> window \<Rightarrow> window panics" where
  "window_run [] w = Some w"
| "window_run (opn # opns) w = do { w' \<leftarrow> window_apply opn w; window_run opns w' }"

lemma inflights_op_simulates:
  assumes wf: "inflights_wf s"
  shows "(\<exists>s'. inflights_op opn s = Some s' \<and> inflights_wf s' \<and>
            window_apply opn (window_of s) = Some (window_of s')) \<or>
         (inflights_op opn s = None \<and> window_apply opn (window_of s) = None)"
proof (cases opn)
  case (WAdd x)
  then show ?thesis using inflights_add_refines[OF wf, of x]
      mw.add_full[of s x] inflights_full_eq[of s] by (cases "inflights_full s") auto
next
  case (WFreeTo x)
  then show ?thesis using inflights_free_to_refines[OF wf, of x] by auto
next
  case WFreeFirst
  then show ?thesis using inflights_free_first_one_refines[OF wf] by auto
next
  case (WSetCap c)
  then show ?thesis using inflights_set_cap_refines[OF wf, of c] by auto
next
  case WReset
  then show ?thesis using inflights_reset_refines[OF wf] by simp
next
  case WTrim
  then show ?thesis using inflights_maybe_free_buffer_refines[OF wf] by simp
qed

lemma inflights_run_simulates:
  "inflights_wf s \<Longrightarrow> map_option window_of (inflights_run opns s) = window_run opns (window_of s)"
proof (induction opns arbitrary: s)
  case (Cons opn opns)
  then show ?case using inflights_op_simulates[OF Cons.prems, of opn] by auto
qed simp

text \<open>
  C15. The ring buffer of in-flight messages implements a bounded queue. Every sequence of operations
  (adding, acknowledging, changing the capacity while messages are in flight, resetting, releasing
  the memory) started from a new window has exactly the effect of the same operations on a plain
  list with a capacity: it panics iff the list would have been full on an \<open>add\<close>, no index is ever
  lost or reordered, and none of the index computations or debug assertions of the ring can fail.
\<close>

theorem inflights_implements_queue:
  "map_option window_of (inflights_run opns (inflights_new c)) =
     window_run opns \<lparr>w_items = [], w_cap = c, w_pending = None\<rparr>"
  using inflights_run_simulates[OF inflights_new_wf, of opns c] by (simp add: inflights_new_window)

text \<open>
  The window never holds more messages than its capacity, and an acknowledgement of an ascending
  window removes exactly the indexes it covers; a pending smaller capacity takes effect as soon as
  the window has drained.
\<close>

theorem inflights_free_to_exact:
  assumes "inflights_wf s" "sorted (inflights_items s)"
  shows "\<exists>s'. inflights_free_to x s = Some s' \<and> inflights_wf s' \<and>
    inflights_items s' = filter (\<lambda>y. x < y) (inflights_items s) \<and>
    if_count s' \<le> if_cap s' \<and>
    (if_count s' = 0 \<longrightarrow> if_cap s' = (case if_incoming_cap s of None \<Rightarrow> if_cap s | Some c \<Rightarrow> c))"
proof -
  obtain s' where s': "inflights_free_to x s = Some s'" "inflights_wf s'"
    "window_of s' = window_free_to x (window_of s)"
    using inflights_free_to_refines[OF assms(1), of x] by blast
  have "inflights_items s' = filter (\<lambda>y. x < y) (inflights_items s)"
    using mw.free_ascending(1)[OF assms s'(1)] .
  moreover have "if_count s' \<le> if_cap s'" using s'(2) by (simp add: inflights_wf_def)
  moreover have "if_cap s' = (case if_incoming_cap s of None \<Rightarrow> if_cap s | Some c \<Rightarrow> c)"
    if "if_count s' = 0"
    using s'(2,3) that
    by (auto simp: window_of_def window_free_to_def window_settle_def inflights_wf_def
        split: option.splits if_splits)
  ultimately show ?thesis using s'(1,2) by simp
qed

definition sample_window :: inflights where
  "sample_window = \<lparr>if_start = 2, if_count = 3, if_buffer = [7, 9, 4], if_allocated = True,
     if_cap = 3, if_incoming_cap = Some 2\<rparr>"

theorem inflights_free_to_exact_witness:
  "inflights_items sample_window = [4, 7, 9] \<and>
   map_option inflights_items (inflights_free_to 7 sample_window) = Some [9]"
proof -
  have items: "inflights_items sample_window = [4, 7, 9]"
    by (simp add: inflights_items_def inflights_slot_def sample_window_def upt_rec)
  moreover have "inflights_wf sample_window"
    by (simp add: inflights_wf_def sample_window_def)
  ultimately show ?thesis using inflights_free_to_exact[of sample_window 7] by auto
qed

end
