(* ===== verification/Progress.thy ===== *)
theory Progress
  imports Inflights
begin

text \<open>
  The leader's view of one peer (\<open>raft-rs/src/tracker/progress.rs\<close>, \<open>tracker/state.rs\<close>).
\<close>

datatype progress_state = Probe | Replicate | Snapshot

definition INVALID_ID :: nat where
  "INVALID_ID = 0"

definition INVALID_INDEX :: nat where
  "INVALID_INDEX = 0"

record progress =
  pr_matched :: nat
  pr_next_idx :: nat
  pr_state :: progress_state
  pr_paused :: bool
  pr_pending_snapshot :: nat
  pr_pending_request_snapshot :: nat
  pr_recent_active :: bool
  pr_ins :: inflights
  pr_commit_group_id :: nat
  pr_committed_index :: nat

definition progress_new :: "nat \<Rightarrow> nat \<Rightarrow> progress" where
  "progress_new next_idx ins_size = \<lparr>pr_matched = 0, pr_next_idx = next_idx, pr_state = Probe,
     pr_paused = False, pr_pending_snapshot = 0, pr_pending_request_snapshot = 0,
     pr_recent_active = False, pr_ins = inflights_new ins_size, pr_commit_group_id = 0,
     pr_committed_index = 0\<rparr>"

definition reset_state :: "progress_state \<Rightarrow> progress \<Rightarrow> progress" where
  "reset_state st p = p\<lparr>pr_paused := False, pr_pending_snapshot := 0, pr_state := st,
     pr_ins := inflights_reset (pr_ins p)\<rparr>"

definition progress_reset :: "nat \<Rightarrow> progress \<Rightarrow> progress" where
  "progress_reset next_idx p = p\<lparr>pr_matched := 0, pr_next_idx := next_idx, pr_state := Probe,
     pr_paused := False, pr_pending_snapshot := 0, pr_pending_request_snapshot := INVALID_INDEX,
     pr_recent_active := False, pr_ins := inflights_reset (pr_ins p)\<rparr>"

definition become_probe :: "progress \<Rightarrow> progress" where
  "become_probe p =
     (if pr_state p = Snapshot then
        let pending_snapshot = pr_pending_snapshot p; p' = reset_state Probe p
        in p'\<lparr>pr_next_idx := max (pr_matched p' + 1) (pending_snapshot + 1)\<rparr>
      else let p' = reset_state Probe p in p'\<lparr>pr_next_idx := pr_matched p' + 1\<rparr>)"

definition become_replicate :: "progress \<Rightarrow> progress" where
  "become_replicate p =
     (let p' = reset_state Replicate p in p'\<lparr>pr_next_idx := pr_matched p' + 1\<rparr>)"

definition become_snapshot :: "nat \<Rightarrow> progress \<Rightarrow> progress" where
  "become_snapshot snapshot_idx p =
     (reset_state Snapshot p)\<lparr>pr_pending_snapshot := snapshot_idx\<rparr>"

definition snapshot_failure :: "progress \<Rightarrow> progress" where
  "snapshot_failure p = p\<lparr>pr_pending_snapshot := 0\<rparr>"

definition is_snapshot_caught_up :: "progress \<Rightarrow> bool" where
  "is_snapshot_caught_up p \<longleftrightarrow> pr_state p = Snapshot \<and> pr_matched p \<ge> pr_pending_snapshot p"

definition progress_resume :: "progress \<Rightarrow> progress" where
  "progress_resume p = p\<lparr>pr_paused := False\<rparr>"

definition progress_pause :: "progress \<Rightarrow> progress" where
  "progress_pause p = p\<lparr>pr_paused := True\<rparr>"

definition maybe_update :: "nat \<Rightarrow> progress \<Rightarrow> bool \<times> progress" where
  "maybe_update n p =
     (let need_update = pr_matched p < n;
          p1 = (if need_update then progress_resume (p\<lparr>pr_matched := n\<rparr>) else p);
          p2 = (if pr_next_idx p1 < n + 1 then p1\<lparr>pr_next_idx := n + 1\<rparr> else p1)
      in (need_update, p2))"

definition update_committed :: "nat \<Rightarrow> progress \<Rightarrow> progress" where
  "update_committed committed_index p =
     (if committed_index > pr_committed_index p
      then p\<lparr>pr_committed_index := committed_index\<rparr> else p)"

definition optimistic_update :: "nat \<Rightarrow> progress \<Rightarrow> progress" where
  "optimistic_update n p = p\<lparr>pr_next_idx := n + 1\<rparr>"

definition maybe_decr_to :: "nat \<Rightarrow> nat \<Rightarrow> nat \<Rightarrow> progress \<Rightarrow> bool \<times> progress" where
  "maybe_decr_to rejected match_hint request_snapshot p =
     (if pr_state p = Replicate then
        if rejected < pr_matched p \<or> (rejected = pr_matched p \<and> request_snapshot = INVALID_INDEX)
        then (False, p)
        else if request_snapshot = INVALID_INDEX
        then (True, p\<lparr>pr_next_idx := pr_matched p + 1\<rparr>)
        else (True, p\<lparr>pr_pending_request_snapshot := request_snapshot\<rparr>)
      else if (pr_next_idx p = 0 \<or> pr_next_idx p - 1 \<noteq> rejected) \<and> request_snapshot = INVALID_INDEX
      then (False, p)
      else
        let p1 = (if request_snapshot = INVALID_INDEX then
                    let n = min rejected (match_hint + 1)
                    in p\<lparr>pr_next_idx := (if n < 1 then 1 else n)\<rparr>
                  else if pr_pending_request_snapshot p = INVALID_INDEX
                  then p\<lparr>pr_pending_request_snapshot := request_snapshot\<rparr>
                  else p)
        in (True, progress_resume p1))"

definition is_paused :: "progress \<Rightarrow> bool" where
  "is_paused p = (case pr_state p of
       Probe \<Rightarrow> pr_paused p
     | Replicate \<Rightarrow> inflights_full (pr_ins p)
     | Snapshot \<Rightarrow> True)"

definition update_state :: "nat \<Rightarrow> progress \<Rightarrow> progress panics" where
  "update_state last_idx p = (case pr_state p of
       Replicate \<Rightarrow> do {
         let p' = optimistic_update last_idx p;
         ins' \<leftarrow> inflights_add last_idx (pr_ins p');
         Some (p'\<lparr>pr_ins := ins'\<rparr>) }
     | Probe \<Rightarrow> Some (progress_pause p)
     | Snapshot \<Rightarrow> None)"

section \<open>Flow control\<close>

text \<open>
  How the leader moves the progress of a peer: sending entries from \<open>next_idx\<close> on, acknowledgements,
  rejections, heartbeat responses, snapshots and capacity changes, composed as the message handlers
  of the leader compose them.
\<close>

definition progress_ack :: "nat \<Rightarrow> progress \<Rightarrow> progress panics" where
  "progress_ack n p =
     (let (b, p1) = maybe_update n p in
      if \<not> b then Some p1
      else case pr_state p1 of
          Probe \<Rightarrow> Some (become_replicate p1)
        | Snapshot \<Rightarrow> Some (if is_snapshot_caught_up p1 then become_probe p1 else p1)
        | Replicate \<Rightarrow> do {
            ins \<leftarrow> inflights_free_to n (pr_ins p1);
            Some (p1\<lparr>pr_ins := ins\<rparr>) })"

definition progress_reject :: "nat \<Rightarrow> nat \<Rightarrow> nat \<Rightarrow> progress \<Rightarrow> progress" where
  "progress_reject rejected match_hint request_snapshot p =
     (let (b, p1) = maybe_decr_to rejected match_hint request_snapshot p in
      if b \<and> pr_state p1 = Replicate then become_probe p1 else p1)"

definition progress_heartbeat :: "progress \<Rightarrow> progress panics" where
  "progress_heartbeat p =
     (let p1 = (progress_resume p)\<lparr>pr_recent_active := True\<rparr> in
      if pr_state p1 = Replicate \<and> inflights_full (pr_ins p1) then do {
        ins \<leftarrow> inflights_free_first_one (pr_ins p1);
        Some (p1\<lparr>pr_ins := ins\<rparr>) }
      else Some p1)"

inductive progress_step :: "progress \<Rightarrow> progress \<Rightarrow> bool" where
  send: "\<not> is_paused p \<Longrightarrow> pr_next_idx p \<le> n \<Longrightarrow> update_state n p = Some p' \<Longrightarrow> progress_step p p'"
| ack: "progress_ack n p = Some p' \<Longrightarrow> progress_step p p'"
| reject: "progress_step p (progress_reject rejected match_hint request_snapshot p)"
| heartbeat: "progress_heartbeat p = Some p' \<Longrightarrow> progress_step p p'"
| commit: "progress_step p (update_committed n p)"
| snapshot: "progress_step p (become_snapshot n p)"
| snapshot_done: "pr_state p = Snapshot \<Longrightarrow> progress_step p (progress_pause (become_probe p))"
| snapshot_failed:
    "pr_state p = Snapshot \<Longrightarrow> progress_step p (progress_pause (become_probe (snapshot_failure p)))"
| unreachable: "pr_state p = Replicate \<Longrightarrow> progress_step p (become_probe p)"
| set_cap: "inflights_set_cap c (pr_ins p) = Some ins \<Longrightarrow> progress_step p (p\<lparr>pr_ins := ins\<rparr>)"
| trim: "progress_step p (p\<lparr>pr_ins := inflights_maybe_free_buffer (pr_ins p)\<rparr>)"
| reset: "1 \<le> n \<Longrightarrow> progress_step p (progress_reset n p)"

inductive progress_reach :: "progress \<Rightarrow> bool" where
  start: "1 \<le> n \<Longrightarrow> progress_reach (progress_new n c)"
| step: "progress_reach p \<Longrightarrow> progress_step p p' \<Longrightarrow> progress_reach p'"

text \<open>
  The invariant: there is always a previous index to probe with, the window is a well-formed
  ascending queue of indexes already sent, and it is only used while replicating.
\<close>

definition progress_wf :: "progress \<Rightarrow> bool" where
  "progress_wf p \<longleftrightarrow> 1 \<le> pr_next_idx p \<and> inflights_wf (pr_ins p) \<and>
     sorted (inflights_items (pr_ins p)) \<and> (\<forall>x \<in> set (inflights_items (pr_ins p)). x < pr_next_idx p) \<and>
     (pr_state p = Replicate \<or> inflights_items (pr_ins p) = [])"

declare inflights_items_Nil [simp del]

lemma inflights_new_ok [simp]: "inflights_wf (inflights_new c)" "inflights_items (inflights_new c) = []"
  by (simp_all add: inflights_new_wf inflights_items_Nil) (simp add: inflights_new_def)

lemma inflights_reset_ok [simp]: "inflights_wf s \<Longrightarrow> inflights_wf (inflights_reset s)"
  "inflights_items (inflights_reset s) = []"
  using inflights_reset_refines by (blast, simp add: inflights_items_Nil inflights_reset_def)

lemma progress_wf_reset_state:
  assumes "progress_wf p" "1 \<le> pr_next_idx p'" "pr_ins p' = inflights_reset (pr_ins p)"
  shows "progress_wf p'"
  using assms by (simp add: progress_wf_def)

lemma progress_wf_new: "1 \<le> n \<Longrightarrow> progress_wf (progress_new n c)"
  by (simp add: progress_wf_def progress_new_def)

lemma progress_wf_become:
  assumes "progress_wf p"
  shows "progress_wf (become_probe p)" "progress_wf (become_replicate p)"
    "progress_wf (become_snapshot n p)" "1 \<le> n \<Longrightarrow> progress_wf (progress_reset n p)"
proof -
  have "1 \<le> pr_next_idx p" using assms by (simp add: progress_wf_def)
  then show "progress_wf (become_probe p)" "progress_wf (become_replicate p)"
    "progress_wf (become_snapshot n p)" "1 \<le> n \<Longrightarrow> progress_wf (progress_reset n p)"
    by (auto intro!: progress_wf_reset_state[OF assms]
        simp: become_probe_def become_replicate_def become_snapshot_def reset_state_def Let_def
          progress_reset_def)
qed

lemma progress_wf_mark:
  "progress_wf (snapshot_failure p) = progress_wf p" "progress_wf (progress_pause p) = progress_wf p"
  "progress_wf (progress_resume p) = progress_wf p" "progress_wf (update_committed n p) = progress_wf p"
  by (auto simp: progress_wf_def snapshot_failure_def progress_pause_def progress_resume_def
      update_committed_def)

lemma progress_wf_window:
  assumes "progress_wf p" "inflights_wf ins" "sorted (inflights_items ins)"
    "set (inflights_items ins) \<subseteq> set (inflights_items (pr_ins p))"
  shows "progress_wf (p\<lparr>pr_ins := ins\<rparr>)"
  using assms by (auto simp: progress_wf_def)

lemma progress_wf_maybe_update:
  assumes "progress_wf p" shows "progress_wf (snd (maybe_update n p))"
  using assms by (auto simp: progress_wf_def maybe_update_def progress_resume_def Let_def)

lemma maybe_update_state [simp]: "pr_state (snd (maybe_update n p)) = pr_state p"
  "pr_ins (snd (maybe_update n p)) = pr_ins p"
  by (simp_all add: maybe_update_def progress_resume_def Let_def)

lemma free_to_subset:
  assumes "inflights_wf s" "sorted (inflights_items s)" "inflights_free_to n s = Some s'"
  shows "inflights_wf s' \<and> sorted (inflights_items s') \<and> set (inflights_items s') \<subseteq> set (inflights_items s)"
  using mw.free_law[OF assms(1), of n] mw.free_ascending[OF assms] assms(3)
  by (auto dest: set_dropWhileD)

lemma progress_wf_ack:
  assumes "progress_wf p" "progress_ack n p = Some p'"
  shows "progress_wf p'"
proof -
  obtain b p1 where p1: "maybe_update n p = (b, p1)" by fastforce
  have wf: "progress_wf p1" using progress_wf_maybe_update[OF assms(1), of n] p1 by simp
  show ?thesis
  proof (cases "b \<and> pr_state p1 = Replicate")
    case True
    then obtain ins where "inflights_free_to n (pr_ins p1) = Some ins" "p' = p1\<lparr>pr_ins := ins\<rparr>"
      using assms(2) p1 by (auto simp: progress_ack_def bind_eq_Some_conv)
    then show ?thesis
      using wf free_to_subset[of "pr_ins p1" n ins]
      by (auto intro!: progress_wf_window simp: progress_wf_def[of p1])
  next
    case False
    then show ?thesis using assms(2) p1 wf progress_wf_become[OF wf]
      by (auto simp: progress_ack_def split: if_splits progress_state.splits)
  qed
qed

lemma progress_wf_reject:
  assumes "progress_wf p" shows "progress_wf (progress_reject rejected hint req p)"
proof -
  obtain b p1 where p1: "maybe_decr_to rejected hint req p = (b, p1)" by fastforce
  then have same: "pr_ins p1 = pr_ins p" "pr_state p1 = pr_state p"
    "pr_state p = Replicate \<Longrightarrow> \<not> b \<Longrightarrow> p1 = p"
    by (auto simp: maybe_decr_to_def Let_def progress_resume_def split: if_splits)
  have "1 \<le> pr_next_idx p1"
    using p1 assms by (auto simp: maybe_decr_to_def Let_def progress_resume_def progress_wf_def
        split: if_splits)
  moreover have "progress_wf (become_probe p1)"
    by (rule progress_wf_reset_state[OF assms])
      (auto simp: become_probe_def reset_state_def Let_def same)
  ultimately show ?thesis
    using assms p1 same by (auto simp: progress_reject_def progress_wf_def)
qed

lemma progress_wf_heartbeat:
  assumes "progress_wf p" "progress_heartbeat p = Some p'"
  shows "progress_wf p'"
proof -
  let ?p1 = "(progress_resume p)\<lparr>pr_recent_active := True\<rparr>"
  have wf: "progress_wf ?p1" using assms(1) by (simp add: progress_wf_def progress_resume_def)
  have ok: "inflights_wf (pr_ins p)" "sorted (inflights_items (pr_ins p))"
    using assms(1) by (auto simp: progress_wf_def)
  show ?thesis
  proof (cases "pr_state ?p1 = Replicate \<and> inflights_full (pr_ins ?p1)")
    case True
    then obtain ins where ins: "inflights_free_first_one (pr_ins p) = Some ins" "p' = ?p1\<lparr>pr_ins := ins\<rparr>"
      using assms(2) by (auto simp: progress_heartbeat_def Let_def bind_eq_Some_conv progress_resume_def)
    then have "ins = pr_ins p \<or> (\<exists>x. inflights_free_to x (pr_ins p) = Some ins)"
      by (auto simp: inflights_free_first_one_def bind_eq_Some_conv split: if_splits)
    then have "inflights_wf ins \<and> sorted (inflights_items ins) \<and>
        set (inflights_items ins) \<subseteq> set (inflights_items (pr_ins p))"
      using ok free_to_subset[OF ok] by blast
    then show ?thesis
      unfolding ins(2) by (intro progress_wf_window[OF wf]) (simp_all add: progress_resume_def)
  next
    case False
    then show ?thesis using assms(2) wf by (auto simp: progress_heartbeat_def Let_def)
  qed
qed

lemma update_state_ok:
  assumes "progress_wf p" "\<not> is_paused p" "pr_next_idx p \<le> n"
  shows "\<exists>p'. update_state n p = Some p' \<and> progress_wf p'"
proof (cases "pr_state p")
  case Replicate
  then have nf: "\<not> inflights_full (pr_ins p)" using assms(2) by (simp add: is_paused_def)
  obtain ins where ins: "inflights_add n (pr_ins p) = Some ins" "inflights_wf ins"
    "inflights_items ins = inflights_items (pr_ins p) @ [n]"
    using mw.add_law[OF _ nf, of n] assms(1) by (auto simp: progress_wf_def)
  then show ?thesis
    using assms Replicate
    by (fastforce simp: update_state_def optimistic_update_def progress_wf_def sorted_append)
next
  case Probe
  then show ?thesis using assms(1) by (simp add: update_state_def progress_wf_mark)
next
  case Snapshot
  then show ?thesis using assms(2) by (simp add: is_paused_def)
qed

lemma progress_wf_set_cap:
  assumes "progress_wf p" "inflights_set_cap c (pr_ins p) = Some ins"
  shows "progress_wf (p\<lparr>pr_ins := ins\<rparr>)"
proof -
  have "inflights_wf ins \<and> inflights_items ins = inflights_items (pr_ins p)"
    using assms inflights_set_cap_refines[of "pr_ins p" c]
    by (auto simp: progress_wf_def window_of_def window_set_cap_def window_settle_def split: if_splits)
  then show ?thesis using assms(1) by (intro progress_wf_window) (auto simp: progress_wf_def)
qed

lemma progress_step_wf: "progress_step p p' \<Longrightarrow> progress_wf p \<Longrightarrow> progress_wf p'"
proof (induction rule: progress_step.induct)
  case (send p n p')
  then show ?case using update_state_ok[of p n] by auto
next
  case (trim p)
  then show ?case
    using inflights_maybe_free_buffer_refines[of "pr_ins p"]
    by (auto simp: progress_wf_def window_of_def)
qed (auto simp: progress_wf_mark intro: progress_wf_ack progress_wf_reject progress_wf_heartbeat
    progress_wf_become progress_wf_set_cap)


definition sample_progress :: progress where
  "sample_progress = become_replicate ((progress_new 1 2)\<lparr>pr_matched := 4, pr_next_idx := 5\<rparr>)"


end
