(* ===== verification/Tracker.thy ===== *)
theory Tracker
  imports Quorum Progress
begin

text \<open>
  The configuration of the cluster and the progress of its peers (\<open>raft-rs/src/tracker.rs\<close>).
\<close>

record configuration =
  conf_voters :: joint_config
  conf_learners :: "nat set"
  conf_learners_next :: "nat set"
  conf_auto_leave :: bool

definition configuration_default :: configuration where
  "configuration_default = \<lparr>conf_voters = \<lparr>incoming = {}, outgoing = {}\<rparr>, conf_learners = {},
     conf_learners_next = {}, conf_auto_leave = False\<rparr>"

definition configuration_new :: "nat list \<Rightarrow> nat list \<Rightarrow> configuration" where
  "configuration_new voters learners = \<lparr>conf_voters = joint_new (set voters),
     conf_learners = set learners, conf_learners_next = {}, conf_auto_leave = False\<rparr>"

definition to_conf_state :: "configuration \<Rightarrow> conf_state" where
  "to_conf_state c = \<lparr>cs_voters = majority_raw_slice (incoming (conf_voters c)),
     cs_learners = sorted_list_of_set (conf_learners c),
     cs_voters_outgoing = majority_raw_slice (outgoing (conf_voters c)),
     cs_learners_next = sorted_list_of_set (conf_learners_next c),
     cs_auto_leave = conf_auto_leave c\<rparr>"

definition configuration_clear :: "configuration \<Rightarrow> configuration" where
  "configuration_clear c = c\<lparr>conf_voters := joint_clear (conf_voters c), conf_learners := {},
     conf_learners_next := {}, conf_auto_leave := False\<rparr>"

type_synonym progress_map = "(nat, progress) amap"

definition acked_index :: "progress_map \<Rightarrow> acked_indexer" where
  "acked_index m voter_id = map_option
     (\<lambda>p. \<lparr>ai_index = pr_matched p, ai_group_id = pr_commit_group_id p\<rparr>) (map_of m voter_id)"

record progress_tracker =
  pt_progress :: progress_map
  pt_conf :: configuration
  pt_votes :: "(nat, bool) amap"
  pt_max_inflight :: nat
  pt_group_commit :: bool

definition tracker_new :: "nat \<Rightarrow> progress_tracker" where
  "tracker_new max_inflight = \<lparr>pt_progress = [], pt_conf = configuration_default, pt_votes = [],
     pt_max_inflight = max_inflight, pt_group_commit = False\<rparr>"

definition tracker_enable_group_commit :: "bool \<Rightarrow> progress_tracker \<Rightarrow> progress_tracker" where
  "tracker_enable_group_commit enable t = t\<lparr>pt_group_commit := enable\<rparr>"

definition tracker_clear :: "progress_tracker \<Rightarrow> progress_tracker" where
  "tracker_clear t =
     t\<lparr>pt_progress := [], pt_conf := configuration_clear (pt_conf t), pt_votes := []\<rparr>"

definition tracker_is_singleton :: "progress_tracker \<Rightarrow> bool" where
  "tracker_is_singleton t = joint_is_singleton (conf_voters (pt_conf t))"

definition tracker_get :: "progress_tracker \<Rightarrow> nat \<Rightarrow> progress option" where
  "tracker_get t i = map_of (pt_progress t) i"

text \<open>A write through \<open>get_mut\<close>.\<close>

definition tracker_put :: "nat \<Rightarrow> progress \<Rightarrow> progress_tracker \<Rightarrow> progress_tracker" where
  "tracker_put i p t = t\<lparr>pt_progress := amap_set i p (pt_progress t)\<rparr>"

definition maximal_committed_index :: "progress_tracker \<Rightarrow> (nat \<times> bool) panics" where
  "maximal_committed_index t =
     joint_committed_index (conf_voters (pt_conf t)) (pt_group_commit t)
       (acked_index (pt_progress t))"

definition reset_votes :: "progress_tracker \<Rightarrow> progress_tracker" where
  "reset_votes t = t\<lparr>pt_votes := []\<rparr>"

definition record_vote :: "nat \<Rightarrow> bool \<Rightarrow> progress_tracker \<Rightarrow> progress_tracker" where
  "record_vote i vote t =
     (case map_of (pt_votes t) i of
        Some _ \<Rightarrow> t
      | None \<Rightarrow> t\<lparr>pt_votes := amap_set i vote (pt_votes t)\<rparr>)"

definition tracker_vote_result :: "progress_tracker \<Rightarrow> (nat, bool) amap \<Rightarrow> vote_result" where
  "tracker_vote_result t votes =
     joint_vote_result (conf_voters (pt_conf t)) (\<lambda>i. map_of votes i)"

fun tally_loop :: "joint_config \<Rightarrow> (nat, bool) amap \<Rightarrow> nat \<times> nat \<Rightarrow> nat \<times> nat" where
  "tally_loop c [] (granted, rejected) = (granted, rejected)"
| "tally_loop c ((i, vote) # votes) (granted, rejected) =
     tally_loop c votes
       (if \<not> joint_contains c i then (granted, rejected)
        else if vote then (granted + 1, rejected) else (granted, rejected + 1))"

definition tally_votes :: "progress_tracker \<Rightarrow> nat \<times> nat \<times> vote_result" where
  "tally_votes t =
     (let (granted, rejected) = tally_loop (conf_voters (pt_conf t)) (pt_votes t) (0, 0)
      in (granted, rejected, tracker_vote_result t (pt_votes t)))"

definition has_quorum :: "progress_tracker \<Rightarrow> nat set \<Rightarrow> bool" where
  "has_quorum t potential_quorum \<longleftrightarrow>
     joint_vote_result (conf_voters (pt_conf t))
       (\<lambda>i. if i \<in> potential_quorum then Some True else None) = Won"

fun active_loop :: "nat \<Rightarrow> progress_map \<Rightarrow> nat set \<Rightarrow> progress_map \<times> nat set" where
  "active_loop perspective_of [] active = ([], active)"
| "active_loop perspective_of ((i, pr) # m) active =
     (let (pr', active') =
            (if i = perspective_of then (pr\<lparr>pr_recent_active := True\<rparr>, insert i active)
             else if pr_recent_active pr
             then (pr\<lparr>pr_recent_active := False\<rparr>, insert i active)
             else (pr, active));
          (m', active'') = active_loop perspective_of m active'
      in ((i, pr') # m', active''))"

definition quorum_recently_active :: "nat \<Rightarrow> progress_tracker \<Rightarrow> bool \<times> progress_tracker" where
  "quorum_recently_active perspective_of t =
     (let (m, active) = active_loop perspective_of (pt_progress t) {};
          t' = t\<lparr>pt_progress := m\<rparr>
      in (has_quorum t' active, t'))"

datatype map_change_type = Add | Remove

type_synonym map_change = "(nat \<times> map_change_type) list"

fun apply_changes :: "nat \<Rightarrow> nat \<Rightarrow> map_change \<Rightarrow> progress_map \<Rightarrow> progress_map" where
  "apply_changes max_inflight next_idx [] m = m"
| "apply_changes max_inflight next_idx ((i, ct) # changes) m =
     apply_changes max_inflight next_idx changes
       (case ct of
          Add \<Rightarrow> amap_set i ((progress_new next_idx max_inflight)\<lparr>pr_recent_active := True\<rparr>) m
        | Remove \<Rightarrow> amap_del i m)"

definition apply_conf ::
  "configuration \<Rightarrow> map_change \<Rightarrow> nat \<Rightarrow> progress_tracker \<Rightarrow> progress_tracker" where
  "apply_conf conf changes next_idx t =
     t\<lparr>pt_conf := conf,
       pt_progress := apply_changes (pt_max_inflight t) next_idx changes (pt_progress t)\<rparr>"

section \<open>Quorums of the tracker\<close>

lemma active_loop_eq:
  "active_loop p m A =
     (map (\<lambda>(i, pr). (i, pr\<lparr>pr_recent_active := (i = p)\<rparr>)) m,
      A \<union> {i. \<exists>pr. (i, pr) \<in> set m \<and> (i = p \<or> pr_recent_active pr)})"
proof (induction m arbitrary: A)
  case (Cons x m)
  obtain i pr where x: "x = (i, pr)" by (cases x)
  have off: "\<not> pr_recent_active pr \<Longrightarrow> pr\<lparr>pr_recent_active := False\<rparr> = pr" by (cases pr) simp
  show ?case by (auto simp: x Cons.IH off split: if_splits)
qed simp

lemma has_quorum_iff:
  assumes "finite (incoming (conf_voters (pt_conf t)))" "finite (outgoing (conf_voters (pt_conf t)))"
    "incoming (conf_voters (pt_conf t)) \<noteq> {}"
  shows "has_quorum t S \<longleftrightarrow> joint_quorum (conf_voters (pt_conf t)) S"
proof -
  have "{v. (if v \<in> S then Some True else None) = Some True} = S" by auto
  then show ?thesis by (simp add: has_quorum_def joint_won_iff_quorum assms)
qed

text \<open>
  The check-quorum sweep of a leader succeeds iff the leader and the peers heard from since the
  last sweep form a quorum of the (joint) configuration; afterwards exactly the leader's own progress
  is marked active and nothing else of the tracker has changed.
\<close>

theorem quorum_recently_active_spec:
  assumes "finite (incoming (conf_voters (pt_conf t)))" "finite (outgoing (conf_voters (pt_conf t)))"
    "incoming (conf_voters (pt_conf t)) \<noteq> {}"
  shows "quorum_recently_active self t =
    (joint_quorum (conf_voters (pt_conf t))
       {i. \<exists>pr. (i, pr) \<in> set (pt_progress t) \<and> (i = self \<or> pr_recent_active pr)},
     t\<lparr>pt_progress := map (\<lambda>(i, pr). (i, pr\<lparr>pr_recent_active := (i = self)\<rparr>)) (pt_progress t)\<rparr>)"
  using assms by (simp add: quorum_recently_active_def active_loop_eq has_quorum_iff)

theorem quorum_recently_active_spec_witness:
  "quorum_recently_active 1 ((tracker_new 2)\<lparr>pt_conf := configuration_new [1, 2, 3] [],
       pt_progress := [(1, progress_new 1 2), (2, (progress_new 1 2)\<lparr>pr_recent_active := True\<rparr>),
                       (3, progress_new 1 2)]\<rparr>) =
     (True, (tracker_new 2)\<lparr>pt_conf := configuration_new [1, 2, 3] [],
       pt_progress := [(1, (progress_new 1 2)\<lparr>pr_recent_active := True\<rparr>), (2, progress_new 1 2),
                       (3, progress_new 1 2)]\<rparr>)"
  by (subst quorum_recently_active_spec)
    (auto simp: tracker_new_def configuration_new_def joint_new_def joint_quorum_def
      majority_quorum_def majority_def progress_new_def Int_insert_left)

end
