(* ===== verification/Conf_Change.thy ===== *)
theory Conf_Change
  imports Tracker
begin

text \<open>
  Validated configuration changes (\<open>raft-rs/src/confchange.rs\<close>, \<open>confchange/changer.rs\<close>) and the
  rebuilding of a tracker from a \<open>ConfState\<close> (\<open>confchange/restore.rs\<close>).
\<close>

definition joint :: "configuration \<Rightarrow> bool" where
  "joint cfg \<longleftrightarrow> outgoing (conf_voters cfg) \<noteq> {}"

section \<open>IncrChangeMap\<close>

record incr_change_map =
  icm_changes :: map_change
  icm_base :: progress_map

definition icm_contains :: "incr_change_map \<Rightarrow> nat \<Rightarrow> bool" where
  "icm_contains prs i =
     (case find (\<lambda>c. fst c = i) (rev (icm_changes prs)) of
        Some (_, Remove) \<Rightarrow> False
      | Some (_, Add) \<Rightarrow> True
      | None \<Rightarrow> i \<in> fst ` set (icm_base prs))"

definition icm_push :: "nat \<Rightarrow> map_change_type \<Rightarrow> incr_change_map \<Rightarrow> incr_change_map" where
  "icm_push i ct prs = prs\<lparr>icm_changes := icm_changes prs @ [(i, ct)]\<rparr>"

section \<open>Changer\<close>

definition add_incoming :: "nat \<Rightarrow> configuration \<Rightarrow> configuration" where
  "add_incoming i cfg =
     cfg\<lparr>conf_voters := (conf_voters cfg)\<lparr>incoming := insert i (incoming (conf_voters cfg))\<rparr>\<rparr>"

definition del_incoming :: "nat \<Rightarrow> configuration \<Rightarrow> configuration" where
  "del_incoming i cfg =
     cfg\<lparr>conf_voters := (conf_voters cfg)\<lparr>incoming := incoming (conf_voters cfg) - {i}\<rparr>\<rparr>"

type_synonym change_state = "configuration \<times> incr_change_map"

definition init_progress :: "nat \<Rightarrow> bool \<Rightarrow> change_state \<Rightarrow> change_state" where
  "init_progress i is_learner st =
     (let (cfg, prs) = st;
          cfg' = (if \<not> is_learner then add_incoming i cfg
                  else cfg\<lparr>conf_learners := insert i (conf_learners cfg)\<rparr>)
      in (cfg', icm_push i Add prs))"

definition make_voter :: "nat \<Rightarrow> change_state \<Rightarrow> change_state" where
  "make_voter i st =
     (let (cfg, prs) = st in
      if \<not> icm_contains prs i then init_progress i False st
      else ((add_incoming i cfg)\<lparr>conf_learners := conf_learners cfg - {i},
              conf_learners_next := conf_learners_next cfg - {i}\<rparr>, prs))"

definition make_learner :: "nat \<Rightarrow> change_state \<Rightarrow> change_state" where
  "make_learner i st =
     (let (cfg, prs) = st in
      if \<not> icm_contains prs i then init_progress i True st
      else if i \<in> conf_learners cfg then st
      else
        let cfg1 = (del_incoming i cfg)\<lparr>conf_learners := conf_learners cfg - {i},
                      conf_learners_next := conf_learners_next cfg - {i}\<rparr>
        in if i \<in> outgoing (conf_voters cfg1)
           then (cfg1\<lparr>conf_learners_next := insert i (conf_learners_next cfg1)\<rparr>, prs)
           else (cfg1\<lparr>conf_learners := insert i (conf_learners cfg1)\<rparr>, prs))"

definition remove_node :: "nat \<Rightarrow> change_state \<Rightarrow> change_state" where
  "remove_node i st =
     (let (cfg, prs) = st in
      if \<not> icm_contains prs i then st
      else
        let cfg1 = (del_incoming i cfg)\<lparr>conf_learners := conf_learners cfg - {i},
                      conf_learners_next := conf_learners_next cfg - {i}\<rparr>
        in if i \<notin> outgoing (conf_voters cfg1) then (cfg1, icm_push i Remove prs)
           else (cfg1, prs))"

fun apply_singles :: "conf_change_single list \<Rightarrow> change_state \<Rightarrow> change_state" where
  "apply_singles [] st = st"
| "apply_singles (cc # ccs) st =
     (if ccs_node_id cc = 0 then apply_singles ccs st
      else apply_singles ccs
             (case ccs_change_type cc of
                AddNode \<Rightarrow> make_voter (ccs_node_id cc) st
              | AddLearnerNode \<Rightarrow> make_learner (ccs_node_id cc) st
              | RemoveNode \<Rightarrow> remove_node (ccs_node_id cc) st))"

definition changer_apply ::
  "conf_change_single list \<Rightarrow> change_state \<Rightarrow> change_state result" where
  "changer_apply ccs st =
     (let (cfg, prs) = apply_singles ccs st in
      if incoming (conf_voters cfg) = {} then Inl (ConfChangeError ''removed all voters'')
      else Inr (cfg, prs))"

fun check_voters :: "incr_change_map \<Rightarrow> nat list \<Rightarrow> unit result" where
  "check_voters prs [] = Inr ()"
| "check_voters prs (i # ids) =
     (if \<not> icm_contains prs i
      then Inl (ConfChangeError (''no progress for voter '' @ string_of_nat i))
      else check_voters prs ids)"

fun check_learners :: "configuration \<Rightarrow> incr_change_map \<Rightarrow> nat list \<Rightarrow> unit result" where
  "check_learners cfg prs [] = Inr ()"
| "check_learners cfg prs (i # ids) =
     (if \<not> icm_contains prs i
      then Inl (ConfChangeError (''no progress for learner '' @ string_of_nat i))
      else if i \<in> outgoing (conf_voters cfg)
      then Inl (ConfChangeError (string_of_nat i @ '' is in learners and outgoing voters''))
      else if i \<in> incoming (conf_voters cfg)
      then Inl (ConfChangeError (string_of_nat i @ '' is in learners and incoming voters''))
      else check_learners cfg prs ids)"

fun check_learners_next :: "configuration \<Rightarrow> incr_change_map \<Rightarrow> nat list \<Rightarrow> unit result" where
  "check_learners_next cfg prs [] = Inr ()"
| "check_learners_next cfg prs (i # ids) =
     (if \<not> icm_contains prs i
      then Inl (ConfChangeError (''no progress for learner(next) '' @ string_of_nat i))
      else if i \<notin> outgoing (conf_voters cfg)
      then Inl (ConfChangeError (string_of_nat i @ '' is in learners_next and outgoing voters''))
      else check_learners_next cfg prs ids)"

definition check_invariants :: "configuration \<Rightarrow> incr_change_map \<Rightarrow> unit result" where
  "check_invariants cfg prs =
     (case check_voters prs (joint_ids (conf_voters cfg)) of
        Inl e \<Rightarrow> Inl e
      | Inr _ \<Rightarrow>
     (case check_learners cfg prs (sorted_list_of_set (conf_learners cfg)) of
        Inl e \<Rightarrow> Inl e
      | Inr _ \<Rightarrow>
     (case check_learners_next cfg prs (sorted_list_of_set (conf_learners_next cfg)) of
        Inl e \<Rightarrow> Inl e
      | Inr _ \<Rightarrow>
          if \<not> joint cfg then
            if conf_learners_next cfg \<noteq> {}
            then Inl (ConfChangeError ''learners_next must be empty when not joint'')
            else if conf_auto_leave cfg
            then Inl (ConfChangeError ''auto_leave must be false when not joint'')
            else Inr ()
          else Inr ())))"

definition check_and_copy :: "progress_tracker \<Rightarrow> change_state result" where
  "check_and_copy t =
     (let prs = \<lparr>icm_changes = [], icm_base = pt_progress t\<rparr> in
      case check_invariants (pt_conf t) prs of
        Inl e \<Rightarrow> Inl e
      | Inr _ \<Rightarrow> Inr (pt_conf t, prs))"

definition changer_enter_joint ::
  "progress_tracker \<Rightarrow> bool \<Rightarrow> conf_change_single list \<Rightarrow> (configuration \<times> map_change) result"
  where
  "changer_enter_joint t auto_leave ccs =
     (if joint (pt_conf t) then Inl (ConfChangeError ''config is already joint'')
      else case check_and_copy t of
        Inl e \<Rightarrow> Inl e
      | Inr (cfg, prs) \<Rightarrow>
          if incoming (conf_voters cfg) = {}
          then Inl (ConfChangeError ''can't make a zero-voter config joint'')
          else
            let cfg1 = cfg\<lparr>conf_voters := (conf_voters cfg)
                  \<lparr>outgoing := outgoing (conf_voters cfg) \<union> incoming (conf_voters cfg)\<rparr>\<rparr>
            in case changer_apply ccs (cfg1, prs) of
                 Inl e \<Rightarrow> Inl e
               | Inr (cfg2, prs2) \<Rightarrow>
                   let cfg3 = cfg2\<lparr>conf_auto_leave := auto_leave\<rparr>
                   in case check_invariants cfg3 prs2 of
                        Inl e \<Rightarrow> Inl e
                      | Inr _ \<Rightarrow> Inr (cfg3, icm_changes prs2))"

fun leave_loop :: "configuration \<Rightarrow> nat list \<Rightarrow> incr_change_map \<Rightarrow> incr_change_map" where
  "leave_loop cfg [] prs = prs"
| "leave_loop cfg (i # ids) prs =
     leave_loop cfg ids
       (if i \<notin> incoming (conf_voters cfg) \<and> i \<notin> conf_learners cfg then icm_push i Remove prs
        else prs)"

definition changer_leave_joint ::
  "progress_tracker \<Rightarrow> (configuration \<times> map_change) result" where
  "changer_leave_joint t =
     (if \<not> joint (pt_conf t) then Inl (ConfChangeError ''can't leave a non-joint config'')
      else case check_and_copy t of
        Inl e \<Rightarrow> Inl e
      | Inr (cfg, prs) \<Rightarrow>
          if outgoing (conf_voters cfg) = {}
          then Inl (ConfChangeError ''configuration is not joint'')
          else
            let cfg1 = cfg\<lparr>conf_learners := conf_learners cfg \<union> conf_learners_next cfg,
                           conf_learners_next := {}\<rparr>;
                prs1 = leave_loop cfg1 (sorted_list_of_set (outgoing (conf_voters cfg1))) prs;
                cfg2 = cfg1\<lparr>conf_voters := (conf_voters cfg1)\<lparr>outgoing := {}\<rparr>,
                            conf_auto_leave := False\<rparr>
            in case check_invariants cfg2 prs1 of
                 Inl e \<Rightarrow> Inl e
               | Inr _ \<Rightarrow> Inr (cfg2, icm_changes prs1))"

definition changer_simple ::
  "progress_tracker \<Rightarrow> conf_change_single list \<Rightarrow> (configuration \<times> map_change) result" where
  "changer_simple t ccs =
     (if joint (pt_conf t)
      then Inl (ConfChangeError ''can't apply simple config change in joint config'')
      else case check_and_copy t of
        Inl e \<Rightarrow> Inl e
      | Inr st \<Rightarrow> (case changer_apply ccs st of
          Inl e \<Rightarrow> Inl e
        | Inr (cfg, prs) \<Rightarrow>
            let a = incoming (conf_voters cfg); b = incoming (conf_voters (pt_conf t))
            in if card ((a - b) \<union> (b - a)) > 1
               then Inl (ConfChangeError
                      ''more than one voter changed without entering joint config'')
               else case check_invariants cfg prs of
                      Inl e \<Rightarrow> Inl e
                    | Inr _ \<Rightarrow> Inr (cfg, icm_changes prs)))"

text \<open>The choice of the operation in \<open>Raft::apply_conf_change\<close>.\<close>

definition changer_change ::
  "conf_change_v2 \<Rightarrow> progress_tracker \<Rightarrow> (configuration \<times> map_change) result" where
  "changer_change cc t =
     (if v2_leave_joint cc then changer_leave_joint t
      else case v2_enter_joint cc of
             Some auto_leave \<Rightarrow> changer_enter_joint t auto_leave (ccv2_changes cc)
           | None \<Rightarrow> changer_simple t (ccv2_changes cc))"

section \<open>Restore\<close>

definition to_conf_change_single ::
  "conf_state \<Rightarrow> conf_change_single list \<times> conf_change_single list" where
  "to_conf_change_single cs =
     (let out = map (\<lambda>i. new_conf_change_single i AddNode) (cs_voters_outgoing cs);
          inc = map (\<lambda>i. new_conf_change_single i RemoveNode) (cs_voters_outgoing cs)
              @ map (\<lambda>i. new_conf_change_single i AddNode) (cs_voters cs)
              @ map (\<lambda>i. new_conf_change_single i AddLearnerNode) (cs_learners cs)
              @ map (\<lambda>i. new_conf_change_single i AddLearnerNode) (cs_learners_next cs)
      in (out, inc))"

fun restore_simple ::
  "nat \<Rightarrow> conf_change_single list \<Rightarrow> progress_tracker \<Rightarrow> unit result \<times> progress_tracker" where
  "restore_simple next_idx [] t = (Inr (), t)"
| "restore_simple next_idx (cc # ccs) t =
     (case changer_simple t [cc] of
        Inl e \<Rightarrow> (Inl e, t)
      | Inr (cfg, changes) \<Rightarrow> restore_simple next_idx ccs (apply_conf cfg changes next_idx t))"

definition confchange_restore ::
  "progress_tracker \<Rightarrow> nat \<Rightarrow> conf_state \<Rightarrow> unit result \<times> progress_tracker" where
  "confchange_restore t next_idx cs =
     (let (out, inc) = to_conf_change_single cs in
      if out = [] then restore_simple next_idx inc t
      else case restore_simple next_idx out t of
        (Inl e, t1) \<Rightarrow> (Inl e, t1)
      | (Inr _, t1) \<Rightarrow> (case changer_enter_joint t1 (cs_auto_leave cs) inc of
            Inl e \<Rightarrow> (Inl e, t1)
          | Inr (cfg, changes) \<Rightarrow> (Inr (), apply_conf cfg changes next_idx t1)))"

section \<open>Well-formed trackers\<close>

text \<open>
  The invariant of a configuration and its progress map. It says more than \<open>check_invariants\<close>: the
  progress map tracks exactly the members, voters and learners are apart, and a learner that waits
  for the joint phase to end is an outgoing voter.
\<close>

definition conf_members :: "configuration \<Rightarrow> nat set" where
  "conf_members cfg = incoming (conf_voters cfg) \<union> outgoing (conf_voters cfg) \<union> conf_learners cfg
     \<union> conf_learners_next cfg"

definition conf_roles_ok :: "configuration \<Rightarrow> bool" where
  "conf_roles_ok cfg \<longleftrightarrow> finite (conf_members cfg) \<and>
     conf_learners cfg \<inter> (incoming (conf_voters cfg) \<union> outgoing (conf_voters cfg)) = {} \<and>
     conf_learners_next cfg \<subseteq> outgoing (conf_voters cfg) - incoming (conf_voters cfg)"

definition conf_ok :: "configuration \<Rightarrow> bool" where
  "conf_ok cfg \<longleftrightarrow> conf_roles_ok cfg \<and> (\<not> joint cfg \<longrightarrow> \<not> conf_auto_leave cfg)"

definition tracker_ok :: "progress_tracker \<Rightarrow> bool" where
  "tracker_ok t \<longleftrightarrow> conf_ok (pt_conf t) \<and> amap_wf (pt_progress t) \<and>
     amap_keys (pt_progress t) = conf_members (pt_conf t)"

definition icm_ids :: "incr_change_map \<Rightarrow> nat set" where
  "icm_ids prs = {i. icm_contains prs i}"

lemma icm_contains_push [simp]:
  "icm_contains (icm_push i ct prs) j \<longleftrightarrow> (if j = i then ct = Add else icm_contains prs j)"
  by (auto simp: icm_contains_def icm_push_def split: option.splits map_change_type.splits)

lemma icm_base_push [simp]: "icm_base (icm_push i ct prs) = icm_base prs"
  by (simp add: icm_push_def)

lemma icm_ids_push [simp]:
  "icm_ids (icm_push i Add prs) = insert i (icm_ids prs)"
  "icm_ids (icm_push i Remove prs) = icm_ids prs - {i}"
  by (auto simp: icm_ids_def)

lemma icm_ids_start [simp]: "icm_ids \<lparr>icm_changes = [], icm_base = m\<rparr> = amap_keys m"
  by (auto simp: icm_ids_def icm_contains_def)

lemma icm_contains_ids: "icm_contains prs i \<longleftrightarrow> i \<in> icm_ids prs"
  by (simp add: icm_ids_def)

lemma apply_changes_append:
  "apply_changes mx nx (cs @ ds) m = apply_changes mx nx ds (apply_changes mx nx cs m)"
  by (induction mx nx cs m rule: apply_changes.induct) auto

text \<open>The recorded changes, applied to the progress map, produce the keys the map promised.\<close>

lemma apply_changes_keys:
  "amap_wf m \<Longrightarrow>
     amap_wf (apply_changes mx nx cs m) \<and>
     amap_keys (apply_changes mx nx cs m) = icm_ids \<lparr>icm_changes = cs, icm_base = m\<rparr>"
proof (induction cs rule: rev_induct)
  case (snoc c cs)
  obtain i ct where c: "c = (i, ct)" by fastforce
  have push: "\<lparr>icm_changes = cs @ [c], icm_base = m\<rparr> = icm_push i ct \<lparr>icm_changes = cs, icm_base = m\<rparr>"
    by (simp add: icm_push_def c)
  show ?case using snoc unfolding push
    by (cases ct) (auto simp: apply_changes_append c amap_keys_set amap_keys_del)
qed simp

section \<open>Single changes\<close>

text \<open>The state of a change is fine when the roles are, and the map tracks exactly the members.\<close>

definition change_ok :: "change_state \<Rightarrow> bool" where
  "change_ok st \<longleftrightarrow> conf_roles_ok (fst st) \<and> icm_ids (snd st) = conf_members (fst st)"

lemmas conf_upd = add_incoming_def del_incoming_def conf_members_def conf_roles_ok_def

lemma init_progress_ok:
  assumes "change_ok st" "i \<notin> conf_members (fst st)"
  shows "change_ok (init_progress i b st)"
  using assms by (auto simp: change_ok_def init_progress_def conf_upd split: prod.splits)

lemma make_voter_ok: "change_ok st \<Longrightarrow> change_ok (make_voter i st)"
  using init_progress_ok[of st i False]
  by (auto simp: make_voter_def icm_contains_ids change_ok_def conf_upd split: prod.splits)

lemma make_learner_ok: "change_ok st \<Longrightarrow> change_ok (make_learner i st)"
  using init_progress_ok[of st i True]
  by (auto simp: make_learner_def icm_contains_ids change_ok_def conf_upd Let_def split: prod.splits)

lemma remove_node_ok: "change_ok st \<Longrightarrow> change_ok (remove_node i st)"
  by (auto simp: remove_node_def icm_contains_ids change_ok_def conf_upd Let_def split: prod.splits)

lemma apply_singles_ok: "change_ok st \<Longrightarrow> change_ok (apply_singles ccs st)"
  by (induction ccs st rule: apply_singles.induct)
    (auto simp: make_voter_ok make_learner_ok remove_node_ok split: conf_change_type.splits)

text \<open>What a list of changes never touches.\<close>

lemma apply_singles_frame:
  "outgoing (conf_voters (fst (apply_singles ccs st))) = outgoing (conf_voters (fst st))"
  "conf_auto_leave (fst (apply_singles ccs st)) = conf_auto_leave (fst st)"
  "icm_base (snd (apply_singles ccs st)) = icm_base (snd st)"
  by (induction ccs st rule: apply_singles.induct)
    (auto simp: make_voter_def make_learner_def remove_node_def init_progress_def Let_def conf_upd
      split: prod.splits conf_change_type.splits)

lemma changer_apply_eq:
  "changer_apply ccs st =
     (if incoming (conf_voters (fst (apply_singles ccs st))) = {}
      then Inl (ConfChangeError ''removed all voters'') else Inr (apply_singles ccs st))"
  by (auto simp: changer_apply_def split: prod.splits)

section \<open>The checks\<close>

lemma check_voters_Inr: "check_voters prs ids = Inr u \<longleftrightarrow> (\<forall>i \<in> set ids. icm_contains prs i)"
  by (induction ids) auto

lemma check_learners_Inr:
  "check_learners cfg prs ids = Inr u \<longleftrightarrow>
     (\<forall>i \<in> set ids. icm_contains prs i \<and> i \<notin> outgoing (conf_voters cfg) \<and> i \<notin> incoming (conf_voters cfg))"
  by (induction ids) auto

lemma check_learners_next_Inr:
  "check_learners_next cfg prs ids = Inr u \<longleftrightarrow>
     (\<forall>i \<in> set ids. icm_contains prs i \<and> i \<in> outgoing (conf_voters cfg))"
  by (induction ids) auto

lemma check_invariants_ok:
  assumes "change_ok (cfg, prs)" "\<not> joint cfg \<longrightarrow> \<not> conf_auto_leave cfg"
  shows "check_invariants cfg prs = Inr ()"
proof -
  have "check_voters prs (joint_ids (conf_voters cfg)) = Inr ()"
    "check_learners cfg prs (sorted_list_of_set (conf_learners cfg)) = Inr ()"
    "check_learners_next cfg prs (sorted_list_of_set (conf_learners_next cfg)) = Inr ()"
    using assms(1)
    by (auto simp: check_voters_Inr check_learners_Inr check_learners_next_Inr icm_contains_ids
        change_ok_def conf_roles_ok_def conf_members_def joint_ids_def union_iter_def)
  then show ?thesis
    using assms by (auto simp: check_invariants_def change_ok_def conf_roles_ok_def joint_def)
qed

lemma check_and_copy_ok:
  assumes "tracker_ok t"
  shows "check_and_copy t = Inr (pt_conf t, \<lparr>icm_changes = [], icm_base = pt_progress t\<rparr>)"
    and "change_ok (pt_conf t, \<lparr>icm_changes = [], icm_base = pt_progress t\<rparr>)"
proof -
  show ok: "change_ok (pt_conf t, \<lparr>icm_changes = [], icm_base = pt_progress t\<rparr>)"
    using assms by (simp add: tracker_ok_def change_ok_def conf_ok_def)
  then show "check_and_copy t = Inr (pt_conf t, \<lparr>icm_changes = [], icm_base = pt_progress t\<rparr>)"
    using assms check_invariants_ok by (simp add: check_and_copy_def tracker_ok_def conf_ok_def)
qed

lemma apply_conf_ok:
  assumes "change_ok (cfg, prs)" "\<not> joint cfg \<longrightarrow> \<not> conf_auto_leave cfg"
    "tracker_ok t" "icm_base prs = pt_progress t"
  shows "tracker_ok (apply_conf cfg (icm_changes prs) nx t)"
proof -
  have "icm_ids \<lparr>icm_changes = icm_changes prs, icm_base = pt_progress t\<rparr> = icm_ids prs"
    using assms(4) by (cases prs) simp
  then show ?thesis
    using assms apply_changes_keys[of "pt_progress t" "pt_max_inflight t" nx "icm_changes prs"]
    by (auto simp: tracker_ok_def apply_conf_def conf_ok_def change_ok_def)
qed

section \<open>The three operations on a well-formed tracker\<close>

abbreviation start_change :: "progress_tracker \<Rightarrow> incr_change_map" where
  "start_change t \<equiv> \<lparr>icm_changes = [], icm_base = pt_progress t\<rparr>"

definition make_joint :: "configuration \<Rightarrow> configuration" where
  "make_joint cfg = cfg\<lparr>conf_voters := (conf_voters cfg)
     \<lparr>outgoing := outgoing (conf_voters cfg) \<union> incoming (conf_voters cfg)\<rparr>\<rparr>"

lemma make_joint_voters [simp]:
  "outgoing (conf_voters (make_joint cfg)) = outgoing (conf_voters cfg) \<union> incoming (conf_voters cfg)"
  by (simp add: make_joint_def)

lemma make_joint_ok:
  assumes "change_ok (cfg, prs)" "\<not> joint cfg"
  shows "change_ok (make_joint cfg, prs)"
  using assms by (auto simp: change_ok_def make_joint_def conf_upd joint_def)

lemma change_ok_auto_leave [simp]:
  "change_ok (cfg\<lparr>conf_auto_leave := b\<rparr>, prs) = change_ok (cfg, prs)"
  by (simp add: change_ok_def conf_upd)

lemma changer_simple_eq:
  assumes "tracker_ok t"
  shows "changer_simple t ccs =
    (let (cfg, prs) = apply_singles ccs (pt_conf t, start_change t);
         a = incoming (conf_voters cfg); b = incoming (conf_voters (pt_conf t))
     in if joint (pt_conf t)
        then Inl (ConfChangeError ''can't apply simple config change in joint config'')
        else if a = {} then Inl (ConfChangeError ''removed all voters'')
        else if card ((a - b) \<union> (b - a)) > 1
        then Inl (ConfChangeError ''more than one voter changed without entering joint config'')
        else Inr (cfg, icm_changes prs))"
    and "changer_simple t ccs = Inr (cfg, ch) \<Longrightarrow> tracker_ok (apply_conf cfg ch nx t)"
proof -
  obtain cfg' prs where st: "apply_singles ccs (pt_conf t, start_change t) = (cfg', prs)" by fastforce
  note frame = apply_singles_frame[of ccs "(pt_conf t, start_change t)", unfolded st, simplified]
  have ok: "change_ok (cfg', prs)"
    using apply_singles_ok[OF check_and_copy_ok(2)[OF assms], of ccs] st by simp
  have al: "\<not> joint cfg' \<longrightarrow> \<not> conf_auto_leave cfg'"
    using frame assms by (auto simp: joint_def tracker_ok_def conf_ok_def)
  note inv = check_invariants_ok[OF ok al]
  show eq: "changer_simple t ccs =
    (let (cfg, prs) = apply_singles ccs (pt_conf t, start_change t);
         a = incoming (conf_voters cfg); b = incoming (conf_voters (pt_conf t))
     in if joint (pt_conf t)
        then Inl (ConfChangeError ''can't apply simple config change in joint config'')
        else if a = {} then Inl (ConfChangeError ''removed all voters'')
        else if card ((a - b) \<union> (b - a)) > 1
        then Inl (ConfChangeError ''more than one voter changed without entering joint config'')
        else Inr (cfg, icm_changes prs))"
    by (simp add: changer_simple_def check_and_copy_ok[OF assms] changer_apply_eq st inv Let_def)
  show "changer_simple t ccs = Inr (cfg, ch) \<Longrightarrow> tracker_ok (apply_conf cfg ch nx t)"
    using apply_conf_ok[OF ok al assms, of nx] frame(3) unfolding eq st
    by (auto simp: Let_def split: if_splits)
qed

lemma changer_enter_joint_eq:
  assumes "tracker_ok t"
  shows "changer_enter_joint t auto_leave ccs =
    (let (cfg, prs) = apply_singles ccs (make_joint (pt_conf t), start_change t)
     in if joint (pt_conf t) then Inl (ConfChangeError ''config is already joint'')
        else if incoming (conf_voters (pt_conf t)) = {}
        then Inl (ConfChangeError ''can't make a zero-voter config joint'')
        else if incoming (conf_voters cfg) = {} then Inl (ConfChangeError ''removed all voters'')
        else Inr (cfg\<lparr>conf_auto_leave := auto_leave\<rparr>, icm_changes prs))"
    and "changer_enter_joint t auto_leave ccs = Inr (cfg, ch) \<Longrightarrow> tracker_ok (apply_conf cfg ch nx t)"
proof -
  let ?t = "apply_singles ccs (make_joint (pt_conf t), start_change t)"
  obtain cfg' prs where st: "?t = (cfg', prs)" by fastforce
  note frame = apply_singles_frame[of ccs "(make_joint (pt_conf t), start_change t)", unfolded st, simplified]
  let ?c = "cfg'\<lparr>conf_auto_leave := auto_leave\<rparr>"
  have good: "change_ok (?c, prs) \<and> joint ?c"
    if "\<not> joint (pt_conf t)" "incoming (conf_voters (pt_conf t)) \<noteq> {}"
    using apply_singles_ok[OF make_joint_ok[OF check_and_copy_ok(2)[OF assms] that(1)], of ccs,
        unfolded st] frame(1) that by (simp add: joint_def)
  have inv: "check_invariants ?c prs = Inr ()"
    if "\<not> joint (pt_conf t)" "incoming (conf_voters (pt_conf t)) \<noteq> {}"
    using good[OF that] check_invariants_ok by blast
  show eq: "changer_enter_joint t auto_leave ccs =
    (let (cfg, prs) = ?t
     in if joint (pt_conf t) then Inl (ConfChangeError ''config is already joint'')
        else if incoming (conf_voters (pt_conf t)) = {}
        then Inl (ConfChangeError ''can't make a zero-voter config joint'')
        else if incoming (conf_voters cfg) = {} then Inl (ConfChangeError ''removed all voters'')
        else Inr (cfg\<lparr>conf_auto_leave := auto_leave\<rparr>, icm_changes prs))"
    by (simp add: changer_enter_joint_def check_and_copy_ok[OF assms] changer_apply_eq st inv Let_def
        flip: make_joint_def)
  show "changer_enter_joint t auto_leave ccs = Inr (cfg, ch) \<Longrightarrow> tracker_ok (apply_conf cfg ch nx t)"
    using apply_conf_ok[of ?c prs t nx] good assms frame(3) unfolding eq st
    by (auto simp: Let_def split: if_splits)
qed

lemma leave_loop_ids:
  "icm_ids (leave_loop cfg ids prs) =
     icm_ids prs - {i \<in> set ids. i \<notin> incoming (conf_voters cfg) \<and> i \<notin> conf_learners cfg}"
  "icm_base (leave_loop cfg ids prs) = icm_base prs"
  by (induction cfg ids prs rule: leave_loop.induct) auto

definition left_joint :: "configuration \<Rightarrow> configuration" where
  "left_joint cfg = cfg\<lparr>conf_learners := conf_learners cfg \<union> conf_learners_next cfg,
     conf_learners_next := {}, conf_voters := (conf_voters cfg)\<lparr>outgoing := {}\<rparr>,
     conf_auto_leave := False\<rparr>"

lemma changer_leave_joint_eq:
  assumes "tracker_ok t"
  shows "\<exists>ch. changer_leave_joint t =
    (if joint (pt_conf t) then Inr (left_joint (pt_conf t), ch)
     else Inl (ConfChangeError ''can't leave a non-joint config''))
    \<and> (joint (pt_conf t) \<longrightarrow> tracker_ok (apply_conf (left_joint (pt_conf t)) ch nx t))"
proof -
  let ?cfg = "pt_conf t"
  let ?c1 = "?cfg\<lparr>conf_learners := conf_learners ?cfg \<union> conf_learners_next ?cfg, conf_learners_next := {}\<rparr>"
  define prs where "prs = leave_loop ?c1 (sorted_list_of_set (outgoing (conf_voters ?cfg))) (start_change t)"
  have "finite (outgoing (conf_voters ?cfg))"
    using assms by (auto simp: tracker_ok_def conf_ok_def conf_roles_ok_def conf_members_def)
  then have ids: "icm_ids prs = conf_members (left_joint ?cfg)" "icm_base prs = pt_progress t"
    using assms
    by (auto simp: prs_def leave_loop_ids left_joint_def tracker_ok_def conf_ok_def conf_upd)
  then have ok: "change_ok (left_joint ?cfg, prs)"
    using assms by (auto simp: change_ok_def tracker_ok_def conf_ok_def left_joint_def conf_upd)
  have al: "\<not> joint (left_joint ?cfg) \<longrightarrow> \<not> conf_auto_leave (left_joint ?cfg)"
    by (simp add: left_joint_def)
  have lj: "?c1\<lparr>conf_voters := (conf_voters ?cfg)\<lparr>outgoing := {}\<rparr>, conf_auto_leave := False\<rparr> = left_joint ?cfg"
    by (simp add: left_joint_def)
  have "changer_leave_joint t =
    (if joint ?cfg then Inr (left_joint ?cfg, icm_changes prs)
     else Inl (ConfChangeError ''can't leave a non-joint config''))"
    using check_invariants_ok[OF ok al] lj
    by (simp add: changer_leave_joint_def check_and_copy_ok[OF assms] Let_def joint_def
        prs_def[symmetric])
  moreover have "tracker_ok (apply_conf (left_joint ?cfg) (icm_changes prs) nx t)"
    by (rule apply_conf_ok[OF ok al assms ids(2)])
  ultimately show ?thesis by blast
qed

section \<open>Quorums across a change\<close>

lemma majorities_differ_by_one:
  assumes "finite A" "finite B" "card ((A - B) \<union> (B - A)) \<le> 1"
    and Q: "majority_quorum A Q" and R: "majority_quorum B R"
  shows "Q \<inter> R \<noteq> {}"
proof -
  have "card (A - B) + card (B - A) \<le> 1"
    using assms(1-3) by (subst (asm) card_Un_disjoint) auto
  moreover have "card (A \<union> B) = card A + card (B - A)" "card (A \<union> B) = card B + card (A - B)"
    using assms(1,2) by (metis Un_Diff_cancel card_Un_disjoint Diff_disjoint finite_Diff,
        metis Un_Diff_cancel2 Un_commute card_Un_disjoint Diff_disjoint finite_Diff)
  moreover have "card A < 2 * card (A \<inter> Q)" "card B < 2 * card (B \<inter> R)"
    using Q R by (auto simp: majority_quorum_def majority_def)
  ultimately have "card (A \<union> B) < card (A \<inter> Q) + card (B \<inter> R)" by linarith
  then have "(A \<inter> Q) \<inter> (B \<inter> R) \<noteq> {}"
    using assms(1,2) by (intro card_overlap[of "A \<union> B"]) auto
  then show ?thesis by blast
qed

text \<open>
  The contract that the three operations of the changer share: an accepted change keeps the tracker
  well formed, and every quorum of the old configuration meets every quorum of the new one.
\<close>

locale conf_changer =
  fixes change :: "progress_tracker \<Rightarrow> (configuration \<times> map_change) result"
  assumes keeps: "tracker_ok t \<Longrightarrow> change t = Inr (cfg, ch) \<Longrightarrow> tracker_ok (apply_conf cfg ch nx t)"
    and quorums_meet: "tracker_ok t \<Longrightarrow> change t = Inr (cfg, ch) \<Longrightarrow>
      joint_quorum (conf_voters (pt_conf t)) Q \<Longrightarrow> joint_quorum (conf_voters cfg) R \<Longrightarrow> Q \<inter> R \<noteq> {}"
begin

text \<open>Leaders on the two sides of a change cannot both be elected without a common voter.\<close>

lemma common_voter:
  assumes "tracker_ok t" "change t = Inr (cfg, ch)"
    and "incoming (conf_voters (pt_conf t)) \<noteq> {}" "incoming (conf_voters cfg) \<noteq> {}"
    and won: "joint_vote_result (conf_voters (pt_conf t)) old = Won"
      "joint_vote_result (conf_voters cfg) new = Won"
  shows "\<exists>v. old v = Some True \<and> new v = Some True"
proof -
  have fin: "finite (incoming (conf_voters c))" "finite (outgoing (conf_voters c))" if "conf_ok c" for c
    using that by (auto simp: conf_ok_def conf_roles_ok_def conf_members_def)
  have "conf_ok (pt_conf t)" "conf_ok cfg"
    using assms(1) keeps[OF assms(1,2), of 0] by (auto simp: tracker_ok_def apply_conf_def)
  then have "joint_quorum (conf_voters (pt_conf t)) {v. old v = Some True}"
    "joint_quorum (conf_voters cfg) {v. new v = Some True}"
    using won assms(3,4) by (simp_all add: joint_won_iff_quorum fin)
  then show ?thesis using quorums_meet[OF assms(1,2)] by blast
qed

end

lemma simple_quorums_meet:
  assumes "tracker_ok t" "changer_simple t ccs = Inr (cfg, ch)"
    "joint_quorum (conf_voters (pt_conf t)) Q" "joint_quorum (conf_voters cfg) R"
  shows "Q \<inter> R \<noteq> {}"
proof (rule majorities_differ_by_one)
  let ?a = "incoming (conf_voters cfg)" and ?b = "incoming (conf_voters (pt_conf t))"
  show "majority_quorum ?b Q" "majority_quorum ?a R" using assms(3,4) by (auto simp: joint_quorum_def)
  then show "finite ?a" "finite ?b" by (auto simp: majority_quorum_def)
  show "card ((?b - ?a) \<union> (?a - ?b)) \<le> 1"
    using assms(2) unfolding changer_simple_eq(1)[OF assms(1)]
    by (auto simp: Let_def Un_commute split: if_splits prod.splits)
qed

lemma enter_joint_outgoing:
  assumes "tracker_ok t" "changer_enter_joint t al ccs = Inr (cfg, ch)"
  shows "outgoing (conf_voters cfg) = incoming (conf_voters (pt_conf t))"
    "outgoing (conf_voters cfg) \<noteq> {}"
  using assms(2) apply_singles_frame(1)[of ccs "(make_joint (pt_conf t), start_change t)"]
  unfolding changer_enter_joint_eq(1)[OF assms(1)]
  by (auto simp: Let_def joint_def split: if_splits prod.splits)

interpretation simple: conf_changer "\<lambda>t. changer_simple t ccs" for ccs
  by unfold_locales (use changer_simple_eq(2) simple_quorums_meet in blast)+

interpretation enter: conf_changer "\<lambda>t. changer_enter_joint t al ccs" for al ccs
proof unfold_locales
  show "tracker_ok (apply_conf cfg ch nx t)"
    if "tracker_ok t" "changer_enter_joint t al ccs = Inr (cfg, ch)" for t cfg ch nx
    using changer_enter_joint_eq(2)[OF that] .
  show "Q \<inter> R \<noteq> {}"
    if "tracker_ok t" "changer_enter_joint t al ccs = Inr (cfg, ch)"
      "joint_quorum (conf_voters (pt_conf t)) Q" "joint_quorum (conf_voters cfg) R" for t cfg ch Q R
    using that(3,4) enter_joint_outgoing[OF that(1,2)] mq.meet by (auto simp: joint_quorum_def)
qed

interpretation leave: conf_changer changer_leave_joint
proof unfold_locales
  fix t cfg ch
  assume t: "tracker_ok t" "changer_leave_joint t = Inr (cfg, ch)"
  have left: "joint (pt_conf t) \<and> cfg = left_joint (pt_conf t) \<and> tracker_ok (apply_conf cfg ch nx t)" for nx
    using changer_leave_joint_eq[OF t(1), of nx] t(2) by (auto split: if_splits)
  then show "tracker_ok (apply_conf cfg ch nx t)" for nx by blast
  show "Q \<inter> R \<noteq> {}"
    if "joint_quorum (conf_voters (pt_conf t)) Q" "joint_quorum (conf_voters cfg) R" for Q R
    using that left mq.meet by (auto simp: joint_quorum_def left_joint_def)
qed

text \<open>The choice of the operation in \<open>Raft::apply_conf_change\<close>.\<close>

lemma changer_change_cases:
  "changer_change cc t = changer_leave_joint t \<or> (\<exists>al. changer_change cc t = changer_enter_joint t al (ccv2_changes cc))
   \<or> changer_change cc t = changer_simple t (ccv2_changes cc)"
  by (auto simp: changer_change_def split: option.splits)

interpretation change: conf_changer "changer_change cc" for cc
proof unfold_locales
  fix t cfg ch
  assume t: "tracker_ok t" "changer_change cc t = Inr (cfg, ch)"
  then consider "changer_leave_joint t = Inr (cfg, ch)"
    | al where "changer_enter_joint t al (ccv2_changes cc) = Inr (cfg, ch)"
    | "changer_simple t (ccv2_changes cc) = Inr (cfg, ch)"
    using changer_change_cases[of cc t] by metis
  then have "(\<forall>nx. tracker_ok (apply_conf cfg ch nx t)) \<and>
     (\<forall>Q R. joint_quorum (conf_voters (pt_conf t)) Q \<longrightarrow> joint_quorum (conf_voters cfg) R \<longrightarrow> Q \<inter> R \<noteq> {})"
  proof cases
    case 1
    then show ?thesis using leave.keeps[OF t(1)] leave.quorums_meet[OF t(1)] by blast
  next
    case 2
    then show ?thesis using enter.keeps[OF t(1)] enter.quorums_meet[OF t(1)] by blast
  next
    case 3
    then show ?thesis using simple.keeps[OF t(1)] simple.quorums_meet[OF t(1)] by blast
  qed
  then show "tracker_ok (apply_conf cfg ch nx t)" "joint_quorum (conf_voters (pt_conf t)) Q \<Longrightarrow>
      joint_quorum (conf_voters cfg) R \<Longrightarrow> Q \<inter> R \<noteq> {}" for nx Q R by blast+
qed

section \<open>Properties of configuration changes\<close>

definition sample_tracker :: progress_tracker where
  "sample_tracker = (tracker_new 2)\<lparr>pt_conf := configuration_new [1, 2, 3] [4],
     pt_progress := map (\<lambda>i. (i, progress_new 1 2)) [1, 2, 3, 4]\<rparr>"

lemma sample_tracker_ok: "tracker_ok sample_tracker"
  by (auto simp: tracker_ok_def sample_tracker_def tracker_new_def configuration_new_def conf_ok_def
      conf_upd joint_def joint_new_def)

definition sample_change :: conf_change_v2 where
  "sample_change = conf_change_v2_default\<lparr>ccv2_changes :=
     [new_conf_change_single 5 AddNode, new_conf_change_single 1 AddLearnerNode]\<rparr>"

lemma sample_change_accepted:
  "changer_change sample_change sample_tracker = Inr
     (\<lparr>conf_voters = \<lparr>incoming = {2, 3, 5}, outgoing = {1, 2, 3}\<rparr>, conf_learners = {4},
       conf_learners_next = {1}, conf_auto_leave = True\<rparr>, [(5, Add)])"
proof -
  have "changer_change sample_change sample_tracker =
      changer_enter_joint sample_tracker True (ccv2_changes sample_change)"
    by (simp add: changer_change_def v2_leave_joint_def v2_enter_joint_def sample_change_def
        conf_change_v2_default_def)
  then show ?thesis
    unfolding changer_enter_joint_eq(1)[OF sample_tracker_ok]
    by (auto simp: sample_change_def joint_def sample_tracker_def tracker_new_def
        configuration_new_def joint_new_def new_conf_change_single_def make_joint_def make_voter_def
        make_learner_def icm_contains_def init_progress_def add_incoming_def del_incoming_def
        icm_push_def Let_def)
qed

text \<open>
  C5. Reconfiguration safety. Whenever a simple change, the entry into or the exit from a joint
  configuration is accepted, every quorum of the old configuration has a member in common with
  every quorum of the new one, so that a leader elected in one cannot miss what was committed, or
  who was elected, in the other.
\<close>

theorem conf_change_quorums_meet:
  assumes "tracker_ok t" "changer_change cc t = Inr (cfg, changes)"
    and "joint_quorum (conf_voters (pt_conf t)) Q" "joint_quorum (conf_voters cfg) R"
  shows "Q \<inter> R \<noteq> {}"
  using change.quorums_meet[OF assms] .

theorem conf_change_quorums_meet_witness:
  "joint_quorum (conf_voters (pt_conf sample_tracker)) {1, 2} \<and>
   joint_quorum \<lparr>incoming = {2, 3, 5}, outgoing = {1, 2, 3}\<rparr> {2, 3, 5} \<and>
   {1, 2} \<inter> {2, 3, 5 :: nat} \<noteq> {}"
proof -
  have old: "joint_quorum (conf_voters (pt_conf sample_tracker)) {1, 2}"
    by (simp add: joint_quorum_def majority_quorum_def majority_def sample_tracker_def
        tracker_new_def configuration_new_def joint_new_def)
  have new: "joint_quorum \<lparr>incoming = {2, 3, 5}, outgoing = {1, 2, 3}\<rparr> {2, 3, 5}"
    by (simp add: joint_quorum_def majority_quorum_def majority_def)
  have "{1, 2} \<inter> {2, 3, 5 :: nat} \<noteq> {}"
    by (rule conf_change_quorums_meet[OF sample_tracker_ok sample_change_accepted old])
      (use new in simp)
  then show ?thesis using old new by simp
qed

text \<open>
  C18. Every accepted change keeps the tracker well formed: the progress map tracks exactly the voters
  and learners of the new configuration, no learner is a voter, learners that wait for the end of
  the joint phase are outgoing voters, and a configuration that is not joint has no such learners
  and no automatic exit.
\<close>

theorem conf_change_keeps_tracker:
  assumes "tracker_ok t" "changer_change cc t = Inr (cfg, changes)"
  shows "tracker_ok (apply_conf cfg changes next_idx t)"
  using change.keeps[OF assms] .

theorem conf_change_keeps_tracker_witness:
  "case changer_change sample_change sample_tracker of
     Inr (cfg, changes) \<Rightarrow> tracker_ok (apply_conf cfg changes 7 sample_tracker)
   | Inl _ \<Rightarrow> False"
  using conf_change_keeps_tracker[OF sample_tracker_ok sample_change_accepted, of 7]
  by (simp add: sample_change_accepted)

text \<open>
  C28. On a well-formed tracker a change is refused exactly for the documented reasons: leaving a
  configuration that is not joint; a simple or entering change while joint; an entering change with
  no voters; removing all voters; a simple change that changes more than one voter. The internal
  consistency checks never fail.
\<close>

theorem conf_change_refused_iff:
  assumes "tracker_ok t"
  shows "(\<exists>e. changer_change cc t = Inl e) \<longleftrightarrow>
    (let voters = (\<lambda>st. incoming (conf_voters (fst (apply_singles (ccv2_changes cc) (st, start_change t)))));
         old = incoming (conf_voters (pt_conf t))
     in if v2_leave_joint cc then \<not> joint (pt_conf t)
        else if v2_enter_joint cc \<noteq> None
        then joint (pt_conf t) \<or> old = {} \<or> voters (make_joint (pt_conf t)) = {}
        else joint (pt_conf t) \<or> voters (pt_conf t) = {} \<or>
             card ((voters (pt_conf t) - old) \<union> (old - voters (pt_conf t))) > 1)"
proof (cases "v2_leave_joint cc")
  case True
  then show ?thesis using changer_leave_joint_eq[OF assms, of 0] by (auto simp: changer_change_def)
next
  case False
  then show ?thesis
    by (auto simp: changer_change_def changer_simple_eq(1)[OF assms] changer_enter_joint_eq(1)[OF assms]
        Let_def split: option.splits prod.splits if_splits)
qed

theorem conf_change_refused_iff_witness:
  "\<exists>e. changer_change conf_change_v2_default sample_tracker = Inl e"
  using conf_change_refused_iff[OF sample_tracker_ok, of conf_change_v2_default]
  by (simp add: v2_leave_joint_def conf_change_v2_default_def sample_tracker_def tracker_new_def
      configuration_new_def joint_new_def joint_def)

section \<open>Restoring a configuration\<close>

lemma tracker_new_ok: "tracker_ok (tracker_new m)"
  by (simp add: tracker_ok_def tracker_new_def configuration_default_def conf_ok_def conf_upd)

lemma apply_singles_append: "apply_singles (xs @ ys) st = apply_singles ys (apply_singles xs st)"
  by (induction xs st rule: apply_singles.induct) auto

lemma simple_add_node:
  assumes "tracker_ok t" "\<not> joint (pt_conf t)" "i \<noteq> 0" "i \<notin> conf_members (pt_conf t)"
  shows "changer_simple t [new_conf_change_single i AddNode] = Inr (add_incoming i (pt_conf t), [(i, Add)])"
proof -
  have "\<not> icm_contains (start_change t) i"
    using assms(1,4) by (auto simp: icm_contains_ids tracker_ok_def)
  moreover have "insert i A - A \<union> (A - insert i A) = {i}" if "i \<notin> A" for A :: "nat set"
    using that by auto
  ultimately show ?thesis
    using assms(2-4)
    by (auto simp: changer_simple_eq(1)[OF assms(1)] new_conf_change_single_def make_voter_def
        init_progress_def add_incoming_def icm_push_def conf_members_def Let_def)
qed

lemma simple_add_learner:
  assumes "tracker_ok t" "\<not> joint (pt_conf t)" "i \<noteq> 0" "i \<notin> conf_members (pt_conf t)"
    "incoming (conf_voters (pt_conf t)) \<noteq> {}"
  shows "changer_simple t [new_conf_change_single i AddLearnerNode] =
    Inr ((pt_conf t)\<lparr>conf_learners := insert i (conf_learners (pt_conf t))\<rparr>, [(i, Add)])"
proof -
  have "\<not> icm_contains (start_change t) i"
    using assms(1,4) by (auto simp: icm_contains_ids tracker_ok_def)
  then show ?thesis
    using assms(2-5)
    by (auto simp: changer_simple_eq(1)[OF assms(1)] new_conf_change_single_def make_learner_def
        init_progress_def icm_push_def Let_def)
qed

lemma pt_conf_apply_conf [simp]: "pt_conf (apply_conf cfg ch nx t) = cfg"
  by (simp add: apply_conf_def)

lemma restore_simple_voters:
  assumes "tracker_ok t" "\<not> joint (pt_conf t)" "distinct xs" "0 \<notin> set xs"
    "set xs \<inter> conf_members (pt_conf t) = {}"
  shows "\<exists>t'. restore_simple nx (map (\<lambda>i. new_conf_change_single i AddNode) xs @ ccs) t
             = restore_simple nx ccs t' \<and> tracker_ok t' \<and>
           pt_conf t' = (pt_conf t)\<lparr>conf_voters := (conf_voters (pt_conf t))
              \<lparr>incoming := set xs \<union> incoming (conf_voters (pt_conf t))\<rparr>\<rparr>"
  using assms
proof (induction xs arbitrary: t)
  case (Cons i xs)
  have simple: "changer_simple t [new_conf_change_single i AddNode] = Inr (add_incoming i (pt_conf t), [(i, Add)])"
    using Cons.prems by (intro simple_add_node) auto
  let ?t = "apply_conf (add_incoming i (pt_conf t)) [(i, Add)] nx t"
  have "tracker_ok ?t" using changer_simple_eq(2)[OF Cons.prems(1) simple] .
  moreover have "\<not> joint (pt_conf ?t)" using Cons.prems(2) by (simp add: joint_def add_incoming_def)
  moreover have "set xs \<inter> conf_members (pt_conf ?t) = {}"
    using Cons.prems(3,5) by (auto simp: conf_upd)
  ultimately show ?case
    using Cons.IH[of ?t] Cons.prems(3,4) simple by (auto simp: add_incoming_def)
qed auto

lemma restore_simple_learners:
  assumes "tracker_ok t" "\<not> joint (pt_conf t)" "distinct xs" "0 \<notin> set xs"
    "set xs \<inter> conf_members (pt_conf t) = {}" "incoming (conf_voters (pt_conf t)) \<noteq> {}"
  shows "\<exists>t'. restore_simple nx (map (\<lambda>i. new_conf_change_single i AddLearnerNode) xs) t = (Inr (), t')
           \<and> tracker_ok t' \<and>
           pt_conf t' = (pt_conf t)\<lparr>conf_learners := set xs \<union> conf_learners (pt_conf t)\<rparr>"
  using assms
proof (induction xs arbitrary: t)
  case (Cons i xs)
  let ?cfg = "(pt_conf t)\<lparr>conf_learners := insert i (conf_learners (pt_conf t))\<rparr>"
  have simple: "changer_simple t [new_conf_change_single i AddLearnerNode] = Inr (?cfg, [(i, Add)])"
    using Cons.prems by (intro simple_add_learner) auto
  let ?t = "apply_conf ?cfg [(i, Add)] nx t"
  have "tracker_ok ?t" using changer_simple_eq(2)[OF Cons.prems(1) simple] .
  moreover have "\<not> joint (pt_conf ?t)" using Cons.prems(2) by (simp add: joint_def)
  moreover have "set xs \<inter> conf_members (pt_conf ?t) = {}"
    using Cons.prems(3,5) by (auto simp: conf_upd)
  ultimately show ?case
    using Cons.IH[of ?t] Cons.prems(3,4,6) simple by auto
qed auto

text \<open>The blocks of changes that enter the joint configuration.\<close>

lemma apply_singles_removes:
  assumes "change_ok (cfg, prs)" "0 \<notin> set xs" "set xs \<subseteq> outgoing (conf_voters cfg)"
    "conf_learners_next cfg = {}"
  shows "apply_singles (map (\<lambda>i. new_conf_change_single i RemoveNode) xs) (cfg, prs) =
    (cfg\<lparr>conf_voters := (conf_voters cfg)\<lparr>incoming := incoming (conf_voters cfg) - set xs\<rparr>\<rparr>, prs)"
  using assms
proof (induction xs arbitrary: cfg)
  case (Cons i xs)
  have "icm_contains prs i" "i \<notin> conf_learners cfg"
    using Cons.prems by (auto simp: icm_contains_ids change_ok_def conf_upd)
  then have step: "remove_node i (cfg, prs) = (del_incoming i cfg, prs)"
    using Cons.prems by (auto simp: remove_node_def del_incoming_def Let_def)
  have "change_ok (del_incoming i cfg, prs)"
    using remove_node_ok[OF Cons.prems(1), of i] step by simp
  then show ?case
    using Cons.IH[of "del_incoming i cfg"] Cons.prems(2-4)
    by (simp add: new_conf_change_single_def step del_incoming_def flip: Diff_insert2)
qed auto

lemma apply_singles_voters:
  assumes "change_ok (cfg, prs)" "0 \<notin> set xs" "set xs \<inter> conf_learners cfg = {}"
    "conf_learners_next cfg = {}"
  shows "fst (apply_singles (map (\<lambda>i. new_conf_change_single i AddNode) xs) (cfg, prs)) =
    cfg\<lparr>conf_voters := (conf_voters cfg)\<lparr>incoming := set xs \<union> incoming (conf_voters cfg)\<rparr>\<rparr>"
  using assms
proof (induction xs arbitrary: cfg prs)
  case (Cons i xs)
  obtain prs' where step: "make_voter i (cfg, prs) = (add_incoming i cfg, prs')"
    using Cons.prems by (cases "icm_contains prs i")
      (auto simp: make_voter_def init_progress_def add_incoming_def)
  have "change_ok (add_incoming i cfg, prs')"
    using make_voter_ok[OF Cons.prems(1), of i] step by simp
  then show ?case
    using Cons.IH[of "add_incoming i cfg" prs'] Cons.prems(2-4)
    by (auto simp: new_conf_change_single_def step add_incoming_def)
qed auto

lemma apply_singles_learners:
  assumes "change_ok (cfg, prs)" "0 \<notin> set xs" "distinct xs" "set xs \<inter> conf_members cfg = {}"
  shows "fst (apply_singles (map (\<lambda>i. new_conf_change_single i AddLearnerNode) xs) (cfg, prs)) =
    cfg\<lparr>conf_learners := set xs \<union> conf_learners cfg\<rparr>"
  using assms
proof (induction xs arbitrary: cfg prs)
  case (Cons i xs)
  let ?cfg = "cfg\<lparr>conf_learners := insert i (conf_learners cfg)\<rparr>"
  obtain prs' where step: "make_learner i (cfg, prs) = (?cfg, prs')"
    using Cons.prems
    by (auto simp: make_learner_def init_progress_def icm_contains_ids change_ok_def)
  have "change_ok (?cfg, prs')" using make_learner_ok[OF Cons.prems(1), of i] step by simp
  moreover have "set xs \<inter> conf_members ?cfg = {}" using Cons.prems(3,4) by (auto simp: conf_members_def)
  ultimately show ?case
    using Cons.IH[of ?cfg prs'] Cons.prems(2,3)
    by (auto simp: new_conf_change_single_def step)
qed auto

lemma apply_singles_learners_next:
  assumes "change_ok (cfg, prs)" "0 \<notin> set xs"
    "set xs \<subseteq> outgoing (conf_voters cfg) - incoming (conf_voters cfg)"
  shows "fst (apply_singles (map (\<lambda>i. new_conf_change_single i AddLearnerNode) xs) (cfg, prs)) =
    cfg\<lparr>conf_learners_next := set xs \<union> conf_learners_next cfg\<rparr>"
  using assms
proof (induction xs arbitrary: cfg prs)
  case (Cons i xs)
  let ?cfg = "cfg\<lparr>conf_learners_next := insert i (conf_learners_next cfg)\<rparr>"
  have "icm_contains prs i" "i \<notin> conf_learners cfg"
    using Cons.prems by (auto simp: icm_contains_ids change_ok_def conf_upd)
  then have step: "make_learner i (cfg, prs) = (?cfg, prs)"
    using Cons.prems(3) by (cases "conf_voters cfg") (auto simp: make_learner_def del_incoming_def Let_def)
  have "change_ok (?cfg, prs)" using make_learner_ok[OF Cons.prems(1), of i] step by simp
  then show ?case
    using Cons.IH[of ?cfg prs] Cons.prems(2,3)
    by (auto simp: new_conf_change_single_def step)
qed auto

text \<open>The whole list of incoming changes, applied to the joint form of the outgoing voters.\<close>

lemma apply_singles_incoming:
  assumes ok: "conf_ok cfg" and z: "0 \<notin> conf_members cfg"
    and st: "change_ok (base, prs)" "base = \<lparr>conf_voters = \<lparr>incoming = outgoing (conf_voters cfg),
        outgoing = outgoing (conf_voters cfg)\<rparr>, conf_learners = {}, conf_learners_next = {},
        conf_auto_leave = False\<rparr>"
  shows "fst (apply_singles (snd (to_conf_change_single (to_conf_state cfg))) (base, prs)) =
    cfg\<lparr>conf_auto_leave := False\<rparr>"
proof -
  let ?O = "outgoing (conf_voters cfg)" and ?I = "incoming (conf_voters cfg)"
  let ?mk = "\<lambda>ty. map (\<lambda>i. new_conf_change_single i ty)"
  have fin: "finite ?O" "finite ?I" "finite (conf_learners cfg)" "finite (conf_learners_next cfg)"
    and roles: "conf_learners cfg \<inter> (?I \<union> ?O) = {}" "conf_learners_next cfg \<subseteq> ?O - ?I"
    using ok by (auto simp: conf_ok_def conf_roles_ok_def conf_members_def)
  have zs: "0 \<notin> ?O" "0 \<notin> ?I" "0 \<notin> conf_learners cfg" "0 \<notin> conf_learners_next cfg"
    using z by (auto simp: conf_members_def)
  define c1 where "c1 = base\<lparr>conf_voters := \<lparr>incoming = {}, outgoing = ?O\<rparr>\<rparr>"
  define c2 where "c2 = base\<lparr>conf_voters := \<lparr>incoming = ?I, outgoing = ?O\<rparr>\<rparr>"
  define c3 where "c3 = c2\<lparr>conf_learners := conf_learners cfg\<rparr>"
  have s1: "apply_singles (?mk RemoveNode (sorted_list_of_set ?O)) (base, prs) = (c1, prs)"
    using apply_singles_removes[OF st(1), of "sorted_list_of_set ?O"] fin zs
    by (simp add: st(2) c1_def)
  have ok1: "change_ok (c1, prs)" using apply_singles_ok[OF st(1)] s1 by metis
  obtain p2 where s2: "apply_singles (?mk AddNode (sorted_list_of_set ?I)) (c1, prs) = (c2, p2)"
    using apply_singles_voters[OF ok1, of "sorted_list_of_set ?I"] fin zs
    by (cases "apply_singles (?mk AddNode (sorted_list_of_set ?I)) (c1, prs)")
      (auto simp: c1_def c2_def st(2))
  have ok2: "change_ok (c2, p2)" using apply_singles_ok[OF ok1] s2 by metis
  obtain p3 where s3: "apply_singles (?mk AddLearnerNode (sorted_list_of_set (conf_learners cfg))) (c2, p2) = (c3, p3)"
    using apply_singles_learners[OF ok2, of "sorted_list_of_set (conf_learners cfg)"] fin zs roles
    by (cases "apply_singles (?mk AddLearnerNode (sorted_list_of_set (conf_learners cfg))) (c2, p2)")
      (auto simp: c2_def c3_def st(2) conf_members_def)
  have ok3: "change_ok (c3, p3)" using apply_singles_ok[OF ok2] s3 by metis
  have "fst (apply_singles (?mk AddLearnerNode (sorted_list_of_set (conf_learners_next cfg))) (c3, p3)) =
      cfg\<lparr>conf_auto_leave := False\<rparr>"
    using apply_singles_learners_next[OF ok3, of "sorted_list_of_set (conf_learners_next cfg)"] fin zs roles
    by (cases cfg; cases "conf_voters cfg") (simp add: c2_def c3_def st(2))
  then show ?thesis
    by (simp add: to_conf_change_single_def to_conf_state_def majority_raw_slice_def Let_def
        apply_singles_append s1 s2 s3)
qed

lemma conf_ok_sets:
  assumes "conf_ok cfg" "0 \<notin> conf_members cfg"
  shows "finite (outgoing (conf_voters cfg))" "finite (incoming (conf_voters cfg))"
    "finite (conf_learners cfg)" "finite (conf_learners_next cfg)"
    "conf_learners cfg \<inter> (incoming (conf_voters cfg) \<union> outgoing (conf_voters cfg)) = {}"
    "conf_learners_next cfg \<subseteq> outgoing (conf_voters cfg) - incoming (conf_voters cfg)"
    "0 \<notin> outgoing (conf_voters cfg)" "0 \<notin> incoming (conf_voters cfg)" "0 \<notin> conf_learners cfg"
  using assms by (auto simp: conf_ok_def conf_roles_ok_def conf_members_def)

text \<open>Adding the voters of a set to an empty tracker.\<close>

lemma restore_voters_from_empty:
  assumes "finite V" "0 \<notin> V"
  shows "\<exists>t. restore_simple nx (map (\<lambda>i. new_conf_change_single i AddNode) (sorted_list_of_set V) @ ccs)
             (tracker_new m) = restore_simple nx ccs t \<and> tracker_ok t \<and>
           pt_conf t = configuration_default\<lparr>conf_voters := \<lparr>incoming = V, outgoing = {}\<rparr>\<rparr>"
  using restore_simple_voters[OF tracker_new_ok, of m "sorted_list_of_set V" nx ccs] assms
  by (simp add: tracker_new_def joint_def configuration_default_def conf_members_def)

lemma restore_not_joint:
  assumes ok: "conf_ok cfg" and z: "0 \<notin> conf_members cfg" and ne: "incoming (conf_voters cfg) \<noteq> {}"
    and nj: "\<not> joint cfg"
  shows "\<exists>t. confchange_restore (tracker_new m) nx (to_conf_state cfg) = (Inr (), t) \<and>
           pt_conf t = cfg \<and> tracker_ok t"
proof -
  note S = conf_ok_sets[OF ok z]
  have nxt: "conf_learners_next cfg = {}" "outgoing (conf_voters cfg) = {}" "\<not> conf_auto_leave cfg"
    using ok nj by (auto simp: conf_ok_def conf_roles_ok_def joint_def)
  let ?ls = "map (\<lambda>i. new_conf_change_single i AddLearnerNode) (sorted_list_of_set (conf_learners cfg))"
  obtain t where t: "restore_simple nx (map (\<lambda>i. new_conf_change_single i AddNode)
        (sorted_list_of_set (incoming (conf_voters cfg))) @ ?ls) (tracker_new m) = restore_simple nx ?ls t"
    "tracker_ok t" "pt_conf t = configuration_default\<lparr>conf_voters :=
        \<lparr>incoming = incoming (conf_voters cfg), outgoing = {}\<rparr>\<rparr>"
    using restore_voters_from_empty[OF S(2,8)] by blast
  have "\<exists>t'. restore_simple nx ?ls t = (Inr (), t') \<and> tracker_ok t' \<and>
      pt_conf t' = (pt_conf t)\<lparr>conf_learners := set (sorted_list_of_set (conf_learners cfg)) \<union> conf_learners (pt_conf t)\<rparr>"
    by (rule restore_simple_learners[OF t(2)])
      (use S ne in \<open>auto simp: t(3) joint_def configuration_default_def conf_members_def\<close>)
  then show ?thesis
    using S(3) nxt t by (cases cfg; cases "conf_voters cfg")
      (auto simp: confchange_restore_def to_conf_change_single_def to_conf_state_def
        majority_raw_slice_def Let_def configuration_default_def)
qed

lemma restore_joint:
  assumes ok: "conf_ok cfg" and z: "0 \<notin> conf_members cfg" and ne: "incoming (conf_voters cfg) \<noteq> {}"
    and j: "joint cfg"
  shows "\<exists>t. confchange_restore (tracker_new m) nx (to_conf_state cfg) = (Inr (), t) \<and>
           pt_conf t = cfg \<and> tracker_ok t"
proof -
  let ?O = "outgoing (conf_voters cfg)" and ?cs = "to_conf_change_single (to_conf_state cfg)"
  note S = conf_ok_sets[OF ok z]
  have out: "fst ?cs = map (\<lambda>i. new_conf_change_single i AddNode) (sorted_list_of_set ?O)" "fst ?cs \<noteq> []"
    using S(1) j by (auto simp: to_conf_change_single_def to_conf_state_def majority_raw_slice_def
        Let_def joint_def)
  obtain t where t: "restore_simple nx (fst ?cs) (tracker_new m) = (Inr (), t)" "tracker_ok t"
    "pt_conf t = configuration_default\<lparr>conf_voters := \<lparr>incoming = ?O, outgoing = {}\<rparr>\<rparr>"
    using restore_voters_from_empty[OF S(1,7), of nx "[]" m] by (auto simp: out(1))
  have nj: "\<not> joint (pt_conf t)" by (simp add: t(3) joint_def)
  have auto: "cs_auto_leave (to_conf_state cfg) = conf_auto_leave cfg" by (simp add: to_conf_state_def)
  let ?base = "make_joint (pt_conf t)"
  have base: "?base = \<lparr>conf_voters = \<lparr>incoming = ?O, outgoing = ?O\<rparr>, conf_learners = {},
      conf_learners_next = {}, conf_auto_leave = False\<rparr>"
    by (simp add: make_joint_def t(3) configuration_default_def)
  have eq: "fst (apply_singles (snd ?cs) (?base, start_change t)) = cfg\<lparr>conf_auto_leave := False\<rparr>"
    by (rule apply_singles_incoming[OF ok z make_joint_ok[OF check_and_copy_ok(2)[OF t(2)] nj] base])
  obtain prs where st: "apply_singles (snd ?cs) (?base, start_change t) = (cfg\<lparr>conf_auto_leave := False\<rparr>, prs)"
    using eq by (cases "apply_singles (snd ?cs) (?base, start_change t)") simp
  have enter: "changer_enter_joint t (conf_auto_leave cfg) (snd ?cs) = Inr (cfg, icm_changes prs)"
    unfolding changer_enter_joint_eq(1)[OF t(2)] st using ne nj j by (simp add: t(3) joint_def)
  then have "tracker_ok (apply_conf cfg (icm_changes prs) nx t)"
    by (rule changer_enter_joint_eq(2)[OF t(2)])
  moreover have "confchange_restore (tracker_new m) nx (to_conf_state cfg) =
      (Inr (), apply_conf cfg (icm_changes prs) nx t)"
    using t(1) out(2) enter
    by (simp add: confchange_restore_def split_beta auto)
  ultimately show ?thesis by simp
qed

text \<open>
  C24. Restoring is the inverse of saving: from an empty tracker, \<open>confchange::restore\<close> on the
  \<open>ConfState\<close> of any well-formed configuration with voters (joint or not) succeeds and rebuilds
  exactly that configuration, with a progress entry for exactly its members.
\<close>

theorem restore_roundtrip:
  assumes ok: "conf_ok cfg" and z: "0 \<notin> conf_members cfg" and ne: "incoming (conf_voters cfg) \<noteq> {}"
  shows "\<exists>t. confchange_restore (tracker_new m) next_idx (to_conf_state cfg) = (Inr (), t) \<and>
           pt_conf t = cfg \<and> tracker_ok t"
  using restore_not_joint[OF assms] restore_joint[OF assms] by (cases "joint cfg") simp_all

theorem restore_roundtrip_witness:
  "\<exists>t. confchange_restore (tracker_new 2) 7 (to_conf_state (pt_conf sample_tracker)) = (Inr (), t) \<and>
     pt_conf t = pt_conf sample_tracker \<and> tracker_ok t"
  by (rule restore_roundtrip)
    (use sample_tracker_ok in \<open>auto simp: tracker_ok_def sample_tracker_def tracker_new_def
      configuration_new_def joint_new_def conf_members_def\<close>)

end
