(* ===== verification/Read_Only.thy ===== *)
theory Read_Only
  imports Proto
begin

text \<open>
  Pending linearizable read requests (\<open>raft-rs/src/read_only.rs\<close>): a queue of request contexts and a
  map from each context to the request's status.
\<close>

datatype read_only_option = Safe | LeaseBased

record read_state =
  rst_index :: nat
  rst_request_ctx :: bytes

record read_index_status =
  ris_req :: message
  ris_index :: nat
  ris_acks :: "nat set"

record read_only =
  ro_option :: read_only_option
  ro_pending :: "bytes \<rightharpoonup> read_index_status"
  ro_queue :: "bytes list"

definition read_only_new :: "read_only_option \<Rightarrow> read_only" where
  "read_only_new opt = \<lparr>ro_option = opt, ro_pending = Map.empty, ro_queue = []\<rparr>"

definition ro_add_request :: "nat \<Rightarrow> message \<Rightarrow> nat \<Rightarrow> read_only \<Rightarrow> read_only panics" where
  "ro_add_request index req self_id ro = do {
     e \<leftarrow> vec_get (m_entries req) 0;
     let ctx = e_data e;
     case ro_pending ro ctx of
       Some _ \<Rightarrow> Some ro
     | None \<Rightarrow>
         let status = \<lparr>ris_req = req, ris_index = index, ris_acks = {self_id}\<rparr>
         in Some (ro\<lparr>ro_pending := (ro_pending ro)(ctx \<mapsto> status), ro_queue := ro_queue ro @ [ctx]\<rparr>)
   }"

definition ro_recv_ack :: "nat \<Rightarrow> bytes \<Rightarrow> read_only \<Rightarrow> nat set option \<times> read_only" where
  "ro_recv_ack i ctx ro =
     (case ro_pending ro ctx of
        None \<Rightarrow> (None, ro)
      | Some rs \<Rightarrow>
          let rs' = rs\<lparr>ris_acks := insert i (ris_acks rs)\<rparr>
          in (Some (ris_acks rs'), ro\<lparr>ro_pending := (ro_pending ro)(ctx \<mapsto> rs')\<rparr>))"

text \<open>\<open>position\<close> visits the queue up to the first match and panics on a context with no status.\<close>

fun ro_position :: "(bytes \<rightharpoonup> read_index_status) \<Rightarrow> bytes \<Rightarrow> bytes list \<Rightarrow> nat option panics" where
  "ro_position pending ctx [] = Some None"
| "ro_position pending ctx (x # xs) =
     (case pending x of
        None \<Rightarrow> None
      | Some _ \<Rightarrow> if x = ctx then Some (Some 0)
                  else do { r \<leftarrow> ro_position pending ctx xs; Some (map_option Suc r) })"

fun ro_pop :: "nat \<Rightarrow> read_only \<Rightarrow> (read_index_status list \<times> read_only) panics" where
  "ro_pop 0 ro = Some ([], ro)"
| "ro_pop (Suc n) ro =
     (case ro_queue ro of
        [] \<Rightarrow> None
      | rs # q \<Rightarrow> do {
          status \<leftarrow> ro_pending ro rs;
          (rss, ro') \<leftarrow> ro_pop n (ro\<lparr>ro_queue := q, ro_pending := (ro_pending ro)(rs := None)\<rparr>);
          Some (status # rss, ro') })"

definition ro_advance :: "bytes \<Rightarrow> read_only \<Rightarrow> (read_index_status list \<times> read_only) panics" where
  "ro_advance ctx ro = do {
     p \<leftarrow> ro_position (ro_pending ro) ctx (ro_queue ro);
     case p of
       None \<Rightarrow> Some ([], ro)
     | Some i \<Rightarrow> ro_pop (Suc i) ro }"

definition ro_last_pending_request_ctx :: "read_only \<Rightarrow> bytes option" where
  "ro_last_pending_request_ctx ro = vec_last (ro_queue ro)"

definition ro_pending_read_count :: "read_only \<Rightarrow> nat" where
  "ro_pending_read_count ro = length (ro_queue ro)"

section \<open>The queue of reads\<close>

text \<open>The queue holds every pending context once, and nothing else.\<close>

definition ro_wf :: "read_only \<Rightarrow> bool" where
  "ro_wf ro \<longleftrightarrow> distinct (ro_queue ro) \<and> set (ro_queue ro) = dom (ro_pending ro)"

inductive ro_reach :: "read_only_option \<Rightarrow> read_only \<Rightarrow> bool" for opt where
  new: "ro_reach opt (read_only_new opt)"
| add: "ro_reach opt ro \<Longrightarrow> ro_add_request index req self_id ro = Some ro' \<Longrightarrow> ro_reach opt ro'"
| ack: "ro_reach opt ro \<Longrightarrow> ro_reach opt (snd (ro_recv_ack i ctx ro))"
| advance: "ro_reach opt ro \<Longrightarrow> ro_advance ctx ro = Some (rss, ro') \<Longrightarrow> ro_reach opt ro'"

lemma ro_position_eq:
  assumes "set q \<subseteq> dom pending"
  shows "ro_position pending ctx q =
    Some (if ctx \<in> set q then Some (length (takeWhile (\<lambda>x. x \<noteq> ctx) q)) else None)"
  using assms by (induction q) auto

lemma ro_pop_eq:
  assumes "ro_wf ro" "n \<le> length (ro_queue ro)"
  shows "ro_pop n ro = Some (map (\<lambda>c. the (ro_pending ro c)) (take n (ro_queue ro)),
    ro\<lparr>ro_queue := drop n (ro_queue ro), ro_pending := ro_pending ro |` set (drop n (ro_queue ro))\<rparr>)"
  using assms
proof (induction n arbitrary: ro)
  case 0
  then have "ro_pending ro |` set (ro_queue ro) = ro_pending ro"
    by (simp add: ro_wf_def restrict_map_def fun_eq_iff domIff)
  then show ?case by simp
next
  case (Suc n)
  then obtain c q where q: "ro_queue ro = c # q" by (cases "ro_queue ro") auto
  let ?ro = "ro\<lparr>ro_queue := q, ro_pending := (ro_pending ro)(c := None)\<rparr>"
  have wf: "ro_wf ?ro" using Suc.prems(1) by (auto simp: ro_wf_def q)
  obtain st where st: "ro_pending ro c = Some st" using Suc.prems(1) by (auto simp: ro_wf_def q)
  have c: "c \<notin> set q" using Suc.prems(1) by (simp add: ro_wf_def q)
  have m: "map (\<lambda>x. the (ro_pending ?ro x)) (take n (ro_queue ?ro)) =
      map (\<lambda>x. the (ro_pending ro x)) (take n q)"
    using c by (auto dest: in_set_takeD)
  have r: "ro_pending ?ro |` set (drop n (ro_queue ?ro)) = ro_pending ro |` set (drop n q)"
    using c by (auto simp: restrict_map_def fun_eq_iff dest: in_set_dropD)
  have "n \<le> length (ro_queue ?ro)" using Suc.prems(2) by (simp add: q)
  from Suc.IH[OF wf this, unfolded m r] show ?case by (simp add: q st)
qed

lemma ro_advance_eq:
  assumes wf: "ro_wf ro"
  shows "ro_advance ctx ro =
    (if ctx \<in> set (ro_queue ro)
     then let n = Suc (length (takeWhile (\<lambda>x. x \<noteq> ctx) (ro_queue ro)))
          in Some (map (\<lambda>c. the (ro_pending ro c)) (take n (ro_queue ro)),
              ro\<lparr>ro_queue := drop n (ro_queue ro),
                ro_pending := ro_pending ro |` set (drop n (ro_queue ro))\<rparr>)
     else Some ([], ro))"
proof (cases "ctx \<in> set (ro_queue ro)")
  case True
  have "length (takeWhile (\<lambda>x. x \<noteq> ctx) (ro_queue ro)) \<noteq> length (ro_queue ro)"
    using True by (metis (mono_tags, lifting) takeWhile_eq_take take_all_iff takeWhile_eq_all_conv le_refl)
  then have "Suc (length (takeWhile (\<lambda>x. x \<noteq> ctx) (ro_queue ro))) \<le> length (ro_queue ro)"
    using length_takeWhile_le[of "\<lambda>x. x \<noteq> ctx" "ro_queue ro"] by simp
  from ro_pop_eq[OF wf this] show ?thesis
    using True wf ro_position_eq[of "ro_queue ro" "ro_pending ro" ctx]
    by (simp add: ro_advance_def ro_wf_def Let_def del: ro_pop.simps)
next
  case False
  then show ?thesis
    using wf ro_position_eq[of "ro_queue ro" "ro_pending ro" ctx] by (simp add: ro_advance_def ro_wf_def)
qed

lemma ro_wf_steps:
  assumes "ro_wf ro"
  shows "ro_add_request index req self_id ro = Some ro' \<Longrightarrow> ro_wf ro'"
    "ro_wf (snd (ro_recv_ack i ctx ro))" "ro_advance ctx ro = Some (rss, ro') \<Longrightarrow> ro_wf ro'"
proof -
  show "ro_add_request index req self_id ro = Some ro' \<Longrightarrow> ro_wf ro'"
    using assms by (auto simp: ro_add_request_def ro_wf_def bind_eq_Some_conv Let_def split: option.splits)
  show "ro_wf (snd (ro_recv_ack i ctx ro))"
    using assms by (auto simp: ro_recv_ack_def ro_wf_def Let_def split: option.splits)
  have sub: "set (drop n (ro_queue ro)) = dom (ro_pending ro) \<inter> set (drop n (ro_queue ro))" for n
    using assms by (auto simp: ro_wf_def dest: in_set_dropD)
  have "ro_wf (ro\<lparr>ro_queue := drop n (ro_queue ro), ro_pending := ro_pending ro |` set (drop n (ro_queue ro))\<rparr>)" for n
    using assms sub[of n] by (simp add: ro_wf_def)
  then show "ro_advance ctx ro = Some (rss, ro') \<Longrightarrow> ro_wf ro'"
    using assms by (auto simp: ro_advance_eq[OF assms] Let_def split: if_splits)
qed

lemma ro_wf_new: "ro_wf (read_only_new opt)"
  by (simp add: ro_wf_def read_only_new_def)

text \<open>
  C35. Linearizable reads are released in order. In every state the queue of read requests can reach,
  \<open>advance\<close> on an acknowledged context does not panic and returns exactly the statuses of the
  requests up to and including the first occurrence of that context, in the order in which they were
  added; they leave the queue and the map, and all later requests stay pending unchanged. An unknown
  context releases nothing.
\<close>

theorem read_only_advance_in_order:
  assumes "ro_reach opt ro"
  shows "if ctx \<in> set (ro_queue ro)
    then \<exists>xs ys ro'. ro_queue ro = xs @ ctx # ys \<and>
      ro_advance ctx ro = Some (map (\<lambda>c. the (ro_pending ro c)) (xs @ [ctx]), ro') \<and>
      ro_queue ro' = ys \<and> ro_pending ro' = ro_pending ro |` set ys \<and> ro_wf ro'
    else ro_advance ctx ro = Some ([], ro)"
proof -
  have wf: "ro_wf ro"
    using assms by induction (auto intro: ro_wf_steps ro_wf_new)
  show ?thesis
  proof (cases "ctx \<in> set (ro_queue ro)")
    case True
    then obtain xs ys where q: "ro_queue ro = xs @ ctx # ys" "ctx \<notin> set xs"
      using split_list_first by metis
    then have "takeWhile (\<lambda>x. x \<noteq> ctx) (ro_queue ro) = xs" by (auto simp: takeWhile_append)
    then have adv: "ro_advance ctx ro = Some (map (\<lambda>c. the (ro_pending ro c)) (xs @ [ctx]),
        ro\<lparr>ro_queue := ys, ro_pending := ro_pending ro |` set ys\<rparr>)"
      using True q(1) by (simp add: ro_advance_eq[OF wf])
    then show ?thesis using True q(1) ro_wf_steps(3)[OF wf adv] by auto
  next
    case False
    then show ?thesis by (simp add: ro_advance_eq[OF wf])
  qed
qed

definition sample_read :: "bytes \<Rightarrow> message" where
  "sample_read ctx = message_default\<lparr>m_entries := [entry_default\<lparr>e_data := ctx\<rparr>]\<rparr>"

definition sample_reads :: read_only where
  "sample_reads = \<lparr>ro_option = Safe,
     ro_pending = [''a'' \<mapsto> \<lparr>ris_req = sample_read ''a'', ris_index = 3, ris_acks = {1}\<rparr>,
                   ''b'' \<mapsto> \<lparr>ris_req = sample_read ''b'', ris_index = 4, ris_acks = {1}\<rparr>],
     ro_queue = [''a'', ''b'']\<rparr>"

theorem read_only_advance_in_order_witness:
  "\<exists>rss ro'. ro_advance ''a'' sample_reads = Some (rss, ro') \<and> map ris_index rss = [3] \<and>
     ro_queue ro' = [''b'']"
proof -
  let ?ro1 = "\<lparr>ro_option = Safe,
     ro_pending = [''a'' \<mapsto> \<lparr>ris_req = sample_read ''a'', ris_index = 3, ris_acks = {1}\<rparr>],
     ro_queue = [''a'']\<rparr>"
  have "ro_add_request 3 (sample_read ''a'') 1 (read_only_new Safe) = Some ?ro1"
    "ro_add_request 4 (sample_read ''b'') 1 ?ro1 = Some sample_reads"
    by (simp_all add: ro_add_request_def sample_read_def read_only_new_def sample_reads_def vec_get_def Let_def)
  then have "ro_reach Safe sample_reads"
    by (meson ro_reach.new ro_reach.add)
  from read_only_advance_in_order[OF this, of "''a''"] show ?thesis
    by (auto simp: sample_reads_def Cons_eq_append_conv)
qed

end
