(* ===== verification/Config.thy ===== *)
theory Config
  imports Read_Only Progress
begin

text \<open>The configuration of a node and its validation (\<open>raft-rs/src/config.rs\<close>).\<close>

record config =
  c_id :: nat
  c_election_tick :: nat
  c_heartbeat_tick :: nat
  c_applied :: nat
  c_max_size_per_msg :: nat
  c_max_inflight_msgs :: nat
  c_check_quorum :: bool
  c_pre_vote :: bool
  c_min_election_tick :: nat
  c_max_election_tick :: nat
  c_read_only_option :: read_only_option
  c_skip_bcast_commit :: bool
  c_batch_append :: bool
  c_priority :: int
  c_max_uncommitted_size :: nat
  c_max_committed_size_per_ready :: nat

definition config_default :: config where
  "config_default = (let HEARTBEAT_TICK = 2 in
     \<lparr>c_id = 0, c_election_tick = HEARTBEAT_TICK * 10, c_heartbeat_tick = HEARTBEAT_TICK,
      c_applied = 0, c_max_size_per_msg = 0, c_max_inflight_msgs = 256, c_check_quorum = False,
      c_pre_vote = False, c_min_election_tick = 0, c_max_election_tick = 0,
      c_read_only_option = Safe, c_skip_bcast_commit = False, c_batch_append = False,
      c_priority = 0, c_max_uncommitted_size = NO_LIMIT,
      c_max_committed_size_per_ready = NO_LIMIT\<rparr>)"

definition config_new :: "nat \<Rightarrow> config" where
  "config_new i = config_default\<lparr>c_id := i\<rparr>"

definition min_election_tick :: "config \<Rightarrow> nat" where
  "min_election_tick c =
     (if c_min_election_tick c = 0 then c_election_tick c else c_min_election_tick c)"

definition max_election_tick :: "config \<Rightarrow> nat" where
  "max_election_tick c =
     (if c_max_election_tick c = 0 then 2 * c_election_tick c else c_max_election_tick c)"

definition config_validate :: "config \<Rightarrow> unit result" where
  "config_validate c =
     (if c_id c = INVALID_ID then Inl (ConfigInvalid ''invalid node id'')
      else if c_heartbeat_tick c = 0
      then Inl (ConfigInvalid ''heartbeat tick must greater than 0'')
      else if c_election_tick c \<le> c_heartbeat_tick c
      then Inl (ConfigInvalid ''election tick must be greater than heartbeat tick'')
      else
        let min_timeout = min_election_tick c; max_timeout = max_election_tick c in
        if min_timeout < c_election_tick c
        then Inl (ConfigInvalid (''min election tick '' @ string_of_nat min_timeout
               @ '' must not be less than election_tick '' @ string_of_nat (c_election_tick c)))
        else if min_timeout \<ge> max_timeout
        then Inl (ConfigInvalid (''min election tick '' @ string_of_nat min_timeout
               @ '' should be less than max election tick '' @ string_of_nat max_timeout))
        else if c_max_inflight_msgs c = 0
        then Inl (ConfigInvalid ''max inflight messages must be greater than 0'')
        else if c_read_only_option c = LeaseBased \<and> \<not> c_check_quorum c
        then Inl (ConfigInvalid ''read_only_option == LeaseBased requires check_quorum == true'')
        else if c_max_uncommitted_size c < c_max_size_per_msg c
        then Inl (ConfigInvalid ''max uncommitted size should greater than max_size_per_msg'')
        else Inr ())"

text \<open>
  \<open>Config::validate\<close> accepts a configuration exactly when every documented requirement holds: a
  valid node id, a positive heartbeat that is shorter than the election timeout, a non-empty range
  of randomized election timeouts that starts at or above the election timeout, room for in-flight
  messages, leader leases only with quorum checks, and an uncommitted-size limit of at least one
  message.
\<close>

theorem config_validate_iff:
  "config_validate c = Inr () \<longleftrightarrow>
     c_id c \<noteq> 0 \<and> 0 < c_heartbeat_tick c \<and> c_heartbeat_tick c < c_election_tick c \<and>
     c_election_tick c \<le> min_election_tick c \<and> min_election_tick c < max_election_tick c \<and>
     0 < c_max_inflight_msgs c \<and> (c_read_only_option c = LeaseBased \<longrightarrow> c_check_quorum c) \<and>
     c_max_size_per_msg c \<le> c_max_uncommitted_size c"
  by (auto simp: config_validate_def INVALID_ID_def Let_def not_less not_le)

theorem config_validate_iff_witness:
  "config_validate (config_new 1) = Inr ()"
  using config_validate_iff[of "config_new 1"]
  by (simp add: config_new_def config_default_def min_election_tick_def max_election_tick_def NO_LIMIT_def Let_def)

end
