(* ===== verification/Raft_Core.thy ===== *)
theory Raft_Core
  imports Raft_Log Conf_Change Read_Only Config
begin

text \<open>
  The state of a node and what it does to its mailbox and its log (\<open>raft-rs/src/raft.rs\<close>, the
  structures, \<open>impl RaftCore\<close> and the role changes of \<open>impl Raft\<close>). \<open>Raft\<close> and the \<open>RaftCore\<close> it
  dereferences to are one record here. \<open>r_draws\<close> counts the random numbers drawn so far, so that
  the source of randomness in the environment is a function of the draw.
\<close>

definition CAMPAIGN_PRE_ELECTION :: bytes where
  "CAMPAIGN_PRE_ELECTION = ''CampaignPreElection''"

definition CAMPAIGN_ELECTION :: bytes where
  "CAMPAIGN_ELECTION = ''CampaignElection''"

definition CAMPAIGN_TRANSFER :: bytes where
  "CAMPAIGN_TRANSFER = ''CampaignTransfer''"

definition NONE :: nat where
  "NONE = 0"

datatype state_role = Follower | Candidate | Leader | PreCandidate

record soft_state =
  ss_leader_id :: nat
  ss_raft_state :: state_role

record uncommitted_state =
  us_max_uncommitted_size :: nat
  us_uncommitted_size :: nat
  us_last_log_tail_index :: nat

definition us_is_no_limit :: "uncommitted_state \<Rightarrow> bool" where
  "us_is_no_limit u \<longleftrightarrow> us_max_uncommitted_size u = NO_LIMIT"

definition us_maybe_increase :: "entry list \<Rightarrow> uncommitted_state \<Rightarrow> bool \<times> uncommitted_state" where
  "us_maybe_increase ents u =
     (if us_is_no_limit u then (True, u)
      else
        let sz = sum_list (map (\<lambda>ent. length (e_data ent)) ents) in
        if sz = 0 \<or> us_uncommitted_size u = 0
           \<or> sz + us_uncommitted_size u \<le> us_max_uncommitted_size u
        then (True, u\<lparr>us_uncommitted_size := us_uncommitted_size u + sz\<rparr>)
        else (False, u))"

definition us_maybe_reduce :: "entry list \<Rightarrow> uncommitted_state \<Rightarrow> bool \<times> uncommitted_state" where
  "us_maybe_reduce ents u =
     (if us_is_no_limit u \<or> ents = [] then (True, u)
      else
        let sz = sum_list (map (\<lambda>ent. length (e_data ent))
                   (dropWhile (\<lambda>ent. e_index ent \<le> us_last_log_tail_index u) ents)) in
        if sz > us_uncommitted_size u then (False, u\<lparr>us_uncommitted_size := 0\<rparr>)
        else (True, u\<lparr>us_uncommitted_size := us_uncommitted_size u - sz\<rparr>))"

record 's raft =
  r_term :: nat
  r_vote :: nat
  r_id :: nat
  r_read_states :: "read_state list"
  r_raft_log :: "'s raft_log"
  r_max_inflight :: nat
  r_max_msg_size :: nat
  r_pending_request_snapshot :: nat
  r_state :: state_role
  r_promotable :: bool
  r_leader_id :: nat
  r_lead_transferee :: "nat option"
  r_pending_conf_index :: nat
  r_read_only :: read_only
  r_election_elapsed :: nat
  r_heartbeat_elapsed :: nat
  r_check_quorum :: bool
  r_pre_vote :: bool
  r_skip_bcast_commit :: bool
  r_batch_append :: bool
  r_heartbeat_timeout :: nat
  r_election_timeout :: nat
  r_randomized_election_timeout :: nat
  r_min_election_timeout :: nat
  r_max_election_timeout :: nat
  r_priority :: int
  r_uncommitted_state :: uncommitted_state
  r_max_committed_size_per_ready :: nat
  r_prs :: progress_tracker
  r_msgs :: "message list"
  r_draws :: nat

abbreviation set_log :: "'s raft_log \<Rightarrow> 's raft \<Rightarrow> 's raft" where
  "set_log lg r \<equiv> r\<lparr>r_raft_log := lg\<rparr>"

abbreviation put_pr :: "nat \<Rightarrow> progress \<Rightarrow> 's raft \<Rightarrow> 's raft" where
  "put_pr i p r \<equiv> r\<lparr>r_prs := tracker_put i p (r_prs r)\<rparr>"

definition new_message :: "nat \<Rightarrow> message_type \<Rightarrow> nat option \<Rightarrow> message" where
  "new_message to field_type from =
     (case from of None \<Rightarrow> message_default\<lparr>m_to := to\<rparr>
        | Some i \<Rightarrow> message_default\<lparr>m_to := to, m_from := i\<rparr>)\<lparr>m_type := field_type\<rparr>"

definition i64_max :: int where
  "i64_max = 9223372036854775807"

definition get_priority :: "message \<Rightarrow> int" where
  "get_priority m =
     (if m_priority m \<noteq> 0 then m_priority m
      else if int (m_deprecated_priority m) \<le> i64_max then int (m_deprecated_priority m)
      else i64_max)"

definition vote_resp_msg_type :: "message_type \<Rightarrow> message_type panics" where
  "vote_resp_msg_type t = (case t of
       MsgRequestVote \<Rightarrow> Some MsgRequestVoteResponse
     | MsgRequestPreVote \<Rightarrow> Some MsgRequestPreVoteResponse
     | _ \<Rightarrow> None)"

section \<open>Accessors\<close>

definition raft_soft_state :: "'s raft \<Rightarrow> soft_state" where
  "raft_soft_state r = \<lparr>ss_leader_id = r_leader_id r, ss_raft_state = r_state r\<rparr>"

definition raft_hard_state :: "'s raft \<Rightarrow> hard_state" where
  "raft_hard_state r =
     \<lparr>hs_term = r_term r, hs_vote = r_vote r, hs_commit = rl_committed (r_raft_log r)\<rparr>"

definition raft_snap :: "'s raft \<Rightarrow> snapshot option" where
  "raft_snap r = u_snapshot (rl_unstable (r_raft_log r))"

definition in_lease :: "'s raft \<Rightarrow> bool" where
  "in_lease r \<longleftrightarrow> r_state r = Leader \<and> r_check_quorum r"

definition set_randomized_election_timeout :: "nat \<Rightarrow> 's raft \<Rightarrow> 's raft panics" where
  "set_randomized_election_timeout t r = do {
     ensure (r_min_election_timeout r \<le> t \<and> t < r_max_election_timeout r);
     Some (r\<lparr>r_randomized_election_timeout := t\<rparr>) }"

definition has_leader :: "'s raft \<Rightarrow> bool" where
  "has_leader r \<longleftrightarrow> r_leader_id r \<noteq> NONE"

definition commit_to_current_term :: "'s env \<Rightarrow> 's raft \<Rightarrow> bool panics" where
  "commit_to_current_term E r = do {
     t \<leftarrow> rl_term E (r_raft_log r) (rl_committed (r_raft_log r));
     Some (case t of Inr t' \<Rightarrow> t' = r_term r | Inl _ \<Rightarrow> False) }"

definition apply_to_current_term :: "'s env \<Rightarrow> 's raft \<Rightarrow> bool panics" where
  "apply_to_current_term E r = do {
     t \<leftarrow> rl_term E (r_raft_log r) (rl_applied (r_raft_log r));
     Some (case t of Inr t' \<Rightarrow> t' = r_term r | Inl _ \<Rightarrow> False) }"

definition has_pending_conf :: "'s raft \<Rightarrow> bool" where
  "has_pending_conf r \<longleftrightarrow> r_pending_conf_index r > rl_applied (r_raft_log r)"

definition should_bcast_commit :: "'s raft \<Rightarrow> bool" where
  "should_bcast_commit r \<longleftrightarrow> \<not> r_skip_bcast_commit r \<or> has_pending_conf r"

definition pass_election_timeout :: "'s raft \<Rightarrow> bool" where
  "pass_election_timeout r \<longleftrightarrow> r_election_elapsed r \<ge> r_randomized_election_timeout r"

section \<open>Sending\<close>

definition is_vote_msg :: "message_type \<Rightarrow> bool" where
  "is_vote_msg t \<longleftrightarrow> t = MsgRequestVote \<or> t = MsgRequestPreVote \<or> t = MsgRequestVoteResponse
     \<or> t = MsgRequestPreVoteResponse"

definition core_send :: "'s raft \<Rightarrow> message \<Rightarrow> message list \<Rightarrow> message list panics" where
  "core_send r m msgs = do {
     let m1 = (if m_from m = INVALID_ID then m\<lparr>m_from := r_id r\<rparr> else m);
     m2 \<leftarrow> (if is_vote_msg (m_type m1) then
              if m_term m1 = 0 then None else Some m1
           else
              if m_term m1 \<noteq> 0 then None
              else Some (if m_type m1 \<noteq> MsgPropose \<and> m_type m1 \<noteq> MsgReadIndex
                         then m1\<lparr>m_term := r_term r\<rparr> else m1));
     let m3 = (if m_type m2 = MsgRequestVote \<or> m_type m2 = MsgRequestPreVote then
                 (if r_priority r > 0 then m2\<lparr>m_deprecated_priority := nat (r_priority r)\<rparr>
                  else m2)\<lparr>m_priority := r_priority r\<rparr>
               else m2);
     Some (msgs @ [m3]) }"

definition raft_send :: "message \<Rightarrow> 's raft \<Rightarrow> 's raft panics" where
  "raft_send m r = do { msgs \<leftarrow> core_send r m (r_msgs r); Some (r\<lparr>r_msgs := msgs\<rparr>) }"

definition prepare_send_snapshot ::
  "'s env \<Rightarrow> message \<Rightarrow> progress \<Rightarrow> nat \<Rightarrow> 's raft
     \<Rightarrow> (bool \<times> message \<times> progress \<times> 's raft) panics" where
  "prepare_send_snapshot E m pr to r =
     (if \<not> pr_recent_active pr then Some (False, m, pr, r)
      else do {
        let m1 = m\<lparr>m_type := MsgSnapshot\<rparr>;
        (snapshot_r, lg) \<leftarrow> rl_snapshot E (pr_pending_request_snapshot pr) to (r_raft_log r);
        let r1 = set_log lg r;
        case snapshot_r of
          Inl e \<Rightarrow> if error_eq e (Store SnapshotTemporarilyUnavailable)
                   then Some (False, m1, pr, r1) else None
        | Inr snap \<Rightarrow>
            if snap_index snap = 0 then None
            else Some (True, m1\<lparr>m_snapshot := snap\<rparr>, become_snapshot (snap_index snap) pr, r1) })"

definition prepare_send_entries ::
  "'s raft \<Rightarrow> message \<Rightarrow> progress \<Rightarrow> nat \<Rightarrow> entry list \<Rightarrow> (message \<times> progress) panics" where
  "prepare_send_entries r m pr t ents = do {
     i \<leftarrow> usub (pr_next_idx pr) 1;
     let m1 = m\<lparr>m_type := MsgAppend, m_index := i, m_log_term := t, m_entries := ents,
                m_commit := rl_committed (r_raft_log r)\<rparr>;
     if m_entries m1 \<noteq> [] then do {
       pr1 \<leftarrow> update_state (e_index (last (m_entries m1))) pr;
       Some (m1, pr1) }
     else Some (m1, pr) }"

fun try_batching ::
  "nat \<Rightarrow> nat \<Rightarrow> progress \<Rightarrow> entry list \<Rightarrow> message list
     \<Rightarrow> (bool \<times> message list \<times> progress \<times> entry list) panics" where
  "try_batching committed to pr ents [] = Some (False, [], pr, ents)"
| "try_batching committed to pr ents (msg # msgs) =
     (if m_type msg = MsgAppend \<and> m_to msg = to then
        if ents \<noteq> [] then
          if \<not> is_continuous_ents msg ents then Some (False, msg # msgs, pr, ents)
          else do {
            let batched_entries = m_entries msg @ ents;
            pr1 \<leftarrow> update_state (e_index (last batched_entries)) pr;
            Some (True, msg\<lparr>m_entries := batched_entries, m_commit := committed\<rparr> # msgs, pr1, []) }
        else Some (True, msg\<lparr>m_commit := committed\<rparr> # msgs, pr, ents)
      else do {
        (b, msgs1, pr1, ents1) \<leftarrow> try_batching committed to pr ents msgs;
        Some (b, msg # msgs1, pr1, ents1) })"

definition maybe_send_append ::
  "'s env \<Rightarrow> nat \<Rightarrow> bool \<Rightarrow> progress \<Rightarrow> message list \<Rightarrow> 's raft
     \<Rightarrow> (bool \<times> progress \<times> message list \<times> 's raft) panics" where
  "maybe_send_append E to allow_empty pr msgs r =
     (if is_paused pr then Some (False, pr, msgs, r)
      else
        let m = message_default\<lparr>m_to := to\<rparr>;
            via_snapshot = (\<lambda>r. do {
              (b, m1, pr1, r1) \<leftarrow> prepare_send_snapshot E m pr to r;
              if \<not> b then Some (False, pr1, msgs, r1)
              else do { msgs1 \<leftarrow> core_send r1 m1 msgs; Some (True, pr1, msgs1, r1) } })
        in if pr_pending_request_snapshot pr \<noteq> INVALID_INDEX then via_snapshot r
           else do {
             (ents, lg) \<leftarrow> rl_entries E (pr_next_idx pr) (Some (r_max_msg_size r))
                            (SendAppend to (r_term r) (\<not> allow_empty)) (r_raft_log r);
             let r1 = set_log lg r;
             if \<not> allow_empty \<and> (case ents of Inl _ \<Rightarrow> True | Inr es \<Rightarrow> es = [])
             then Some (False, pr, msgs, r1)
             else do {
               prev \<leftarrow> usub (pr_next_idx pr) 1;
               t \<leftarrow> rl_term E (r_raft_log r1) prev;
               case (t, ents) of
                 (Inr t', Inr es) \<Rightarrow> do {
                   (b, msgs1, pr1, es1) \<leftarrow>
                     (if r_batch_append r1
                      then try_batching (rl_committed (r_raft_log r1)) to pr es msgs
                      else Some (False, msgs, pr, es));
                   if b then Some (True, pr1, msgs1, r1)
                   else do {
                     (m1, pr2) \<leftarrow> prepare_send_entries r1 m pr1 t' es1;
                     msgs2 \<leftarrow> core_send r1 m1 msgs1;
                     Some (True, pr2, msgs2, r1) } }
               | (_, Inl (Store LogTemporarilyUnavailable)) \<Rightarrow> Some (False, pr, msgs, r1)
               | _ \<Rightarrow> via_snapshot r1 } })"

text \<open>The loop \<open>while self.maybe_send_append(to, pr, false, msgs) {}\<close>.\<close>

partial_function (option) core_send_append_aggressively ::
  "'s env \<Rightarrow> nat \<Rightarrow> progress \<Rightarrow> message list \<Rightarrow> 's raft
     \<Rightarrow> (progress \<times> message list \<times> 's raft) option" where
  "core_send_append_aggressively E to pr msgs r = do {
     (b, pr1, msgs1, r1) \<leftarrow> maybe_send_append E to False pr msgs r;
     if b then core_send_append_aggressively E to pr1 msgs1 r1
     else Some (pr1, msgs1, r1) }"

declare core_send_append_aggressively.simps [code]

definition core_send_heartbeat ::
  "nat \<Rightarrow> progress \<Rightarrow> bytes option \<Rightarrow> message list \<Rightarrow> 's raft \<Rightarrow> message list panics" where
  "core_send_heartbeat to pr ctx msgs r =
     (let m = message_default\<lparr>m_to := to, m_type := MsgHeartbeat,
                m_commit := min (pr_matched pr) (rl_committed (r_raft_log r))\<rparr>;
          m1 = (case ctx of Some context \<Rightarrow> m\<lparr>m_context := context\<rparr> | None \<Rightarrow> m)
      in core_send r m1 msgs)"

definition raft_send_append :: "'s env \<Rightarrow> nat \<Rightarrow> 's raft \<Rightarrow> 's raft panics" where
  "raft_send_append E to r = do {
     pr \<leftarrow> tracker_get (r_prs r) to;
     (_, pr1, msgs1, r1) \<leftarrow> maybe_send_append E to True pr (r_msgs r) r;
     Some (put_pr to pr1 (r1\<lparr>r_msgs := msgs1\<rparr>)) }"

definition raft_send_append_aggressively :: "'s env \<Rightarrow> nat \<Rightarrow> 's raft \<Rightarrow> 's raft panics" where
  "raft_send_append_aggressively E to r = do {
     pr \<leftarrow> tracker_get (r_prs r) to;
     (pr1, msgs1, r1) \<leftarrow> core_send_append_aggressively E to pr (r_msgs r) r;
     Some (put_pr to pr1 (r1\<lparr>r_msgs := msgs1\<rparr>)) }"

text \<open>The iteration over the progress map that \<open>bcast_append\<close> and \<open>post_conf_change\<close> share.\<close>

fun bcast_loop ::
  "'s env \<Rightarrow> bool \<Rightarrow> nat \<Rightarrow> progress_map \<Rightarrow> message list \<Rightarrow> 's raft
     \<Rightarrow> (progress_map \<times> message list \<times> 's raft) panics" where
  "bcast_loop E allow_empty self_id [] msgs r = Some ([], msgs, r)"
| "bcast_loop E allow_empty self_id ((i, pr) # prs) msgs r =
     (if i \<noteq> self_id then do {
        (_, pr1, msgs1, r1) \<leftarrow> maybe_send_append E i allow_empty pr msgs r;
        (prs1, msgs2, r2) \<leftarrow> bcast_loop E allow_empty self_id prs msgs1 r1;
        Some ((i, pr1) # prs1, msgs2, r2) }
      else do {
        (prs1, msgs2, r2) \<leftarrow> bcast_loop E allow_empty self_id prs msgs r;
        Some ((i, pr) # prs1, msgs2, r2) })"

definition bcast_with :: "'s env \<Rightarrow> bool \<Rightarrow> 's raft \<Rightarrow> 's raft panics" where
  "bcast_with E allow_empty r = do {
     (prs1, msgs1, r1) \<leftarrow>
       bcast_loop E allow_empty (r_id r) (pt_progress (r_prs r)) (r_msgs r) r;
     Some (r1\<lparr>r_prs := (r_prs r1)\<lparr>pt_progress := prs1\<rparr>, r_msgs := msgs1\<rparr>) }"

definition bcast_append :: "'s env \<Rightarrow> 's raft \<Rightarrow> 's raft panics" where
  "bcast_append E r = bcast_with E True r"

fun heartbeat_loop ::
  "nat \<Rightarrow> bytes option \<Rightarrow> progress_map \<Rightarrow> message list \<Rightarrow> 's raft \<Rightarrow> message list panics" where
  "heartbeat_loop self_id ctx [] msgs r = Some msgs"
| "heartbeat_loop self_id ctx ((i, pr) # prs) msgs r =
     (if i \<noteq> self_id then do {
        msgs1 \<leftarrow> core_send_heartbeat i pr ctx msgs r;
        heartbeat_loop self_id ctx prs msgs1 r }
      else heartbeat_loop self_id ctx prs msgs r)"

definition bcast_heartbeat_with_ctx :: "bytes option \<Rightarrow> 's raft \<Rightarrow> 's raft panics" where
  "bcast_heartbeat_with_ctx ctx r = do {
     msgs \<leftarrow> heartbeat_loop (r_id r) ctx (pt_progress (r_prs r)) (r_msgs r) r;
     Some (r\<lparr>r_msgs := msgs\<rparr>) }"

definition bcast_heartbeat :: "'s raft \<Rightarrow> 's raft panics" where
  "bcast_heartbeat r =
     bcast_heartbeat_with_ctx (ro_last_pending_request_ctx (r_read_only r)) r"

definition raft_ping :: "'s raft \<Rightarrow> 's raft panics" where
  "raft_ping r = (if r_state r = Leader then bcast_heartbeat r else Some r)"

definition send_timeout_now :: "nat \<Rightarrow> 's raft \<Rightarrow> 's raft panics" where
  "send_timeout_now to r = raft_send (new_message to MsgTimeoutNow None) r"

definition abort_leader_transfer :: "'s raft \<Rightarrow> 's raft" where
  "abort_leader_transfer r = r\<lparr>r_lead_transferee := None\<rparr>"

definition send_request_snapshot :: "'s env \<Rightarrow> 's raft \<Rightarrow> 's raft panics" where
  "send_request_snapshot E r = do {
     li \<leftarrow> rl_last_index E (r_raft_log r);
     tr \<leftarrow> rl_term E (r_raft_log r) li;
     t \<leftarrow> unwrap tr;
     raft_send (message_default\<lparr>m_type := MsgAppendResponse,
       m_index := rl_committed (r_raft_log r), m_reject := True, m_reject_hint := li,
       m_to := r_leader_id r, m_request_snapshot := r_pending_request_snapshot r,
       m_log_term := t\<rparr>) r }"

section \<open>Committing, appending, applying\<close>

definition raft_maybe_commit :: "'s env \<Rightarrow> 's raft \<Rightarrow> (bool \<times> 's raft) panics" where
  "raft_maybe_commit E r = do {
     (mci, _) \<leftarrow> maximal_committed_index (r_prs r);
     (b, lg) \<leftarrow> rl_maybe_commit E mci (r_term r) (r_raft_log r);
     let r1 = set_log lg r;
     if b then do {
       pr \<leftarrow> tracker_get (r_prs r1) (r_id r1);
       Some (True, put_pr (r_id r1) (update_committed (rl_committed lg) pr) r1) }
     else Some (False, r1) }"

definition raft_maybe_increase_uncommitted_size ::
  "entry list \<Rightarrow> 's raft \<Rightarrow> bool \<times> 's raft" where
  "raft_maybe_increase_uncommitted_size ents r =
     (let (b, u) = us_maybe_increase ents (r_uncommitted_state r)
      in (b, r\<lparr>r_uncommitted_state := u\<rparr>))"

definition reduce_uncommitted_size :: "entry list \<Rightarrow> 's raft \<Rightarrow> 's raft" where
  "reduce_uncommitted_size ents r =
     (if r_state r \<noteq> Leader then r
      else r\<lparr>r_uncommitted_state := snd (us_maybe_reduce ents (r_uncommitted_state r))\<rparr>)"

fun stamp_entries :: "nat \<Rightarrow> nat \<Rightarrow> nat \<Rightarrow> entry list \<Rightarrow> entry list" where
  "stamp_entries t li i [] = []"
| "stamp_entries t li i (e # es) =
     e\<lparr>e_term := t, e_index := li + 1 + i\<rparr> # stamp_entries t li (Suc i) es"

definition append_entry :: "'s env \<Rightarrow> entry list \<Rightarrow> 's raft \<Rightarrow> (bool \<times> 's raft) panics" where
  "append_entry E es r = do {
     let (b, r1) = raft_maybe_increase_uncommitted_size es r;
     if \<not> b then Some (False, r1)
     else do {
       li \<leftarrow> rl_last_index E (r_raft_log r1);
       (_, lg) \<leftarrow> rl_append E (stamp_entries (r_term r1) li 0 es) (r_raft_log r1);
       Some (True, set_log lg r1) } }"

definition raft_commit_apply :: "'s env \<Rightarrow> nat \<Rightarrow> 's raft \<Rightarrow> 's raft panics" where
  "raft_commit_apply E applied r = do {
     let old_applied = rl_applied (r_raft_log r);
     lg \<leftarrow> rl_applied_to applied (r_raft_log r);
     let r1 = set_log lg r;
     if conf_auto_leave (pt_conf (r_prs r1)) \<and> old_applied \<le> r_pending_conf_index r1
        \<and> applied \<ge> r_pending_conf_index r1 \<and> r_state r1 = Leader
     then do {
       (b, r2) \<leftarrow> append_entry E [entry_default\<lparr>e_type := EntryConfChangeV2\<rparr>] r1;
       ensure b;
       li \<leftarrow> rl_last_index E (r_raft_log r2);
       Some (r2\<lparr>r_pending_conf_index := li\<rparr>) }
     else Some r1 }"

definition reset_randomized_election_timeout :: "'s env \<Rightarrow> 's raft \<Rightarrow> 's raft panics" where
  "reset_randomized_election_timeout E r = do {
     ensure (r_min_election_timeout r < r_max_election_timeout r);
     Some (r\<lparr>r_randomized_election_timeout :=
               env_gen_range E (r_draws r) (r_min_election_timeout r) (r_max_election_timeout r),
             r_draws := r_draws r + 1\<rparr>) }"

definition reset_progress :: "nat \<Rightarrow> nat \<Rightarrow> nat \<Rightarrow> nat \<Rightarrow> nat \<Rightarrow> progress \<Rightarrow> progress" where
  "reset_progress self_id last_index persisted committed i pr =
     (let pr1 = progress_reset (last_index + 1) pr in
      if i = self_id then pr1\<lparr>pr_matched := persisted, pr_committed_index := committed\<rparr> else pr1)"

definition raft_reset :: "'s env \<Rightarrow> nat \<Rightarrow> 's raft \<Rightarrow> 's raft panics" where
  "raft_reset E t r = do {
     let r1 = (if r_term r \<noteq> t then r\<lparr>r_term := t, r_vote := INVALID_ID\<rparr> else r);
     r2 \<leftarrow> reset_randomized_election_timeout E (r1\<lparr>r_leader_id := INVALID_ID\<rparr>);
     let r3 = abort_leader_transfer (r2\<lparr>r_election_elapsed := 0, r_heartbeat_elapsed := 0\<rparr>);
     let r4 = r3\<lparr>r_prs := reset_votes (r_prs r3), r_pending_conf_index := 0,
                 r_read_only := read_only_new (ro_option (r_read_only r3)),
                 r_pending_request_snapshot := INVALID_INDEX\<rparr>;
     last_index \<leftarrow> rl_last_index E (r_raft_log r4);
     let lg = r_raft_log r4;
     Some (r4\<lparr>r_prs := (r_prs r4)\<lparr>pt_progress :=
            map (\<lambda>(i, pr). (i, reset_progress (r_id r4) last_index (rl_persisted lg)
                                 (rl_committed lg) i pr)) (pt_progress (r_prs r4))\<rparr>\<rparr>) }"

section \<open>Roles\<close>

definition become_follower :: "'s env \<Rightarrow> nat \<Rightarrow> nat \<Rightarrow> 's raft \<Rightarrow> 's raft panics" where
  "become_follower E t leader_id r = do {
     let pending_request_snapshot = r_pending_request_snapshot r;
     r1 \<leftarrow> raft_reset E t r;
     Some (r1\<lparr>r_leader_id := leader_id, r_state := Follower,
              r_pending_request_snapshot := pending_request_snapshot\<rparr>) }"

definition become_candidate :: "'s env \<Rightarrow> 's raft \<Rightarrow> 's raft panics" where
  "become_candidate E r = do {
     ensure (r_state r \<noteq> Leader);
     r1 \<leftarrow> raft_reset E (r_term r + 1) r;
     Some (r1\<lparr>r_vote := r_id r1, r_state := Candidate\<rparr>) }"

definition become_pre_candidate :: "'s raft \<Rightarrow> 's raft panics" where
  "become_pre_candidate r = do {
     ensure (r_state r \<noteq> Leader);
     Some (r\<lparr>r_state := PreCandidate, r_prs := reset_votes (r_prs r),
             r_leader_id := INVALID_ID\<rparr>) }"

definition become_leader :: "'s env \<Rightarrow> 's raft \<Rightarrow> 's raft panics" where
  "become_leader E r = do {
     ensure (r_state r \<noteq> Follower);
     r1 \<leftarrow> raft_reset E (r_term r) r;
     let r2 = r1\<lparr>r_leader_id := r_id r1, r_state := Leader\<rparr>;
     last_index \<leftarrow> rl_last_index E (r_raft_log r2);
     ensure (last_index = rl_persisted (r_raft_log r2));
     let r3 = r2\<lparr>r_uncommitted_state := (r_uncommitted_state r2)
                   \<lparr>us_uncommitted_size := 0, us_last_log_tail_index := last_index\<rparr>\<rparr>;
     pr \<leftarrow> tracker_get (r_prs r3) (r_id r3);
     let r4 = (put_pr (r_id r3) (become_replicate pr) r3)\<lparr>r_pending_conf_index := last_index\<rparr>;
     (b, r5) \<leftarrow> append_entry E [entry_default] r4;
     ensure b;
     Some r5 }"

definition num_pending_conf :: "entry list \<Rightarrow> nat" where
  "num_pending_conf ents =
     length (filter (\<lambda>e. e_type e = EntryConfChange \<or> e_type e = EntryConfChangeV2) ents)"

end
