(* ===== verification/Raft_Step.thy ===== *)
theory Raft_Step
  imports Raft_Core
begin

text \<open>
  The message handlers of \<open>raft-rs/src/raft.rs\<close>: elections, \<open>step\<close> with its three role-specific
  parts, the handlers they call, snapshots, configuration changes and the logical clock.
\<close>

type_synonym 's stepped = "(unit result \<times> 's raft) panics"

definition ok_step :: "'s raft panics \<Rightarrow> 's stepped" where
  "ok_step x = map_option (\<lambda>r. (Inr (), r)) x"

section \<open>Elections\<close>

fun send_vote_requests ::
  "'s env \<Rightarrow> bytes \<Rightarrow> message_type \<Rightarrow> nat \<Rightarrow> nat \<Rightarrow> nat \<Rightarrow> nat list \<Rightarrow> 's raft
     \<Rightarrow> 's raft panics" where
  "send_vote_requests E campaign_type vote_msg t commit commit_term [] r = Some r"
| "send_vote_requests E campaign_type vote_msg t commit commit_term (i # ids) r =
     (if i = r_id r then send_vote_requests E campaign_type vote_msg t commit commit_term ids r
      else do {
        li \<leftarrow> rl_last_index E (r_raft_log r);
        lt \<leftarrow> rl_last_term E (r_raft_log r);
        let m = (new_message i vote_msg None)\<lparr>m_term := t, m_index := li, m_log_term := lt,
                   m_commit := commit, m_commit_term := commit_term\<rparr>;
        let m1 = (if campaign_type = CAMPAIGN_TRANSFER then m\<lparr>m_context := campaign_type\<rparr> else m);
        r1 \<leftarrow> raft_send m1 r;
        send_vote_requests E campaign_type vote_msg t commit commit_term ids r1 })"

text \<open>
  \<open>poll\<close> and \<open>campaign\<close> call each other: winning a pre-vote starts the real campaign, whose own
  vote is polled as a candidate and never re-enters. The measure counts those phases.
\<close>

lemma become_candidate_state: "become_candidate E r = Some r1 \<Longrightarrow> r_state r1 = Candidate"
  by (auto simp: become_candidate_def bind_eq_Some_conv split: if_splits)

lemma become_pre_candidate_state: "become_pre_candidate r = Some r1 \<Longrightarrow> r_state r1 = PreCandidate"
  by (auto simp: become_pre_candidate_def split: if_splits)

definition begin_campaign ::
  "'s env \<Rightarrow> bytes \<Rightarrow> 's raft \<Rightarrow> (message_type \<times> nat \<times> 's raft) panics" where
  "begin_campaign E campaign_type r =
     (if campaign_type = CAMPAIGN_PRE_ELECTION then do {
        r1 \<leftarrow> become_pre_candidate r;
        Some (MsgRequestPreVote, r_term r1 + 1, r1) }
      else do {
        r1 \<leftarrow> become_candidate E r;
        Some (MsgRequestVote, r_term r1, r1) })"

lemma begin_campaign_state:
  "begin_campaign E ct r = Some (vm, t, r1) \<Longrightarrow>
     r_state r1 = (if ct = CAMPAIGN_PRE_ELECTION then PreCandidate else Candidate)"
  by (auto simp: begin_campaign_def bind_eq_Some_conv split: if_splits
      dest: become_candidate_state become_pre_candidate_state)

function (sequential) campaign :: "'s env \<Rightarrow> bytes \<Rightarrow> 's raft \<Rightarrow> 's raft panics"
  and poll :: "'s env \<Rightarrow> nat \<Rightarrow> bool \<Rightarrow> 's raft \<Rightarrow> (vote_result \<times> 's raft) panics" where
  "campaign E campaign_type r =
     (case begin_campaign E campaign_type r of
        None \<Rightarrow> None
      | Some (vote_msg, t, r1) \<Rightarrow>
          (case poll E (r_id r1) True r1 of
             None \<Rightarrow> None
           | Some (res, r2) \<Rightarrow>
               if res = Won then Some r2
               else do {
                 (commit, commit_term) \<leftarrow> rl_commit_info E (r_raft_log r2);
                 send_vote_requests E campaign_type vote_msg t commit commit_term
                   (joint_ids (conf_voters (pt_conf (r_prs r2)))) r2 }))"
| "poll E from vote r =
     (let r1 = r\<lparr>r_prs := record_vote from vote (r_prs r)\<rparr>;
          (gr, rj, res) = tally_votes (r_prs r1)
      in case res of
           Won \<Rightarrow>
             if r_state r1 = PreCandidate then
               (case campaign E CAMPAIGN_ELECTION r1 of
                  None \<Rightarrow> None | Some r2 \<Rightarrow> Some (res, r2))
             else do {
               r2 \<leftarrow> become_leader E r1;
               r3 \<leftarrow> bcast_append E r2;
               Some (res, r3) }
         | Lost \<Rightarrow> do { r2 \<leftarrow> become_follower E (r_term r1) INVALID_ID r1; Some (res, r2) }
         | Pending \<Rightarrow> Some (res, r1))"
  by pat_completeness auto
termination
proof (relation "measure (\<lambda>x. case x of
    Inl (E, ct, r) \<Rightarrow> if ct = CAMPAIGN_PRE_ELECTION then 3 else 1
  | Inr (E, from, vote, r) \<Rightarrow> if r_state r = PreCandidate then 2 else 0)", simp, goal_cases)
  case 1
  then show ?case by (auto dest!: begin_campaign_state split: if_splits)
next
  case 2
  then show ?case by (simp add: CAMPAIGN_ELECTION_def CAMPAIGN_PRE_ELECTION_def)
qed

declare campaign.simps [simp del] poll.simps [simp del]

definition hup :: "'s env \<Rightarrow> bool \<Rightarrow> 's raft \<Rightarrow> 's raft panics" where
  "hup E transfer_leader r =
     (if r_state r = Leader then Some r
      else do {
        let lg = r_raft_log r;
        let first_index = (case maybe_first_index (rl_unstable lg) of
              Some idx \<Rightarrow> idx | None \<Rightarrow> rl_applied lg + 1);
        (er, lg1) \<leftarrow> rl_slice E first_index (rl_committed lg + 1) None TransferLeader lg;
        ents \<leftarrow> unwrap er;
        let r1 = set_log lg1 r;
        if num_pending_conf ents \<noteq> 0 then Some r1
        else if transfer_leader then campaign E CAMPAIGN_TRANSFER r1
        else if r_pre_vote r1 then campaign E CAMPAIGN_PRE_ELECTION r1
        else campaign E CAMPAIGN_ELECTION r1 })"

definition maybe_commit_by_vote :: "'s env \<Rightarrow> message \<Rightarrow> 's raft \<Rightarrow> 's raft panics" where
  "maybe_commit_by_vote E m r =
     (if m_commit m = 0 \<or> m_commit_term m = 0 then Some r
      else
        let last_commit = rl_committed (r_raft_log r) in
        if m_commit m \<le> last_commit \<or> r_state r = Leader then Some r
        else do {
          (b, lg) \<leftarrow> rl_maybe_commit E (m_commit m) (m_commit_term m) (r_raft_log r);
          let r1 = set_log lg r;
          if \<not> b then Some r1
          else if r_state r1 \<noteq> Candidate \<and> r_state r1 \<noteq> PreCandidate then Some r1
          else do {
            (er, lg1) \<leftarrow> rl_slice E (last_commit + 1) (rl_committed lg + 1) None CommitByVote lg;
            ents \<leftarrow> unwrap er;
            let r2 = set_log lg1 r1;
            if num_pending_conf ents \<noteq> 0 then become_follower E (r_term r2) INVALID_ID r2
            else Some r2 } })"

section \<open>Reads\<close>

definition handle_ready_read_index ::
  "message \<Rightarrow> nat \<Rightarrow> 's raft \<Rightarrow> (message option \<times> 's raft) panics" where
  "handle_ready_read_index req index r =
     (if m_from req = INVALID_ID \<or> m_from req = r_id r then do {
        e \<leftarrow> vec_get (m_entries req) 0;
        Some (None, r\<lparr>r_read_states := r_read_states r @
               [\<lparr>rst_index = index, rst_request_ctx = e_data e\<rparr>]\<rparr>) }
      else Some (Some (message_default\<lparr>m_type := MsgReadIndexResp, m_to := m_from req,
                   m_index := index, m_entries := m_entries req\<rparr>), r))"

definition respond_read :: "message \<Rightarrow> nat \<Rightarrow> 's raft \<Rightarrow> 's raft panics" where
  "respond_read req index r = do {
     (mo, r1) \<leftarrow> handle_ready_read_index req index r;
     case mo of Some m \<Rightarrow> raft_send m r1 | None \<Rightarrow> Some r1 }"

fun respond_reads :: "read_index_status list \<Rightarrow> 's raft \<Rightarrow> 's raft panics" where
  "respond_reads [] r = Some r"
| "respond_reads (rs # rss) r = do {
     r1 \<leftarrow> respond_read (ris_req rs) (ris_index rs) r;
     respond_reads rss r1 }"

section \<open>Leader: responses of the peers\<close>

definition handle_append_response :: "'s env \<Rightarrow> message \<Rightarrow> 's raft \<Rightarrow> 's raft panics" where
  "handle_append_response E m r = do {
     next_probe_index \<leftarrow>
       (if m_reject m \<and> m_log_term m > 0 then do {
          (i, _) \<leftarrow> rl_find_conflict_by_term E (r_raft_log r) (m_reject_hint m) (m_log_term m);
          Some i }
        else Some (m_reject_hint m));
     case tracker_get (r_prs r) (m_from m) of
       None \<Rightarrow> Some r
     | Some pr0 \<Rightarrow>
         let pr = update_committed (m_commit m) (pr0\<lparr>pr_recent_active := True\<rparr>) in
         if m_reject m then
           let (b, pr1) = maybe_decr_to (m_index m) next_probe_index (m_request_snapshot m) pr in
           if b then
             let pr2 = (if pr_state pr1 = Replicate then become_probe pr1 else pr1)
             in raft_send_append E (m_from m) (put_pr (m_from m) pr2 r)
           else Some (put_pr (m_from m) pr1 r)
         else
           let old_paused = is_paused pr; (b, pr1) = maybe_update (m_index m) pr in
           if \<not> b then Some (put_pr (m_from m) pr1 r)
           else do {
             pr2 \<leftarrow> (case pr_state pr1 of
                 Probe \<Rightarrow> Some (become_replicate pr1)
               | Snapshot \<Rightarrow> Some (if is_snapshot_caught_up pr1 then become_probe pr1 else pr1)
               | Replicate \<Rightarrow> do {
                   ins \<leftarrow> inflights_free_to (m_index m) (pr_ins pr1);
                   Some (pr1\<lparr>pr_ins := ins\<rparr>) });
             (c, r1) \<leftarrow> raft_maybe_commit E (put_pr (m_from m) pr2 r);
             r2 \<leftarrow> (if c then (if should_bcast_commit r1 then bcast_append E r1 else Some r1)
                   else if old_paused then raft_send_append E (m_from m) r1
                   else Some r1);
             r3 \<leftarrow> raft_send_append_aggressively E (m_from m) r2;
             if r_lead_transferee r3 = Some (m_from m) then do {
               last_index \<leftarrow> rl_last_index E (r_raft_log r3);
               pr3 \<leftarrow> tracker_get (r_prs r3) (m_from m);
               if pr_matched pr3 = last_index then send_timeout_now (m_from m) r3 else Some r3 }
             else Some r3 } }"

definition handle_heartbeat_response :: "'s env \<Rightarrow> message \<Rightarrow> 's raft \<Rightarrow> 's raft panics" where
  "handle_heartbeat_response E m r =
     (case tracker_get (r_prs r) (m_from m) of
        None \<Rightarrow> Some r
      | Some pr0 \<Rightarrow> do {
          let pr = progress_resume ((update_committed (m_commit m) pr0)\<lparr>pr_recent_active := True\<rparr>);
          pr1 \<leftarrow> (if pr_state pr = Replicate \<and> inflights_full (pr_ins pr) then do {
                   ins \<leftarrow> inflights_free_first_one (pr_ins pr);
                   Some (pr\<lparr>pr_ins := ins\<rparr>) }
                 else Some pr);
          let r1 = put_pr (m_from m) pr1 r;
          last_index \<leftarrow> rl_last_index E (r_raft_log r1);
          r2 \<leftarrow> (if pr_matched pr1 < last_index \<or> pr_pending_request_snapshot pr1 \<noteq> INVALID_INDEX
                then raft_send_append E (m_from m) r1 else Some r1);
          if ro_option (r_read_only r2) \<noteq> Safe \<or> m_context m = [] then Some r2
          else
            let (acks, ro) = ro_recv_ack (m_from m) (m_context m) (r_read_only r2);
                r3 = r2\<lparr>r_read_only := ro\<rparr>
            in if (case acks of Some a \<Rightarrow> has_quorum (r_prs r3) a | None \<Rightarrow> False) then do {
                 (rss, ro1) \<leftarrow> ro_advance (m_context m) (r_read_only r3);
                 respond_reads rss (r3\<lparr>r_read_only := ro1\<rparr>) }
               else Some r3 })"

definition handle_transfer_leader :: "'s env \<Rightarrow> message \<Rightarrow> 's raft \<Rightarrow> 's raft panics" where
  "handle_transfer_leader E m r =
     (let from = m_from m in
      if tracker_get (r_prs r) from = None then Some r
      else if from \<in> conf_learners (pt_conf (r_prs r)) then Some r
      else if r_lead_transferee r = Some from then Some r
      else
        let r1 = (if r_lead_transferee r \<noteq> None then abort_leader_transfer r else r) in
        if from = r_id r1 then Some r1
        else do {
          let r2 = r1\<lparr>r_election_elapsed := 0, r_lead_transferee := Some from\<rparr>;
          pr \<leftarrow> tracker_get (r_prs r2) from;
          last_index \<leftarrow> rl_last_index E (r_raft_log r2);
          if pr_matched pr = last_index then send_timeout_now from r2
          else raft_send_append E from r2 })"

definition handle_snapshot_status :: "message \<Rightarrow> 's raft \<Rightarrow> 's raft" where
  "handle_snapshot_status m r =
     (case tracker_get (r_prs r) (m_from m) of
        None \<Rightarrow> r
      | Some pr \<Rightarrow>
          if pr_state pr \<noteq> Snapshot then r
          else
            let pr1 = (if m_reject m then become_probe (snapshot_failure pr) else become_probe pr);
                pr2 = (progress_pause pr1)\<lparr>pr_pending_request_snapshot := INVALID_INDEX\<rparr>
            in put_pr (m_from m) pr2 r)"

definition handle_unreachable :: "message \<Rightarrow> 's raft \<Rightarrow> 's raft" where
  "handle_unreachable m r =
     (case tracker_get (r_prs r) (m_from m) of
        None \<Rightarrow> r
      | Some pr \<Rightarrow>
          if pr_state pr = Replicate then put_pr (m_from m) (become_probe pr) r else r)"

section \<open>Leader: proposals\<close>

definition conf_change_reason :: "'s raft \<Rightarrow> conf_change_v2 \<Rightarrow> string" where
  "conf_change_reason r cc =
     (if has_pending_conf r then ''possible unapplied conf change''
      else
        let already_joint = joint (pt_conf (r_prs r)); want_leave = (ccv2_changes cc = []) in
        if already_joint \<and> \<not> want_leave then ''must transition out of joint config first''
        else if \<not> already_joint \<and> want_leave
        then ''not in joint v2state; refusing empty conf change''
        else [])"

definition read_conf_change :: "'s env \<Rightarrow> entry \<Rightarrow> conf_change_v2 option result" where
  "read_conf_change E e = (case e_type e of
       EntryConfChange \<Rightarrow> (case env_cc_parse E (e_data e) of
           Inl _ \<Rightarrow> Inl ProposalDropped
         | Inr cc \<Rightarrow> Inr (Some (into_v2 (V1 cc))))
     | EntryConfChangeV2 \<Rightarrow> (case env_ccv2_parse E (e_data e) of
           Inl _ \<Rightarrow> Inl ProposalDropped
         | Inr cc \<Rightarrow> Inr (Some cc))
     | EntryNormal \<Rightarrow> Inr None)"

fun propose_entries ::
  "'s env \<Rightarrow> nat \<Rightarrow> entry list \<Rightarrow> 's raft \<Rightarrow> (entry list result \<times> 's raft) panics" where
  "propose_entries E i [] r = Some (Inr [], r)"
| "propose_entries E i (e # es) r =
     (case read_conf_change E e of
        Inl err \<Rightarrow> Some (Inl err, r)
      | Inr cco \<Rightarrow> do {
          (e1, r1) \<leftarrow> (case cco of
              None \<Rightarrow> Some (e, r)
            | Some cc \<Rightarrow>
                if conf_change_reason r cc = [] then do {
                  last_index \<leftarrow> rl_last_index E (r_raft_log r);
                  Some (e, r\<lparr>r_pending_conf_index := last_index + i + 1\<rparr>) }
                else Some (entry_default\<lparr>e_type := EntryNormal\<rparr>, r));
          (res, r2) \<leftarrow> propose_entries E (Suc i) es r1;
          Some (case res of Inl err \<Rightarrow> Inl err | Inr es1 \<Rightarrow> Inr (e1 # es1), r2) })"

definition step_propose :: "'s env \<Rightarrow> message \<Rightarrow> 's raft \<Rightarrow> 's stepped" where
  "step_propose E m r =
     (if m_entries m = [] then None
      else if tracker_get (r_prs r) (r_id r) = None then Some (Inl ProposalDropped, r)
      else if r_lead_transferee r \<noteq> None then Some (Inl ProposalDropped, r)
      else do {
        (res, r1) \<leftarrow> propose_entries E 0 (m_entries m) r;
        case res of
          Inl err \<Rightarrow> Some (Inl err, r1)
        | Inr es \<Rightarrow> do {
            (b, r2) \<leftarrow> append_entry E es r1;
            if \<not> b then Some (Inl ProposalDropped, r2) else ok_step (bcast_append E r2) } })"

definition step_read_index :: "'s env \<Rightarrow> message \<Rightarrow> 's raft \<Rightarrow> 's raft panics" where
  "step_read_index E m r = do {
     b \<leftarrow> commit_to_current_term E r;
     if \<not> b then Some r
     else if tracker_is_singleton (r_prs r)
     then respond_read m (rl_committed (r_raft_log r)) r
     else case ro_option (r_read_only r) of
       Safe \<Rightarrow> do {
         e \<leftarrow> vec_get (m_entries m) 0;
         ro \<leftarrow> ro_add_request (rl_committed (r_raft_log r)) m (r_id r) (r_read_only r);
         bcast_heartbeat_with_ctx (Some (e_data e)) (r\<lparr>r_read_only := ro\<rparr>) }
     | LeaseBased \<Rightarrow> respond_read m (rl_committed (r_raft_log r)) r }"

definition check_quorum_active :: "'s raft \<Rightarrow> bool \<times> 's raft" where
  "check_quorum_active r =
     (let (b, t) = quorum_recently_active (r_id r) (r_prs r) in (b, r\<lparr>r_prs := t\<rparr>))"

definition step_leader :: "'s env \<Rightarrow> message \<Rightarrow> 's raft \<Rightarrow> 's stepped" where
  "step_leader E m r = (case m_type m of
       MsgBeat \<Rightarrow> ok_step (bcast_heartbeat r)
     | MsgCheckQuorum \<Rightarrow>
         (let (b, r1) = check_quorum_active r in
          if \<not> b then ok_step (become_follower E (r_term r1) INVALID_ID r1)
          else Some (Inr (), r1))
     | MsgPropose \<Rightarrow> step_propose E m r
     | MsgReadIndex \<Rightarrow> ok_step (step_read_index E m r)
     | MsgAppendResponse \<Rightarrow> ok_step (handle_append_response E m r)
     | MsgHeartbeatResponse \<Rightarrow> ok_step (handle_heartbeat_response E m r)
     | MsgSnapStatus \<Rightarrow> Some (Inr (), handle_snapshot_status m r)
     | MsgUnreachable \<Rightarrow> Some (Inr (), handle_unreachable m r)
     | MsgTransferLeader \<Rightarrow> ok_step (handle_transfer_leader E m r)
     | _ \<Rightarrow> Some (Inr (), r))"

section \<open>Followers\<close>

definition handle_append_entries :: "'s env \<Rightarrow> message \<Rightarrow> 's raft \<Rightarrow> 's raft panics" where
  "handle_append_entries E m r =
     (if r_pending_request_snapshot r \<noteq> INVALID_INDEX then send_request_snapshot E r
      else if m_index m < rl_committed (r_raft_log r) then
        raft_send (message_default\<lparr>m_type := MsgAppendResponse, m_to := m_from m,
          m_index := rl_committed (r_raft_log r), m_commit := rl_committed (r_raft_log r)\<rparr>) r
      else do {
        let to_send = message_default\<lparr>m_to := m_from m, m_type := MsgAppendResponse\<rparr>;
        (res, lg) \<leftarrow> rl_maybe_append E (m_index m) (m_log_term m) (m_commit m) (m_entries m)
                       (r_raft_log r);
        let r1 = set_log lg r;
        to_send1 \<leftarrow> (case res of
            Some (_, last_idx) \<Rightarrow> Some (to_send\<lparr>m_index := last_idx\<rparr>)
          | None \<Rightarrow> do {
              li \<leftarrow> rl_last_index E lg;
              (hint_index, hint_term) \<leftarrow>
                rl_find_conflict_by_term E lg (min (m_index m) li) (m_log_term m);
              ht \<leftarrow> hint_term;
              Some (to_send\<lparr>m_index := m_index m, m_reject := True, m_reject_hint := hint_index,
                            m_log_term := ht\<rparr>) });
        raft_send (to_send1\<lparr>m_commit := rl_committed lg\<rparr>) r1 })"

definition handle_heartbeat :: "'s env \<Rightarrow> message \<Rightarrow> 's raft \<Rightarrow> 's raft panics" where
  "handle_heartbeat E m r = do {
     lg \<leftarrow> rl_commit_to E (m_commit m) (r_raft_log r);
     let r1 = set_log lg r;
     if r_pending_request_snapshot r1 \<noteq> INVALID_INDEX then send_request_snapshot E r1
     else raft_send (message_default\<lparr>m_type := MsgHeartbeatResponse, m_to := m_from m,
            m_context := m_context m, m_commit := rl_committed lg\<rparr>) r1 }"

section \<open>Configuration changes\<close>

definition post_conf_change :: "'s env \<Rightarrow> 's raft \<Rightarrow> (conf_state \<times> 's raft) panics" where
  "post_conf_change E r0 =
     (let cs = to_conf_state (pt_conf (r_prs r0));
          is_voter = joint_contains (conf_voters (pt_conf (r_prs r0))) (r_id r0);
          r = r0\<lparr>r_promotable := is_voter\<rparr>
      in if \<not> is_voter \<and> r_state r = Leader then Some (cs, r)
         else if r_state r \<noteq> Leader \<or> cs_voters cs = [] then Some (cs, r)
         else do {
           (b, r1) \<leftarrow> raft_maybe_commit E r;
           r2 \<leftarrow> (if b then bcast_append E r1 else bcast_with E False r1);
           r3 \<leftarrow> (case ro_last_pending_request_ctx (r_read_only r2) of
               None \<Rightarrow> Some r2
             | Some ctx \<Rightarrow>
                 let (acks, ro) = ro_recv_ack (r_id r2) ctx (r_read_only r2);
                     r3 = r2\<lparr>r_read_only := ro\<rparr>
                 in if (case acks of Some a \<Rightarrow> has_quorum (r_prs r3) a | None \<Rightarrow> False) then do {
                      (rss, ro1) \<leftarrow> ro_advance ctx (r_read_only r3);
                      respond_reads rss (r3\<lparr>r_read_only := ro1\<rparr>) }
                    else Some r3);
           Some (cs,
             if (case r_lead_transferee r3 of
                   Some e \<Rightarrow> \<not> joint_contains (conf_voters (pt_conf (r_prs r3))) e
                 | None \<Rightarrow> False)
             then abort_leader_transfer r3 else r3) })"

definition raft_apply_conf_change ::
  "'s env \<Rightarrow> conf_change_v2 \<Rightarrow> 's raft \<Rightarrow> (conf_state result \<times> 's raft) panics" where
  "raft_apply_conf_change E cc r =
     (case changer_change cc (r_prs r) of
        Inl e \<Rightarrow> Some (Inl e, r)
      | Inr (cfg, changes) \<Rightarrow> do {
          last_index \<leftarrow> rl_last_index E (r_raft_log r);
          (cs, r1) \<leftarrow> post_conf_change E
            (r\<lparr>r_prs := apply_conf cfg changes last_index (r_prs r)\<rparr>);
          Some (Inr cs, r1) })"

section \<open>Snapshots\<close>

definition raft_restore :: "'s env \<Rightarrow> snapshot \<Rightarrow> 's raft \<Rightarrow> (bool \<times> 's raft) panics" where
  "raft_restore E snap r =
     (let cs = sm_conf_state (snap_metadata snap) in
      if snap_index snap < rl_committed (r_raft_log r) then Some (False, r)
      else if r_state r \<noteq> Follower then do {
        r1 \<leftarrow> become_follower E (r_term r + 1) INVALID_INDEX r;
        Some (False, r1) }
      else if list_all (\<lambda>i. i \<noteq> r_id r) (cs_voters cs @ cs_learners cs @ cs_voters_outgoing cs)
      then Some (False, r)
      else do {
        matched \<leftarrow> (if r_pending_request_snapshot r = INVALID_INDEX
                   then rl_match_term E (r_raft_log r) (snap_index snap) (snap_term snap)
                   else Some False);
        if matched then do {
          lg \<leftarrow> rl_commit_to E (snap_index snap) (r_raft_log r);
          Some (False, set_log lg r) }
        else do {
          lg \<leftarrow> rl_restore snap (r_raft_log r);
          let r1 = (set_log lg r)\<lparr>r_prs := tracker_clear (r_prs r)\<rparr>;
          last_index \<leftarrow> rl_last_index E lg;
          let (res, t) = confchange_restore (r_prs r1) last_index cs;
          unwrap res;
          (new_cs, r2) \<leftarrow> post_conf_change E (r1\<lparr>r_prs := t\<rparr>);
          ensure (conf_state_eq cs new_cs);
          pr \<leftarrow> tracker_get (r_prs r2) (r_id r2);
          n \<leftarrow> usub (pr_next_idx pr) 1;
          Some (True, (put_pr (r_id r2) (snd (maybe_update n pr)) r2)
                  \<lparr>r_pending_request_snapshot := INVALID_INDEX\<rparr>) } })"

definition handle_snapshot :: "'s env \<Rightarrow> message \<Rightarrow> 's raft \<Rightarrow> 's raft panics" where
  "handle_snapshot E m r = do {
     (b, r1) \<leftarrow> raft_restore E (m_snapshot m) r;
     idx \<leftarrow> (if b then rl_last_index E (r_raft_log r1) else Some (rl_committed (r_raft_log r1)));
     raft_send (message_default\<lparr>m_type := MsgAppendResponse, m_to := m_from m,
       m_index := idx\<rparr>) r1 }"

section \<open>Candidates and followers\<close>

definition step_candidate :: "'s env \<Rightarrow> message \<Rightarrow> 's raft \<Rightarrow> 's stepped" where
  "step_candidate E m r = (case m_type m of
       MsgPropose \<Rightarrow> Some (Inl ProposalDropped, r)
     | MsgAppend \<Rightarrow> ok_step (do {
         ensure (r_term r = m_term m);
         r1 \<leftarrow> become_follower E (m_term m) (m_from m) r;
         handle_append_entries E m r1 })
     | MsgHeartbeat \<Rightarrow> ok_step (do {
         ensure (r_term r = m_term m);
         r1 \<leftarrow> become_follower E (m_term m) (m_from m) r;
         handle_heartbeat E m r1 })
     | MsgSnapshot \<Rightarrow> ok_step (do {
         ensure (r_term r = m_term m);
         r1 \<leftarrow> become_follower E (m_term m) (m_from m) r;
         handle_snapshot E m r1 })
     | _ \<Rightarrow>
         if m_type m = MsgRequestPreVoteResponse \<or> m_type m = MsgRequestVoteResponse then
           if (r_state r = PreCandidate \<and> m_type m \<noteq> MsgRequestPreVoteResponse)
              \<or> (r_state r = Candidate \<and> m_type m \<noteq> MsgRequestVoteResponse)
           then Some (Inr (), r)
           else ok_step (do {
             (_, r1) \<leftarrow> poll E (m_from m) (\<not> m_reject m) r;
             maybe_commit_by_vote E m r1 })
         else Some (Inr (), r))"

definition step_follower :: "'s env \<Rightarrow> message \<Rightarrow> 's raft \<Rightarrow> 's stepped" where
  "step_follower E m r = (case m_type m of
       MsgPropose \<Rightarrow>
         if r_leader_id r = INVALID_ID then Some (Inl ProposalDropped, r)
         else ok_step (raft_send (m\<lparr>m_to := r_leader_id r\<rparr>) r)
     | MsgAppend \<Rightarrow>
         ok_step (handle_append_entries E m (r\<lparr>r_election_elapsed := 0, r_leader_id := m_from m\<rparr>))
     | MsgHeartbeat \<Rightarrow>
         ok_step (handle_heartbeat E m (r\<lparr>r_election_elapsed := 0, r_leader_id := m_from m\<rparr>))
     | MsgSnapshot \<Rightarrow>
         ok_step (handle_snapshot E m (r\<lparr>r_election_elapsed := 0, r_leader_id := m_from m\<rparr>))
     | MsgTransferLeader \<Rightarrow>
         if r_leader_id r = INVALID_ID then Some (Inr (), r)
         else ok_step (raft_send (m\<lparr>m_to := r_leader_id r\<rparr>) r)
     | MsgTimeoutNow \<Rightarrow> if r_promotable r then ok_step (hup E True r) else Some (Inr (), r)
     | MsgReadIndex \<Rightarrow>
         if r_leader_id r = INVALID_ID then Some (Inr (), r)
         else ok_step (raft_send (m\<lparr>m_to := r_leader_id r\<rparr>) r)
     | MsgReadIndexResp \<Rightarrow>
         (case m_entries m of
            [e] \<Rightarrow> ok_step (do {
              let r1 = r\<lparr>r_read_states := r_read_states r @
                         [\<lparr>rst_index = m_index m, rst_request_ctx = e_data e\<rparr>]\<rparr>;
              (_, lg) \<leftarrow> rl_maybe_commit E (m_index m) (m_term m) (r_raft_log r1);
              Some (set_log lg r1) })
          | _ \<Rightarrow> Some (Inr (), r))
     | _ \<Rightarrow> Some (Inr (), r))"

section \<open>Step\<close>

definition step_vote_request :: "'s env \<Rightarrow> message \<Rightarrow> 's raft \<Rightarrow> 's raft panics" where
  "step_vote_request E m r = do {
     let can_vote = (r_vote r = m_from m \<or> (r_vote r = INVALID_ID \<and> r_leader_id r = INVALID_ID)
                     \<or> (m_type m = MsgRequestPreVote \<and> m_term m > r_term r));
     granted \<leftarrow> (if can_vote then do {
                  up \<leftarrow> rl_is_up_to_date E (r_raft_log r) (m_index m) (m_log_term m);
                  if up then do {
                    li \<leftarrow> rl_last_index E (r_raft_log r);
                    Some (m_index m > li \<or> r_priority r \<le> get_priority m) }
                  else Some False }
                else Some False);
     resp \<leftarrow> vote_resp_msg_type (m_type m);
     if granted then do {
       r1 \<leftarrow> raft_send ((new_message (m_from m) resp None)\<lparr>m_reject := False, m_term := m_term m\<rparr>) r;
       Some (if m_type m = MsgRequestVote
             then r1\<lparr>r_election_elapsed := 0, r_vote := m_from m\<rparr> else r1) }
     else do {
       (commit, commit_term) \<leftarrow> rl_commit_info E (r_raft_log r);
       r1 \<leftarrow> raft_send ((new_message (m_from m) resp None)\<lparr>m_reject := True, m_term := r_term r,
              m_commit := commit, m_commit_term := commit_term\<rparr>) r;
       maybe_commit_by_vote E m r1 } }"

text \<open>The term check at the head of \<open>step\<close>: \<open>Inl\<close> is the early return, \<open>Inr\<close> goes on.\<close>

definition step_term :: "'s env \<Rightarrow> message \<Rightarrow> 's raft \<Rightarrow> ('s raft + 's raft) panics" where
  "step_term E m r =
     (if m_term m = 0 then Some (Inr r)
      else if m_term m > r_term r then
        let is_request = (m_type m = MsgRequestVote \<or> m_type m = MsgRequestPreVote);
            force = (m_context m = CAMPAIGN_TRANSFER);
            lease = (r_check_quorum r \<and> r_leader_id r \<noteq> INVALID_ID
                     \<and> r_election_elapsed r < r_election_timeout r)
        in if is_request \<and> \<not> force \<and> lease then Some (Inl r)
           else if m_type m = MsgRequestPreVote
                \<or> (m_type m = MsgRequestPreVoteResponse \<and> \<not> m_reject m)
           then Some (Inr r)
           else if m_type m = MsgAppend \<or> m_type m = MsgHeartbeat \<or> m_type m = MsgSnapshot
           then do { r1 \<leftarrow> become_follower E (m_term m) (m_from m) r; Some (Inr r1) }
           else do { r1 \<leftarrow> become_follower E (m_term m) INVALID_ID r; Some (Inr r1) }
      else if m_term m < r_term r then
        if (r_check_quorum r \<or> r_pre_vote r) \<and> (m_type m = MsgHeartbeat \<or> m_type m = MsgAppend)
        then do { r1 \<leftarrow> raft_send (new_message (m_from m) MsgAppendResponse None) r; Some (Inl r1) }
        else if m_type m = MsgRequestPreVote
        then do {
          r1 \<leftarrow> raft_send ((new_message (m_from m) MsgRequestPreVoteResponse None)
                 \<lparr>m_term := r_term r, m_reject := True\<rparr>) r;
          Some (Inl r1) }
        else Some (Inl r)
      else Some (Inr r))"

definition step_role :: "'s env \<Rightarrow> message \<Rightarrow> 's raft \<Rightarrow> 's stepped" where
  "step_role E m r =
     (if m_type m = MsgHup then ok_step (hup E False r)
      else if m_type m = MsgRequestVote \<or> m_type m = MsgRequestPreVote
      then ok_step (step_vote_request E m r)
      else case r_state r of
             PreCandidate \<Rightarrow> step_candidate E m r
           | Candidate \<Rightarrow> step_candidate E m r
           | Follower \<Rightarrow> step_follower E m r
           | Leader \<Rightarrow> step_leader E m r)"

definition raft_step :: "'s env \<Rightarrow> message \<Rightarrow> 's raft \<Rightarrow> 's stepped" where
  "raft_step E m r = do {
     x \<leftarrow> step_term E m r;
     case x of
       Inl r1 \<Rightarrow> Some (Inr (), r1)
     | Inr r1 \<Rightarrow> step_role E m r1 }"

section \<open>Clock\<close>

text \<open>\<open>let _ = self.step(m)\<close> drops the result.\<close>

definition step_ignore :: "'s env \<Rightarrow> message \<Rightarrow> 's raft \<Rightarrow> 's raft panics" where
  "step_ignore E m r = do { (_, r1) \<leftarrow> raft_step E m r; Some r1 }"

definition tick_election :: "'s env \<Rightarrow> 's raft \<Rightarrow> (bool \<times> 's raft) panics" where
  "tick_election E r =
     (let r1 = r\<lparr>r_election_elapsed := r_election_elapsed r + 1\<rparr> in
      if \<not> pass_election_timeout r1 \<or> \<not> r_promotable r1 then Some (False, r1)
      else do {
        r2 \<leftarrow> step_ignore E (new_message INVALID_ID MsgHup (Some (r_id r1)))
               (r1\<lparr>r_election_elapsed := 0\<rparr>);
        Some (True, r2) })"

definition tick_heartbeat :: "'s env \<Rightarrow> 's raft \<Rightarrow> (bool \<times> 's raft) panics" where
  "tick_heartbeat E r = do {
     let r1 = r\<lparr>r_heartbeat_elapsed := r_heartbeat_elapsed r + 1,
                r_election_elapsed := r_election_elapsed r + 1\<rparr>;
     (has_ready, r2) \<leftarrow>
       (if r_election_elapsed r1 \<ge> r_election_timeout r1 then do {
          let ra = r1\<lparr>r_election_elapsed := 0\<rparr>;
          (h, rb) \<leftarrow> (if r_check_quorum ra then do {
                       rb \<leftarrow> step_ignore E (new_message INVALID_ID MsgCheckQuorum (Some (r_id ra))) ra;
                       Some (True, rb) }
                     else Some (False, ra));
          Some (h, if r_state rb = Leader \<and> r_lead_transferee rb \<noteq> None
                   then abort_leader_transfer rb else rb) }
        else Some (False, r1));
     if r_state r2 \<noteq> Leader then Some (has_ready, r2)
     else if r_heartbeat_elapsed r2 \<ge> r_heartbeat_timeout r2 then do {
       r3 \<leftarrow> step_ignore E (new_message INVALID_ID MsgBeat (Some (r_id r2)))
              (r2\<lparr>r_heartbeat_elapsed := 0\<rparr>);
       Some (True, r3) }
     else Some (has_ready, r2) }"

definition raft_tick :: "'s env \<Rightarrow> 's raft \<Rightarrow> (bool \<times> 's raft) panics" where
  "raft_tick E r = (case r_state r of
       Follower \<Rightarrow> tick_election E r
     | PreCandidate \<Rightarrow> tick_election E r
     | Candidate \<Rightarrow> tick_election E r
     | Leader \<Rightarrow> tick_heartbeat E r)"

section \<open>Persistence and the public interface\<close>

definition on_persist_entries :: "'s env \<Rightarrow> nat \<Rightarrow> nat \<Rightarrow> 's raft \<Rightarrow> 's raft panics" where
  "on_persist_entries E index t r = do {
     (update, lg) \<leftarrow> rl_maybe_persist E index t (r_raft_log r);
     let r1 = set_log lg r;
     if update \<and> r_state r1 = Leader then do {
       pr \<leftarrow> tracker_get (r_prs r1) (r_id r1);
       let (b, pr1) = maybe_update index pr;
       let r2 = put_pr (r_id r1) pr1 r1;
       if b then do {
         (c, r3) \<leftarrow> raft_maybe_commit E r2;
         if c \<and> should_bcast_commit r3 then bcast_append E r3 else Some r3 }
       else Some r2 }
     else Some r1 }"

definition on_persist_snap :: "nat \<Rightarrow> 's raft \<Rightarrow> 's raft panics" where
  "on_persist_snap index r = do {
     (_, lg) \<leftarrow> rl_maybe_persist_snap index (r_raft_log r);
     Some (set_log lg r) }"

definition raft_request_snapshot :: "'s env \<Rightarrow> 's raft \<Rightarrow> 's stepped" where
  "raft_request_snapshot E r =
     (if r_state r = Leader \<or> r_leader_id r = INVALID_ID \<or> raft_snap r \<noteq> None
         \<or> r_pending_request_snapshot r \<noteq> INVALID_INDEX
      then Some (Inl RequestSnapshotDropped, r)
      else do {
        request_index \<leftarrow> rl_last_index E (r_raft_log r);
        tr \<leftarrow> rl_term E (r_raft_log r) request_index;
        request_index_term \<leftarrow> unwrap tr;
        if r_term r = request_index_term
        then ok_step (send_request_snapshot E (r\<lparr>r_pending_request_snapshot := request_index\<rparr>))
        else Some (Inl RequestSnapshotDropped, r) })"

definition load_state :: "'s env \<Rightarrow> hard_state \<Rightarrow> 's raft \<Rightarrow> 's raft panics" where
  "load_state E hs r = do {
     last_index \<leftarrow> rl_last_index E (r_raft_log r);
     if hs_commit hs < rl_committed (r_raft_log r) \<or> hs_commit hs > last_index then None
     else Some (r\<lparr>r_raft_log := (r_raft_log r)\<lparr>rl_committed := hs_commit hs\<rparr>,
                  r_term := hs_term hs, r_vote := hs_vote hs\<rparr>) }"

definition raft_enable_group_commit :: "'s env \<Rightarrow> bool \<Rightarrow> 's raft \<Rightarrow> 's raft panics" where
  "raft_enable_group_commit E enable r = do {
     let r1 = r\<lparr>r_prs := tracker_enable_group_commit enable (r_prs r)\<rparr>;
     if r_state r1 = Leader \<and> \<not> enable then do {
       (b, r2) \<leftarrow> raft_maybe_commit E r1;
       if b then bcast_append E r2 else Some r2 }
     else Some r1 }"

fun assign_groups :: "(nat \<times> nat) list \<Rightarrow> progress_tracker \<Rightarrow> progress_tracker panics" where
  "assign_groups [] t = Some t"
| "assign_groups ((peer_id, group_id) # ids) t = do {
     ensure (group_id > 0);
     assign_groups ids (case tracker_get t peer_id of
         Some pr \<Rightarrow> tracker_put peer_id (pr\<lparr>pr_commit_group_id := group_id\<rparr>) t
       | None \<Rightarrow> t) }"

definition assign_commit_groups :: "'s env \<Rightarrow> (nat \<times> nat) list \<Rightarrow> 's raft \<Rightarrow> 's raft panics" where
  "assign_commit_groups E ids r = do {
     t \<leftarrow> assign_groups ids (r_prs r);
     let r1 = r\<lparr>r_prs := t\<rparr>;
     if r_state r1 = Leader \<and> pt_group_commit (r_prs r1) then do {
       (b, r2) \<leftarrow> raft_maybe_commit E r1;
       if b then bcast_append E r2 else Some r2 }
     else Some r1 }"

definition clear_commit_group :: "'s raft \<Rightarrow> 's raft" where
  "clear_commit_group r = r\<lparr>r_prs := (r_prs r)\<lparr>pt_progress :=
     map (\<lambda>(i, pr). (i, pr\<lparr>pr_commit_group_id := 0\<rparr>)) (pt_progress (r_prs r))\<rparr>\<rparr>"

definition check_group_commit_consistent :: "'s env \<Rightarrow> 's raft \<Rightarrow> bool option panics" where
  "check_group_commit_consistent E r =
     (if r_state r \<noteq> Leader then Some None
      else do {
        b \<leftarrow> apply_to_current_term E r;
        if \<not> b then Some None
        else do {
          (index, use_group_commit) \<leftarrow> maximal_committed_index (r_prs r);
          Some (Some (use_group_commit \<and> index = rl_committed (r_raft_log r))) } })"

definition maybe_free_inflight_buffers :: "'s raft \<Rightarrow> 's raft" where
  "maybe_free_inflight_buffers r = r\<lparr>r_prs := (r_prs r)\<lparr>pt_progress :=
     map (\<lambda>(i, pr). (i, pr\<lparr>pr_ins := inflights_maybe_free_buffer (pr_ins pr)\<rparr>))
       (pt_progress (r_prs r))\<rparr>\<rparr>"

definition adjust_max_inflight_msgs :: "nat \<Rightarrow> nat \<Rightarrow> 's raft \<Rightarrow> 's raft panics" where
  "adjust_max_inflight_msgs target cap r =
     (case tracker_get (r_prs r) target of
        None \<Rightarrow> Some r
      | Some pr \<Rightarrow> do {
          ins \<leftarrow> inflights_set_cap cap (pr_ins pr);
          Some (put_pr target (pr\<lparr>pr_ins := ins\<rparr>) r) })"

definition raft_set_priority :: "int \<Rightarrow> 's raft \<Rightarrow> 's raft" where
  "raft_set_priority priority r = r\<lparr>r_priority := priority\<rparr>"

definition raft_skip_bcast_commit :: "bool \<Rightarrow> 's raft \<Rightarrow> 's raft" where
  "raft_skip_bcast_commit skip r = r\<lparr>r_skip_bcast_commit := skip\<rparr>"

definition raft_set_batch_append :: "bool \<Rightarrow> 's raft \<Rightarrow> 's raft" where
  "raft_set_batch_append batch_append r = r\<lparr>r_batch_append := batch_append\<rparr>"

definition raft_set_max_committed_size_per_ready :: "nat \<Rightarrow> 's raft \<Rightarrow> 's raft" where
  "raft_set_max_committed_size_per_ready sz r = r\<lparr>r_max_committed_size_per_ready := sz\<rparr>"

definition raft_set_check_quorum :: "bool \<Rightarrow> 's raft \<Rightarrow> 's raft" where
  "raft_set_check_quorum check_quorum r = r\<lparr>r_check_quorum := check_quorum\<rparr>"

definition raft_new :: "'s env \<Rightarrow> config \<Rightarrow> 's \<Rightarrow> 's raft result panics" where
  "raft_new E c store =
     (case config_validate c of
        Inl e \<Rightarrow> Some (Inl e)
      | Inr _ \<Rightarrow> (case st_initial_state E store of
          Inl e \<Rightarrow> Some (Inl e)
        | Inr raft_state \<Rightarrow> do {
            let cs = rs_conf_state raft_state;
            lg \<leftarrow> raft_log_new E store;
            let r = \<lparr>r_term = 0, r_vote = 0, r_id = c_id c, r_read_states = [], r_raft_log = lg,
                r_max_inflight = c_max_inflight_msgs c, r_max_msg_size = c_max_size_per_msg c,
                r_pending_request_snapshot = INVALID_INDEX, r_state = Follower,
                r_promotable = False, r_leader_id = 0, r_lead_transferee = None,
                r_pending_conf_index = 0, r_read_only = read_only_new (c_read_only_option c),
                r_election_elapsed = 0, r_heartbeat_elapsed = 0,
                r_check_quorum = c_check_quorum c, r_pre_vote = c_pre_vote c,
                r_skip_bcast_commit = c_skip_bcast_commit c, r_batch_append = c_batch_append c,
                r_heartbeat_timeout = c_heartbeat_tick c, r_election_timeout = c_election_tick c,
                r_randomized_election_timeout = 0,
                r_min_election_timeout = min_election_tick c,
                r_max_election_timeout = max_election_tick c, r_priority = c_priority c,
                r_uncommitted_state = \<lparr>us_max_uncommitted_size = c_max_uncommitted_size c,
                  us_uncommitted_size = 0, us_last_log_tail_index = 0\<rparr>,
                r_max_committed_size_per_ready = c_max_committed_size_per_ready c,
                r_prs = tracker_new (c_max_inflight_msgs c), r_msgs = [], r_draws = 0\<rparr>;
            li \<leftarrow> rl_last_index E lg;
            let (res, t) = confchange_restore (r_prs r) li cs;
            case res of
              Inl e \<Rightarrow> Some (Inl e)
            | Inr _ \<Rightarrow> do {
                (new_cs, r1) \<leftarrow> post_conf_change E (r\<lparr>r_prs := t\<rparr>);
                ensure (conf_state_eq new_cs cs);
                r2 \<leftarrow> (if rs_hard_state raft_state \<noteq> hard_state_default
                      then load_state E (rs_hard_state raft_state) r1 else Some r1);
                r3 \<leftarrow> (if c_applied c > 0 then raft_commit_apply E (c_applied c) r2 else Some r2);
                r4 \<leftarrow> become_follower E (r_term r3) INVALID_ID r3;
                Some (Inr r4) } }))"

end
