(* ===== verification/Raft_Frames.thy ===== *)
theory Raft_Frames
  imports Raft_Step
begin

text \<open>
  What the operations of a node leave alone. Most of the handlers of \<open>raft.rs\<close> touch neither the
  term, nor the vote, nor the role, nor the ballot box, nor the configuration, never move the committed
  or applied mark back, and never put a granted vote in the mailbox: they are \<open>quiet\<close>. The functions
  that change the role go through \<open>reset\<close>, whose effect is \<open>renews\<close>. There is one rule of the
  collection \<open>frames\<close> for every function, in the order in which the code calls them.
\<close>

lemmas outcome_error_cases [vcg] =
  iffD2[OF error.split[of "outcome P" for P]] iffD2[OF storage_error.split[of "outcome P" for P]]

section \<open>Relations between the states before and after\<close>

text \<open>
  \<open>steady\<close> holds for every operation of a node: the identity and the timing parameters are constant,
  and the committed and the applied mark only grow, the applied one within the committed one.
\<close>

definition steady :: "'s raft \<Rightarrow> 's raft \<Rightarrow> bool" where
  "steady r r' \<longleftrightarrow> r_id r' = r_id r \<and> r_min_election_timeout r' = r_min_election_timeout r
     \<and> r_max_election_timeout r' = r_max_election_timeout r
     \<and> r_check_quorum r' = r_check_quorum r \<and> r_pre_vote r' = r_pre_vote r
     \<and> rl_committed (r_raft_log r) \<le> rl_committed (r_raft_log r')
     \<and> rl_applied (r_raft_log r) \<le> rl_applied (r_raft_log r')
     \<and> (rl_applied (r_raft_log r) \<le> rl_committed (r_raft_log r)
          \<longrightarrow> rl_applied (r_raft_log r') \<le> rl_committed (r_raft_log r'))"

text \<open>The granted votes among messages.\<close>

definition is_grant :: "message \<Rightarrow> bool" where
  "is_grant m \<longleftrightarrow> m_type m = MsgRequestVoteResponse \<and> \<not> m_reject m"

definition grants :: "message list \<Rightarrow> message set" where
  "grants ms = {m \<in> set ms. is_grant m}"

text \<open>\<open>quiet\<close> holds for the operations that have no part in elections.\<close>

definition quiet :: "'s raft \<Rightarrow> 's raft \<Rightarrow> bool" where
  "quiet r r' \<longleftrightarrow> steady r r' \<and> r_term r' = r_term r \<and> r_vote r' = r_vote r
     \<and> r_state r' = r_state r
     \<and> r_randomized_election_timeout r' = r_randomized_election_timeout r
     \<and> pt_votes (r_prs r') = pt_votes (r_prs r) \<and> pt_conf (r_prs r') = pt_conf (r_prs r)
     \<and> grants (r_msgs r') \<subseteq> grants (r_msgs r)"

lemma steady_refl [simp]: "steady r r"
  by (simp add: steady_def)

lemma steady_trans [trans]: "steady r s \<Longrightarrow> steady s t \<Longrightarrow> steady r t"
  by (simp add: steady_def)

lemma quiet_refl [simp]: "quiet r r"
  by (simp add: quiet_def)

lemma quiet_trans [trans]: "quiet r s \<Longrightarrow> quiet s t \<Longrightarrow> quiet r t"
  by (auto simp: quiet_def intro: steady_trans)

lemma grants_simps [simp]:
  "grants [] = {}"
  "grants (m # ms) = (if is_grant m then insert m (grants ms) else grants ms)"
  "grants (ms @ [m]) = (if is_grant m then insert m (grants ms) else grants ms)"
  by (auto simp: grants_def)

lemma not_grant [simp]:
  "m_type m \<noteq> MsgRequestVoteResponse \<Longrightarrow> \<not> is_grant m"
  "m_reject m \<Longrightarrow> \<not> is_grant m"
  by (simp_all add: is_grant_def)

lemma core_send_grants:
  "\<not> is_grant m \<Longrightarrow> outcome (\<lambda>ms'. grants ms' = grants ms) (core_send r m ms)"
  unfolding core_send_def by (intro vcg) (auto simp: is_grant_def)

lemma core_send_frame [frames]:
  "\<not> is_grant m \<Longrightarrow> (\<And>ms'. grants ms' = grants ms \<Longrightarrow> Q ms') \<Longrightarrow> outcome Q (core_send r m ms)"
  by (rule outcome_conseq[OF core_send_grants])

lemma quiet_set_log:
  "rl_applied lg = rl_applied (r_raft_log r) \<Longrightarrow> rl_committed (r_raft_log r) \<le> rl_committed lg
     \<Longrightarrow> quiet r (set_log lg r)"
  by (simp add: quiet_def steady_def)

lemma tracker_put_frame [simp]:
  "pt_votes (tracker_put i p t) = pt_votes t" "pt_conf (tracker_put i p t) = pt_conf t"
  by (simp_all add: tracker_put_def)

lemma quiet_put_pr [simp]: "quiet r (put_pr i p s) \<longleftrightarrow> quiet r s"
  by (simp add: quiet_def steady_def)

lemma quiet_set_msgs [simp]:
  "grants ms = grants (r_msgs s) \<Longrightarrow> quiet r (s\<lparr>r_msgs := ms\<rparr>) \<longleftrightarrow> quiet r s"
  by (simp add: quiet_def steady_def)

lemma raft_send_quiet: "\<not> is_grant m \<Longrightarrow> outcome (quiet r) (raft_send m r)"
  unfolding raft_send_def by (intro vcg frames) auto

lemma raft_send_frame [frames]:
  "\<not> is_grant m \<Longrightarrow> (\<And>r'. quiet r r' \<Longrightarrow> Q r') \<Longrightarrow> outcome Q (raft_send m r)"
  by (rule outcome_conseq[OF raft_send_quiet])

section \<open>Reading the log\<close>

text \<open>
  Reading may change the storage (a storage may keep a cache): \<open>store_reads\<close> relates the states of a
  storage before and after any number of reads.
\<close>

inductive store_reads :: "'s env \<Rightarrow> 's \<Rightarrow> 's \<Rightarrow> bool" for E :: "'s env" where
  none: "store_reads E s s"
| entries: "store_reads E s s' \<Longrightarrow> st_entries E s' lo hi mx ctx = Some (res, s'') \<Longrightarrow> store_reads E s s''"
| snap: "store_reads E s s' \<Longrightarrow> st_snapshot E s' i to = Some (res, s'') \<Longrightarrow> store_reads E s s''"

lemma store_reads_trans:
  assumes "store_reads E a b" "store_reads E b c"
  shows "store_reads E a c"
  using assms(2,1) by induction (auto intro: store_reads.intros)

definition log_read :: "'s env \<Rightarrow> 's raft_log \<Rightarrow> 's raft_log \<Rightarrow> bool" where
  "log_read E lg lg' \<longleftrightarrow> store_reads E (rl_store lg) (rl_store lg') \<and> rl_unstable lg' = rl_unstable lg
     \<and> rl_committed lg' = rl_committed lg \<and> rl_persisted lg' = rl_persisted lg
     \<and> rl_applied lg' = rl_applied lg"

lemma log_read_refl [simp]: "log_read E lg lg"
  by (simp add: log_read_def store_reads.none)

lemma log_read_trans [trans]: "log_read E a b \<Longrightarrow> log_read E b c \<Longrightarrow> log_read E a c"
  by (auto simp: log_read_def intro: store_reads_trans)

lemma log_read_entries:
  "st_entries E (rl_store lg) lo hi mx ctx = Some (res, s) \<Longrightarrow> log_read E lg (lg\<lparr>rl_store := s\<rparr>)"
  by (auto simp: log_read_def intro: store_reads.intros)

lemma log_read_snapshot:
  "st_snapshot E (rl_store lg) i to = Some (res, s) \<Longrightarrow> log_read E lg (lg\<lparr>rl_store := s\<rparr>)"
  by (auto simp: log_read_def intro: store_reads.intros)

lemma rl_slice_read: "outcome (\<lambda>(_, lg'). log_read E lg lg') (rl_slice E lo hi mx ctx lg)"
  unfolding rl_slice_def
  by (intro vcg outcome_any)
    (auto split: error.splits storage_error.splits dest: log_read_entries)

lemma rl_slice_frame [frames]:
  "(\<And>res lg'. log_read E lg lg' \<Longrightarrow> Q (res, lg')) \<Longrightarrow> outcome Q (rl_slice E lo hi mx ctx lg)"
  by (rule outcome_conseq[OF rl_slice_read]) auto

lemma rl_entries_frame [frames]:
  assumes "\<And>res lg'. log_read E lg lg' \<Longrightarrow> Q (res, lg')"
  shows "outcome Q (rl_entries E i mx ctx lg)"
  unfolding rl_entries_def by (intro vcg frames outcome_any) (auto intro: assms)

lemma rl_snapshot_frame [frames]:
  assumes "\<And>res lg'. log_read E lg lg' \<Longrightarrow> Q (res, lg')"
  shows "outcome Q (rl_snapshot E i to lg)"
  unfolding rl_snapshot_def Let_def
  by (intro vcg outcome_any) (auto intro: assms dest: log_read_snapshot)

section \<open>Sending entries\<close>

text \<open>\<open>reads\<close>: a node that has at most read its log.\<close>

definition reads :: "'s env \<Rightarrow> 's raft \<Rightarrow> 's raft \<Rightarrow> bool" where
  "reads E r r' \<longleftrightarrow> log_read E (r_raft_log r) (r_raft_log r') \<and> r' = set_log (r_raft_log r') r"

lemma reads_refl [simp]: "reads E r r"
  by (simp add: reads_def)

lemma reads_set_log [simp]: "reads E r (set_log lg r) \<longleftrightarrow> log_read E (r_raft_log r) lg"
  by (simp add: reads_def)

lemma readsE:
  assumes "reads E r r'"
  obtains lg where "log_read E (r_raft_log r) lg" "r' = set_log lg r"
  using assms unfolding reads_def by blast

lemma reads_trans [trans]: "reads E r s \<Longrightarrow> reads E s t \<Longrightarrow> reads E r t"
  by (auto elim!: readsE intro: log_read_trans)

lemma reads_quiet:
  "reads E r r' \<Longrightarrow> grants ms' = grants (r_msgs r) \<Longrightarrow> quiet r (r'\<lparr>r_msgs := ms'\<rparr>)"
  by (auto elim!: readsE simp: quiet_def steady_def log_read_def)

lemma prepare_send_snapshot_frame [frames]:
  assumes "\<And>b m' pr' r'. reads E r r' \<Longrightarrow> (b \<longrightarrow> m_type m' = MsgSnapshot) \<Longrightarrow> Q (b, m', pr', r')"
  shows "outcome Q (prepare_send_snapshot E m pr to r)"
  unfolding prepare_send_snapshot_def
  by (intro vcg frames) (auto intro!: assms)

lemma prepare_send_entries_frame [frames]:
  assumes "\<And>m' pr'. m_type m' = MsgAppend \<Longrightarrow> Q (m', pr')"
  shows "outcome Q (prepare_send_entries r m pr t ents)"
  unfolding prepare_send_entries_def
  by (intro vcg frames outcome_any) (auto intro!: assms)

lemma try_batching_grants:
  "outcome (\<lambda>(_, ms', _). grants ms' = grants ms) (try_batching c to pr ents ms)"
proof (induction ms)
  case (Cons m ms)
  then show ?case
    by (auto intro!: vcg intro: outcome_any elim!: outcome_conseq split: prod.splits)
qed simp

lemma try_batching_frame [frames]:
  assumes "\<And>b ms' pr' es'. grants ms' = grants ms \<Longrightarrow> Q (b, ms', pr', es')"
  shows "outcome Q (try_batching c to pr ents ms)"
  by (rule outcome_conseq[OF try_batching_grants]) (auto intro: assms)

lemma maybe_send_append_frame [frames]:
  assumes Q: "\<And>b pr' ms' r'. reads E r r' \<Longrightarrow> grants ms' = grants ms \<Longrightarrow> Q (b, pr', ms', r')"
  shows "outcome Q (maybe_send_append E to allow_empty pr ms r)"
proof -
  have snap: "outcome Q (prepare_send_snapshot E m pr to r1 \<bind> (\<lambda>(b, m1, pr1, r2).
      if \<not> b then Some (False, pr1, ms, r2)
      else core_send r2 m1 ms \<bind> (\<lambda>msgs1. Some (True, pr1, msgs1, r2))))"
    if "reads E r r1" for m r1
    by (intro vcg frames) (auto intro!: Q intro: reads_trans[OF that])
  show ?thesis
    unfolding maybe_send_append_def Let_def
    by (intro snap vcg frames outcome_any Q) simp_all
qed

lemma core_send_append_aggressively_frame [frames]:
  assumes "\<And>pr' ms' r'. reads E r r' \<Longrightarrow> grants ms' = grants ms \<Longrightarrow> Q (pr', ms', r')"
  shows "outcome Q (core_send_append_aggressively E to pr ms r)"
proof -
  let ?P = "\<lambda>E to pr ms r y. case y of (_, ms', r') \<Rightarrow> reads E r r' \<and> grants ms' = grants ms"
  have "?P E to pr ms r y" if "core_send_append_aggressively E to pr ms r = Some y" for y
  proof (rule core_send_append_aggressively.raw_induct[where P = ?P, OF _ that])
    fix f :: "'s env \<Rightarrow> nat \<Rightarrow> progress \<Rightarrow> message list \<Rightarrow> 's raft \<Rightarrow> (progress \<times> message list \<times> 's raft) option"
      and E to pr ms r y
    assume IH: "\<And>E to pr ms r y. f E to pr ms r = Some y \<Longrightarrow> ?P E to pr ms r y"
      and f: "maybe_send_append E to False pr ms r \<bind> (\<lambda>(b, pr1, msgs1, r1).
          if b then f E to pr1 msgs1 r1 else Some (pr1, msgs1, r1)) = Some y"
    have "outcome (?P E to pr ms r)
       (maybe_send_append E to False pr ms r \<bind> (\<lambda>(b, pr1, msgs1, r1).
          if b then f E to pr1 msgs1 r1 else Some (pr1, msgs1, r1)))"
      by (intro vcg frames outcome_any) (auto dest!: IH intro: reads_trans)
    then show "?P E to pr ms r y" using f by (rule outcomeD)
  qed
  then show ?thesis using assms by (auto intro!: outcome_any)
qed

lemma raft_send_append_frame [frames]:
  assumes "\<And>r'. quiet r r' \<Longrightarrow> Q r'"
  shows "outcome Q (raft_send_append E to r)"
  unfolding raft_send_append_def
  by (intro vcg frames outcome_any assms) (auto elim!: readsE simp: quiet_def steady_def log_read_def)

lemma raft_send_append_aggressively_frame [frames]:
  assumes "\<And>r'. quiet r r' \<Longrightarrow> Q r'"
  shows "outcome Q (raft_send_append_aggressively E to r)"
  unfolding raft_send_append_aggressively_def
  by (intro vcg frames outcome_any assms) (auto elim!: readsE simp: quiet_def steady_def log_read_def)

lemma bcast_loop_frame [frames]:
  assumes "\<And>prs' ms' r'. reads E r r' \<Longrightarrow> grants ms' = grants ms \<Longrightarrow> Q (prs', ms', r')"
  shows "outcome Q (bcast_loop E ae self prs ms r)"
  using assms
proof (induction prs arbitrary: ms r Q)
  case (Cons x prs)
  obtain i pr where x: "x = (i, pr)" by (cases x)
  show ?case
    unfolding x bcast_loop.simps
    by (intro vcg frames Cons.IH Cons.prems) (auto intro: reads_trans)
qed simp

lemma quiet_set_prs [simp]:
  "pt_votes t = pt_votes (r_prs s) \<Longrightarrow> pt_conf t = pt_conf (r_prs s)
     \<Longrightarrow> quiet r (s\<lparr>r_prs := t\<rparr>) \<longleftrightarrow> quiet r s"
  by (simp add: quiet_def steady_def)

lemma bcast_with_frame [frames]:
  assumes "\<And>r'. quiet r r' \<Longrightarrow> Q r'"
  shows "outcome Q (bcast_with E ae r)"
  unfolding bcast_with_def
  by (intro vcg frames assms) (auto elim!: readsE simp: quiet_def steady_def log_read_def)

lemma bcast_append_frame [frames]:
  assumes "\<And>r'. quiet r r' \<Longrightarrow> Q r'"
  shows "outcome Q (bcast_append E r)"
  unfolding bcast_append_def by (intro frames assms)

lemma heartbeat_loop_frame [frames]:
  assumes "\<And>ms'. grants ms' = grants ms \<Longrightarrow> Q ms'"
  shows "outcome Q (heartbeat_loop self ctx prs ms r)"
  using assms
proof (induction prs arbitrary: ms)
  case (Cons x prs)
  obtain i pr where x: "x = (i, pr)" by (cases x)
  show ?case
    unfolding x heartbeat_loop.simps core_send_heartbeat_def
    by (intro vcg frames Cons.IH Cons.prems) (auto split: option.splits)
qed simp

lemma bcast_heartbeat_with_ctx_frame [frames]:
  assumes "\<And>r'. quiet r r' \<Longrightarrow> Q r'"
  shows "outcome Q (bcast_heartbeat_with_ctx ctx r)"
  unfolding bcast_heartbeat_with_ctx_def by (intro vcg frames assms) simp

lemma bcast_heartbeat_frame [frames]:
  assumes "\<And>r'. quiet r r' \<Longrightarrow> Q r'"
  shows "outcome Q (bcast_heartbeat r)"
  unfolding bcast_heartbeat_def by (intro frames assms)

lemma send_timeout_now_frame [frames]:
  assumes "\<And>r'. quiet r r' \<Longrightarrow> Q r'"
  shows "outcome Q (send_timeout_now to r)"
  unfolding send_timeout_now_def by (intro frames assms) (auto simp: new_message_def)

lemma send_request_snapshot_frame [frames]:
  assumes "\<And>r'. quiet r r' \<Longrightarrow> Q r'"
  shows "outcome Q (send_request_snapshot E r)"
  unfolding send_request_snapshot_def by (intro vcg frames outcome_any assms) auto

lemma abort_leader_transfer_quiet [simp]: "quiet r (abort_leader_transfer s) \<longleftrightarrow> quiet r s"
  by (simp add: abort_leader_transfer_def quiet_def steady_def)

lemma quiet_other_fields [simp]:
  "quiet r (s\<lparr>r_read_states := rs\<rparr>) \<longleftrightarrow> quiet r s"
  "quiet r (s\<lparr>r_pending_request_snapshot := i\<rparr>) \<longleftrightarrow> quiet r s"
  "quiet r (s\<lparr>r_promotable := b\<rparr>) \<longleftrightarrow> quiet r s"
  "quiet r (s\<lparr>r_leader_id := i\<rparr>) \<longleftrightarrow> quiet r s"
  "quiet r (s\<lparr>r_lead_transferee := lt\<rparr>) \<longleftrightarrow> quiet r s"
  "quiet r (s\<lparr>r_pending_conf_index := i\<rparr>) \<longleftrightarrow> quiet r s"
  "quiet r (s\<lparr>r_read_only := ro\<rparr>) \<longleftrightarrow> quiet r s"
  "quiet r (s\<lparr>r_election_elapsed := i\<rparr>) \<longleftrightarrow> quiet r s"
  "quiet r (s\<lparr>r_heartbeat_elapsed := i\<rparr>) \<longleftrightarrow> quiet r s"
  "quiet r (s\<lparr>r_uncommitted_state := u\<rparr>) \<longleftrightarrow> quiet r s"
  by (simp_all add: quiet_def steady_def)

lemma quiet_other_fields_left [simp]:
  "quiet (s\<lparr>r_read_states := rs\<rparr>) r \<longleftrightarrow> quiet s r"
  "quiet (s\<lparr>r_pending_request_snapshot := i\<rparr>) r \<longleftrightarrow> quiet s r"
  "quiet (s\<lparr>r_promotable := b\<rparr>) r \<longleftrightarrow> quiet s r"
  "quiet (s\<lparr>r_leader_id := i\<rparr>) r \<longleftrightarrow> quiet s r"
  "quiet (s\<lparr>r_lead_transferee := lt\<rparr>) r \<longleftrightarrow> quiet s r"
  "quiet (s\<lparr>r_pending_conf_index := i\<rparr>) r \<longleftrightarrow> quiet s r"
  "quiet (s\<lparr>r_read_only := ro\<rparr>) r \<longleftrightarrow> quiet s r"
  "quiet (s\<lparr>r_election_elapsed := i\<rparr>) r \<longleftrightarrow> quiet s r"
  "quiet (s\<lparr>r_heartbeat_elapsed := i\<rparr>) r \<longleftrightarrow> quiet s r"
  "quiet (s\<lparr>r_uncommitted_state := u\<rparr>) r \<longleftrightarrow> quiet s r"
  "quiet (abort_leader_transfer s) r \<longleftrightarrow> quiet s r"
  "quiet (put_pr i p s) r \<longleftrightarrow> quiet s r"
  by (simp_all add: quiet_def steady_def abort_leader_transfer_def)

lemma quiet_set_prs_left [simp]:
  "pt_votes t = pt_votes (r_prs s) \<Longrightarrow> pt_conf t = pt_conf (r_prs s)
     \<Longrightarrow> quiet (s\<lparr>r_prs := t\<rparr>) r \<longleftrightarrow> quiet s r"
  by (simp add: quiet_def steady_def)

section \<open>The log\<close>

text \<open>\<open>advances\<close>: the applied mark stays and the committed mark does not go back.\<close>

definition advances :: "'s raft_log \<Rightarrow> 's raft_log \<Rightarrow> bool" where
  "advances lg lg' \<longleftrightarrow> rl_applied lg' = rl_applied lg \<and> rl_committed lg \<le> rl_committed lg'"

lemma advances_refl [simp]: "advances lg lg" by (simp add: advances_def)

lemma advances_trans [trans]: "advances a b \<Longrightarrow> advances b c \<Longrightarrow> advances a c"
  by (simp add: advances_def)

lemma log_read_advances: "log_read E lg lg' \<Longrightarrow> advances lg lg'"
  by (simp add: log_read_def advances_def)

lemma quiet_advances [simp]: "advances (r_raft_log r) lg \<Longrightarrow> quiet r (set_log lg r)"
  by (simp add: quiet_def steady_def advances_def)

lemma quiet_after_log: "quiet (set_log lg r) r' \<Longrightarrow> advances (r_raft_log r) lg \<Longrightarrow> quiet r r'"
  by (rule quiet_trans[OF quiet_advances])

lemma rl_maybe_persist_frame [frames]:
  assumes "\<And>b lg'. advances lg lg' \<Longrightarrow> Q (b, lg')"
  shows "outcome Q (rl_maybe_persist E i t lg)"
  unfolding rl_maybe_persist_def by (intro vcg outcome_any assms) (auto simp: advances_def)

lemma rl_maybe_persist_snap_frame [frames]:
  assumes "\<And>b lg'. advances lg lg' \<Longrightarrow> Q (b, lg')"
  shows "outcome Q (rl_maybe_persist_snap i lg)"
  unfolding rl_maybe_persist_snap_def by (intro vcg outcome_any assms) (auto simp: advances_def)

lemma rl_commit_to_frame [frames]:
  assumes "\<And>lg'. advances lg lg' \<Longrightarrow> Q lg'"
  shows "outcome Q (rl_commit_to E i lg)"
  unfolding rl_commit_to_def by (intro vcg outcome_any assms) (auto simp: advances_def)

lemma rl_append_frame [frames]:
  assumes "\<And>i lg'. advances lg lg' \<Longrightarrow> rl_committed lg' = rl_committed lg \<Longrightarrow> Q (i, lg')"
  shows "outcome Q (rl_append E es lg)"
  unfolding rl_append_def
  by (cases es; simp only: list.case; intro vcg outcome_any assms) (auto simp: advances_def)

lemma rl_maybe_commit_frame [frames]:
  assumes "\<And>b lg'. advances lg lg' \<Longrightarrow> Q (b, lg')"
  shows "outcome Q (rl_maybe_commit E i t lg)"
  unfolding rl_maybe_commit_def by (intro vcg frames outcome_any assms) auto

lemma rl_maybe_append_frame [frames]:
  assumes "\<And>x lg'. advances lg lg' \<Longrightarrow> Q (x, lg')"
  shows "outcome Q (rl_maybe_append E idx t c es lg)"
  unfolding rl_maybe_append_def
  by (intro vcg frames outcome_any assms) (simp_all add: advances_def split: if_splits)

lemma rl_restore_frame [frames]:
  assumes "\<And>lg'. advances lg lg' \<Longrightarrow> Q lg'"
  shows "outcome Q (rl_restore snap lg)"
  unfolding rl_restore_def by (intro vcg assms) (auto simp: advances_def)

lemma raft_maybe_commit_frame [frames]:
  assumes "\<And>b r'. quiet r r' \<Longrightarrow> Q (b, r')"
  shows "outcome Q (raft_maybe_commit E r)"
  unfolding raft_maybe_commit_def
  by (intro vcg frames outcome_any assms) simp_all

lemma append_entry_frame [frames]:
  assumes "\<And>b r'. quiet r r' \<Longrightarrow> rl_committed (r_raft_log r') = rl_committed (r_raft_log r) \<Longrightarrow> Q (b, r')"
  shows "outcome Q (append_entry E es r)"
  unfolding append_entry_def raft_maybe_increase_uncommitted_size_def Let_def
  by (cases "us_maybe_increase es (r_uncommitted_state r)"; simp only: prod.case;
      intro vcg frames outcome_any assms) (auto simp: quiet_def steady_def advances_def)

section \<open>Changes of role\<close>

text \<open>
  \<open>renews t\<close>: the node was reset for term \<open>t\<close>. Its vote survives only within a term, the ballot box is
  empty, and a new election timeout has been drawn.
\<close>

definition renews :: "'s env \<Rightarrow> nat \<Rightarrow> 's raft \<Rightarrow> 's raft \<Rightarrow> bool" where
  "renews E t r r' \<longleftrightarrow> steady r r' \<and> r_term r' = t \<and> r_vote r' = (if r_term r = t then r_vote r else INVALID_ID)
     \<and> r_raft_log r' = r_raft_log r \<and> r_msgs r' = r_msgs r \<and> pt_conf (r_prs r') = pt_conf (r_prs r)
     \<and> pt_votes (r_prs r') = [] \<and> r_min_election_timeout r < r_max_election_timeout r
     \<and> r_randomized_election_timeout r' =
         env_gen_range E (r_draws r) (r_min_election_timeout r) (r_max_election_timeout r)"

lemma raft_reset_frame [frames]:
  assumes "\<And>r'. renews E t r r' \<Longrightarrow> r_state r' = r_state r \<Longrightarrow> Q r'"
  shows "outcome Q (raft_reset E t r)"
  unfolding raft_reset_def reset_randomized_election_timeout_def Let_def abort_leader_transfer_def
  by (intro vcg outcome_any assms) (auto simp: renews_def steady_def reset_votes_def)

lemma become_follower_frame [frames]:
  assumes "\<And>r'. renews E t r r' \<Longrightarrow> r_state r' = Follower \<Longrightarrow> r_leader_id r' = l \<Longrightarrow> Q r'"
  shows "outcome Q (become_follower E t l r)"
  unfolding become_follower_def Let_def
  by (intro vcg frames assms) (auto simp: renews_def steady_def)

lemma become_candidate_frame [frames]:
  assumes "\<And>r' s. renews E (r_term r + 1) r s \<Longrightarrow> r' = s\<lparr>r_vote := r_id s, r_state := Candidate\<rparr>
     \<Longrightarrow> r_state r \<noteq> Leader \<Longrightarrow> Q r'"
  shows "outcome Q (become_candidate E r)"
  unfolding become_candidate_def
  by (intro vcg frames assms) auto

lemma become_leader_frame [frames]:
  assumes "\<And>r'. steady r r' \<Longrightarrow> r_term r' = r_term r \<Longrightarrow> r_vote r' = r_vote r \<Longrightarrow> r_state r' = Leader
     \<Longrightarrow> grants (r_msgs r') \<subseteq> grants (r_msgs r) \<Longrightarrow> pt_conf (r_prs r') = pt_conf (r_prs r)
     \<Longrightarrow> r_state r \<noteq> Follower
     \<Longrightarrow> r_min_election_timeout r < r_max_election_timeout r
     \<Longrightarrow> r_randomized_election_timeout r' =
           env_gen_range E (r_draws r) (r_min_election_timeout r) (r_max_election_timeout r) \<Longrightarrow> Q r'"
  shows "outcome Q (become_leader E r)"
  unfolding become_leader_def Let_def
  by (intro vcg frames outcome_any assms) (auto simp: renews_def quiet_def steady_def)

section \<open>Handlers that leave term, vote and role alone\<close>

lemma handle_ready_read_index_frame [frames]:
  assumes "\<And>mo r'. quiet r r' \<Longrightarrow> (\<And>m. mo = Some m \<Longrightarrow> \<not> is_grant m) \<Longrightarrow> Q (mo, r')"
  shows "outcome Q (handle_ready_read_index req i r)"
  unfolding handle_ready_read_index_def by (intro vcg outcome_any assms) auto

lemma respond_read_frame [frames]:
  assumes "\<And>r'. quiet r r' \<Longrightarrow> Q r'"
  shows "outcome Q (respond_read req i r)"
  unfolding respond_read_def by (intro vcg frames assms) (auto intro: quiet_trans)

lemma respond_reads_frame [frames]:
  assumes "\<And>r'. quiet r r' \<Longrightarrow> Q r'"
  shows "outcome Q (respond_reads rss r)"
  using assms
proof (induction rss arbitrary: r)
  case (Cons rs rss)
  show ?case
    unfolding respond_reads.simps by (intro vcg frames Cons.IH Cons.prems) (auto intro: quiet_trans)
qed simp

lemma handle_append_response_frame [frames]:
  assumes "\<And>r'. quiet r r' \<Longrightarrow> Q r'"
  shows "outcome Q (handle_append_response E m r)"
  unfolding handle_append_response_def
  by (intro vcg frames outcome_any assms) (auto intro: quiet_trans split: if_splits)

lemma handle_heartbeat_response_frame [frames]:
  assumes "\<And>r'. quiet r r' \<Longrightarrow> Q r'"
  shows "outcome Q (handle_heartbeat_response E m r)"
  unfolding handle_heartbeat_response_def
  by (intro vcg frames outcome_any assms) (auto intro: quiet_trans split: if_splits)

lemma handle_transfer_leader_frame [frames]:
  assumes "\<And>r'. quiet r r' \<Longrightarrow> Q r'"
  shows "outcome Q (handle_transfer_leader E m r)"
  unfolding handle_transfer_leader_def
  by (intro vcg frames outcome_any assms) (auto intro: quiet_trans split: if_splits)

lemma handle_snapshot_status_quiet: "quiet r (handle_snapshot_status m r)"
  by (auto simp: handle_snapshot_status_def Let_def split: option.splits)

lemma handle_unreachable_quiet: "quiet r (handle_unreachable m r)"
  by (auto simp: handle_unreachable_def split: option.splits)

lemma propose_entries_frame [frames]:
  assumes "\<And>res r'. quiet r r' \<Longrightarrow> Q (res, r')"
  shows "outcome Q (propose_entries E i es r)"
  using assms
proof (induction es arbitrary: i r Q)
  case (Cons e es)
  show ?case
    unfolding propose_entries.simps
    by (intro vcg Cons.IH Cons.prems outcome_any) (auto intro: quiet_trans split: option.splits if_splits)
qed simp

lemma ok_step_frame [frames]:
  assumes "outcome (\<lambda>r. Q (Inr (), r)) x"
  shows "outcome Q (ok_step x)"
  unfolding ok_step_def by (intro vcg assms)

lemma step_propose_frame [frames]:
  assumes "\<And>res r'. quiet r r' \<Longrightarrow> Q (res, r')"
  shows "outcome Q (step_propose E m r)"
  unfolding step_propose_def
  by (intro vcg frames assms) (auto intro: quiet_trans)

lemma step_read_index_frame [frames]:
  assumes "\<And>r'. quiet r r' \<Longrightarrow> Q r'"
  shows "outcome Q (step_read_index E m r)"
  unfolding step_read_index_def
  by (cases "ro_option (r_read_only r)"; simp only: read_only_option.case;
      intro vcg frames outcome_any assms) (auto intro: quiet_trans)

lemma quorum_recently_active_frame:
  "quorum_recently_active i t = (b, t') \<Longrightarrow> pt_votes t' = pt_votes t \<and> pt_conf t' = pt_conf t"
  by (auto simp: quorum_recently_active_def Let_def split: prod.splits)

lemma check_quorum_active_quiet: "check_quorum_active r = (b, r') \<Longrightarrow> quiet r r'"
  by (auto simp: check_quorum_active_def dest: quorum_recently_active_frame split: prod.splits)

lemma handle_append_entries_frame [frames]:
  assumes "\<And>r'. quiet r r' \<Longrightarrow> Q r'"
  shows "outcome Q (handle_append_entries E m r)"
  unfolding handle_append_entries_def
  by (intro vcg frames outcome_any assms) (auto intro: quiet_trans quiet_after_log)

lemma handle_heartbeat_frame [frames]:
  assumes "\<And>r'. quiet r r' \<Longrightarrow> Q r'"
  shows "outcome Q (handle_heartbeat E m r)"
  unfolding handle_heartbeat_def
  by (intro vcg frames outcome_any assms) (auto intro: quiet_trans quiet_after_log)

lemma post_conf_change_frame [frames]:
  assumes "\<And>cs r'. quiet r r' \<Longrightarrow> Q (cs, r')"
  shows "outcome Q (post_conf_change E r)"
  unfolding post_conf_change_def
  by (intro vcg frames outcome_any assms)
    (auto intro: quiet_trans quiet_after_log split: if_splits option.splits)

lemma on_persist_entries_frame [frames]:
  assumes "\<And>r'. quiet r r' \<Longrightarrow> Q r'"
  shows "outcome Q (on_persist_entries E i t r)"
  unfolding on_persist_entries_def
  by (intro vcg frames outcome_any assms)
    (auto intro: quiet_trans quiet_after_log split: if_splits option.splits)

lemma on_persist_snap_frame [frames]:
  assumes "\<And>r'. quiet r r' \<Longrightarrow> Q r'"
  shows "outcome Q (on_persist_snap i r)"
  unfolding on_persist_snap_def by (intro vcg frames assms) simp

lemma send_vote_requests_frame [frames]:
  assumes "vote_msg \<noteq> MsgRequestVoteResponse" "\<And>r'. quiet r r' \<Longrightarrow> Q r'"
  shows "outcome Q (send_vote_requests E ct vote_msg t c cterm ids r)"
  using assms(2)
proof (induction ids arbitrary: r)
  case (Cons i ids)
  show ?case
    unfolding send_vote_requests.simps
    by (intro vcg frames outcome_any Cons.IH Cons.prems)
      (use assms(1) in \<open>auto simp: new_message_def intro: quiet_trans\<close>)
qed simp

end
