(* ===== verification/Raft_Law.thy ===== *)
theory Raft_Law
  imports Raft_Frames
begin

text \<open>
  The law that every step of a node obeys, whatever the message, the tick or the notification: terms
  only grow, one vote per term, granted votes are sent to the candidate voted for, a leader has a
  quorum behind it, and the randomized timeout is drawn from the configured range. The law is proved
  for \<open>campaign\<close> and \<open>poll\<close>, for the vote requests, for the three \<open>step_*\<close> functions of the roles and
  for \<open>step\<close> with its term check, and then for everything the application does to a node
  (\<open>node_handle\<close>).
\<close>

section \<open>The law of a step\<close>

text \<open>
  The nodes that stand behind a candidate after a step: the node itself if it votes for itself, and,
  if it already was a candidate of this term, the granted votes in its ballot box together with the
  votes \<open>X\<close> that the step brings.
\<close>

definition backers :: "nat set \<Rightarrow> 's raft \<Rightarrow> 's raft \<Rightarrow> nat set" where
  "backers X r r' = (if r_vote r' = r_id r' then {r_id r'} else {})
     \<union> (if r_state r = Candidate \<and> r_term r' = r_term r
        then {j. map_of (pt_votes (r_prs r)) j = Some True} \<union> X else {})"

definition conf_good :: "joint_config \<Rightarrow> bool" where
  "conf_good c \<longleftrightarrow> finite (incoming c) \<and> finite (outgoing c) \<and> incoming c \<noteq> {}"

text \<open>\<open>ballot\<close>: the term never decreases, and within a term a vote that has been cast is never changed.\<close>

definition ballot :: "'s raft \<Rightarrow> 's raft \<Rightarrow> bool" where
  "ballot r r' \<longleftrightarrow> r_term r \<le> r_term r'
     \<and> (r_term r' = r_term r \<and> r_vote r \<noteq> INVALID_ID \<longrightarrow> r_vote r' = r_vote r)"

text \<open>\<open>fair_grants\<close>: a new granted vote in the mailbox is for the node voted for, in the current term.\<close>

definition fair_grants :: "'s raft \<Rightarrow> 's raft \<Rightarrow> bool" where
  "fair_grants r r' \<longleftrightarrow> (\<forall>g \<in> grants (r_msgs r'). g \<in> grants (r_msgs r)
     \<or> m_term g = r_term r' \<and> m_term g \<noteq> 0 \<and> m_to g = r_vote r' \<and> m_from g = r_id r')"

text \<open>
  \<open>elected\<close>: the ballot box of a candidate holds no more than its backers, and a node that becomes
  leader (of a well-formed configuration) has a quorum of backers.
\<close>

definition elected :: "nat set \<Rightarrow> 's raft \<Rightarrow> 's raft \<Rightarrow> bool" where
  "elected X r r' \<longleftrightarrow>
     (r_state r' = Candidate \<longrightarrow> {j. map_of (pt_votes (r_prs r')) j = Some True} \<subseteq> backers X r r')
     \<and> (r_state r' = Leader \<longrightarrow> r_state r = Leader \<and> r_term r' = r_term r
          \<or> (conf_good (conf_voters (pt_conf (r_prs r'))) \<longrightarrow>
             joint_quorum (conf_voters (pt_conf (r_prs r'))) (backers X r r')))"

text \<open>\<open>drawn\<close>: the randomized election timeout is the old one or one drawn from the configured range.\<close>

definition drawn :: "'s env \<Rightarrow> 's raft \<Rightarrow> 's raft \<Rightarrow> bool" where
  "drawn E r r' \<longleftrightarrow> r_randomized_election_timeout r' = r_randomized_election_timeout r
     \<or> r_min_election_timeout r' < r_max_election_timeout r'
       \<and> (\<exists>d. r_randomized_election_timeout r' =
                env_gen_range E d (r_min_election_timeout r') (r_max_election_timeout r'))"

lemma drawn_trans: "drawn E r s \<Longrightarrow> drawn E s t \<Longrightarrow> steady s t \<Longrightarrow> drawn E r t"
  by (auto simp: drawn_def steady_def)

lemma drawn_renews: "renews E u r s \<Longrightarrow> drawn E r s"
  by (auto simp: drawn_def renews_def steady_def)

lemma drawn_quiet: "quiet r s \<Longrightarrow> drawn E r s"
  by (simp add: drawn_def quiet_def)

definition law :: "'s env \<Rightarrow> nat set \<Rightarrow> 's raft \<Rightarrow> 's raft \<Rightarrow> bool" where
  "law E X r r' \<longleftrightarrow> steady r r' \<and> ballot r r' \<and> fair_grants r r' \<and> elected X r r' \<and> drawn E r r'
     \<and> (r_state r' = Follower \<or> pt_conf (r_prs r') = pt_conf (r_prs r))"

lemmas law_parts = ballot_def fair_grants_def elected_def backers_def drawn_def

lemma law_quiet: "quiet r r' \<Longrightarrow> law E X r r'"
  by (auto simp: law_def law_parts quiet_def)

lemma law_mono: "law E X r r' \<Longrightarrow> X \<subseteq> Y \<Longrightarrow> law E Y r r'"
  by (auto simp: law_def elected_def backers_def elim!: jq.enlarge split: if_splits)

lemma law_then_quiet:
  assumes l: "law E X r s" and q: "quiet s t"
  shows "law E X r t"
proof -
  have b: "backers X r t = backers X r s" using q by (simp add: backers_def quiet_def steady_def)
  have "steady r t" using assms steady_trans[of r s t] by (simp add: law_def quiet_def)
  moreover have "ballot r t" using l q by (simp add: law_def quiet_def ballot_def)
  moreover have "fair_grants r t"
    using l q unfolding law_def fair_grants_def quiet_def steady_def by (metis subsetD)
  moreover have "elected X r t" using l q by (simp add: law_def elected_def b quiet_def)
  moreover have "drawn E r t"
    using l q drawn_quiet[OF q, of E] drawn_trans[of E r s t] by (simp add: law_def quiet_def renews_def)
  ultimately show ?thesis using l q by (simp add: law_def quiet_def)
qed

lemma quiet_then_law:
  assumes q: "quiet r s" and l: "law E X s t"
  shows "law E X r t"
proof -
  have b: "backers X s t = backers X r t" using q by (simp add: backers_def quiet_def)
  have "steady r t" using assms steady_trans[of r s t] by (simp add: law_def quiet_def)
  moreover have "ballot r t" using l q by (simp add: law_def quiet_def ballot_def)
  moreover have "fair_grants r t" using l q by (auto simp: law_def fair_grants_def quiet_def)
  moreover have "elected X r t" using l q by (simp add: law_def elected_def b quiet_def)
  moreover have "drawn E r t"
    using l drawn_quiet[OF q, of E] drawn_trans[of E r s t] by (simp add: law_def)
  ultimately show ?thesis using l q by (simp add: law_def quiet_def)
qed

lemma law_then_follower:
  assumes l: "law E X r s" and q: "renews E (r_term s) s t" "r_state t = Follower"
  shows "law E X r t"
proof -
  have "steady r t" using assms steady_trans[of r s t] by (simp add: law_def renews_def)
  moreover have "ballot r t" using l q by (simp add: law_def renews_def ballot_def)
  moreover have "fair_grants r t"
    using l q unfolding law_def fair_grants_def renews_def steady_def by metis
  moreover have "elected X r t" using q by (simp add: elected_def)
  moreover have "drawn E r t"
    using l q drawn_renews[OF q(1)] drawn_trans[of E r s t] by (simp add: law_def quiet_def renews_def)
  ultimately show ?thesis using q by (simp add: law_def)
qed

lemma follower_then_law:
  assumes q: "renews E u r s" "r_state s = Follower" "r_term r \<le> u" and l: "law E X s t"
  shows "law E {} r t"
proof -
  have b: "backers X s t \<subseteq> backers {} r t" using q by (auto simp: backers_def)
  have "steady r t" using q l steady_trans[of r s t] by (simp add: law_def renews_def)
  moreover have "ballot r t" using l q by (auto simp: law_def ballot_def renews_def)
  moreover have "fair_grants r t" using l q by (simp add: law_def fair_grants_def renews_def)
  moreover have "elected {} r t"
    using l q(2) jq.enlarge[OF _ b] b unfolding law_def elected_def by auto
  moreover have "drawn E r t"
    using l drawn_renews[OF q(1)] drawn_trans[of E r s t] by (simp add: law_def)
  ultimately show ?thesis using l q unfolding law_def renews_def by metis
qed

lemma follower_law: "renews E u r s \<Longrightarrow> r_state s = Follower \<Longrightarrow> r_term r \<le> u \<Longrightarrow> law E {} r s"
  by (rule follower_then_law[of E u r s X s for X]) (auto intro: law_quiet)

section \<open>Elections\<close>

lemma record_vote_frame [simp]:
  "pt_conf (record_vote i v t) = pt_conf t"
  by (simp add: record_vote_def split: option.split)

lemma record_vote_yes:
  "{j. map_of (pt_votes (record_vote i v t)) j = Some True}
     \<subseteq> {j. map_of (pt_votes t) j = Some True} \<union> (if v then {i} else {})"
  by (auto simp: record_vote_def split: option.splits if_splits)

lemma tally_won:
  assumes "tally_votes t = (g, rj, Won)" "conf_good (conf_voters (pt_conf t))"
  shows "joint_quorum (conf_voters (pt_conf t)) {j. map_of (pt_votes t) j = Some True}"
  using assms joint_won_iff_quorum
  by (auto simp: tally_votes_def tracker_vote_result_def conf_good_def split: prod.splits)

text \<open>The state in which \<open>poll\<close> counts the votes.\<close>

definition recorded :: "nat \<Rightarrow> bool \<Rightarrow> 's raft \<Rightarrow> 's raft" where
  "recorded from vote r = r\<lparr>r_prs := record_vote from vote (r_prs r)\<rparr>"

lemma recorded_law:
  "law E (if v then {i} else {}) r (recorded i v r)"
  using record_vote_yes[of i v "r_prs r"]
  by (auto simp: law_def law_parts steady_def recorded_def)

lemma become_leader_law:
  assumes "tally_votes (r_prs s) = (g, rj, Won)" "s = recorded i v r" "r_state r = Candidate"
    and "\<And>r'. law E (if v then {i} else {}) r r' \<Longrightarrow> Q r'"
  shows "outcome Q (become_leader E s)"
proof (intro frames assms(4))
  fix r'
  assume f: "steady s r'" "r_term r' = r_term s" "r_vote r' = r_vote s" "r_state r' = Leader"
     "grants (r_msgs r') \<subseteq> grants (r_msgs s)" "pt_conf (r_prs r') = pt_conf (r_prs s)"
     "r_min_election_timeout s < r_max_election_timeout s"
     "r_randomized_election_timeout r' =
        env_gen_range E (r_draws s) (r_min_election_timeout s) (r_max_election_timeout s)"
  have "{j. map_of (pt_votes (r_prs s)) j = Some True} \<subseteq> backers (if v then {i} else {}) r r'"
    using record_vote_yes[of i v "r_prs r"] f assms(2,3) by (auto simp: backers_def recorded_def)
  then have "elected (if v then {i} else {}) r r'"
    using tally_won[OF assms(1)] f jq.enlarge unfolding elected_def by auto
  then show "law E (if v then {i} else {}) r r'"
    using f assms(2) by (auto simp: law_def ballot_def fair_grants_def drawn_def steady_def recorded_def)
qed

text \<open>A real campaign: the node has moved to a new term and voted for itself.\<close>

lemma poll_candidate_frame:
  assumes "r_state r = Candidate" "\<And>res r'. law E (if v then {i} else {}) r r' \<Longrightarrow> Q (res, r')"
  shows "outcome Q (poll E i v r)"
proof -
  let ?s = "recorded i v r"
  obtain g rj res where t: "tally_votes (r_prs ?s) = (g, rj, res)" by (cases "tally_votes (r_prs ?s)")
  have st: "r_state ?s = Candidate" using assms(1) by (simp add: recorded_def)
  show ?thesis
  proof (cases res)
    case Won
    show ?thesis
      unfolding poll.simps Let_def recorded_def[symmetric] t Won using st
      by (simp, intro become_leader_law[OF t[unfolded Won] refl assms(1)] vcg frames assms(2))
        (erule (1) law_then_quiet)
  next
    case Lost
    show ?thesis
      unfolding poll.simps Let_def recorded_def[symmetric] t Lost
      by (simp, intro vcg frames assms(2)) (erule (1) law_then_follower[OF recorded_law])
  next
    case Pending
    show ?thesis
      unfolding poll.simps Let_def recorded_def[symmetric] t Pending
      using assms(2)[OF recorded_law] by simp
  qed
qed

lemma candidate_then_law:
  assumes q: "renews E (Suc (r_term r)) r s" "c = s\<lparr>r_vote := r_id s, r_state := Candidate\<rparr>"
    and l: "law E {r_id s} c t" and i: "r_id r \<noteq> INVALID_ID"
  shows "law E {} r t"
proof -
  have c: "steady r c" "r_term c = Suc (r_term r)" "r_vote c = r_id r" "r_id c = r_id r" "r_id s = r_id r"
      "pt_votes (r_prs c) = []" "pt_conf (r_prs c) = pt_conf (r_prs r)" "r_msgs c = r_msgs r" "drawn E r c"
    using q drawn_renews[OF q(1)] by (auto simp: renews_def steady_def drawn_def)
  have id: "r_id t = r_id r" using l c by (simp add: law_def steady_def)
  have bl: "ballot c t" using l by (simp add: law_def)
  have "r_vote t = r_id t" if "r_term t = r_term c" using bl that c i id by (simp add: ballot_def)
  then have b: "backers {r_id s} c t \<subseteq> backers {} r t"
    using c id by (auto simp: backers_def split: if_splits)
  have "steady r t" using c l steady_trans[of r c t] by (simp add: law_def)
  moreover have "ballot r t" using bl c by (simp add: ballot_def)
  moreover have "fair_grants r t" using l c by (simp add: law_def fair_grants_def)
  moreover have "elected {} r t"
    using l q(2) jq.enlarge[OF _ b] b unfolding law_def elected_def by auto
  moreover have "drawn E r t" using l c drawn_trans[of E r c t] by (simp add: law_def)
  ultimately show ?thesis using l c unfolding law_def by metis
qed

lemma begin_campaign_real:
  assumes "ct \<noteq> CAMPAIGN_PRE_ELECTION" "r_id r \<noteq> INVALID_ID" "begin_campaign E ct r = Some (vm, u, c)"
  shows "vm = MsgRequestVote \<and> r_state c = Candidate \<and> (\<forall>t. law E {r_id c} c t \<longrightarrow> law E {} r t)"
proof -
  have "outcome (\<lambda>(vm, t, c). vm = MsgRequestVote \<and> r_state c = Candidate \<and>
      (\<forall>t. law E {r_id c} c t \<longrightarrow> law E {} r t)) (begin_campaign E ct r)"
    unfolding begin_campaign_def using assms(1)
    by (simp, intro frames) (auto intro: candidate_then_law[OF _ refl _ assms(2)])
  from outcomeD[OF this assms(3)] show ?thesis by simp
qed

lemma campaign_election_frame:
  assumes "ct \<noteq> CAMPAIGN_PRE_ELECTION" "r_id r \<noteq> INVALID_ID" and Q: "\<And>r'. law E {} r r' \<Longrightarrow> Q r'"
  shows "outcome Q (campaign E ct r)"
proof (cases "begin_campaign E ct r")
  case (Some x)
  obtain vm u c where x: "x = (vm, u, c)" by (cases x)
  note c = begin_campaign_real[OF assms(1,2) Some[unfolded x]]
  have "outcome (\<lambda>(res, s). law E {} r s) (poll E (r_id c) True c)"
    using c by (intro poll_candidate_frame) auto
  then have p: "law E {} r s" if "poll E (r_id c) True c = Some (res, s)" for res s
    using that by (auto dest: outcomeD)
  show ?thesis
    unfolding campaign.simps Some x option.case prod.case
    by (intro vcg frames outcome_any Q) (use c in \<open>auto dest!: p intro: law_then_quiet\<close>)
qed (simp add: campaign.simps)

lemma precandidate_then_law:
  assumes "law E X p t" "r_state p = PreCandidate" "r_term p = r_term r" "r_vote p = r_vote r" "steady r p"
    "grants (r_msgs p) = grants (r_msgs r)" "pt_conf (r_prs p) = pt_conf (r_prs r)" "drawn E r p"
  shows "law E {} r t"
proof -
  have b: "backers X p t \<subseteq> backers {} r t" using assms(2) by (auto simp: backers_def)
  have "steady r t" using assms steady_trans[of r p t] by (simp add: law_def)
  moreover have "ballot r t" using assms by (simp add: law_def ballot_def)
  moreover have "fair_grants r t" using assms by (simp add: law_def fair_grants_def)
  moreover have "elected {} r t"
    using assms(1,2) jq.enlarge[OF _ b] b unfolding law_def elected_def by auto
  moreover have "drawn E r t" using assms drawn_trans[of E r p t] by (simp add: law_def)
  ultimately show ?thesis using assms unfolding law_def by metis
qed

lemma poll_precandidate_frame:
  assumes "r_state r = PreCandidate" "r_id r \<noteq> INVALID_ID" and Q: "\<And>res r'. law E {} r r' \<Longrightarrow> Q (res, r')"
  shows "outcome Q (poll E i v r)"
proof -
  let ?s = "recorded i v r"
  obtain g rj res where t: "tally_votes (r_prs ?s) = (g, rj, res)" by (cases "tally_votes (r_prs ?s)")
  have s: "r_state ?s = PreCandidate" "r_id ?s \<noteq> INVALID_ID" using assms by (simp_all add: recorded_def)
  have l: "law E {} r r'" if "law E X ?s r'" for X r'
    by (rule precandidate_then_law[OF that s(1)])
      (auto simp: recorded_def steady_def drawn_def)
  have "outcome (\<lambda>r'. law E {} r r') (campaign E CAMPAIGN_ELECTION ?s)"
    by (intro campaign_election_frame s(2) l) (auto simp: CAMPAIGN_ELECTION_def CAMPAIGN_PRE_ELECTION_def)
  then have c: "law E {} r r'" if "campaign E CAMPAIGN_ELECTION ?s = Some r'" for r'
    using that by (rule outcomeD)
  show ?thesis
    unfolding poll.simps Let_def recorded_def[symmetric] t
    using s by (cases res; simp; intro vcg frames outcome_any Q)
      (auto intro: l l[OF law_quiet[OF quiet_refl]] dest!: c follower_law)
qed

lemma poll_frame [frames]:
  assumes "r_id r \<noteq> INVALID_ID" "r_state r = Candidate \<or> r_state r = PreCandidate"
    and "\<And>res r'. law E (if v then {i} else {}) r r' \<Longrightarrow> Q (res, r')"
  shows "outcome Q (poll E i v r)"
  using assms(2)
proof
  assume "r_state r = Candidate"
  then show ?thesis by (rule poll_candidate_frame) (rule assms)
next
  assume "r_state r = PreCandidate"
  then show ?thesis
    by (rule poll_precandidate_frame) (auto intro!: assms elim: law_mono)
qed

lemma campaign_frame [frames]:
  assumes "r_id r \<noteq> INVALID_ID" and Q: "\<And>r'. law E {} r r' \<Longrightarrow> Q r'"
  shows "outcome Q (campaign E ct r)"
proof (cases "ct = CAMPAIGN_PRE_ELECTION")
  case True
  show ?thesis
  proof (cases "become_pre_candidate r")
    case (Some p)
    then have p: "p = r\<lparr>r_state := PreCandidate, r_prs := reset_votes (r_prs r), r_leader_id := INVALID_ID\<rparr>"
      by (auto simp: become_pre_candidate_def split: if_splits)
    have l: "law E {} r r'" if "law E {} p r'" for r'
      by (rule precandidate_then_law[OF that]) (auto simp: p steady_def drawn_def reset_votes_def)
    have "outcome (\<lambda>(res, s). law E {} r s) (poll E (r_id p) True p)"
      using assms(1) by (intro poll_precandidate_frame) (auto simp: p intro: l)
    then have pl: "law E {} r s" if "poll E (r_id p) True p = Some (res, s)" for res s
      using that by (auto dest: outcomeD)
    show ?thesis
      unfolding campaign.simps begin_campaign_def Some True
      by (simp, intro vcg frames outcome_any Q) (auto dest!: pl intro: law_then_quiet)
  qed (simp add: campaign.simps begin_campaign_def True)
qed (rule campaign_election_frame[OF _ assms])

lemma quiet_log_read [simp]: "log_read E (r_raft_log r) lg \<Longrightarrow> quiet r (set_log lg r)"
  by (simp add: log_read_advances)

lemma hup_frame [frames]:
  assumes "r_id r \<noteq> INVALID_ID" and Q: "\<And>r'. law E {} r r' \<Longrightarrow> Q r'"
  shows "outcome Q (hup E transfer r)"
  unfolding hup_def Let_def
  by (intro vcg frames outcome_any Q)
    (use assms(1) in \<open>auto intro: law_quiet quiet_then_law[OF quiet_log_read]\<close>)

text \<open>\<open>settles\<close>: nothing happened to the term and the vote, but the node may have stepped down.\<close>

definition settles :: "'s env \<Rightarrow> 's raft \<Rightarrow> 's raft \<Rightarrow> bool" where
  "settles E r r' \<longleftrightarrow> quiet r r' \<or> (\<exists>s. quiet r s \<and> renews E (r_term s) s r' \<and> r_state r' = Follower)"

lemma law_then_settles: "law E X r s \<Longrightarrow> settles E s t \<Longrightarrow> law E X r t"
  unfolding settles_def by (auto intro: law_then_quiet law_then_follower)

lemma maybe_commit_by_vote_frame [frames]:
  assumes Q: "\<And>r'. settles E r r' \<Longrightarrow> Q r'"
  shows "outcome Q (maybe_commit_by_vote E m r)"
proof -
  have q: "quiet r (set_log lg1 r)" if "advances (r_raft_log r) lg" "log_read E lg lg1" for lg lg1
    using that advances_trans log_read_advances quiet_advances by blast
  then have f: "settles E r r'" if "advances (r_raft_log r) lg" "log_read E lg lg1"
      "renews E (r_term r) (set_log lg1 r) r'" "r_state r' = Follower" for lg lg1 r'
    using that by (auto simp: settles_def intro!: exI[of _ "set_log lg1 r"])
  show ?thesis
    unfolding maybe_commit_by_vote_def Let_def
    by (intro vcg frames outcome_any Q) (auto intro: f q simp: settles_def)
qed

section \<open>Snapshots\<close>

lemma follower_conf_law:
  assumes "r_state r = Follower" "quiet (s\<lparr>r_prs := t\<rparr>) r'" "quiet r s"
  shows "law E X r r'"
proof -
  have "steady r r'" using assms(2,3) steady_trans[of r "s\<lparr>r_prs := t\<rparr>" r']
    by (simp add: quiet_def steady_def)
  then show ?thesis using assms by (auto simp: law_def law_parts quiet_def)
qed

lemma raft_restore_frame [frames]:
  assumes Q: "\<And>b r'. law E {} r r' \<Longrightarrow> Q (b, r')"
  shows "outcome Q (raft_restore E snap r)"
proof -
  have c: "law E {} r (put_pr i p r2\<lparr>r_pending_request_snapshot := x\<rparr>)"
    if "r_state r = Follower" "advances (r_raft_log r) lg"
      "quiet (r\<lparr>r_raft_log := lg, r_prs := t\<rparr>) r2" for i p r2 x lg t
    using that by (intro follower_conf_law[where s = "set_log lg r" and t = t]) auto
  show ?thesis
    unfolding raft_restore_def Let_def
    by (intro vcg frames outcome_any Q) (auto intro: c follower_law law_quiet)
qed

lemma handle_snapshot_frame [frames]:
  assumes Q: "\<And>r'. law E {} r r' \<Longrightarrow> Q r'"
  shows "outcome Q (handle_snapshot E m r)"
  unfolding handle_snapshot_def
  by (intro vcg frames outcome_any Q) (auto intro: law_then_quiet)

section \<open>Votes\<close>

lemma raft_send_eq:
  assumes "raft_send m r = Some r'"
  shows "\<exists>m'. r' = r\<lparr>r_msgs := r_msgs r @ [m']\<rparr> \<and> m_type m' = m_type m \<and> m_to m' = m_to m
     \<and> m_reject m' = m_reject m \<and> m_from m' = (if m_from m = INVALID_ID then r_id r else m_from m)
     \<and> (is_vote_msg (m_type m) \<longrightarrow> m_term m' = m_term m \<and> m_term m \<noteq> 0)"
proof -
  have "outcome (\<lambda>ms. \<exists>m'. ms = r_msgs r @ [m'] \<and> m_type m' = m_type m \<and> m_to m' = m_to m
     \<and> m_reject m' = m_reject m \<and> m_from m' = (if m_from m = INVALID_ID then r_id r else m_from m)
     \<and> (is_vote_msg (m_type m) \<longrightarrow> m_term m' = m_term m \<and> m_term m \<noteq> 0)) (core_send r m (r_msgs r))"
    unfolding core_send_def Let_def
    by (cases "m_from m = INVALID_ID"; simp only: if_True if_False; intro vcg) (auto split: if_splits)
  then show ?thesis using assms by (auto simp: raft_send_def bind_eq_Some_conv dest: outcomeD)
qed

lemma grant_law:
  assumes "m_from m' = r_id r" "m_to m' = c" "is_grant m' \<Longrightarrow> m_term m' = r_term r \<and> m_term m' \<noteq> 0"
    and "r_vote r = c \<or> r_vote r = INVALID_ID"
  shows "law E {} r (r\<lparr>r_msgs := r_msgs r @ [m'], r_election_elapsed := i, r_vote := c\<rparr>)" (is "law E {} r ?t")
proof -
  have "fair_grants r ?t" using assms(1-3) by (auto simp: fair_grants_def)
  moreover have "elected {} r ?t" by (simp add: elected_def backers_def)
  moreover have "steady r ?t" "ballot r ?t" "drawn E r ?t"
    using assms(4) by (auto simp: steady_def ballot_def drawn_def)
  ultimately show ?thesis by (simp add: law_def)
qed

lemma vote_resp_Some:
  "vote_resp_msg_type t = Some resp \<longleftrightarrow> t = MsgRequestVote \<and> resp = MsgRequestVoteResponse
     \<or> t = MsgRequestPreVote \<and> resp = MsgRequestPreVoteResponse"
  by (cases t) (auto simp: vote_resp_msg_type_def)

lemma vote_granted_law:
  assumes t: "m_type m = MsgRequestVote \<Longrightarrow> m_term m = r_term r \<or> m_term m = 0"
    and s: "raft_send ((new_message (m_from m) resp None)\<lparr>m_reject := False, m_term := m_term m\<rparr>) r = Some r1"
    and resp: "vote_resp_msg_type (m_type m) = Some resp"
    and v: "m_type m = MsgRequestVote \<Longrightarrow> r_vote r = m_from m \<or> r_vote r = INVALID_ID"
  shows "law E {} r (if m_type m = MsgRequestVote then r1\<lparr>r_election_elapsed := 0, r_vote := m_from m\<rparr> else r1)"
proof -
  let ?m = "(new_message (m_from m) resp None)\<lparr>m_reject := False, m_term := m_term m\<rparr>"
  have nm: "m_from ?m = INVALID_ID" "m_to ?m = m_from m" "m_type ?m = resp"
    by (simp_all add: new_message_def message_default_def INVALID_ID_def)
  obtain m' where m': "r1 = r\<lparr>r_msgs := r_msgs r @ [m']\<rparr>" "m_type m' = resp" "m_to m' = m_from m"
      "m_from m' = r_id r" "is_vote_msg resp \<longrightarrow> m_term m' = m_term m \<and> m_term m \<noteq> 0"
    using raft_send_eq[OF s] nm by auto
  show ?thesis
  proof (cases "m_type m = MsgRequestVote")
    case True
    then have "m_term m' = r_term r \<and> m_term m' \<noteq> 0"
      using t m'(5) resp by (auto simp: vote_resp_Some is_vote_msg_def)
    then show ?thesis using True m' v by (simp add: grant_law)
  next
    case False
    then have "\<not> is_grant m'" using m'(2) resp by (auto simp: vote_resp_Some)
    then show ?thesis using False m'(1) by (simp add: law_quiet)
  qed
qed

lemma step_vote_request_frame [frames]:
  assumes t: "m_type m = MsgRequestVote \<Longrightarrow> m_term m = r_term r \<or> m_term m = 0"
    and Q: "\<And>r'. law E {} r r' \<Longrightarrow> Q r'"
  shows "outcome Q (step_vote_request E m r)"
proof -
  have rej: "law E {} r r'"
    if "raft_send ((new_message (m_from m) resp None)\<lparr>m_reject := True, m_term := r_term r,
          m_commit := a, m_commit_term := b\<rparr>) r = Some r1" "settles E r1 r'" for resp a b r1 r'
    using law_then_settles[OF law_quiet[OF outcomeD[OF raft_send_quiet that(1)]] that(2)] by simp
  show ?thesis
    unfolding step_vote_request_def Let_def
    apply (intro vcg maybe_commit_by_vote_frame outcome_any Q)
    subgoal by (rule vote_granted_law[OF t]) auto
    subgoal by (rule rej)
    subgoal by simp
    subgoal by (rule rej)
    subgoal by simp
    subgoal by (rule rej)
    done
qed

section \<open>A step of a node\<close>

lemma step_leader_frame [frames]:
  assumes st: "r_state r = Leader" and Q: "\<And>res r'. law E {} r r' \<Longrightarrow> Q (res, r')"
  shows "outcome Q (step_leader E m r)"
proof -
  have cq: "law E {} r r'"
    if "check_quorum_active r = (b, r1)" "renews E (r_term r1) r1 r'" "r_state r' = Follower" for b r1 r'
    using that law_then_follower[OF law_quiet[OF check_quorum_active_quiet]] by blast
  have cq': "law E {} r r1" if "check_quorum_active r = (b, r1)" for b r1
    using that by (auto intro: law_quiet check_quorum_active_quiet)
  show ?thesis
    unfolding step_leader_def Let_def
    by (cases "m_type m"; simp only: message_type.case; intro vcg frames Q)
      (auto intro: law_quiet cq cq' handle_snapshot_status_quiet handle_unreachable_quiet)
qed

lemma step_candidate_frame [frames]:
  assumes i: "r_id r \<noteq> INVALID_ID" and st: "r_state r = Candidate \<or> r_state r = PreCandidate"
    and X: "m_type m = MsgRequestVoteResponse \<Longrightarrow> \<not> m_reject m \<Longrightarrow> m_from m \<in> X"
    and Q: "\<And>res r'. law E X r r' \<Longrightarrow> Q (res, r')"
  shows "outcome Q (step_candidate E m r)"
proof -
  have f: "law E X r t" if "renews E (m_term m) r s" "r_state s = Follower" "r_term r = m_term m"
      "law E {} s t" for s t
    using follower_then_law[OF that(1,2) _ that(4)] that(3) by (auto elim: law_mono)
  have p: "outcome Q (ok_step (poll E (m_from m) (\<not> m_reject m) r \<bind> (\<lambda>(_, r1). maybe_commit_by_vote E m r1)))"
    if c: "r_state r = Candidate \<Longrightarrow> m_type m = MsgRequestVoteResponse"
    using st
  proof
    assume st: "r_state r = Candidate"
    have sub: "(if \<not> m_reject m then {m_from m} else {}) \<subseteq> X" using X c[OF st] by simp
    show ?thesis
      by (intro poll_candidate_frame[OF st] vcg frames Q)
        (rule law_then_settles[OF law_mono[OF _ sub]])
  next
    assume "r_state r = PreCandidate"
    then show ?thesis
      using i by (intro poll_precandidate_frame vcg frames Q) (auto intro: law_mono law_then_settles)
  qed
  show ?thesis
    unfolding step_candidate_def Let_def
    by (cases "m_type m"; simp only: message_type.case; intro p vcg frames Q)
      (auto intro: law_quiet f i st)
qed

lemma forward_not_grant: "m_type m \<noteq> MsgRequestVoteResponse \<Longrightarrow> \<not> is_grant (m\<lparr>m_to := i\<rparr>)"
  by simp

lemma step_follower_frame [frames]:
  assumes i: "r_id r \<noteq> INVALID_ID" and Q: "\<And>res r'. law E {} r r' \<Longrightarrow> Q (res, r')"
  shows "outcome Q (step_follower E m r)"
proof -
  have s: "law E {} r t" if "law E {} (r\<lparr>r_election_elapsed := 0, r_leader_id := l\<rparr>) t" for t l
    by (rule quiet_then_law[OF _ that]) simp
  have c: "law E {} r (r\<lparr>r_read_states := rs, r_raft_log := lg\<rparr>)" if "advances (r_raft_log r) lg" for rs lg
    by (rule law_quiet) (use that in \<open>simp add: quiet_def steady_def advances_def\<close>)
  have rr: "outcome Q (case m_entries m of [] \<Rightarrow> Some (Inr (), r)
     | [e] \<Rightarrow> ok_step (do {
              let r1 = r\<lparr>r_read_states := r_read_states r @
                         [\<lparr>rst_index = m_index m, rst_request_ctx = e_data e\<rparr>]\<rparr>;
              (_, lg) \<leftarrow> rl_maybe_commit E (m_index m) (m_term m) (r_raft_log r1);
              Some (set_log lg r1) })
     | e # e' # es \<Rightarrow> Some (Inr (), r))"
    by (cases "m_entries m"; simp; cases "tl (m_entries m)"; simp; intro vcg frames Q)
      (auto intro: law_quiet c)
  show ?thesis
    unfolding step_follower_def
    by (cases "m_type m"; simp only: message_type.case; intro rr vcg frames Q)
      (use i in \<open>auto intro: law_quiet s\<close>)
qed

text \<open>The grants that a message brings to a candidate of the current term.\<close>

definition brings :: "message \<Rightarrow> 's raft \<Rightarrow> nat set" where
  "brings m r = (if m_type m = MsgRequestVoteResponse \<and> \<not> m_reject m
     \<and> (m_term m = r_term r \<or> m_term m = 0) then {m_from m} else {})"

lemma step_role_frame [frames]:
  assumes i: "r_id r \<noteq> INVALID_ID"
    and t: "m_type m \<noteq> MsgRequestPreVote \<Longrightarrow> m_type m \<noteq> MsgRequestPreVoteResponse \<Longrightarrow>
        m_term m = r_term r \<or> m_term m = 0"
    and Q: "\<And>res r'. law E (brings m r) r r' \<Longrightarrow> Q (res, r')"
  shows "outcome Q (step_role E m r)"
  unfolding step_role_def
  by (cases "r_state r"; simp only: state_role.case; intro vcg frames Q)
    (use i t in \<open>auto simp: brings_def elim!: law_mono\<close>)

text \<open>What the term check at the head of \<open>step\<close> lets through.\<close>

lemma step_term_frame [frames]:
  assumes stop: "\<And>r'. quiet r r' \<Longrightarrow> Q (Inl r')"
    and same: "m_type m \<noteq> MsgRequestPreVote \<and> m_type m \<noteq> MsgRequestPreVoteResponse \<longrightarrow>
        m_term m = r_term r \<or> m_term m = 0 \<Longrightarrow> Q (Inr r)"
    and newer: "\<And>s. renews E (m_term m) r s \<Longrightarrow> r_state s = Follower \<Longrightarrow> r_term r < m_term m \<Longrightarrow> Q (Inr s)"
  shows "outcome Q (step_term E m r)"
  unfolding step_term_def Let_def
  by (intro vcg frames stop same newer) (auto simp: new_message_def)

lemma raft_step_frame [frames]:
  assumes i: "r_id r \<noteq> INVALID_ID" and Q: "\<And>res r'. law E (brings m r) r r' \<Longrightarrow> Q (res, r')"
  shows "outcome Q (raft_step E m r)"
proof -
  have n: "outcome Q (step_role E m s)"
    if "renews E (m_term m) r s" "r_state s = Follower" "r_term r < m_term m" for s
  proof (intro step_role_frame Q)
    show "r_id s \<noteq> INVALID_ID" "m_term m = r_term s \<or> m_term m = 0"
      using that(1) i by (simp_all add: renews_def steady_def)
    show "law E (brings m r) r t" if "law E (brings m s) s t" for t
      using follower_then_law[OF \<open>renews E (m_term m) r s\<close> \<open>r_state s = Follower\<close> _ that] \<open>r_term r < m_term m\<close>
      by (auto elim: law_mono)
  qed
  show ?thesis
    unfolding raft_step_def
  proof (intro outcome_rules(3) step_term_frame)
    show "outcome Q (case Inr r of Inl r1 \<Rightarrow> Some (Inr (), r1) | Inr r1 \<Rightarrow> step_role E m r1)"
      if "m_type m \<noteq> MsgRequestPreVote \<and> m_type m \<noteq> MsgRequestPreVoteResponse \<longrightarrow>
        m_term m = r_term r \<or> m_term m = 0"
      using that i by (auto intro!: step_role_frame Q)
  qed (auto intro!: n Q law_quiet)
qed

section \<open>Everything the application does to a node\<close>

text \<open>
  The inputs of a node: a message, a tick of the clock, the notifications that entries or a snapshot
  are persisted and that entries are applied, a configuration change, and the handover of the
  mailbox to the transport.
\<close>

datatype input = Receive message | Clock | EntriesPersisted nat nat | SnapPersisted nat
  | AppliedTo nat | Reconfigure conf_change_v2 | Handover

fun node_handle :: "'s env \<Rightarrow> input \<Rightarrow> 's raft \<Rightarrow> 's raft panics" where
  "node_handle E (Receive m) r = step_ignore E m r"
| "node_handle E Clock r = do { (_, r1) \<leftarrow> raft_tick E r; Some r1 }"
| "node_handle E (EntriesPersisted i t) r = on_persist_entries E i t r"
| "node_handle E (SnapPersisted i) r = on_persist_snap i r"
| "node_handle E (AppliedTo i) r = raft_commit_apply E i r"
| "node_handle E (Reconfigure cc) r = do { (_, r1) \<leftarrow> raft_apply_conf_change E cc r; Some r1 }"
| "node_handle E Handover r = Some (r\<lparr>r_msgs := []\<rparr>)"

definition lawful :: "'s env \<Rightarrow> nat set \<Rightarrow> 's raft \<Rightarrow> 's raft \<Rightarrow> bool" where
  "lawful E X r r' \<longleftrightarrow> steady r r' \<and> ballot r r' \<and> fair_grants r r' \<and> elected X r r' \<and> drawn E r r'"

lemma law_lawful: "law E X r r' \<Longrightarrow> lawful E X r r'"
  by (simp add: law_def lawful_def)

lemma quiet_lawful: "quiet r r' \<Longrightarrow> lawful E X r r'"
  by (rule law_lawful[OF law_quiet])

definition input_brings :: "input \<Rightarrow> 's raft \<Rightarrow> nat set" where
  "input_brings inp r = (case inp of Receive m \<Rightarrow> brings m r | _ \<Rightarrow> {})"

lemma step_ignore_frame [frames]:
  assumes "r_id r \<noteq> INVALID_ID" "\<And>r'. law E (brings m r) r r' \<Longrightarrow> Q r'"
  shows "outcome Q (step_ignore E m r)"
  unfolding step_ignore_def by (intro vcg frames assms)

lemma brings_local [simp]: "m_type m \<noteq> MsgRequestVoteResponse \<Longrightarrow> brings m r = {}"
  by (simp add: brings_def)

lemma law_elapsed: "law E X (r\<lparr>r_election_elapsed := i\<rparr>) t \<Longrightarrow> law E X r t"
  by (rule quiet_then_law) simp_all

lemma new_message_fields [simp]:
  "m_type (new_message to ty from) = ty" "m_term (new_message to ty from) = 0"
  by (simp_all add: new_message_def message_default_def split: option.split)

lemma step_beat_frame:
  assumes "r_state r = Leader" "\<And>r'. quiet r r' \<Longrightarrow> Q r'"
  shows "outcome Q (step_ignore E (new_message INVALID_ID MsgBeat (Some i)) r)"
  unfolding step_ignore_def raft_step_def step_term_def step_role_def step_leader_def
  using assms(1) by simp (intro vcg frames assms(2))

lemma raft_tick_frame [frames]:
  assumes "r_id r \<noteq> INVALID_ID" "\<And>b r'. law E {} r r' \<Longrightarrow> Q (b, r')"
  shows "outcome Q (raft_tick E r)"
proof -
  have e: "outcome Q (tick_election E r)"
    unfolding tick_election_def Let_def
    by (intro vcg frames assms(2)) (use assms(1) in \<open>auto intro: law_quiet law_elapsed\<close>)
  define r1 where "r1 = r\<lparr>r_heartbeat_elapsed := r_heartbeat_elapsed r + 1, r_election_elapsed := r_election_elapsed r + 1\<rparr>"
  have r1: "quiet r r1" "quiet r (r1\<lparr>r_election_elapsed := 0\<rparr>)" "r_id r1 = r_id r"
    unfolding r1_def by (simp_all add: quiet_def steady_def)
  have l: "law E {} r u" if "law E {} (r1\<lparr>r_election_elapsed := 0\<rparr>) t" "quiet t u" for t u
    by (rule law_then_quiet[OF quiet_then_law[OF r1(2) that(1)] that(2)])
  have h: "outcome Q (tick_heartbeat E r)"
    unfolding tick_heartbeat_def Let_def r1_def[symmetric]
    by (intro step_beat_frame vcg frames assms(2))
      (use assms(1) r1 in \<open>auto intro: law_quiet l quiet_trans split: if_splits\<close>)
  show ?thesis unfolding raft_tick_def by (cases "r_state r") (simp_all add: e h)
qed

lemma rl_applied_to_frame [frames]:
  assumes "\<And>lg'. rl_committed lg' = rl_committed lg \<Longrightarrow> rl_applied lg \<le> rl_applied lg' \<Longrightarrow>
      (rl_applied lg \<le> rl_committed lg \<longrightarrow> rl_applied lg' \<le> rl_committed lg') \<Longrightarrow> Q lg'"
  shows "outcome Q (rl_applied_to i lg)"
  unfolding rl_applied_to_def by (intro vcg assms) auto

lemma raft_commit_apply_frame [frames]:
  assumes "\<And>r'. quiet r r' \<Longrightarrow> Q r'"
  shows "outcome Q (raft_commit_apply E i r)"
proof -
  have a: "quiet r (set_log lg r)"
    if "rl_committed lg = rl_committed (r_raft_log r)" "rl_applied (r_raft_log r) \<le> rl_applied lg"
      "rl_applied (r_raft_log r) \<le> rl_committed (r_raft_log r) \<longrightarrow> rl_applied lg \<le> rl_committed lg" for lg
    using that by (simp add: quiet_def steady_def)
  show ?thesis
    unfolding raft_commit_apply_def Let_def
    apply (intro vcg frames outcome_any assms)
    subgoal using a quiet_trans by fastforce
    subgoal by (rule a)
    done
qed

lemma raft_apply_conf_change_frame [frames]:
  assumes "\<And>res r'. lawful E {} r r' \<Longrightarrow> Q (res, r')"
  shows "outcome Q (raft_apply_conf_change E cc r)"
proof -
  have c: "lawful E {} r r'" if "quiet (r\<lparr>r_prs := apply_conf cfg ch li (r_prs r)\<rparr>) r'" for cfg ch li r'
    using that by (auto simp: lawful_def law_parts quiet_def steady_def apply_conf_def)
  show ?thesis
    unfolding raft_apply_conf_change_def
    by (intro vcg frames outcome_any assms) (auto intro: c quiet_lawful)
qed

lemma node_handle_frame:
  assumes "r_id r \<noteq> INVALID_ID"
  shows "outcome (lawful E (input_brings inp r) r) (node_handle E inp r)"
proof (cases inp)
  case Handover
  then show ?thesis by (auto simp: lawful_def law_parts steady_def)
qed (simp_all only: node_handle.simps input_brings_def input.case,
     (intro vcg frames; auto simp: assms intro: law_lawful quiet_lawful)+)

section \<open>Starting a node\<close>

lemma load_state_frame [frames]:
  assumes "\<And>lg. Q (r\<lparr>r_raft_log := lg, r_term := hs_term hs, r_vote := hs_vote hs\<rparr>)"
  shows "outcome Q (load_state E hs r)"
  unfolding load_state_def by (intro vcg outcome_any assms)

text \<open>
  A node that \<open>Raft::new\<close> builds from its storage has the term and the vote of the stored hard state.
\<close>

definition restarted :: "nat \<Rightarrow> hard_state \<Rightarrow> 's raft \<Rightarrow> bool" where
  "restarted i hs r \<longleftrightarrow> r_id r = i \<and> r_state r = Follower \<and> r_term r = hs_term hs \<and> r_vote r = hs_vote hs
     \<and> grants (r_msgs r) = {}"

lemma raft_new_frame:
  assumes "st_initial_state E store = Inr rs"
  shows "outcome (\<lambda>res. case res of Inl _ \<Rightarrow> True | Inr r \<Rightarrow> restarted (c_id c) (rs_hard_state rs) r)
    (raft_new E c store)"
  unfolding raft_new_def assms Let_def
  by (simp only: sum.case, intro vcg frames outcome_any)
    (auto simp: restarted_def hard_state_default_def quiet_def steady_def renews_def split: if_splits)

end
