(* ===== verification/Raft_Samples.thy ===== *)
theory Raft_Samples
  imports Raft_Law "HOL-Library.Code_Target_Nat"
begin

text \<open>
  Concrete nodes on a \<open>MemStorage\<close>, built by \<open>Raft::new\<close>, and a few messages. The theories about the
  behaviour of a node evaluate the model on them.
\<close>

definition sample_config :: "nat \<Rightarrow> config" where
  "sample_config i = (config_new i)\<lparr>c_max_size_per_msg := 100, c_max_inflight_msgs := 4,
     c_max_uncommitted_size := 100, c_max_committed_size_per_ready := 100\<rparr>"

definition voter_store :: "nat list \<Rightarrow> mem_storage panics" where
  "voter_store vs = mem_new_with_conf_state (conf_state_default\<lparr>cs_voters := vs\<rparr>)"

definition sample_node :: "nat list \<Rightarrow> nat \<Rightarrow> mem_storage raft" where
  "sample_node vs i =
     (case voter_store vs \<bind> raft_new sample_env (sample_config i) of Some (Inr r) \<Rightarrow> r)"

definition sample_msg :: "message_type \<Rightarrow> nat \<Rightarrow> nat \<Rightarrow> message" where
  "sample_msg ty from to = message_default\<lparr>m_type := ty, m_from := from, m_to := to\<rparr>"

text \<open>A fresh node 3 among the voters 2, 3 and 4.\<close>

definition sample_voters :: joint_config where
  "sample_voters = \<lparr>incoming = {2, 3, 4}, outgoing = {}\<rparr>"

abbreviation sample_three :: "mem_storage raft" where
  "sample_three \<equiv> sample_node [2, 3, 4] 3"

lemma sample_voters_good: "conf_good sample_voters"
  by (simp add: conf_good_def sample_voters_def)

lemma sample_voters_alone: "\<not> joint_quorum sample_voters {i}"
proof -
  have "card ({2, 3, 4} \<inter> {i}) \<le> card {i}" by (rule card_mono) auto
  then show ?thesis by (simp add: joint_quorum_def majority_quorum_def majority_def sample_voters_def)
qed

lemma sample_three_voters: "conf_voters (pt_conf (r_prs sample_three)) = sample_voters"
  by code_simp

lemma sample_three_log: "log_wf mem_view (r_raft_log sample_three)"
  by code_simp

lemma sample_three_new:
  "\<exists>s. voter_store [2, 3, 4] = Some s \<and> raft_new sample_env (sample_config 3) s = Some (Inr sample_three)"
proof -
  have "(case voter_store [2, 3, 4] \<bind> raft_new sample_env (sample_config 3) of Some (Inr _) \<Rightarrow> True | _ \<Rightarrow> False)"
    by code_simp
  then show ?thesis
    by (auto simp: sample_node_def bind_eq_Some_conv split: option.splits sum.splits)
qed

end
