(* ===== verification/Node_Life.thy ===== *)
theory Node_Life
  imports Raft_Samples
begin

text \<open>
  What holds through the whole life of a node: terms, votes and marks never go back, and the randomized
  election timeout stays in its interval. Both follow from the law of a step (\<open>Raft_Law\<close>).
\<close>

section \<open>Terms, votes and marks\<close>

text \<open>
  C9. Whatever a node is asked to do (any message, a tick, a notification of persistence or of
  application, a configuration change), its identity is constant, its term never decreases, within a
  term a vote once cast is never changed or withdrawn, the committed and the applied index never go
  back, and the applied index stays within the committed one.
\<close>

theorem node_monotone:
  assumes "r_id r \<noteq> INVALID_ID" "node_handle E inp r = Some r'"
  shows "r_id r' = r_id r \<and> r_term r \<le> r_term r' \<and>
    (r_term r' = r_term r \<and> r_vote r \<noteq> INVALID_ID \<longrightarrow> r_vote r' = r_vote r) \<and>
    rl_committed (r_raft_log r) \<le> rl_committed (r_raft_log r') \<and>
    rl_applied (r_raft_log r) \<le> rl_applied (r_raft_log r') \<and>
    (rl_applied (r_raft_log r) \<le> rl_committed (r_raft_log r) \<longrightarrow>
       rl_applied (r_raft_log r') \<le> rl_committed (r_raft_log r'))"
  using outcomeD[OF node_handle_frame[OF assms(1)] assms(2)]
  by (simp add: lawful_def steady_def ballot_def)

definition sample_vote_request :: message where
  "sample_vote_request = (sample_msg MsgRequestVote 2 3)\<lparr>m_term := 1\<rparr>"

definition sample_voted :: "mem_storage raft" where
  "sample_voted = the (node_handle sample_env (Receive sample_vote_request) (sample_node [2, 3, 4] 3))"

lemma sample_voted_eval:
  "r_id sample_voted = 3 \<and> r_term sample_voted = 1 \<and> r_vote sample_voted = 2"
  by code_simp

lemma sample_voted_again:
  "map_option r_term (node_handle sample_env
     (Receive ((sample_msg MsgRequestVote 4 3)\<lparr>m_term := 1\<rparr>)) sample_voted) = Some 1"
  by code_simp

theorem node_monotone_witness:
  "\<exists>r'. node_handle sample_env (Receive ((sample_msg MsgRequestVote 4 3)\<lparr>m_term := 1\<rparr>)) sample_voted = Some r'
     \<and> r_vote r' = 2"
proof -
  obtain r' where r': "node_handle sample_env (Receive ((sample_msg MsgRequestVote 4 3)\<lparr>m_term := 1\<rparr>))
      sample_voted = Some r'" "r_term r' = 1"
    using sample_voted_again by auto
  show ?thesis
    using node_monotone[OF _ r'(1)] r' sample_voted_eval by (auto simp: INVALID_ID_def)
qed

section \<open>The election timeout\<close>

fun node_run :: "'s env \<Rightarrow> input list \<Rightarrow> 's raft \<Rightarrow> 's raft panics" where
  "node_run E [] r = Some r"
| "node_run E (inp # inps) r = do { r1 \<leftarrow> node_handle E inp r; node_run E inps r1 }"

definition timeout_drawn :: "'s env \<Rightarrow> 's raft \<Rightarrow> bool" where
  "timeout_drawn E r \<longleftrightarrow> r_min_election_timeout r < r_max_election_timeout r \<and>
     (\<exists>d. r_randomized_election_timeout r =
            env_gen_range E d (r_min_election_timeout r) (r_max_election_timeout r))"

lemma node_run_drawn:
  assumes "node_run E inps r = Some r'" "r_id r \<noteq> INVALID_ID" "timeout_drawn E r"
  shows "timeout_drawn E r' \<and> r_min_election_timeout r' = r_min_election_timeout r
    \<and> r_max_election_timeout r' = r_max_election_timeout r"
  using assms
proof (induction inps arbitrary: r)
  case (Cons inp inps)
  then obtain r1 where r1: "node_handle E inp r = Some r1" "node_run E inps r1 = Some r'"
    by (auto simp: bind_eq_Some_conv)
  note l = outcomeD[OF node_handle_frame[OF Cons.prems(2)] r1(1)]
  have "timeout_drawn E r1" using l Cons.prems(3) by (auto simp: lawful_def steady_def drawn_def timeout_drawn_def)
  then show ?case using Cons.IH[OF r1(2)] Cons.prems(2) l by (simp add: lawful_def steady_def)
qed simp

lemma raft_new_drawn:
  "outcome (\<lambda>res. case res of Inl _ \<Rightarrow> True | Inr r \<Rightarrow> r_id r = c_id c \<and> c_id c \<noteq> INVALID_ID \<and> timeout_drawn E r
     \<and> r_min_election_timeout r = min_election_tick c \<and> r_max_election_timeout r = max_election_tick c)
    (raft_new E c store)"
  unfolding raft_new_def Let_def
  by (intro vcg frames outcome_any)
    (auto simp: quiet_def steady_def renews_def timeout_drawn_def config_validate_def split: if_splits)

text \<open>
  C29. The randomized election timeout of a node built by \<open>Raft::new\<close> lies in the configured interval,
  and stays there in every run, if the random generator returns numbers of the interval it is asked
  for (the contract of \<open>gen_range\<close>).
\<close>

theorem election_timeout_in_range:
  assumes gen: "\<And>d lo hi. lo < hi \<Longrightarrow> lo \<le> env_gen_range E d lo hi \<and> env_gen_range E d lo hi < hi"
    and new: "raft_new E c store = Some (Inr r)" and run: "node_run E inps r = Some r'"
  shows "min_election_tick c \<le> r_randomized_election_timeout r' \<and>
    r_randomized_election_timeout r' < max_election_tick c"
proof -
  have "r_id r \<noteq> INVALID_ID" "timeout_drawn E r" "r_min_election_timeout r = min_election_tick c"
    "r_max_election_timeout r = max_election_tick c"
    using outcomeD[OF raft_new_drawn new] by auto
  then show ?thesis using node_run_drawn[OF run] gen by (auto simp: timeout_drawn_def)
qed

theorem election_timeout_in_range_witness:
  "\<exists>r'. node_run sample_env [Clock, Receive (sample_msg MsgHup 3 3)] sample_three = Some r' \<and>
     20 \<le> r_randomized_election_timeout r' \<and> r_randomized_election_timeout r' < 40"
proof -
  obtain s where s: "raft_new sample_env (sample_config 3) s = Some (Inr sample_three)"
    using sample_three_new by blast
  have "node_run sample_env [Clock, Receive (sample_msg MsgHup 3 3)] sample_three \<noteq> None"
    by code_simp
  then obtain r' where r': "node_run sample_env [Clock, Receive (sample_msg MsgHup 3 3)] sample_three = Some r'"
    by blast
  moreover have "min_election_tick (sample_config 3) = 20" "max_election_tick (sample_config 3) = 40"
    by code_simp+
  moreover have "lo \<le> env_gen_range sample_env d lo hi \<and> env_gen_range sample_env d lo hi < hi" if "lo < hi" for d lo hi
    using that by (simp add: sample_env_def mem_env_def)
  ultimately show ?thesis using election_timeout_in_range[OF _ s r'] by metis
qed

end
