(* ===== verification/Node_Elections.thy ===== *)
theory Node_Elections
  imports Node_Life
begin

text \<open>
  Elections as the code runs them, on logs over a storage that keeps its contract: a campaign from the
  election clock to the vote requests in the mailbox, the answer to a vote request, and pre-votes.
  Everything here is total: the functions return, and the results are given exactly.
\<close>

section \<open>A campaign that does not panic\<close>

lemma joint_pending:
  assumes c: "finite (incoming c)" "finite (outgoing c)" "incoming c \<noteq> {}"
    and no: "\<And>v. check v \<noteq> Some False" and nq: "\<not> joint_quorum c {v. check v = Some True}"
  shows "joint_vote_result c check = Pending"
proof -
  have "majority_vote_result V check \<noteq> Lost" if "finite V" for V
  proof (cases "V = {}")
    case False
    then have "0 < card V" using that by (simp add: card_gt_0_iff)
    then show ?thesis using that no False by (auto simp: majority_vote_result_eq majority_quorum_def majority_def)
  qed (simp add: majority_vote_result_def)
  then have "joint_vote_result c check \<noteq> Lost" using c by (auto simp: joint_vote_result_def Let_def)
  then show ?thesis using nq joint_won_iff_quorum[OF c] by (cases "joint_vote_result c check") auto
qed

text \<open>The request that a candidate sends.\<close>

definition vote_request :: "'s raft \<Rightarrow> nat \<Rightarrow> nat \<Rightarrow> nat \<Rightarrow> nat \<Rightarrow> nat \<Rightarrow> nat \<Rightarrow> message" where
  "vote_request r t li lt ci ct to = message_default\<lparr>m_type := MsgRequestVote, m_to := to, m_from := r_id r,
     m_term := t, m_index := li, m_log_term := lt, m_commit := ci, m_commit_term := ct,
     m_deprecated_priority := (if r_priority r > 0 then nat (r_priority r) else 0), m_priority := r_priority r\<rparr>"

lemma CAMPAIGN_distinct [simp]:
  "CAMPAIGN_ELECTION \<noteq> CAMPAIGN_TRANSFER" "CAMPAIGN_ELECTION \<noteq> CAMPAIGN_PRE_ELECTION"
  by (simp_all add: CAMPAIGN_ELECTION_def CAMPAIGN_TRANSFER_def CAMPAIGN_PRE_ELECTION_def)

lemma core_send_vote_request:
  assumes "0 < t"
  shows "core_send r ((new_message to MsgRequestVote None)\<lparr>m_term := t, m_index := li, m_log_term := lt,
      m_commit := ci, m_commit_term := ct\<rparr>) ms = Some (ms @ [vote_request r t li lt ci ct to])"
  using assms
  by (simp add: core_send_def new_message_def vote_request_def message_default_def is_vote_msg_def
      INVALID_ID_def)

context log_storage
begin

lemma send_vote_requests_eq:
  assumes wf: "log_wf W (r_raft_log r)" and t: "0 < t"
    and lt: "log_term W (r_raft_log r) (log_last W (r_raft_log r)) = Some lt"
  shows "send_vote_requests E CAMPAIGN_ELECTION MsgRequestVote t ci ct ids r =
    Some (r\<lparr>r_msgs := r_msgs r @ map (vote_request r t (log_last W (r_raft_log r)) lt ci ct)
              (filter (\<lambda>i. i \<noteq> r_id r) ids)\<rparr>)"
  using wf lt
proof (induction ids arbitrary: r)
  case (Cons i ids)
  have v: "vote_request (r\<lparr>r_msgs := x\<rparr>) = vote_request r" for x
    by (simp add: vote_request_def fun_eq_iff)
  show ?case
    using Cons.prems Cons.IH[OF Cons.prems] Cons.IH[of "r\<lparr>r_msgs := x\<rparr>" for x]
    by (simp add: rl_last_index_eq rl_last_term_eq raft_send_def core_send_vote_request[OF t] v)
qed simp

lemma raft_reset_eq:
  assumes wf: "log_wf W (r_raft_log r)" and mm: "r_min_election_timeout r < r_max_election_timeout r"
  shows "\<exists>r'. raft_reset E t r = Some r' \<and> r_msgs r' = r_msgs r \<and> r_priority r' = r_priority r \<and>
    renews E t r r'"
proof -
  have "\<exists>r'. raft_reset E t r = Some r' \<and> r_msgs r' = r_msgs r \<and> r_priority r' = r_priority r"
    using mm by (auto simp: raft_reset_def reset_randomized_election_timeout_def abort_leader_transfer_def
      rl_last_index_eq[OF wf] Let_def)
  moreover have "outcome (renews E t r) (raft_reset E t r)" by (intro frames)
  ultimately show ?thesis by (auto dest: outcomeD)
qed

lemma become_candidate_eq:
  assumes "log_wf W (r_raft_log r)" "r_min_election_timeout r < r_max_election_timeout r" "r_state r \<noteq> Leader"
  shows "\<exists>c. become_candidate E r = Some c \<and> r_msgs c = r_msgs r \<and> r_priority c = r_priority r \<and>
    r_id c = r_id r \<and> r_term c = r_term r + 1 \<and> r_vote c = r_id r \<and> r_state c = Candidate \<and>
    r_raft_log c = r_raft_log r \<and> pt_conf (r_prs c) = pt_conf (r_prs r) \<and> pt_votes (r_prs c) = []"
  using raft_reset_eq[OF assms(1,2), of "r_term r + 1"] assms(3)
  by (auto simp: become_candidate_def renews_def steady_def)

text \<open>A candidate that is not a quorum by itself, after it has voted for itself.\<close>

lemma poll_self_pending:
  assumes "conf_good (conf_voters (pt_conf (r_prs c)))" "\<not> joint_quorum (conf_voters (pt_conf (r_prs c))) {i}"
    and "pt_votes (r_prs c) = []"
  shows "poll E i True c = Some (Pending, recorded i True c)"
proof -
  have "joint_vote_result (conf_voters (pt_conf (r_prs c))) (map_of [(i, True)]) = Pending"
    using assms(1,2) by (intro joint_pending) (auto simp: conf_good_def split: if_splits)
  then show ?thesis
    using assms(3) by (simp add: poll.simps Let_def tally_votes_def tracker_vote_result_def record_vote_def
        recorded_def split: prod.split)
qed

lemma campaign_eq:
  assumes wf: "log_wf W (r_raft_log r)" and mm: "r_min_election_timeout r < r_max_election_timeout r"
    and st: "r_state r \<noteq> Leader"
    and conf: "conf_good (conf_voters (pt_conf (r_prs r)))" "\<not> joint_quorum (conf_voters (pt_conf (r_prs r))) {r_id r}"
    and lt: "log_term W (r_raft_log r) (log_last W (r_raft_log r)) = Some lt"
    and ct: "log_term W (r_raft_log r) (rl_committed (r_raft_log r)) = Some ct"
  shows "\<exists>r'. campaign E CAMPAIGN_ELECTION r = Some r' \<and> r_state r' = Candidate \<and> r_term r' = r_term r + 1 \<and>
    r_vote r' = r_id r \<and> r_msgs r' = r_msgs r @
      map (vote_request r (r_term r + 1) (log_last W (r_raft_log r)) lt (rl_committed (r_raft_log r)) ct)
        (filter (\<lambda>i. i \<noteq> r_id r) (joint_ids (conf_voters (pt_conf (r_prs r)))))"
proof -
  obtain c where c: "become_candidate E r = Some c" "r_msgs c = r_msgs r" "r_priority c = r_priority r"
    "r_id c = r_id r" "r_term c = r_term r + 1" "r_vote c = r_id r" "r_state c = Candidate"
    "r_raft_log c = r_raft_log r" "pt_conf (r_prs c) = pt_conf (r_prs r)" "pt_votes (r_prs c) = []"
    using become_candidate_eq[OF wf mm st] by blast
  define s where "s = recorded (r_id r) True c"
  have s: "r_msgs s = r_msgs r" "r_priority s = r_priority r" "r_id s = r_id r" "r_term s = r_term r + 1"
    "r_vote s = r_id r" "r_state s = Candidate" "r_raft_log s = r_raft_log r"
    "pt_conf (r_prs s) = pt_conf (r_prs r)"
    using c by (simp_all add: s_def recorded_def)
  have v: "vote_request s = vote_request r" using s by (simp add: vote_request_def fun_eq_iff)
  have "poll E (r_id c) True c = Some (Pending, s)"
    using poll_self_pending[of c "r_id r"] conf c by (simp add: s_def)
  moreover have "rl_commit_info E (r_raft_log s) = Some (rl_committed (r_raft_log r), ct)"
    using s ct by (simp add: rl_commit_info_def rl_term_eq[OF wf] unwrap_def)
  moreover have "send_vote_requests E CAMPAIGN_ELECTION MsgRequestVote (r_term r + 1)
      (rl_committed (r_raft_log r)) ct (joint_ids (conf_voters (pt_conf (r_prs r)))) s =
    Some (s\<lparr>r_msgs := r_msgs r @ map (vote_request r (r_term r + 1) (log_last W (r_raft_log r)) lt
        (rl_committed (r_raft_log r)) ct)
      (filter (\<lambda>i. i \<noteq> r_id r) (joint_ids (conf_voters (pt_conf (r_prs r)))))\<rparr>)"
    using send_vote_requests_eq[of s "r_term r + 1" lt] wf lt by (simp add: s v)
  ultimately show ?thesis
    using c s by (simp add: campaign.simps begin_campaign_def)
qed

end

section \<open>The election clock\<close>

definition waiting :: "'s raft \<Rightarrow> nat" where
  "waiting r = r_randomized_election_timeout r - r_election_elapsed r"

lemma clock_before_timeout:
  assumes "r_state r \<noteq> Leader" "k < waiting r"
  shows "node_run E (replicate k Clock) r = Some (r\<lparr>r_election_elapsed := r_election_elapsed r + k\<rparr>)"
  using assms
proof (induction k arbitrary: r)
  case (Suc k)
  let ?r = "r\<lparr>r_election_elapsed := Suc (r_election_elapsed r)\<rparr>"
  have "tick_election E r = Some (False, ?r)"
    using Suc.prems by (auto simp: tick_election_def pass_election_timeout_def waiting_def Let_def)
  then have "node_handle E Clock r = Some ?r"
    using Suc.prems(1) by (cases "r_state r") (simp_all add: raft_tick_def)
  then show ?case using Suc.IH[of ?r] Suc.prems by (simp add: waiting_def)
qed simp

lemma node_run_append:
  "node_run E (xs @ ys) r = do { r1 \<leftarrow> node_run E xs r; node_run E ys r1 }"
proof (induction xs arbitrary: r)
  case (Cons x xs)
  then show ?case by (cases "node_handle E x r") simp_all
qed simp

lemma bind_rzero_node: "Option.bind x (node_run E []) = x"
  by (cases x) simp_all

lemma clock_at_timeout:
  assumes "r_state r \<noteq> Leader" "r_promotable r" "0 < waiting r"
  shows "node_run E (replicate (waiting r) Clock) r =
    step_ignore E (new_message INVALID_ID MsgHup (Some (r_id r))) (r\<lparr>r_election_elapsed := 0\<rparr>)"
proof -
  obtain k where k: "waiting r = Suc k" using assms(3) gr0_implies_Suc by blast
  let ?r = "r\<lparr>r_election_elapsed := r_election_elapsed r + k\<rparr>"
  have "r_randomized_election_timeout r = r_election_elapsed r + Suc k" using k by (simp add: waiting_def)
  then have "tick_election E ?r = do {
      r2 \<leftarrow> step_ignore E (new_message INVALID_ID MsgHup (Some (r_id r))) (r\<lparr>r_election_elapsed := 0\<rparr>);
      Some (True, r2) }"
    using assms(2) by (simp add: tick_election_def pass_election_timeout_def)
  then have "node_handle E Clock ?r =
      step_ignore E (new_message INVALID_ID MsgHup (Some (r_id r))) (r\<lparr>r_election_elapsed := 0\<rparr>)"
    using assms(1) by (cases "r_state r") (simp_all add: raft_tick_def)
  then show ?thesis
    using clock_before_timeout[OF assms(1), of k] k
    by (simp add: replicate_append_same[symmetric] node_run_append bind_rzero_node del: node_handle.simps)
qed

context log_storage
begin

text \<open>The entries that \<open>hup\<close> looks through for an unapplied configuration change.\<close>

lemma hup_slice_eq:
  assumes wf: "log_wf W lg" and a: "u_snapshot (rl_unstable lg) = None \<Longrightarrow> log_base W lg \<le> rl_applied lg"
  shows "\<exists>s. rl_slice E (case maybe_first_index (rl_unstable lg) of Some idx \<Rightarrow> idx | None \<Rightarrow> rl_applied lg + 1)
      (rl_committed lg + 1) None TransferLeader lg =
    Some (Inr (log_range W lg (max (log_base W lg) (rl_applied lg) + 1) (rl_committed lg + 1)), lg\<lparr>rl_store := s\<rparr>)
    \<and> same_view W (rl_store lg) s"
proof -
  let ?lo = "max (log_base W lg) (rl_applied lg) + 1"
  have lo: "(case maybe_first_index (rl_unstable lg) of Some idx \<Rightarrow> idx | None \<Rightarrow> rl_applied lg + 1) = ?lo"
    using wf a by (auto simp: maybe_first_index_def log_wf_def log_base_def max_def split: option.splits)
  have "?lo \<le> rl_committed lg + 1" "rl_committed lg + 1 \<le> log_last W lg + 1" "log_base W lg < ?lo"
    using wf by (auto simp: log_wf_def)
  from rl_slice_eq[OF wf this(3,1,2), of None TransferLeader] show ?thesis unfolding lo by auto
qed

end

text \<open>
  What a node needs to campaign: a log over a sound storage whose marks are known, a configuration in
  which it is not a quorum of its own, and no unapplied configuration change.
\<close>

definition can_campaign :: "'s store_view \<Rightarrow> 's raft \<Rightarrow> bool" where
  "can_campaign W r \<longleftrightarrow> (let lg = r_raft_log r; voters = conf_voters (pt_conf (r_prs r)) in
     r_state r \<noteq> Leader \<and> \<not> r_pre_vote r \<and> log_wf W lg \<and> r_min_election_timeout r < r_max_election_timeout r
     \<and> conf_good voters \<and> \<not> joint_quorum voters {r_id r}
     \<and> (u_snapshot (rl_unstable lg) = None \<longrightarrow> log_base W lg \<le> rl_applied lg)
     \<and> num_pending_conf (log_range W lg (max (log_base W lg) (rl_applied lg) + 1) (rl_committed lg + 1)) = 0
     \<and> log_term W lg (log_last W lg) \<noteq> None \<and> log_term W lg (rl_committed lg) \<noteq> None)"

lemma same_view_terms:
  assumes "same_view W (rl_store lg) s"
  shows "log_last W (lg\<lparr>rl_store := s\<rparr>) = log_last W lg" "log_term W (lg\<lparr>rl_store := s\<rparr>) i = log_term W lg i"
  using same_view_log[OF assms] by (simp_all add: log_last_def log_term_def)

context log_storage
begin

lemma hup_eq:
  assumes c: "can_campaign W r"
    and lt: "log_term W (r_raft_log r) (log_last W (r_raft_log r)) = Some lt"
    and ct: "log_term W (r_raft_log r) (rl_committed (r_raft_log r)) = Some ct"
  shows "\<exists>r'. hup E False r = Some r' \<and> r_state r' = Candidate \<and> r_term r' = r_term r + 1 \<and>
    r_vote r' = r_id r \<and> r_msgs r' = r_msgs r @
      map (vote_request r (r_term r + 1) (log_last W (r_raft_log r)) lt (rl_committed (r_raft_log r)) ct)
        (filter (\<lambda>i. i \<noteq> r_id r) (joint_ids (conf_voters (pt_conf (r_prs r)))))"
proof -
  let ?lg = "r_raft_log r"
  have wf: "log_wf W ?lg" using c by (simp add: can_campaign_def Let_def)
  obtain s where s: "rl_slice E (case maybe_first_index (rl_unstable ?lg) of Some idx \<Rightarrow> idx
        | None \<Rightarrow> rl_applied ?lg + 1) (rl_committed ?lg + 1) None TransferLeader ?lg =
      Some (Inr (log_range W ?lg (max (log_base W ?lg) (rl_applied ?lg) + 1) (rl_committed ?lg + 1)),
            ?lg\<lparr>rl_store := s\<rparr>)" and sv: "same_view W (rl_store ?lg) s"
    using hup_slice_eq[OF wf] c by (auto simp: can_campaign_def Let_def)
  let ?r = "set_log (?lg\<lparr>rl_store := s\<rparr>) r"
  have v: "vote_request ?r = vote_request r" by (simp add: vote_request_def fun_eq_iff)
  have "hup E False r = campaign E CAMPAIGN_ELECTION ?r"
    unfolding hup_def Let_def s using c by (simp add: can_campaign_def Let_def unwrap_def)
  then show ?thesis
    using campaign_eq[of ?r lt ct] c lt ct same_view_log(4)[OF sv wf]
    by (simp add: can_campaign_def Let_def same_view_terms[OF sv] v)
qed

end

text \<open>
  C14. Progress of the election clock: a promotable node that is not the leader and hears nothing campaigns
  after exactly as many ticks as its election timeout has left, and the campaign does not panic: the
  node is then a candidate of the next term, has voted for itself, and has put a vote request in the
  mailbox for every other voter, with its last log position and its committed position. The hypothesis
  \<open>can_campaign\<close> says that the log is well formed over a sound storage, no configuration change waits
  to be applied, pre-votes are off, and the node is not a quorum of its own.
\<close>

theorem election_timeout_campaigns:
  assumes env: "log_storage E W" and c: "can_campaign W r" and p: "r_promotable r" and w: "0 < waiting r"
  shows "\<exists>r' lt ct. node_run E (replicate (waiting r) Clock) r = Some r' \<and> r_state r' = Candidate \<and>
    r_term r' = r_term r + 1 \<and> r_vote r' = r_id r \<and>
    log_term W (r_raft_log r) (log_last W (r_raft_log r)) = Some lt \<and> r_msgs r' = r_msgs r @
      map (vote_request r (r_term r + 1) (log_last W (r_raft_log r)) lt (rl_committed (r_raft_log r)) ct)
        (filter (\<lambda>i. i \<noteq> r_id r) (joint_ids (conf_voters (pt_conf (r_prs r)))))"
proof -
  let ?r = "r\<lparr>r_election_elapsed := 0\<rparr>"
  obtain lt ct where t: "log_term W (r_raft_log r) (log_last W (r_raft_log r)) = Some lt"
    "log_term W (r_raft_log r) (rl_committed (r_raft_log r)) = Some ct"
    using c by (auto simp: can_campaign_def Let_def)
  have v: "vote_request ?r = vote_request r" by (simp add: vote_request_def fun_eq_iff)
  have "node_run E (replicate (waiting r) Clock) r = hup E False ?r"
    using clock_at_timeout[OF _ p w, of E] c
    by (simp add: can_campaign_def Let_def step_ignore_def raft_step_def step_term_def step_role_def
        ok_step_def bind_map_option comp_def)
  moreover have "can_campaign W ?r" using c by (simp add: can_campaign_def)
  ultimately show ?thesis using log_storage.hup_eq[OF env, of ?r lt ct] t by (auto simp: v)
qed

lemma sample_three_can_campaign: "can_campaign mem_view sample_three"
proof -
  have "r_state sample_three \<noteq> Leader \<and> \<not> r_pre_vote sample_three \<and>
      r_min_election_timeout sample_three < r_max_election_timeout sample_three \<and>
      log_base mem_view (r_raft_log sample_three) \<le> rl_applied (r_raft_log sample_three)"
    "num_pending_conf (log_range mem_view (r_raft_log sample_three)
        (max (log_base mem_view (r_raft_log sample_three)) (rl_applied (r_raft_log sample_three)) + 1)
        (rl_committed (r_raft_log sample_three) + 1)) = 0"
    "log_term mem_view (r_raft_log sample_three) (log_last mem_view (r_raft_log sample_three)) \<noteq> None \<and>
      log_term mem_view (r_raft_log sample_three) (rl_committed (r_raft_log sample_three)) \<noteq> None"
    by code_simp+
  then show ?thesis
    using sample_three_log sample_three_voters sample_voters_good sample_voters_alone
    by (simp add: can_campaign_def Let_def)
qed

theorem election_timeout_campaigns_witness:
  "\<exists>r'. node_run sample_env (replicate 20 Clock) sample_three = Some r' \<and> r_state r' = Candidate \<and> r_term r' = 1"
proof -
  have w: "waiting sample_three = 20 \<and> r_promotable sample_three \<and> r_term sample_three = 0" by code_simp
  show ?thesis
    using election_timeout_campaigns[OF sample_env_storage sample_three_can_campaign] w by auto
qed

section \<open>Answering vote requests\<close>

text \<open>
  The rule of the protocol: a node grants its vote if it has not voted for someone else, knows of no
  leader, and the log of the candidate is at least as up to date as its own (last term first, then
  length); with equal logs the priority of the candidate must not be lower.
\<close>

definition vote_rule :: "'s store_view \<Rightarrow> 's raft \<Rightarrow> message \<Rightarrow> bool" where
  "vote_rule W r m \<longleftrightarrow> (let lg = r_raft_log r; li = log_last W lg in
     (r_vote r = m_from m \<or> r_vote r = INVALID_ID \<and> r_leader_id r = INVALID_ID) \<and>
     (case log_term W lg li of None \<Rightarrow> False
      | Some lt \<Rightarrow> m_log_term m > lt \<or> m_log_term m = lt \<and> m_index m \<ge> li) \<and>
     (m_index m > li \<or> r_priority r \<le> get_priority m))"

context log_storage
begin

lemma rl_is_up_to_date_eq:
  assumes "log_wf W lg" "log_term W lg (log_last W lg) = Some lt"
  shows "rl_is_up_to_date E lg i t = Some (t > lt \<or> t = lt \<and> i \<ge> log_last W lg)"
  using assms by (simp add: rl_is_up_to_date_def rl_last_term_eq rl_last_index_eq)

lemma become_follower_eq:
  assumes "log_wf W (r_raft_log r)" "r_min_election_timeout r < r_max_election_timeout r"
  shows "\<exists>r'. become_follower E t l r = Some r' \<and> renews E t r r' \<and> r_state r' = Follower \<and> r_leader_id r' = l"
proof -
  have "\<exists>r'. become_follower E t l r = Some r'"
    using raft_reset_eq[OF assms, of t] by (auto simp: become_follower_def)
  moreover have "outcome (\<lambda>r'. renews E t r r' \<and> r_state r' = Follower \<and> r_leader_id r' = l) (become_follower E t l r)"
    by (intro frames) auto
  ultimately show ?thesis by (auto dest: outcomeD)
qed

lemma maybe_commit_by_vote_eq:
  assumes wf: "log_wf W (r_raft_log r)" and mm: "r_min_election_timeout r < r_max_election_timeout r"
  shows "\<exists>r'. maybe_commit_by_vote E m r = Some r' \<and> r_msgs r' = r_msgs r \<and> r_vote r' = r_vote r
    \<and> r_term r' = r_term r"
proof -
  let ?lg = "r_raft_log r" and ?c = "rl_committed (r_raft_log r)"
  let ?lg' = "?lg\<lparr>rl_committed := m_commit m\<rparr>"
  show ?thesis
  proof (cases "m_commit m = 0 \<or> m_commit_term m = 0 \<or> m_commit m \<le> ?c \<or> r_state r = Leader
      \<or> log_term W ?lg (m_commit m) \<noteq> Some (m_commit_term m)")
    case True
    then show ?thesis
      using rl_maybe_commit_eq[OF wf, of "m_commit_term m" "m_commit m"]
      by (auto simp: maybe_commit_by_vote_def Let_def)
  next
    case False
    then have c: "rl_maybe_commit E (m_commit m) (m_commit_term m) ?lg = Some (True, ?lg')" "log_wf W ?lg'"
      using rl_maybe_commit_eq[OF wf, of "m_commit_term m" "m_commit m"] by auto
    then have rng: "log_base W ?lg' < ?c + 1" "?c + 1 \<le> m_commit m + 1" "m_commit m + 1 \<le> log_last W ?lg' + 1"
      using wf False by (auto simp: log_wf_def)
    obtain es s where s: "rl_slice E (?c + 1) (m_commit m + 1) None CommitByVote ?lg' = Some (Inr es, ?lg'\<lparr>rl_store := s\<rparr>)"
      "same_view W (rl_store ?lg') s"
      using rl_slice_eq[OF c(2) rng, of None CommitByVote] by auto
    obtain r' where "become_follower E (r_term r) INVALID_ID (set_log (?lg'\<lparr>rl_store := s\<rparr>) r) = Some r'"
      "renews E (r_term r) (set_log (?lg'\<lparr>rl_store := s\<rparr>) r) r'"
      using become_follower_eq[of "set_log (?lg'\<lparr>rl_store := s\<rparr>) r"] same_view_log(4)[OF s(2) c(2)] mm by auto
    then show ?thesis
      using False c s(1) by (auto simp: maybe_commit_by_vote_def Let_def unwrap_def renews_def)
  qed
qed

end

text \<open>
  C13. Voting: a node that receives a vote request of its own term answers with exactly one response, grants
  it exactly when the voting rule holds, and then has voted for the candidate; otherwise its vote is
  unchanged and the response is a rejection. The function does not panic.
\<close>

theorem vote_request_rule:
  assumes env: "log_storage E W" and wf: "log_wf W (r_raft_log r)"
    and m: "m_type m = MsgRequestVote" "m_term m = r_term r" "0 < r_term r"
    and mm: "r_min_election_timeout r < r_max_election_timeout r"
    and lt: "log_term W (r_raft_log r) (log_last W (r_raft_log r)) \<noteq> None"
    and ct: "log_term W (r_raft_log r) (rl_committed (r_raft_log r)) \<noteq> None"
  shows "\<exists>r' resp. raft_step E m r = Some (Inr (), r') \<and> r_msgs r' = r_msgs r @ [resp] \<and>
    m_type resp = MsgRequestVoteResponse \<and> m_to resp = m_from m \<and> m_term resp = r_term r \<and>
    r_term r' = r_term r \<and> (m_reject resp \<longleftrightarrow> \<not> vote_rule W r m) \<and>
    r_vote r' = (if vote_rule W r m then m_from m else r_vote r)"
proof -
  have st: "raft_step E m r = ok_step (step_vote_request E m r)"
    using m by (simp add: raft_step_def step_term_def step_role_def)
  obtain lt ct where t: "log_term W (r_raft_log r) (log_last W (r_raft_log r)) = Some lt"
    "log_term W (r_raft_log r) (rl_committed (r_raft_log r)) = Some ct" using lt ct by auto
  define can where "can \<longleftrightarrow> r_vote r = m_from m \<or> (r_vote r = INVALID_ID \<and> r_leader_id r = INVALID_ID)"
  have granted: "(if can then do {
                  up \<leftarrow> rl_is_up_to_date E (r_raft_log r) (m_index m) (m_log_term m);
                  if up then do {
                    li \<leftarrow> rl_last_index E (r_raft_log r);
                    Some (m_index m > li \<or> r_priority r \<le> get_priority m) }
                  else Some False }
                else Some False) = Some (vote_rule W r m)"
    using t by (auto simp: can_def vote_rule_def log_storage.rl_is_up_to_date_eq[OF env wf t(1)]
        log_storage.rl_last_index_eq[OF env wf])
  have ci: "rl_commit_info E (r_raft_log r) = Some (rl_committed (r_raft_log r), ct)"
    using t by (simp add: rl_commit_info_def log_storage.rl_term_eq[OF env wf] unwrap_def)
  show ?thesis
  proof (cases "vote_rule W r m")
    case True
    then show ?thesis
      using m granted unfolding st step_vote_request_def can_def
      by (simp add: vote_resp_msg_type_def raft_send_def core_send_def new_message_def is_vote_msg_def ok_step_def
          message_default_def INVALID_ID_def)
  next
    case False
    define resp where "resp = (new_message (m_from m) MsgRequestVoteResponse None)\<lparr>m_reject := True,
      m_term := r_term r, m_commit := rl_committed (r_raft_log r), m_commit_term := ct, m_from := r_id r\<rparr>"
    have snd: "raft_send ((new_message (m_from m) MsgRequestVoteResponse None)\<lparr>m_reject := True, m_term := r_term r,
        m_commit := rl_committed (r_raft_log r), m_commit_term := ct\<rparr>) r = Some (r\<lparr>r_msgs := r_msgs r @ [resp]\<rparr>)"
      using m(3) by (simp add: raft_send_def core_send_def new_message_def is_vote_msg_def resp_def
          message_default_def INVALID_ID_def)
    obtain r' where "maybe_commit_by_vote E m (r\<lparr>r_msgs := r_msgs r @ [resp]\<rparr>) = Some r'"
       "r_msgs r' = r_msgs r @ [resp]" "r_vote r' = r_vote r" "r_term r' = r_term r"
      using log_storage.maybe_commit_by_vote_eq[OF env, of "r\<lparr>r_msgs := r_msgs r @ [resp]\<rparr>" m] wf mm by auto
    then show ?thesis
      using m granted False ci snd unfolding st step_vote_request_def can_def
      by (auto simp: vote_resp_msg_type_def ok_step_def resp_def new_message_def)
  qed
qed

section \<open>Pre-votes\<close>

lemma step_vote_request_pre:
  assumes "m_type m = MsgRequestPreVote"
  shows "outcome (\<lambda>r'. r_term r' = r_term r \<and> r_vote r' = r_vote r) (step_vote_request E m r)"
proof -
  have q: "quiet r r1" if "raft_send m' r = Some r1" "m_type m' = MsgRequestPreVoteResponse" for r1 m'
    using outcomeD[OF raft_send_quiet that(1)] that(2) by simp
  show ?thesis
    unfolding step_vote_request_def Let_def using assms
    by (intro vcg maybe_commit_by_vote_frame outcome_any)
      (auto dest!: q simp: vote_resp_Some settles_def quiet_def renews_def)
qed

lemma step_term_pre:
  assumes "m_type m = MsgRequestPreVote"
  shows "outcome (\<lambda>x. (case x of Inl r' \<Rightarrow> quiet r r' | Inr r' \<Rightarrow> r' = r)) (step_term E m r)"
  unfolding step_term_def Let_def using assms by (intro vcg frames) (auto simp: new_message_def)

text \<open>
  A pre-vote request, of whatever term and from whomever, changes neither the term nor the vote of the
  node that receives it.
\<close>

theorem pre_vote_harmless:
  assumes "m_type m = MsgRequestPreVote" "raft_step E m r = Some (res, r')"
  shows "r_term r' = r_term r \<and> r_vote r' = r_vote r"
proof -
  obtain x where x: "step_term E m r = Some x"
    "(case x of Inl r1 \<Rightarrow> Some (Inr (), r1) | Inr r1 \<Rightarrow> step_role E m r1) = Some (res, r')"
    using assms(2) by (auto simp: raft_step_def bind_eq_Some_conv)
  show ?thesis
  proof (cases x)
    case (Inl r1)
    then show ?thesis using x outcomeD[OF step_term_pre[OF assms(1)] x(1)] by (simp add: quiet_def)
  next
    case (Inr r1)
    then have "step_vote_request E m r = Some r'"
      using x outcomeD[OF step_term_pre[OF assms(1)] x(1)] assms(1)
      by (auto simp: step_role_def ok_step_def)
    then show ?thesis using outcomeD[OF step_vote_request_pre[OF assms(1)]] by blast
  qed
qed

definition sample_heard :: "mem_storage raft" where
  "sample_heard = the (node_handle sample_env (Receive ((sample_msg MsgRequestVote 2 3)\<lparr>m_term := 5\<rparr>)) sample_three)"

lemma sample_heard_log:
  "log_wf mem_view (r_raft_log sample_heard)"
  "log_term mem_view (r_raft_log sample_heard) (log_last mem_view (r_raft_log sample_heard)) \<noteq> None"
  "log_term mem_view (r_raft_log sample_heard) (rl_committed (r_raft_log sample_heard)) \<noteq> None"
  by code_simp+

lemma sample_heard_eval:
  "r_term sample_heard = 5" "r_vote sample_heard = 2"
  "r_min_election_timeout sample_heard < r_max_election_timeout sample_heard"
  "vote_rule mem_view sample_heard ((sample_msg MsgRequestVote 2 3)\<lparr>m_term := 5\<rparr>)"
  "\<not> vote_rule mem_view sample_heard ((sample_msg MsgRequestVote 4 3)\<lparr>m_term := 5\<rparr>)"
  by code_simp+

theorem vote_request_rule_witness:
  "(\<exists>r' resp. raft_step sample_env ((sample_msg MsgRequestVote 2 3)\<lparr>m_term := 5\<rparr>) sample_heard = Some (Inr (), r') \<and>
     r_msgs r' = r_msgs sample_heard @ [resp] \<and> \<not> m_reject resp \<and> r_vote r' = 2) \<and>
   (\<exists>r' resp. raft_step sample_env ((sample_msg MsgRequestVote 4 3)\<lparr>m_term := 5\<rparr>) sample_heard = Some (Inr (), r') \<and>
     r_msgs r' = r_msgs sample_heard @ [resp] \<and> m_reject resp \<and> r_vote r' = 2)"
  using vote_request_rule[OF sample_env_storage sample_heard_log(1), of "(sample_msg MsgRequestVote 2 3)\<lparr>m_term := 5\<rparr>"]
    vote_request_rule[OF sample_env_storage sample_heard_log(1), of "(sample_msg MsgRequestVote 4 3)\<lparr>m_term := 5\<rparr>"]
    sample_heard_log(2,3) sample_heard_eval by (auto simp: sample_msg_def)

theorem pre_vote_harmless_witness:
  "\<exists>r'. raft_step sample_env ((sample_msg MsgRequestPreVote 4 3)\<lparr>m_term := 9\<rparr>) sample_heard = Some (Inr (), r') \<and>
     r_term r' = 5 \<and> r_vote r' = 2"
proof -
  have "map_option fst (raft_step sample_env ((sample_msg MsgRequestPreVote 4 3)\<lparr>m_term := 9\<rparr>) sample_heard) = Some (Inr ())"
    by code_simp
  then obtain r' where r': "raft_step sample_env ((sample_msg MsgRequestPreVote 4 3)\<lparr>m_term := 9\<rparr>) sample_heard
      = Some (Inr (), r')" by auto
  show ?thesis
    using pre_vote_harmless[OF _ r'] r' sample_heard_eval by (simp add: sample_msg_def)
qed

end
