(* ===== verification/Replication.thy ===== *)
theory Replication
  imports Node_Elections
begin

text \<open>
  The log of a leader and how it reaches the followers: the commit rule, proposals, the sending of
  entries with its flow control, and the acceptance of an append message by a follower whose log
  agrees with the leader's. The facts about a single log come from \<open>Raft_Log\<close>, those about the window
  of a peer from \<open>Progress\<close>.
\<close>

section \<open>The leader's log\<close>

text \<open>The index that a voter has acknowledged, 0 for a voter without progress.\<close>

definition matched :: "'s raft \<Rightarrow> nat \<Rightarrow> nat" where
  "matched r v = ai_index (acked (acked_index (pt_progress (r_prs r))) v)"

text \<open>
  C8. The commit rule of a leader (without group commit): \<open>maybe_commit\<close> never panics, looks at the
  largest index \<open>q\<close> that a quorum has acknowledged, and moves the committed index there exactly when
  it is larger and the entry at \<open>q\<close> is of the leader's own term; nothing else changes but the own
  progress. Entries of earlier terms are never committed by counting.
\<close>

theorem leader_commit_rule:
  assumes env: "log_storage E W" and wf: "log_wf W (r_raft_log r)" and t: "0 < r_term r"
    and conf: "conf_good (conf_voters (pt_conf (r_prs r)))" and g: "\<not> pt_group_commit (r_prs r)"
    and self: "tracker_get (r_prs r) (r_id r) = Some pr" and u64: "\<And>v. matched r v \<le> u64_max"
  shows "\<exists>q. (\<forall>i. i \<le> q \<longleftrightarrow> joint_quorum (conf_voters (pt_conf (r_prs r))) {v. i \<le> matched r v}) \<and>
    raft_maybe_commit E r =
      (if rl_committed (r_raft_log r) < q \<and> log_term W (r_raft_log r) q = Some (r_term r)
       then Some (True, put_pr (r_id r) (update_committed q pr) (set_log ((r_raft_log r)\<lparr>rl_committed := q\<rparr>) r))
       else Some (False, r)) \<and>
    (rl_committed (r_raft_log r) < q \<and> log_term W (r_raft_log r) q = Some (r_term r) \<longrightarrow>
       log_wf W ((r_raft_log r)\<lparr>rl_committed := q\<rparr>))"
proof -
  obtain q where q: "joint_committed_index (conf_voters (pt_conf (r_prs r))) False
      (acked_index (pt_progress (r_prs r))) = Some (q, False)"
    "\<And>i. i \<le> q \<longleftrightarrow> joint_quorum (conf_voters (pt_conf (r_prs r))) {v. i \<le> matched r v}"
    using joint_committed_index_eq[of "conf_voters (pt_conf (r_prs r))" "acked_index (pt_progress (r_prs r))"] conf u64
    by (auto simp: conf_good_def matched_def)
  have "maximal_committed_index (r_prs r) = Some (q, False)"
    using q(1) g by (simp add: maximal_committed_index_def)
  moreover note log_storage.rl_maybe_commit_eq[OF env wf t, of q]
  ultimately show ?thesis using q(2) self by (intro exI[of _ q]) (auto simp: raft_maybe_commit_def)
qed

section \<open>Proposals\<close>

lemma stamp_entries_numbered: "numbered (li + 1 + i) (stamp_entries t li i es)"
proof (induction es arbitrary: i)
  case (Cons e es)
  then show ?case using Cons.IH[of "Suc i"] by (simp add: numbered_Cons)
qed simp

lemma stamp_entries_length [simp]: "length (stamp_entries t li i es) = length es"
  by (induction es arbitrary: i) auto

lemma stamp_entries_nth:
  "k < length es \<Longrightarrow> stamp_entries t li i es ! k = (es ! k)\<lparr>e_term := t, e_index := li + 1 + i + k\<rparr>"
  by (induction es arbitrary: i k) (auto simp: nth_Cons split: nat.split)

text \<open>
  The limit on uncommitted data: an entry without data always fits, and so does any proposal when
  nothing is uncommitted.
\<close>

definition payload :: "entry list \<Rightarrow> nat" where
  "payload es = sum_list (map (\<lambda>e. length (e_data e)) es)"

definition room_for :: "entry list \<Rightarrow> uncommitted_state \<Rightarrow> bool" where
  "room_for es u \<longleftrightarrow> us_is_no_limit u \<or> payload es = 0 \<or> us_uncommitted_size u = 0 \<or>
     payload es + us_uncommitted_size u \<le> us_max_uncommitted_size u"

lemma us_maybe_increase_eq:
  "us_maybe_increase es u = (if room_for es u
     then (True, if us_is_no_limit u then u else u\<lparr>us_uncommitted_size := us_uncommitted_size u + payload es\<rparr>)
     else (False, u))"
  by (simp add: us_maybe_increase_def room_for_def payload_def Let_def)

lemma stamp_entries_eq:
  "stamp_entries t li 0 es = map (\<lambda>k. (es ! k)\<lparr>e_term := t, e_index := li + 1 + k\<rparr>) [0..<length es]"
  by (rule nth_equalityI) (simp_all add: stamp_entries_nth)

context log_storage
begin

lemma rl_append_stamped:
  assumes wf: "log_wf W lg"
  shows "\<exists>i lg'. rl_append E (stamp_entries t (log_last W lg) 0 es) lg = Some (i, lg') \<and> log_wf W lg' \<and>
    log_base W lg' = log_base W lg \<and> log_base_term W lg' = log_base_term W lg \<and> rl_committed lg' = rl_committed lg \<and>
    log_ents W lg' = log_ents W lg @ stamp_entries t (log_last W lg) 0 es"
proof (cases "es = []")
  case True
  then show ?thesis using wf by (simp add: rl_append_def rl_last_index_eq[OF wf])
next
  case False
  let ?new = "stamp_entries t (log_last W lg) 0 es"
  have le: "rl_committed lg < log_last W lg + 1" "rl_persisted lg \<le> log_last W lg"
    using wf log_wf_offset[OF wf] by (auto simp: log_wf_def)
  have "numbered (log_last W lg + 1) ?new" using stamp_entries_numbered[of "log_last W lg" 0] by simp
  moreover have "?new \<noteq> []" using False stamp_entries_length by (metis length_0_conv)
  ultimately have num: "numbered (log_last W lg + 1) ?new" "?new \<noteq> []" .
  obtain i lg' where lg': "rl_append E ?new lg = Some (i, lg')" "rl_committed lg' = rl_committed lg"
    "rl_persisted lg' = rl_persisted lg" "log_base W lg' = log_base W lg" "log_base_term W lg' = log_base_term W lg"
    "log_ents W lg' = log_ents W lg @ ?new"
    "log_wf W (lg'\<lparr>rl_persisted := min (rl_persisted lg) (log_last W lg)\<rparr>)"
    using rl_append_eq[OF wf num le(1)] by (auto simp: log_last_def)
  have "lg'\<lparr>rl_persisted := min (rl_persisted lg) (log_last W lg)\<rparr> = lg'" using le(2) lg'(3) by simp
  then show ?thesis using lg' by auto
qed

end

text \<open>
  C26. Appending proposals: within the limit on uncommitted data the leader's log is extended by the entries,
  stamped with the current term and consecutive indexes, and stays well formed; over the limit the
  proposal is refused and nothing changes.
\<close>

theorem append_entry_spec:
  assumes env: "log_storage E W" and wf: "log_wf W (r_raft_log r)"
  shows "if room_for es (r_uncommitted_state r)
    then \<exists>lg u. append_entry E es r = Some (True, r\<lparr>r_uncommitted_state := u, r_raft_log := lg\<rparr>) \<and> log_wf W lg \<and>
      log_base W lg = log_base W (r_raft_log r) \<and> rl_committed lg = rl_committed (r_raft_log r) \<and>
      log_ents W lg = log_ents W (r_raft_log r) @
        map (\<lambda>k. (es ! k)\<lparr>e_term := r_term r, e_index := log_last W (r_raft_log r) + 1 + k\<rparr>) [0..<length es] \<and>
      (us_is_no_limit u \<or> us_uncommitted_size u = us_uncommitted_size (r_uncommitted_state r) + payload es)
    else append_entry E es r = Some (False, r)"
proof (cases "room_for es (r_uncommitted_state r)")
  case True
  let ?lg = "r_raft_log r"
  obtain u where u: "us_maybe_increase es (r_uncommitted_state r) = (True, u)"
    "us_is_no_limit u \<or> us_uncommitted_size u = us_uncommitted_size (r_uncommitted_state r) + payload es"
    using True by (simp add: us_maybe_increase_eq)
  obtain i lg where lg: "rl_append E (stamp_entries (r_term r) (log_last W ?lg) 0 es) ?lg = Some (i, lg)"
    "log_wf W lg" "log_base W lg = log_base W ?lg" "rl_committed lg = rl_committed ?lg"
    "log_ents W lg = log_ents W ?lg @ stamp_entries (r_term r) (log_last W ?lg) 0 es"
    using log_storage.rl_append_stamped[OF env wf] by blast
  have "append_entry E es r = Some (True, r\<lparr>r_uncommitted_state := u, r_raft_log := lg\<rparr>)"
    using u(1) lg(1) by (simp add: append_entry_def raft_maybe_increase_uncommitted_size_def
        log_storage.rl_last_index_eq[OF env wf])
  then show ?thesis
    using True u(2) lg(2-5) unfolding stamp_entries_eq
    by (intro iffD2[OF if_P] exI[of _ lg] exI[of _ u]) auto
next
  case False
  then show ?thesis
    by (simp add: append_entry_def raft_maybe_increase_uncommitted_size_def us_maybe_increase_eq)
qed

definition is_conf_change :: "entry \<Rightarrow> bool" where
  "is_conf_change e \<longleftrightarrow> e_type e = EntryConfChange \<or> e_type e = EntryConfChangeV2"

lemma num_pending_conf_simps [simp]:
  "num_pending_conf [] = 0"
  "num_pending_conf (e # es) = (if is_conf_change e then Suc (num_pending_conf es) else num_pending_conf es)"
  by (simp_all add: num_pending_conf_def is_conf_change_def)

lemma read_conf_change_normal:
  "read_conf_change E e = Inr cco \<Longrightarrow> is_conf_change e \<longleftrightarrow> cco \<noteq> None"
  by (cases "e_type e") (auto simp: read_conf_change_def is_conf_change_def split: sum.splits)

context log_storage
begin

lemma has_pending_conf_accept:
  assumes "log_wf W (r_raft_log r)"
  shows "has_pending_conf (r\<lparr>r_pending_conf_index := log_last W (r_raft_log r) + i + 1\<rparr>)"
  using assms by (simp add: has_pending_conf_def log_wf_def)

lemma conf_change_reason_pending: "conf_change_reason r cc = [] \<Longrightarrow> \<not> has_pending_conf r"
  by (auto simp: conf_change_reason_def)

lemma propose_entries_one:
  assumes "log_wf W (r_raft_log r)" "propose_entries E i es r = Some (Inr es', r')"
  shows "length es' = length es \<and> num_pending_conf es' \<le> 1 \<and> (has_pending_conf r \<longrightarrow> num_pending_conf es' = 0) \<and>
    (num_pending_conf es' = 0 \<longrightarrow> r' = r) \<and>
    (\<forall>k < length es. es' ! k = es ! k \<or> is_conf_change (es ! k) \<and> es' ! k = entry_default) \<and>
    (\<forall>k < length es. is_conf_change (es' ! k) \<longrightarrow>
       r_pending_conf_index r' = log_last W (r_raft_log r) + i + k + 1)"
  using assms
proof (induction es arbitrary: i es' r)
  case (Cons e es)
  obtain cco where cco: "read_conf_change E e = Inr cco"
    using Cons.prems(2) by (auto split: sum.splits)
  note isc = read_conf_change_normal[OF cco]
  have lastr: "rl_last_index E (r_raft_log r) = Some (log_last W (r_raft_log r))"
    by (rule rl_last_index_eq[OF Cons.prems(1)])
  define acc where "acc \<longleftrightarrow> (\<exists>cc. cco = Some cc \<and> conf_change_reason r cc = [])"
  define e1 where "e1 = (if cco = None \<or> acc then e else entry_default)"
  define r1 where "r1 = (if acc then r\<lparr>r_pending_conf_index := log_last W (r_raft_log r) + i + 1\<rparr> else r)"
  have "propose_entries E i (e # es) r = do {
      (res, r2) \<leftarrow> propose_entries E (Suc i) es r1;
      Some (case res of Inl err \<Rightarrow> Inl err | Inr es1 \<Rightarrow> Inr (e1 # es1), r2) }"
    using lastr by (auto simp: cco acc_def e1_def r1_def entry_default_def cong: sum.case_cong split: option.splits)
  then obtain es1 where es1: "es' = e1 # es1" "propose_entries E (Suc i) es r1 = Some (Inr es1, r')"
    using Cons.prems(2) by (auto simp: bind_eq_Some_conv split: sum.splits)
  have wf1: "log_wf W (r_raft_log r1)" and lg1: "r_raft_log r1 = r_raft_log r"
    using Cons.prems(1) by (simp_all add: r1_def)
  note IH = Cons.IH[OF wf1 es1(2)]
  have acc0: "num_pending_conf es1 = 0 \<and> r' = r1 \<and> \<not> has_pending_conf r \<and> is_conf_change e" if acc
    using that IH has_pending_conf_accept[OF Cons.prems(1), of i] isc conf_change_reason_pending
    by (auto simp: r1_def acc_def)
  show ?case
  proof (cases acc)
    case True
    have none: "\<not> is_conf_change (es1 ! k)" if "k < length es" for k
      using acc0[OF True] IH that nth_mem[of k es1]
      by (simp add: num_pending_conf_def is_conf_change_def filter_empty_conv)
    show ?thesis
      using True IH acc0[OF True] none unfolding es1(1)
      by (auto simp: e1_def r1_def nth_Cons less_Suc_eq_0_disj split: nat.splits)
  next
    case False
    have "\<not> is_conf_change e1" using False isc by (auto simp: e1_def entry_default_def is_conf_change_def)
    then show ?thesis
      using False IH isc unfolding es1(1) by (auto simp: e1_def r1_def less_Suc_eq_0_disj)
  qed
qed simp
end

lemma propose_entries_log: "outcome (\<lambda>(res, r'). r_raft_log r' = r_raft_log r) (propose_entries E i es r)"
proof (induction es arbitrary: i r)
  case (Cons e es)
  show ?case
    unfolding propose_entries.simps
    by (intro vcg outcome_any) (auto dest!: outcomeD[OF Cons.IH] split: option.splits if_splits)
qed simp

text \<open>
  C27. A proposal brings at most one configuration change into the log, and none while an earlier one may be
  unapplied: the others are replaced by empty entries, and the index of the accepted one is recorded
  as pending.
\<close>

theorem propose_one_conf_change:
  assumes "log_storage E W" "log_wf W (r_raft_log r)" "propose_entries E 0 es r = Some (Inr es', r')"
  shows "length es' = length es \<and> num_pending_conf es' \<le> 1 \<and> (has_pending_conf r \<longrightarrow> num_pending_conf es' = 0) \<and>
    (\<forall>k < length es. es' ! k = es ! k \<or> is_conf_change (es ! k) \<and> es' ! k = entry_default) \<and>
    (\<forall>k < length es. is_conf_change (es' ! k) \<longrightarrow>
       r_pending_conf_index r' = log_last W (r_raft_log r) + k + 1 \<and> has_pending_conf r')"
proof -
  note p = log_storage.propose_entries_one[OF assms]
  have "r_raft_log r' = r_raft_log r" using outcomeD[OF propose_entries_log assms(3)] by simp
  then show ?thesis
    using p assms(2) by (auto simp: has_pending_conf_def log_wf_def)
qed

section \<open>Sending entries\<close>

lemma try_batching_some:
  assumes "ents \<noteq> []" "update_state (e_index (last ents)) pr = Some pr'"
  shows "\<exists>b ms'. try_batching c to pr ents ms = Some (b, ms', if b then pr' else pr, if b then [] else ents) \<and>
    (\<not> b \<longrightarrow> ms' = ms)"
proof (induction ms)
  case (Cons m ms)
  then obtain b ms' where b: "try_batching c to pr ents ms = Some (b, ms', if b then pr' else pr, if b then [] else ents)"
    "\<not> b \<longrightarrow> ms' = ms" by blast
  have l: "last (m_entries m @ ents) = last ents" using assms(1) by simp
  show ?case
  proof (cases "m_type m = MsgAppend \<and> m_to m = to")
    case True
    then show ?thesis
      using assms l by (cases "is_continuous_ents m ents") (auto intro: exI[of _ True] exI[of _ False])
  next
    case False
    then show ?thesis using b by (intro exI[of _ b] exI[of _ "m # ms'"]) auto
  qed
qed (auto intro: exI[of _ False])

lemma try_batching_none:
  "\<exists>b ms'. try_batching c to pr [] ms = Some (b, ms', pr, []) \<and> (\<not> b \<longrightarrow> ms' = ms)"
  by (induction ms) auto

text \<open>The append message for the entries \<open>es\<close> from the next index of a peer on.\<close>

definition append_message :: "'s raft \<Rightarrow> nat \<Rightarrow> nat \<Rightarrow> nat \<Rightarrow> entry list \<Rightarrow> message" where
  "append_message r to prev t es = message_default\<lparr>m_type := MsgAppend, m_to := to, m_from := r_id r,
     m_term := r_term r, m_index := prev, m_log_term := t, m_entries := es,
     m_commit := rl_committed (r_raft_log r)\<rparr>"

lemma core_send_append_message:
  "core_send r (message_default\<lparr>m_to := to, m_type := MsgAppend, m_index := prev, m_log_term := t, m_entries := es,
      m_commit := rl_committed (r_raft_log r)\<rparr>) ms = Some (ms @ [append_message r to prev t es])"
  by (simp add: core_send_def append_message_def message_default_def is_vote_msg_def INVALID_ID_def)

text \<open>What a leader needs to send entries to a peer: the previous position is still in its log.\<close>

definition sendable :: "'s store_view \<Rightarrow> 's raft \<Rightarrow> progress \<Rightarrow> bool" where
  "sendable W r pr \<longleftrightarrow> (let lg = r_raft_log r in log_wf W lg \<and> progress_wf pr \<and>
     pr_pending_request_snapshot pr = INVALID_INDEX \<and> log_base W lg < pr_next_idx pr \<and>
     pr_next_idx pr \<le> log_last W lg + 1 \<and> log_base_term W lg \<noteq> None)"

definition unsent :: "'s env \<Rightarrow> 's store_view \<Rightarrow> 's raft \<Rightarrow> progress \<Rightarrow> entry list" where
  "unsent E W r pr = limit_size (env_compute_size E)
     (log_range W (r_raft_log r) (pr_next_idx pr) (log_last W (r_raft_log r) + 1)) (Some (r_max_msg_size r))"

context log_storage
begin

lemma rl_entries_eq:
  assumes wf: "log_wf W lg" and i: "log_base W lg < i" "i \<le> log_last W lg + 1"
  shows "\<exists>x s. rl_entries E i mx ctx lg = Some (x, lg\<lparr>rl_store := s\<rparr>) \<and> same_view W (rl_store lg) s \<and>
    (x = Inr (limit_size (env_compute_size E) (log_range W lg i (log_last W lg + 1)) mx) \<or>
     x = Inl (Store LogTemporarilyUnavailable) \<and> can_async ctx)"
proof (cases "log_last W lg < i")
  case True
  have "same_view W (rl_store lg) (rl_store lg)" using wf by (simp add: same_view_def log_wf_def)
  then show ?thesis
    using True i by (intro exI[of _ "Inr []"] exI[of _ "rl_store lg"])
      (auto simp: rl_entries_def rl_last_index_eq[OF wf] log_range_def limit_size_def)
next
  case False
  then show ?thesis
    using rl_slice_eq[OF wf i(1), of "log_last W lg + 1" mx ctx]
    by (auto simp: rl_entries_def rl_last_index_eq[OF wf])
qed

lemma unsent_prefix:
  assumes "sendable W r pr"
  shows "numbered (pr_next_idx pr) (unsent E W r pr)"
    "pr_next_idx pr + length (unsent E W r pr) \<le> log_last W (r_raft_log r) + 1"
    "unsent E W r pr = [] \<longleftrightarrow> pr_next_idx pr = log_last W (r_raft_log r) + 1"
    "j < length (unsent E W r pr) \<Longrightarrow>
       log_term W (r_raft_log r) (pr_next_idx pr + j) = Some (e_term (unsent E W r pr ! j))"
proof -
  let ?lg = "r_raft_log r" and ?n = "pr_next_idx pr"
  let ?R = "log_range W ?lg ?n (log_last W ?lg + 1)"
  have wf: "log_wf W ?lg" and n: "log_base W ?lg < ?n" "?n \<le> log_last W ?lg + 1"
    using assms by (auto simp: sendable_def Let_def)
  have R: "?R = drop (?n - log_base W ?lg - 1) (log_ents W ?lg)"
    using n by (simp add: log_range_def log_last_def)
  obtain k where k: "unsent E W r pr = take k ?R" "?R \<noteq> [] \<longrightarrow> 0 < k"
    using limit_size_prefix unfolding unsent_def by blast
  have "log_base W ?lg + 1 + (?n - log_base W ?lg - 1) = ?n" using n by simp
  then have "numbered ?n ?R" using numbered_drop[OF log_numbered[OF wf], of "?n - log_base W ?lg - 1"] R by metis
  then show "numbered ?n (unsent E W r pr)" by (simp add: k(1) numbered_take)
  have len: "length ?R = log_last W ?lg + 1 - ?n" using n unfolding R by (simp add: log_last_def)
  then show "?n + length (unsent E W r pr) \<le> log_last W ?lg + 1" using n by (simp add: k(1))
  show "unsent E W r pr = [] \<longleftrightarrow> ?n = log_last W ?lg + 1"
    using len n by (auto simp: unsent_def simp flip: length_0_conv[of ?R])
  show "log_term W ?lg (?n + j) = Some (e_term (unsent E W r pr ! j))" if "j < length (unsent E W r pr)" for j
    using that n len unfolding k(1) R by (auto simp: log_term_def)
qed

lemma prev_term:
  assumes "sendable W r pr"
  shows "\<exists>t. log_term W (r_raft_log r) (pr_next_idx pr - 1) = Some t"
  using assms by (auto simp: sendable_def Let_def log_term_def)

lemma send_entries_eq:
  assumes s: "sendable W r pr" and np: "\<not> is_paused pr"
    and es: "es = unsent E W r pr" and lg: "rl_committed (r_raft_log r1) = rl_committed (r_raft_log r)"
      "r_id r1 = r_id r" "r_term r1 = r_term r"
  shows "\<exists>pr' ms'. do {
       (b, msgs1, pr1, es1) \<leftarrow> (if batch then try_batching c to pr es ms else Some (False, ms, pr, es));
       if b then Some (True, pr1, msgs1, r1)
       else do {
         (m1, pr2) \<leftarrow> prepare_send_entries r1 (message_default\<lparr>m_to := to\<rparr>) pr1 t es1;
         msgs2 \<leftarrow> core_send r1 m1 msgs1;
         Some (True, pr2, msgs2, r1) } } = Some (True, pr', ms', r1) \<and>
    (if es = [] then pr' = pr else update_state (e_index (last es)) pr = Some pr') \<and>
    (\<not> batch \<longrightarrow> ms' = ms @ [append_message r to (pr_next_idx pr - 1) t es])"
proof -
  have wf: "progress_wf pr" using s by (simp add: sendable_def Let_def)
  have next1: "Suc 0 \<le> pr_next_idx pr" using wf by (simp add: progress_wf_def)
  note u = unsent_prefix[OF s, folded es]
  have am: "append_message r1 = append_message r" using lg by (simp add: append_message_def fun_eq_iff)
  have prep: "\<exists>pr'. prepare_send_entries r1 (message_default\<lparr>m_to := to\<rparr>) pr t es =
      Some (message_default\<lparr>m_to := to, m_type := MsgAppend, m_index := pr_next_idx pr - 1, m_log_term := t,
        m_entries := es, m_commit := rl_committed (r_raft_log r1)\<rparr>, pr') \<and>
      (if es = [] then pr' = pr else update_state (e_index (last es)) pr = Some pr')"
    if "es = [] \<or> update_state (e_index (last es)) pr = Some p" for p
    using that next1 by (cases "es = []") (auto simp: prepare_send_entries_def usub_def)
  obtain p where p: "es = [] \<or> update_state (e_index (last es)) pr = Some p"
    using update_state_ok[OF wf np, of "e_index (last es)"] numbered_last[OF u(1)] next1
    by (cases es) auto
  obtain pr' where pr': "prepare_send_entries r1 (message_default\<lparr>m_to := to\<rparr>) pr t es =
      Some (message_default\<lparr>m_to := to, m_type := MsgAppend, m_index := pr_next_idx pr - 1, m_log_term := t,
        m_entries := es, m_commit := rl_committed (r_raft_log r1)\<rparr>, pr')"
      "if es = [] then pr' = pr else update_state (e_index (last es)) pr = Some pr'"
    using prep[OF p] by blast
  show ?thesis
  proof (cases batch)
    case False
    then show ?thesis using pr' by (simp add: core_send_append_message am)
  next
    case True
    obtain b ms' where b: "try_batching c to pr es ms = Some (b, ms', if b then pr' else pr, if b then [] else es)"
      using try_batching_some[of es pr pr' c to ms] try_batching_none[of c to pr ms] pr'(2)
      by (cases "es = []") (fastforce split: if_splits)+
    then show ?thesis using True pr' by (cases b) (auto simp: core_send_append_message)
  qed
qed

lemma maybe_send_append_eq:
  assumes s: "sendable W r pr" and np: "\<not> is_paused pr"
    and t: "log_term W (r_raft_log r) (pr_next_idx pr - 1) = Some t" and es: "es = unsent E W r pr"
  shows "\<exists>st. same_view W (rl_store (r_raft_log r)) st \<and>
    (let r1 = set_log ((r_raft_log r)\<lparr>rl_store := st\<rparr>) r in
      maybe_send_append E to ae pr ms r = Some (False, pr, ms, r1) \<or>
      (es \<noteq> [] \<or> ae) \<and> (\<exists>pr' ms'. maybe_send_append E to ae pr ms r = Some (True, pr', ms', r1) \<and>
        (es = [] \<longrightarrow> pr' = pr) \<and> (es \<noteq> [] \<longrightarrow> update_state (e_index (last es)) pr = Some pr') \<and>
        (\<not> r_batch_append r \<longrightarrow> ms' = ms @ [append_message r to (pr_next_idx pr - 1) t es])))"
proof -
  let ?lg = "r_raft_log r"
  have wf: "log_wf W ?lg" and n: "log_base W ?lg < pr_next_idx pr" "pr_next_idx pr \<le> log_last W ?lg + 1"
    and ps: "pr_pending_request_snapshot pr = INVALID_INDEX"
    using s by (auto simp: sendable_def Let_def)
  obtain x st where x: "rl_entries E (pr_next_idx pr) (Some (r_max_msg_size r)) (SendAppend to (r_term r) (\<not> ae)) ?lg
      = Some (x, ?lg\<lparr>rl_store := st\<rparr>)" and sv: "same_view W (rl_store ?lg) st"
    and xs: "x = Inr es \<or> x = Inl (Store LogTemporarilyUnavailable)"
    using rl_entries_eq[OF wf n, of "Some (r_max_msg_size r)" "SendAppend to (r_term r) (\<not> ae)"]
    by (auto simp: es unsent_def)
  let ?r1 = "set_log (?lg\<lparr>rl_store := st\<rparr>) r"
  have term1: "rl_term E (?lg\<lparr>rl_store := st\<rparr>) (pr_next_idx pr - 1) = Some (Inr t)"
    using t rl_term_eq[OF same_view_log(4)[OF sv wf]] by (simp add: same_view_terms[OF sv])
  have prev: "usub (pr_next_idx pr) (Suc 0) = Some (pr_next_idx pr - Suc 0)" using n by simp
  obtain pr' ms' where snd: "do {
       (b, msgs1, pr1, es1) \<leftarrow> (if r_batch_append ?r1 then try_batching (rl_committed (r_raft_log ?r1)) to pr es ms
          else Some (False, ms, pr, es));
       if b then Some (True, pr1, msgs1, ?r1)
       else do {
         (m1, pr2) \<leftarrow> prepare_send_entries ?r1 (message_default\<lparr>m_to := to\<rparr>) pr1 t es1;
         msgs2 \<leftarrow> core_send ?r1 m1 msgs1;
         Some (True, pr2, msgs2, ?r1) } } = Some (True, pr', ms', ?r1)"
    "if es = [] then pr' = pr else update_state (e_index (last es)) pr = Some pr'"
    "\<not> r_batch_append r \<longrightarrow> ms' = ms @ [append_message r to (pr_next_idx pr - 1) t es]"
    using send_entries_eq[OF s np es, of ?r1 "r_batch_append r" "rl_committed (r_raft_log ?r1)" to ms t] by auto
  have "maybe_send_append E to ae pr ms r = Some (False, pr, ms, ?r1) \<or>
      (es \<noteq> [] \<or> ae) \<and> maybe_send_append E to ae pr ms r = Some (True, pr', ms', ?r1)"
    using xs
  proof
    assume "x = Inr es"
    then show ?thesis
      using np ps x term1 snd(1) by (cases "\<not> ae \<and> es = []") (auto simp: maybe_send_append_def Let_def prev)
  next
    assume "x = Inl (Store LogTemporarilyUnavailable)"
    then show ?thesis
      using np ps x term1 by (cases ae) (auto simp: maybe_send_append_def Let_def prev)
  qed
  moreover have "es = [] \<longrightarrow> pr' = pr" "es \<noteq> [] \<longrightarrow> update_state (e_index (last es)) pr = Some pr'"
    using snd(2) by auto
  ultimately show ?thesis using sv snd(3) unfolding Let_def by blast
qed

lemma sendable_view:
  assumes "same_view W (rl_store (r_raft_log r)) st" "sendable W r pr"
  shows "sendable W (set_log ((r_raft_log r)\<lparr>rl_store := st\<rparr>) r) pr"
  using assms same_view_log[OF assms(1)] same_view_terms[OF assms(1)] by (simp add: sendable_def Let_def)

lemma sent_progress:
  assumes s: "sendable W r pr" and np: "\<not> is_paused pr" and es: "es = unsent E W r pr" "es \<noteq> []"
    and u: "update_state (e_index (last es)) pr = Some pr'"
  shows "sendable W r pr' \<and> pr_next_idx pr \<le> pr_next_idx pr' \<and>
    (is_paused pr' \<or> pr_next_idx pr < pr_next_idx pr')"
proof -
  note x = unsent_prefix[OF s, folded es(1)]
  have n: "1 \<le> pr_next_idx pr" "progress_wf pr" using s by (auto simp: sendable_def Let_def progress_wf_def)
  have l: "e_index (last es) = pr_next_idx pr + length es - 1" by (rule numbered_last[OF x(1) es(2)])
  have pos: "0 < length es" using es(2) by simp
  have "pr_next_idx pr \<le> e_index (last es)" using l pos by linarith
  then have "progress_wf pr'" using update_state_ok[OF n(2) np] u by force
  moreover have "pr_state pr = Probe \<and> pr' = progress_pause pr \<or>
      (\<exists>ins. pr' = pr\<lparr>pr_next_idx := pr_next_idx pr + length es, pr_ins := ins\<rparr>)"
    using u l pos n(1)
    by (cases "pr_state pr") (auto simp: update_state_def optimistic_update_def bind_eq_Some_conv)
  ultimately show ?thesis
    using s x(2) pos by (auto simp: sendable_def Let_def is_paused_def progress_pause_def)
qed

lemma send_aggressively_ends:
  assumes "sendable W r pr"
  shows "\<exists>pr' ms' st. core_send_append_aggressively E to pr ms r =
      Some (pr', ms', set_log ((r_raft_log r)\<lparr>rl_store := st\<rparr>) r) \<and> same_view W (rl_store (r_raft_log r)) st \<and>
    sendable W r pr' \<and> pr_next_idx pr \<le> pr_next_idx pr'"
  using assms
proof (induction "2 * (log_last W (r_raft_log r) + 1 - pr_next_idx pr) + (if is_paused pr then 0 else 1)"
    arbitrary: pr ms r rule: less_induct)
  case less
  let ?lg = "r_raft_log r"
  have self: "?lg\<lparr>rl_store := rl_store ?lg\<rparr> = ?lg" "same_view W (rl_store ?lg) (rl_store ?lg)"
    using less.prems by (auto simp: sendable_def Let_def same_view_def log_wf_def)
  show ?case
  proof (cases "is_paused pr")
    case True
    then show ?thesis
      using less.prems self by (subst core_send_append_aggressively.simps)
        (auto simp: maybe_send_append_def intro!: exI[of _ "rl_store ?lg"])
  next
    case False
    obtain t where t: "log_term W ?lg (pr_next_idx pr - 1) = Some t" using prev_term[OF less.prems] by blast
    let ?es = "unsent E W r pr"
    obtain st where st: "same_view W (rl_store ?lg) st" and
      m: "maybe_send_append E to False pr ms r = Some (False, pr, ms, set_log (?lg\<lparr>rl_store := st\<rparr>) r) \<or>
        ?es \<noteq> [] \<and> (\<exists>pr' ms'. maybe_send_append E to False pr ms r = Some (True, pr', ms', set_log (?lg\<lparr>rl_store := st\<rparr>) r) \<and>
          update_state (e_index (last ?es)) pr = Some pr')"
      using maybe_send_append_eq[OF less.prems False t refl, of to False ms] unfolding Let_def by blast
    let ?r = "set_log (?lg\<lparr>rl_store := st\<rparr>) r"
    show ?thesis
      using m
    proof
      assume "maybe_send_append E to False pr ms r = Some (False, pr, ms, ?r)"
      then show ?thesis
        using st less.prems by (subst core_send_append_aggressively.simps) (auto intro!: exI[of _ st])
    next
      assume "?es \<noteq> [] \<and> (\<exists>pr' ms'. maybe_send_append E to False pr ms r = Some (True, pr', ms', ?r) \<and>
          update_state (e_index (last ?es)) pr = Some pr')"
      then obtain p ms1 where p: "?es \<noteq> []" "maybe_send_append E to False pr ms r = Some (True, p, ms1, ?r)"
        "update_state (e_index (last ?es)) pr = Some p" by blast
      note q = sent_progress[OF less.prems False refl p(1,3)]
      have ls: "log_last W (r_raft_log ?r) = log_last W ?lg" using same_view_terms(1)[OF st] by simp
      have "pr_next_idx p \<le> log_last W ?lg + 1" using q by (simp add: sendable_def Let_def)
      then have "2 * (log_last W (r_raft_log ?r) + 1 - pr_next_idx p) + (if is_paused p then 0 else 1)
          < 2 * (log_last W ?lg + 1 - pr_next_idx pr) + (if is_paused pr then 0 else 1)"
        using q False unfolding ls by auto
      from less.hyps[OF this sendable_view[OF st], of ms1] q obtain pr' ms' st' where
        i: "core_send_append_aggressively E to p ms1 ?r = Some (pr', ms', set_log (?lg\<lparr>rl_store := st'\<rparr>) r)"
          "same_view W st st'" "sendable W ?r pr'" "pr_next_idx p \<le> pr_next_idx pr'"
        by auto
      have "same_view W (rl_store ?lg) st'" "same_view W (rl_store (r_raft_log ?r)) (rl_store ?lg)"
        using st i(2) self(2) by (auto simp: same_view_def)
      moreover have "sendable W r pr'"
        using sendable_view[OF calculation(2) i(3)] by simp
      ultimately show ?thesis
        using p(2) i q by (subst core_send_append_aggressively.simps) (auto intro!: exI[of _ st'])
    qed
  qed
qed

end


section \<open>From leader to follower\<close>

context log_storage
begin

text \<open>An append message that matches the log of the receiver.\<close>

lemma rl_maybe_append_match:
  assumes wf: "log_wf W lg" and m: "log_term W lg idx = Some t" and idx: "idx \<le> log_last W lg"
    and com: "rl_committed lg \<le> idx" and num: "numbered (Suc idx) ents" and pos: "\<forall>e \<in> set ents. 0 < e_term e"
  shows "\<exists>ci lg'. rl_maybe_append E idx t cm ents lg = Some (Some (ci, idx + length ents), lg') \<and> log_wf W lg' \<and>
    rl_committed lg' = max (rl_committed lg) (min cm (idx + length ents)) \<and>
    (\<forall>j < length ents. log_term W lg' (Suc idx + j) = Some (e_term (ents ! j)))"
proof (cases "find (\<lambda>e. log_term W lg (e_index e) \<noteq> Some (e_term e)) ents")
  case None
  then show ?thesis using rl_maybe_append_no_conflict[OF wf m idx num pos None, of cm] by auto
next
  case (Some e)
  then show ?thesis using rl_maybe_append_conflict[OF wf m idx com num pos Some, of cm] by blast
qed

lemma handle_append_entries_match:
  assumes wf: "log_wf W (r_raft_log r)" and np: "r_pending_request_snapshot r = INVALID_INDEX"
    and m: "log_term W (r_raft_log r) (m_index m) = Some (m_log_term m)" "m_index m \<le> log_last W (r_raft_log r)"
      "rl_committed (r_raft_log r) \<le> m_index m" "numbered (Suc (m_index m)) (m_entries m)"
      "\<forall>e \<in> set (m_entries m). 0 < e_term e"
  shows "\<exists>lg resp. handle_append_entries E m r = Some (r\<lparr>r_raft_log := lg, r_msgs := r_msgs r @ [resp]\<rparr>) \<and> log_wf W lg \<and>
    m_type resp = MsgAppendResponse \<and> \<not> m_reject resp \<and> m_to resp = m_from m \<and> m_term resp = r_term r \<and>
    m_index resp = m_index m + length (m_entries m) \<and> m_commit resp = rl_committed lg \<and>
    rl_committed lg = max (rl_committed (r_raft_log r)) (min (m_commit m) (m_index m + length (m_entries m))) \<and>
    (\<forall>j < length (m_entries m). log_term W lg (Suc (m_index m) + j) = Some (e_term (m_entries m ! j)))"
proof -
  obtain ci lg where lg: "rl_maybe_append E (m_index m) (m_log_term m) (m_commit m) (m_entries m) (r_raft_log r) =
      Some (Some (ci, m_index m + length (m_entries m)), lg)" "log_wf W lg"
      "rl_committed lg = max (rl_committed (r_raft_log r)) (min (m_commit m) (m_index m + length (m_entries m)))"
      "\<forall>j < length (m_entries m). log_term W lg (Suc (m_index m) + j) = Some (e_term (m_entries m ! j))"
    using rl_maybe_append_match[OF wf m] by blast
  define resp where "resp = message_default\<lparr>m_to := m_from m, m_type := MsgAppendResponse,
      m_index := m_index m + length (m_entries m), m_commit := rl_committed lg, m_from := r_id r, m_term := r_term r\<rparr>"
  have "handle_append_entries E m r = Some (r\<lparr>r_raft_log := lg, r_msgs := r_msgs r @ [resp]\<rparr>)"
    using np m(3) lg(1) by (simp add: handle_append_entries_def raft_send_def core_send_def is_vote_msg_def
        resp_def message_default_def INVALID_ID_def)
  moreover have "m_type resp = MsgAppendResponse" "\<not> m_reject resp" "m_to resp = m_from m" "m_term resp = r_term r"
    "m_index resp = m_index m + length (m_entries m)" "m_commit resp = rl_committed lg"
    by (simp_all add: resp_def message_default_def)
  ultimately show ?thesis using lg(2-4) by blast
qed

end


section \<open>A leader with one entry\<close>

text \<open>The leader of the voters 2, 3 and 4 that node 3 elects, with its first, empty entry.\<close>

definition sample_leader :: "mem_storage raft" where
  "sample_leader = the (node_run sample_env [Receive (sample_msg MsgHup 2 2),
     Receive ((sample_msg MsgRequestVoteResponse 3 2)\<lparr>m_term := 1\<rparr>)] (sample_node [2, 3, 4] 2))"

definition sample_acked :: "mem_storage raft" where
  "sample_acked = (let pr = the (tracker_get (r_prs sample_leader) 3)
     in put_pr 3 (pr\<lparr>pr_matched := 1\<rparr>) (put_pr 2 (pr\<lparr>pr_matched := 1\<rparr>) sample_leader))"

lemma sample_leader_eval:
  "r_state sample_leader = Leader" "r_term sample_leader = 1" "r_id sample_leader = 2"
  "log_last mem_view (r_raft_log sample_leader) = 1"
  "\<not> r_batch_append sample_leader" "rl_committed (r_raft_log sample_leader) = 0"
  by code_simp+

lemma sample_leader_log: "log_wf mem_view (r_raft_log sample_leader)"
  by code_simp

lemma sample_acked_eval:
  "r_term sample_acked = 1" "r_id sample_acked = 2" "rl_committed (r_raft_log sample_acked) = 0"
  "log_wf mem_view (r_raft_log sample_acked)" "\<not> pt_group_commit (r_prs sample_acked)"
  "log_term mem_view (r_raft_log sample_acked) 1 = Some 1"
  "list_all (\<lambda>(_, p). pr_matched p \<le> u64_max) (pt_progress (r_prs sample_acked))"
  "conf_voters (pt_conf (r_prs sample_acked)) = sample_voters"
  "map_option fst (raft_maybe_commit sample_env sample_acked) = Some True"
  by code_simp+

lemma sample_acked_bound: "matched sample_acked v \<le> u64_max"
  using sample_acked_eval(7)
  by (auto simp: matched_def acked_def acked_index_def ack_index_default_def list_all_iff dest: map_of_SomeD
      split: option.split)

theorem leader_commit_rule_witness:
  "\<exists>r'. raft_maybe_commit sample_env sample_acked = Some (True, r') \<and> 0 < rl_committed (r_raft_log r') \<and>
     joint_quorum sample_voters {v. rl_committed (r_raft_log r') \<le> matched sample_acked v}"
proof -
  have "tracker_get (r_prs sample_acked) (r_id sample_acked) \<noteq> None" by code_simp
  then obtain pr where pr: "tracker_get (r_prs sample_acked) (r_id sample_acked) = Some pr" by blast
  have t: "0 < r_term sample_acked" "conf_good (conf_voters (pt_conf (r_prs sample_acked)))"
    using sample_acked_eval(1,8) sample_voters_good by simp_all
  obtain q where q: "\<forall>i. i \<le> q \<longleftrightarrow> joint_quorum (conf_voters (pt_conf (r_prs sample_acked))) {v. i \<le> matched sample_acked v}"
    and c: "raft_maybe_commit sample_env sample_acked =
      (if rl_committed (r_raft_log sample_acked) < q \<and> log_term mem_view (r_raft_log sample_acked) q = Some (r_term sample_acked)
       then Some (True, put_pr (r_id sample_acked) (update_committed q pr)
         (set_log ((r_raft_log sample_acked)\<lparr>rl_committed := q\<rparr>) sample_acked)) else Some (False, sample_acked))"
    using leader_commit_rule[OF sample_env_storage sample_acked_eval(4) t sample_acked_eval(5) pr sample_acked_bound] by blast
  have "rl_committed (r_raft_log sample_acked) < q \<and> log_term mem_view (r_raft_log sample_acked) q = Some (r_term sample_acked)"
    using c sample_acked_eval(9) by (simp split: if_splits)
  then show ?thesis using c q[rule_format, of q] sample_acked_eval(3,8) by simp
qed

definition sample_data :: entry where
  "sample_data = entry_default\<lparr>e_data := ''abc''\<rparr>"

theorem append_entry_spec_witness:
  "\<exists>lg u. append_entry sample_env [sample_data] sample_leader =
      Some (True, sample_leader\<lparr>r_uncommitted_state := u, r_raft_log := lg\<rparr>) \<and>
    log_ents mem_view lg = log_ents mem_view (r_raft_log sample_leader) @ [sample_data\<lparr>e_term := 1, e_index := 2\<rparr>]"
proof -
  have r: "room_for [sample_data] (r_uncommitted_state sample_leader)" by code_simp
  show ?thesis
    using append_entry_spec[OF sample_env_storage sample_leader_log, of "[sample_data]"] r sample_leader_eval
    by (auto simp: numeral_2_eq_2)
qed

text \<open>An environment in which configuration changes can be read.\<close>

definition sample_cc :: conf_change_v2 where
  "sample_cc = conf_change_v2_default\<lparr>ccv2_changes := [new_conf_change_single 9 AddNode]\<rparr>"

definition sample_cc_env :: "mem_storage env" where
  "sample_cc_env = mem_env (sample_env\<lparr>env_ccv2_parse := (\<lambda>_. Inr sample_cc)\<rparr>)"

definition sample_cc_entry :: entry where
  "sample_cc_entry = entry_default\<lparr>e_type := EntryConfChangeV2\<rparr>"

lemma sample_cc_env_storage: "log_storage sample_cc_env mem_view"
  unfolding sample_cc_env_def by (rule mem.log_storage_axioms)

theorem propose_one_conf_change_witness:
  "\<exists>es r'. propose_entries sample_cc_env 0 [sample_cc_entry, sample_cc_entry] (sample_leader\<lparr>r_pending_conf_index := 0\<rparr>) =
     Some (Inr es, r') \<and> num_pending_conf es \<le> 1 \<and> hd es = sample_cc_entry"
proof -
  let ?r = "sample_leader\<lparr>r_pending_conf_index := 0\<rparr>"
  have "(case propose_entries sample_cc_env 0 [sample_cc_entry, sample_cc_entry] ?r of
      Some (Inr es, _) \<Rightarrow> hd es = sample_cc_entry | _ \<Rightarrow> False)"
    by code_simp
  then obtain es r' where p: "propose_entries sample_cc_env 0 [sample_cc_entry, sample_cc_entry] ?r = Some (Inr es, r')"
    "hd es = sample_cc_entry" by (auto split: option.splits sum.splits)
  show ?thesis
    using propose_one_conf_change[OF sample_cc_env_storage _ p(1)] p sample_leader_log by auto
qed

definition sample_peer :: progress where
  "sample_peer = progress_new 1 4"

lemma sample_sendable: "sendable mem_view sample_leader sample_peer"
proof -
  have "pr_pending_request_snapshot sample_peer = INVALID_INDEX \<and>
      log_base mem_view (r_raft_log sample_leader) < pr_next_idx sample_peer \<and>
      pr_next_idx sample_peer \<le> log_last mem_view (r_raft_log sample_leader) + 1 \<and>
      log_base_term mem_view (r_raft_log sample_leader) \<noteq> None"
    by code_simp
  moreover have "progress_wf sample_peer" unfolding sample_peer_def by (rule progress_wf_new) simp
  ultimately show ?thesis using sample_leader_log by (simp add: sendable_def Let_def)
qed



end
