(* ===== verification/Log_Frames.thy ===== *)
theory Log_Frames
  imports Replication
begin

text \<open>
  What the operations of a node do to its log. An operation of a node that takes part in replication
  either extends the log of a leader by entries of its own term, or splices the entries of an append
  message into the log of a follower, or replaces the log by a snapshot; every other operation leaves
  it alone. The append messages that a node puts in its mailbox are pieces of its own log. There is one rule
  of the collection \<open>log_frames\<close> for every function, as in \<open>Raft_Frames\<close>.
\<close>

named_theorems log_frames \<open>what each operation does to the log of a node\<close>

section \<open>Storages that only reading does not change\<close>

locale reading_storage = log_storage +
  assumes entries_read: "sv_ok W s \<Longrightarrow> st_entries E s lo hi mx ctx = Some (res, s') \<Longrightarrow> same_view W s s'"
    and snapshot_read: "sv_ok W s \<Longrightarrow> st_snapshot E s i to = Some (snap, s') \<Longrightarrow> same_view W s s'"
begin

lemma store_reads_view: "store_reads E s s' \<Longrightarrow> sv_ok W s \<Longrightarrow> same_view W s s'"
proof (induction rule: store_reads.induct)
  case (none s)
  then show ?case by (simp add: same_view_def)
next
  case (entries s s' lo hi mx ctx res s'')
  then have "same_view W s s'" "same_view W s' s''" using entries_read[of s'] by (auto simp: same_view_def)
  then show ?case by (simp add: same_view_def)
next
  case (snap s s' i to res s'')
  then have "same_view W s s'" "same_view W s' s''" using snapshot_read[of s'] by (auto simp: same_view_def)
  then show ?case by (simp add: same_view_def)
qed

end

lemma mem_reading_storage: "reading_storage (mem_env E) mem_view"
proof (intro reading_storage.intro reading_storage_axioms.intro mem.log_storage_axioms)
  fix s s' :: mem_storage and lo hi mx ctx res i to snap
  have "mem_ok s \<Longrightarrow> same_view mem_view s (s\<lparr>ms_trigger_snap_unavailable := False\<rparr>)"
    by (cases "ms_entries s") (simp_all add: same_view_def mem_view_def mem_ok_def mem_base_def mem_first_index_def)
  then show "sv_ok mem_view s \<Longrightarrow> st_snapshot (mem_env E) s i to = Some (snap, s') \<Longrightarrow> same_view mem_view s s'"
    by (auto simp: mem_env_def mem_snapshot_def mem_same_view bind_eq_Some_conv Let_def split: if_splits)
  show "sv_ok mem_view s \<Longrightarrow> st_entries (mem_env E) s lo hi mx ctx = Some (res, s') \<Longrightarrow> same_view mem_view s s'"
    by (auto simp: mem_env_def mem_entries_def mem_same_view mem_context_same_view bind_eq_Some_conv split: if_splits)
qed

interpretation mem: reading_storage "mem_env E" mem_view for E
  by (rule mem_reading_storage)

section \<open>Relations between logs\<close>

text \<open>The entry at a position.\<close>

definition log_at :: "'s store_view \<Rightarrow> 's raft_log \<Rightarrow> nat \<Rightarrow> entry" where
  "log_at W lg i = log_ents W lg ! (i - log_base W lg - 1)"

text \<open>\<open>extended es\<close>: the log has got the new entries \<open>es\<close>; the committed mark may have advanced.\<close>

definition extended :: "'s store_view \<Rightarrow> entry list \<Rightarrow> 's raft_log \<Rightarrow> 's raft_log \<Rightarrow> bool" where
  "extended W es lg lg' \<longleftrightarrow> log_wf W lg' \<and> rl_committed lg \<le> rl_committed lg' \<and> log_base W lg' = log_base W lg \<and>
     log_base_term W lg' = log_base_term W lg \<and> log_ents W lg' = log_ents W lg @ es"

text \<open>
  \<open>spliced\<close>: the log agrees with an append message up to position \<open>m_index m + k\<close>, which is not before the
  committed mark, and has the entries of the message from there on.
\<close>

definition message_term :: "message \<Rightarrow> nat \<Rightarrow> nat" where
  "message_term m k = (if k = 0 then m_log_term m else e_term (m_entries m ! (k - 1)))"

definition spliced :: "'s store_view \<Rightarrow> message \<Rightarrow> 's raft_log \<Rightarrow> 's raft_log \<Rightarrow> bool" where
  "spliced W m lg lg' \<longleftrightarrow> log_wf W lg' \<and> rl_committed lg \<le> rl_committed lg' \<and> log_base W lg' = log_base W lg \<and>
     log_base_term W lg' = log_base_term W lg \<and>
     (\<exists>k < length (m_entries m). rl_committed lg \<le> m_index m + k \<and> m_index m + k \<le> log_last W lg \<and>
        log_term W lg (m_index m + k) = Some (message_term m k) \<and>
        log_ents W lg' = take (m_index m + k - log_base W lg) (log_ents W lg) @ drop k (m_entries m))"

text \<open>\<open>restored\<close>: the log was replaced by a snapshot beyond its committed mark.\<close>

definition restored :: "'s store_view \<Rightarrow> 's raft_log \<Rightarrow> 's raft_log \<Rightarrow> bool" where
  "restored W lg lg' \<longleftrightarrow> log_wf W lg' \<and> rl_committed lg \<le> rl_committed lg' \<and>
     rl_committed lg \<le> log_base W lg' \<and> log_ents W lg' = []"

lemma extended_refl: "log_wf W lg \<Longrightarrow> extended W [] lg lg"
  by (simp add: extended_def)

lemma extended_trans: "extended W es lg lg1 \<Longrightarrow> extended W fs lg1 lg2 \<Longrightarrow> extended W (es @ fs) lg lg2"
  by (auto simp: extended_def)

lemma extended_marks:
  assumes "log_wf W lg" "extended W es lg lg'"
  shows "log_last W lg' = log_last W lg + length es"
    and "log_base W lg \<le> i \<Longrightarrow> i \<le> log_last W lg \<Longrightarrow> log_term W lg' i = log_term W lg i"
  using assms by (auto simp: extended_def log_last_def log_term_def nth_append)

section \<open>Log operations\<close>

context reading_storage
begin

lemma log_read_extended:
  assumes "log_read E lg lg'" "log_wf W lg"
  shows "extended W [] lg lg'"
proof -
  have sv: "same_view W (rl_store lg) (rl_store lg')"
    using assms by (intro store_reads_view) (auto simp: log_read_def log_wf_def)
  have lg': "lg' = lg\<lparr>rl_store := rl_store lg'\<rparr>" using assms(1) by (cases lg; cases lg') (auto simp: log_read_def)
  have "extended W [] lg (lg\<lparr>rl_store := rl_store lg'\<rparr>)"
    using same_view_log[OF sv] assms(2) by (simp add: extended_def)
  then show ?thesis using lg' by simp
qed

lemma rl_commit_to_extended:
  assumes "log_wf W lg"
  shows "outcome (extended W [] lg) (rl_commit_to E c lg)"
proof (cases "c \<le> log_last W lg")
  case True
  then show ?thesis using rl_commit_to_eq[OF assms True] by (simp add: extended_def)
next
  case False
  then have "\<not> c \<le> rl_committed lg" using assms by (auto simp: log_wf_def)
  then show ?thesis using False by (simp add: rl_commit_to_def rl_last_index_eq[OF assms] not_le)
qed

lemma rl_maybe_commit_extended:
  assumes "log_wf W lg"
  shows "outcome (\<lambda>(b, lg'). extended W [] lg lg') (rl_maybe_commit E i t lg)"
  using outcomeD[OF rl_commit_to_extended[OF assms], of i] extended_refl[OF assms]
  unfolding rl_maybe_commit_def by (intro vcg outcome_any) auto

lemma rl_maybe_persist_extended:
  assumes "log_wf W lg"
  shows "outcome (\<lambda>(b, lg'). extended W [] lg lg') (rl_maybe_persist E i t lg)"
  unfolding rl_maybe_persist_def Let_def
  by (intro vcg outcome_any) (use assms in \<open>auto simp: extended_def log_wf_def split: option.splits\<close>)

lemma rl_maybe_persist_snap_extended:
  assumes "log_wf W lg"
  shows "outcome (\<lambda>(b, lg'). extended W [] lg lg') (rl_maybe_persist_snap i lg)"
  unfolding rl_maybe_persist_snap_def
  by (intro vcg) (use assms in \<open>auto simp: extended_def log_wf_def split: option.splits\<close>)

lemma rl_applied_to_extended:
  assumes "log_wf W lg"
  shows "outcome (extended W [] lg) (rl_applied_to i lg)"
  unfolding rl_applied_to_def
  by (intro vcg) (use assms in \<open>auto simp: extended_def log_wf_def split: option.splits\<close>)

lemma rl_restore_restored:
  assumes "log_wf W lg"
  shows "outcome (restored W lg) (rl_restore snap lg)"
proof (cases "rl_committed lg \<le> snap_index snap")
  case True
  then show ?thesis using rl_restore_eq[OF assms True] by (auto simp: restored_def)
qed (simp add: rl_restore_def)

lemma rl_append_gap:
  assumes wf: "log_wf W lg" and "numbered i ents" "ents \<noteq> []" "log_last W lg + 1 < i"
  shows "rl_append E ents lg = None"
proof -
  have "u_offset (rl_unstable lg) + length (u_entries (rl_unstable lg)) < i"
    using log_wf_offset[OF wf] assms(4) by linarith
  moreover obtain e es where "ents = e # es" "e_index e = i"
    using assms(2,3) by (cases ents) (auto simp: numbered_Cons)
  ultimately have "truncate_and_append ents (rl_unstable lg) = None"
    by (simp add: truncate_and_append_def unstable_must_check_outofbounds_def vec_get_def Let_def)
  then show ?thesis using assms(3) by (cases ents) (auto simp: rl_append_def bind_eq_None_conv)
qed

lemma rl_append_outcome:
  assumes wf: "log_wf W lg" and num: "numbered i ents" "ents \<noteq> []" and "rl_committed lg < i"
  shows "outcome (\<lambda>(li, lg1). i \<le> log_last W lg + 1 \<and> rl_committed lg1 = rl_committed lg \<and>
    rl_persisted lg1 = rl_persisted lg \<and>
    log_base W lg1 = log_base W lg \<and> log_base_term W lg1 = log_base_term W lg \<and>
    log_ents W lg1 = take (i - log_base W lg - 1) (log_ents W lg) @ ents \<and>
    log_wf W (lg1\<lparr>rl_persisted := min (rl_persisted lg) (i - 1)\<rparr>)) (rl_append E ents lg)"
proof (cases "i \<le> log_last W lg + 1")
  case True
  then show ?thesis using rl_append_eq[OF wf num assms(4) True] by auto
next
  case False
  then show ?thesis using rl_append_gap[OF wf num] by simp
qed

text \<open>The conflict that \<open>find_conflict\<close> reports is at a position of the message; before it all terms agree.\<close>

lemma rl_find_conflict_spec:
  assumes wf: "log_wf W lg" and num: "numbered (Suc idx) ents"
  shows "outcome (\<lambda>ci. ci = 0 \<or> (\<exists>k < length ents. ci = Suc idx + k \<and>
      (\<forall>j < k. log_term W lg (Suc idx + j) = Some (e_term (ents ! j))))) (rl_find_conflict E lg ents)"
proof (cases "find (\<lambda>e. log_term W lg (e_index e) \<noteq> Some (e_term e)) ents")
  case (Some e)
  then obtain k where k: "k < length ents" "e = ents ! k"
      "\<forall>j < k. log_term W lg (e_index (ents ! j)) = Some (e_term (ents ! j))"
    by (auto simp: find_Some_iff)
  have "e_index (ents ! j) = Suc idx + j" if "j \<le> k" for j using numbered_nth[OF num, of j] that k(1) by simp
  then show ?thesis using k Some by (auto simp: rl_find_conflict_eq[OF wf] intro!: exI[of _ k])
qed (simp add: rl_find_conflict_eq[OF wf])

lemma rl_maybe_append_spliced:
  assumes wf: "log_wf W lg" and com: "rl_committed lg \<le> m_index m" and num: "numbered (Suc (m_index m)) (m_entries m)"
  shows "outcome (\<lambda>(res, lg'). extended W [] lg lg' \<or> spliced W m lg lg')
    (rl_maybe_append E (m_index m) (m_log_term m) cm (m_entries m) lg)"
proof -
  let ?i = "m_index m" and ?es = "m_entries m"
  have base: "log_base W lg \<le> rl_committed lg" using wf by (simp add: log_wf_def)
  have same: "outcome (\<lambda>lg'. extended W [] lg lg' \<or> spliced W m lg lg') (rl_commit_to E c lg)" for c
    by (rule outcome_conseq[OF rl_commit_to_extended[OF wf]]) simp
  have new: "spliced W m lg lg'"
    if t: "log_term W lg ?i = Some (m_log_term m)" and k: "k < length ?es"
      "\<forall>j < k. log_term W lg (Suc ?i + j) = Some (e_term (?es ! j))"
      and a: "rl_append E (drop k ?es) lg = Some (li, lg1)"
      and c: "rl_commit_to E x (if rl_persisted lg1 > ?i + k then lg1\<lparr>rl_persisted := ?i + k\<rparr> else lg1) = Some lg'"
    for k li lg1 lg' x
  proof -
    have nk: "numbered (Suc ?i + k) (drop k ?es)" "drop k ?es \<noteq> []" "rl_committed lg < Suc ?i + k"
      using numbered_drop[OF num, of k] k(1) com by simp_all
    note lg1 = outcomeD[OF rl_append_outcome[OF wf nk] a, simplified]
    define lg2 where "lg2 = lg1\<lparr>rl_persisted := min (rl_persisted lg) (?i + k)\<rparr>"
    have lg2: "(if rl_persisted lg1 > ?i + k then lg1\<lparr>rl_persisted := ?i + k\<rparr> else lg1) = lg2"
      using lg1 by (auto simp: lg2_def min_def)
    have "log_wf W lg2" using lg1 by (simp add: lg2_def)
    then have e: "extended W [] lg2 lg'" using outcomeD[OF rl_commit_to_extended c[unfolded lg2]] by blast
    have tk: "log_term W lg (?i + k) = Some (message_term m k)"
      using t k(2) by (cases k) (auto simp: message_term_def)
    show ?thesis
      unfolding spliced_def using e lg1 tk k(1) com
      by (auto simp: extended_def lg2_def intro!: exI[of _ k])
  qed
  have "extended W [] lg lg' \<or> spliced W m lg lg'"
    if r: "rl_maybe_append E ?i (m_log_term m) cm ?es lg = Some (res, lg')" for res lg'
  proof (cases "log_term W lg ?i = Some (m_log_term m)")
    case True
    then obtain ci lg2 where ci: "rl_find_conflict E lg ?es = Some ci"
      and lg2: "(if ci = 0 then Some lg else if ci \<le> rl_committed lg then None else do {
          start \<leftarrow> usub ci (?i + 1); tail \<leftarrow> vec_range ?es start (length ?es); (_, lg1) \<leftarrow> rl_append E tail lg;
          Some (if rl_persisted lg1 > ci - 1 then lg1\<lparr>rl_persisted := ci - 1\<rparr> else lg1) }) = Some lg2"
      and c: "rl_commit_to E (min cm (?i + length ?es)) lg2 = Some lg'"
      using r by (auto simp: rl_maybe_append_def rl_match_term_eq[OF wf] bind_eq_Some_conv Let_def)
    from outcomeD[OF rl_find_conflict_spec[OF wf num] ci] show ?thesis
    proof (elim disjE exE conjE)
      assume "ci = 0"
      then show ?thesis using lg2 c outcomeD[OF same] by simp
    next
      fix k assume k: "k < length ?es" "ci = Suc ?i + k" "\<forall>j < k. log_term W lg (Suc ?i + j) = Some (e_term (?es ! j))"
      then obtain li lg1 where "rl_append E (drop k ?es) lg = Some (li, lg1)"
        "lg2 = (if rl_persisted lg1 > ?i + k then lg1\<lparr>rl_persisted := ?i + k\<rparr> else lg1)"
        using lg2 k(1,2) com by (fastforce simp: bind_eq_Some_conv)
      then show ?thesis using new[OF True k(1,3)] c by blast
    qed
  next
    case False
    then show ?thesis using r extended_refl[OF wf] by (simp add: rl_maybe_append_def rl_match_term_eq[OF wf])
  qed
  then show ?thesis by (auto intro: outcome_any)
qed

end

end
