(* ===== verification/Log_Sends.thy ===== *)
theory Log_Sends
  imports Log_Frames
begin

text \<open>
  The operations of a node that have no part in elections, as far as the log and the append messages
  are concerned. They \<open>send\<close>: term, vote and role stay (\<open>quiet\<close>), the log is at most extended by entries of
  the node's own term if it is a leader, and every new append message in the mailbox is a piece of the log.
  One rule of \<open>log_frames\<close> per function, in the order of \<open>raft.rs\<close>.
\<close>


section \<open>Relations between nodes\<close>

definition appends :: "message list \<Rightarrow> message set" where
  "appends ms = {m \<in> set ms. m_type m = MsgAppend}"

text \<open>An append message that carries a piece of a log.\<close>

definition piece_of :: "'s store_view \<Rightarrow> 's raft_log \<Rightarrow> message \<Rightarrow> bool" where
  "piece_of W lg m \<longleftrightarrow> m_entries m = [] \<or>
     (log_base W lg \<le> m_index m \<and> m_index m + length (m_entries m) \<le> log_last W lg \<and>
      log_term W lg (m_index m) = Some (m_log_term m) \<and>
      m_entries m = log_range W lg (m_index m + 1) (m_index m + 1 + length (m_entries m)))"

text \<open>
  \<open>adds\<close>: the log was at most extended, by entries of the node's term if it is a leader, and the append
  messages that were put in the mailbox are pieces of the log.
\<close>

definition adds :: "'s store_view \<Rightarrow> 's raft \<Rightarrow> 's raft \<Rightarrow> bool" where
  "adds W r r' \<longleftrightarrow> r_batch_append r' = r_batch_append r \<and> (log_wf W (r_raft_log r) \<longrightarrow>
     (\<exists>es. extended W es (r_raft_log r) (r_raft_log r') \<and>
        (es \<noteq> [] \<longrightarrow> r_state r' = Leader \<and> (\<forall>e \<in> set es. e_term e = r_term r'))) \<and>
     (\<not> r_batch_append r \<longrightarrow>
        (\<forall>m \<in> appends (r_msgs r'). m \<in> appends (r_msgs r) \<or> piece_of W (r_raft_log r') m)))"

definition sends :: "'s store_view \<Rightarrow> 's raft \<Rightarrow> 's raft \<Rightarrow> bool" where
  "sends W r r' \<longleftrightarrow> quiet r r' \<and> adds W r r'"

lemma appends_simps [simp]:
  "appends [] = {}"
  "appends (m # ms) = (if m_type m = MsgAppend then insert m (appends ms) else appends ms)"
  "appends (ms @ [m]) = (if m_type m = MsgAppend then insert m (appends ms) else appends ms)"
  by (auto simp: appends_def)

lemma extended_piece:
  assumes "log_wf W lg" "extended W es lg lg'" "piece_of W lg m"
  shows "piece_of W lg' m"
proof (cases "m_entries m = []")
  case False
  note e = extended_marks[OF assms(1,2)]
  have "log_range W lg' lo hi = log_range W lg lo hi" if "hi \<le> log_last W lg + 1" "log_base W lg < lo" for lo hi
    using assms(2) that by (simp add: log_range_def extended_def log_last_def)
  then show ?thesis using assms(2,3) e False by (auto simp: piece_of_def extended_def)
qed (simp add: piece_of_def)

lemma adds_refl: "adds W r r"
  using extended_refl[of W "r_raft_log r"] by (auto simp: adds_def)

lemma adds_trans:
  assumes "adds W r s" "adds W s t" "r_state t = r_state s" "r_term t = r_term s"
  shows "adds W r t"
  unfolding adds_def
proof (intro conjI impI)
  show "r_batch_append t = r_batch_append r" using assms(1,2) by (simp add: adds_def)
  assume wf: "log_wf W (r_raft_log r)"
  then obtain es where es: "extended W es (r_raft_log r) (r_raft_log s)"
      "es \<noteq> [] \<longrightarrow> r_state s = Leader \<and> (\<forall>e \<in> set es. e_term e = r_term s)"
    using assms(1) by (auto simp: adds_def)
  have wf': "log_wf W (r_raft_log s)" using es(1) by (simp add: extended_def)
  then obtain fs where fs: "extended W fs (r_raft_log s) (r_raft_log t)"
      "fs \<noteq> [] \<longrightarrow> r_state t = Leader \<and> (\<forall>e \<in> set fs. e_term e = r_term t)"
    using assms(2) by (auto simp: adds_def)
  show "\<exists>es. extended W es (r_raft_log r) (r_raft_log t) \<and>
      (es \<noteq> [] \<longrightarrow> r_state t = Leader \<and> (\<forall>e \<in> set es. e_term e = r_term t))"
    using extended_trans[OF es(1) fs(1)] es(2) fs(2) assms(3,4) by (intro exI[of _ "es @ fs"]) auto
  show "\<forall>m \<in> appends (r_msgs t). m \<in> appends (r_msgs r) \<or> piece_of W (r_raft_log t) m"
    if "\<not> r_batch_append r"
    using that assms(1,2) wf wf' extended_piece[OF wf' fs(1)] unfolding adds_def by blast
qed

lemma sends_refl [simp]: "sends W r r"
  by (simp add: sends_def adds_refl)

lemma sends_trans [trans]: "sends W r s \<Longrightarrow> sends W s t \<Longrightarrow> sends W r t"
  unfolding sends_def using adds_trans[of W r s t] quiet_trans[of r s t] by (simp add: quiet_def)

lemma sends_quiet: "sends W r s \<Longrightarrow> quiet r s"
  by (simp add: sends_def)

lemma sends_state: "sends W r r' \<Longrightarrow> r_state r' = r_state r \<and> r_term r' = r_term r"
  by (simp add: sends_def quiet_def)

lemma adds_other_fields [simp]:
  "adds W r (s\<lparr>r_read_states := rs\<rparr>) \<longleftrightarrow> adds W r s"
  "adds W r (s\<lparr>r_pending_request_snapshot := i\<rparr>) \<longleftrightarrow> adds W r s"
  "adds W r (s\<lparr>r_promotable := b\<rparr>) \<longleftrightarrow> adds W r s"
  "adds W r (s\<lparr>r_leader_id := i\<rparr>) \<longleftrightarrow> adds W r s"
  "adds W r (s\<lparr>r_lead_transferee := lt\<rparr>) \<longleftrightarrow> adds W r s"
  "adds W r (s\<lparr>r_pending_conf_index := i\<rparr>) \<longleftrightarrow> adds W r s"
  "adds W r (s\<lparr>r_read_only := ro\<rparr>) \<longleftrightarrow> adds W r s"
  "adds W r (s\<lparr>r_election_elapsed := i\<rparr>) \<longleftrightarrow> adds W r s"
  "adds W r (s\<lparr>r_heartbeat_elapsed := i\<rparr>) \<longleftrightarrow> adds W r s"
  "adds W r (s\<lparr>r_uncommitted_state := u\<rparr>) \<longleftrightarrow> adds W r s"
  "adds W r (s\<lparr>r_prs := t\<rparr>) \<longleftrightarrow> adds W r s"
  "adds W r (abort_leader_transfer s) \<longleftrightarrow> adds W r s"
  by (simp_all add: adds_def abort_leader_transfer_def)

lemma adds_other_fields_left [simp]:
  "adds W (s\<lparr>r_read_states := rs\<rparr>) r \<longleftrightarrow> adds W s r"
  "adds W (s\<lparr>r_pending_request_snapshot := i\<rparr>) r \<longleftrightarrow> adds W s r"
  "adds W (s\<lparr>r_promotable := b\<rparr>) r \<longleftrightarrow> adds W s r"
  "adds W (s\<lparr>r_leader_id := i\<rparr>) r \<longleftrightarrow> adds W s r"
  "adds W (s\<lparr>r_lead_transferee := lt\<rparr>) r \<longleftrightarrow> adds W s r"
  "adds W (s\<lparr>r_pending_conf_index := i\<rparr>) r \<longleftrightarrow> adds W s r"
  "adds W (s\<lparr>r_read_only := ro\<rparr>) r \<longleftrightarrow> adds W s r"
  "adds W (s\<lparr>r_election_elapsed := i\<rparr>) r \<longleftrightarrow> adds W s r"
  "adds W (s\<lparr>r_heartbeat_elapsed := i\<rparr>) r \<longleftrightarrow> adds W s r"
  "adds W (s\<lparr>r_uncommitted_state := u\<rparr>) r \<longleftrightarrow> adds W s r"
  "adds W (s\<lparr>r_prs := t\<rparr>) r \<longleftrightarrow> adds W s r"
  "adds W (abort_leader_transfer s) r \<longleftrightarrow> adds W s r"
  by (simp_all add: adds_def abort_leader_transfer_def)

lemma sends_other_fields [simp]:
  "sends W r (s\<lparr>r_read_states := rs\<rparr>) \<longleftrightarrow> sends W r s"
  "sends W r (s\<lparr>r_pending_request_snapshot := i\<rparr>) \<longleftrightarrow> sends W r s"
  "sends W r (s\<lparr>r_promotable := b\<rparr>) \<longleftrightarrow> sends W r s"
  "sends W r (s\<lparr>r_leader_id := i\<rparr>) \<longleftrightarrow> sends W r s"
  "sends W r (s\<lparr>r_lead_transferee := lt\<rparr>) \<longleftrightarrow> sends W r s"
  "sends W r (s\<lparr>r_pending_conf_index := i\<rparr>) \<longleftrightarrow> sends W r s"
  "sends W r (s\<lparr>r_read_only := ro\<rparr>) \<longleftrightarrow> sends W r s"
  "sends W r (s\<lparr>r_election_elapsed := i\<rparr>) \<longleftrightarrow> sends W r s"
  "sends W r (s\<lparr>r_heartbeat_elapsed := i\<rparr>) \<longleftrightarrow> sends W r s"
  "sends W r (s\<lparr>r_uncommitted_state := u\<rparr>) \<longleftrightarrow> sends W r s"
  "sends W r (put_pr i p s) \<longleftrightarrow> sends W r s"
  "sends W r (abort_leader_transfer s) \<longleftrightarrow> sends W r s"
  by (simp_all add: sends_def)

lemma sends_other_fields_left [simp]:
  "sends W (s\<lparr>r_read_states := rs\<rparr>) r \<longleftrightarrow> sends W s r"
  "sends W (s\<lparr>r_pending_request_snapshot := i\<rparr>) r \<longleftrightarrow> sends W s r"
  "sends W (s\<lparr>r_promotable := b\<rparr>) r \<longleftrightarrow> sends W s r"
  "sends W (s\<lparr>r_leader_id := i\<rparr>) r \<longleftrightarrow> sends W s r"
  "sends W (s\<lparr>r_lead_transferee := lt\<rparr>) r \<longleftrightarrow> sends W s r"
  "sends W (s\<lparr>r_pending_conf_index := i\<rparr>) r \<longleftrightarrow> sends W s r"
  "sends W (s\<lparr>r_read_only := ro\<rparr>) r \<longleftrightarrow> sends W s r"
  "sends W (s\<lparr>r_election_elapsed := i\<rparr>) r \<longleftrightarrow> sends W s r"
  "sends W (s\<lparr>r_heartbeat_elapsed := i\<rparr>) r \<longleftrightarrow> sends W s r"
  "sends W (s\<lparr>r_uncommitted_state := u\<rparr>) r \<longleftrightarrow> sends W s r"
  "sends W (put_pr i p s) r \<longleftrightarrow> sends W s r"
  "sends W (abort_leader_transfer s) r \<longleftrightarrow> sends W s r"
  by (simp_all add: sends_def)

lemma sends_set_prs [simp]:
  "pt_votes t = pt_votes (r_prs s) \<Longrightarrow> pt_conf t = pt_conf (r_prs s) \<Longrightarrow> sends W r (s\<lparr>r_prs := t\<rparr>) \<longleftrightarrow> sends W r s"
  "pt_votes t = pt_votes (r_prs s) \<Longrightarrow> pt_conf t = pt_conf (r_prs s) \<Longrightarrow> sends W (s\<lparr>r_prs := t\<rparr>) r \<longleftrightarrow> sends W s r"
  by (simp_all add: sends_def)

section \<open>Sending\<close>

lemma core_send_appends:
  "outcome (\<lambda>ms'. \<exists>m'. ms' = ms @ [m'] \<and> m_type m' = m_type m \<and> m_entries m' = m_entries m \<and>
     m_index m' = m_index m \<and> m_log_term m' = m_log_term m) (core_send r m ms)"
  unfolding core_send_def Let_def by (intro vcg) auto

lemma raft_send_sends [log_frames]:
  assumes "\<not> is_grant m" "m_type m \<noteq> MsgAppend" "\<And>r'. sends W r r' \<Longrightarrow> Q r'"
  shows "outcome Q (raft_send m r)"
proof -
  have "sends W r r'" if s: "raft_send m r = Some r'" for r'
  proof -
    obtain ms where ms: "core_send r m (r_msgs r) = Some ms" "r' = r\<lparr>r_msgs := ms\<rparr>"
      using s by (auto simp: raft_send_def bind_eq_Some_conv)
    have "appends ms = appends (r_msgs r)" using outcomeD[OF core_send_appends ms(1)] assms(2) by auto
    then show ?thesis
      using outcomeD[OF raft_send_quiet[OF assms(1)] s] extended_refl[of W "r_raft_log r"]
      by (auto simp: sends_def adds_def ms(2))
  qed
  then show ?thesis using assms(3) by (auto intro: outcome_any)
qed

text \<open>
  \<open>posts\<close>: the log was at most read, and the append messages that were added to a mailbox are pieces of it.
\<close>

definition posts :: "'s env \<Rightarrow> 's store_view \<Rightarrow> message list \<Rightarrow> 's raft \<Rightarrow> message list \<Rightarrow> 's raft \<Rightarrow> bool" where
  "posts E W ms r ms' r' \<longleftrightarrow> reads E r r' \<and> grants ms' = grants ms \<and>
     (log_wf W (r_raft_log r) \<longrightarrow> \<not> r_batch_append r \<longrightarrow>
        (\<forall>m \<in> appends ms'. m \<in> appends ms \<or> piece_of W (r_raft_log r') m))"

lemma posts_reads: "reads E r r' \<Longrightarrow> posts E W ms r ms r'"
  by (simp add: posts_def)

context reading_storage
begin

lemma reads_log:
  assumes "reads E r r'"
  shows "log_wf W (r_raft_log r) \<Longrightarrow> extended W [] (r_raft_log r) (r_raft_log r')"
    and "r_batch_append r' = r_batch_append r" "r_state r' = r_state r" "r_term r' = r_term r"
proof -
  obtain lg where lg: "log_read E (r_raft_log r) lg" "r' = set_log lg r" by (rule readsE[OF assms])
  show "log_wf W (r_raft_log r) \<Longrightarrow> extended W [] (r_raft_log r) (r_raft_log r')"
    using log_read_extended[OF lg(1)] by (simp add: lg(2))
  show "r_batch_append r' = r_batch_append r" "r_state r' = r_state r" "r_term r' = r_term r" by (simp_all add: lg(2))
qed

lemma posts_trans:
  assumes "posts E W ms r ms1 r1" "posts E W ms1 r1 ms2 r2"
  shows "posts E W ms r ms2 r2"
  unfolding posts_def
proof (intro conjI impI ballI)
  have rd: "reads E r r1" "reads E r1 r2" using assms by (simp_all add: posts_def)
  show "reads E r r2" by (rule reads_trans[OF rd])
  show "grants ms2 = grants ms" using assms by (simp add: posts_def)
  fix m assume a: "log_wf W (r_raft_log r)" "\<not> r_batch_append r" "m \<in> appends ms2"
  have wf1: "log_wf W (r_raft_log r1)" using reads_log(1)[OF rd(1) a(1)] by (simp add: extended_def)
  show "m \<in> appends ms \<or> piece_of W (r_raft_log r2) m"
    using assms a wf1 reads_log(2)[OF rd(1)] extended_piece[OF wf1 reads_log(1)[OF rd(2) wf1]]
    unfolding posts_def by blast
qed

lemma posts_sends:
  assumes "posts E W (r_msgs r) r ms' r'"
  shows "sends W r (r'\<lparr>r_msgs := ms'\<rparr>)"
proof -
  have rd: "reads E r r'" using assms by (simp add: posts_def)
  have "quiet r (r'\<lparr>r_msgs := ms'\<rparr>)" using assms reads_quiet[of E r r' ms'] by (simp add: posts_def)
  then show ?thesis
    using assms reads_log[OF rd] unfolding sends_def adds_def posts_def by (auto intro: exI[of _ "[]"])
qed

lemma entries_piece:
  assumes wf: "log_wf W lg" and e: "rl_entries E (Suc i) mx ctx lg = Some (Inr es, lg1)"
    and t: "rl_term E lg1 i = Some (Inr t)" and m: "m_index m = i" "m_log_term m = t" "m_entries m = es"
  shows "piece_of W lg1 m"
proof (cases "es = []")
  case False
  have x: "extended W [] lg lg1"
    using outcomeD[OF rl_entries_frame[where Q = "\<lambda>(_, l). extended W [] lg l"] e] log_read_extended wf by auto
  then have wf1: "log_wf W lg1" and same: "log_base W lg1 = log_base W lg" "log_ents W lg1 = log_ents W lg"
    by (auto simp: extended_def)
  then have last: "log_last W lg1 = log_last W lg" by (simp add: log_last_def)
  have le: "Suc i \<le> log_last W lg" using e False by (auto simp: rl_entries_def rl_last_index_eq[OF wf] split: if_splits)
  then have s: "rl_slice E (Suc i) (log_last W lg + 1) mx ctx lg = Some (Inr es, lg1)"
    using e by (simp add: rl_entries_def rl_last_index_eq[OF wf])
  have b: "log_base W lg \<le> i"
  proof (rule ccontr)
    assume "\<not> log_base W lg \<le> i"
    then show False using s le by (auto simp: rl_slice_def rl_must_check_eq[OF wf])
  qed
  have "es = limit_size (env_compute_size E) (log_range W lg (Suc i) (log_last W lg + 1)) mx"
    using rl_slice_eq[OF wf, of "Suc i" "log_last W lg + 1" mx ctx] b le s by auto
  then obtain n where n: "es = take n (log_range W lg (Suc i) (log_last W lg + 1))" using limit_size_prefix by metis
  have "log_term W lg1 i = Some t" using t by (auto simp: rl_term_eq[OF wf1] split: option.splits)
  moreover have "es = log_range W lg1 (i + 1) (i + 1 + length es)"
    unfolding n using le b by (auto simp: log_range_def same log_last_def min_def)
  moreover have "i + length es \<le> log_last W lg1" unfolding n last using le b by (auto simp: log_range_def log_last_def)
  ultimately show ?thesis using m b same by (simp add: piece_of_def)
qed (use m in \<open>simp add: piece_of_def\<close>)

end


lemma prepare_send_snapshot_posts:
  "outcome (\<lambda>(b, m', pr', r'). reads E r r' \<and> (b \<longrightarrow> m_type m' = MsgSnapshot)) (prepare_send_snapshot E m pr to r)"
  by (intro frames) auto

lemma core_send_other:
  assumes "m_type m \<noteq> MsgAppend" "\<not> is_grant m"
  shows "outcome (\<lambda>ms'. appends ms' = appends ms \<and> grants ms' = grants ms) (core_send r m ms)"
proof -
  have "outcome (\<lambda>ms'. grants ms' = grants ms) (core_send r m ms)" by (intro frames assms(2)) simp
  then show ?thesis
    using outcomeD[OF core_send_appends[of ms m r]] assms(1) by (fastforce simp: outcome_def)
qed

context reading_storage
begin

lemma via_snapshot_posts:
  assumes "\<And>b pr' ms' r'. posts E W ms r ms' r' \<Longrightarrow> Q (b, pr', ms', r')"
  shows "outcome Q (prepare_send_snapshot E m pr to r \<bind> (\<lambda>(b, m1, pr1, r2).
      if \<not> b then Some (False, pr1, ms, r2)
      else core_send r2 m1 ms \<bind> (\<lambda>msgs1. Some (True, pr1, msgs1, r2))))"
proof -
  have "posts E W ms r ms' r2"
    if "reads E r r2" "m_type m1 = MsgSnapshot" "core_send r2 m1 ms = Some ms'" for m1 ms' r2
    using outcomeD[OF core_send_other that(3)] that by (simp add: posts_def)
  then show ?thesis
    by (intro vcg prepare_send_snapshot_frame outcome_any) (auto intro!: assms intro: posts_reads)
qed

lemma entry_posts:
  assumes e: "rl_entries E (pr_next_idx pr) mx ctx (r_raft_log r) = Some (Inr es, lg)"
    and t: "usub (pr_next_idx pr) 1 = Some i" "rl_term E lg i = Some (Inr t)"
    and p: "prepare_send_entries r1 m pr t es = Some (m1, pr2)" and s: "core_send r1 m1 ms = Some ms'"
  shows "posts E W ms r ms' (set_log lg r)"
proof -
  have m1: "m_type m1 = MsgAppend" "m_index m1 = i" "m_log_term m1 = t" "m_entries m1 = es"
    using p t(1) by (auto simp: prepare_send_entries_def bind_eq_Some_conv Let_def split: if_splits)
  have rd: "log_read E (r_raft_log r) lg"
    using outcomeD[OF rl_entries_frame[where Q = "\<lambda>(_, l). log_read E (r_raft_log r) l"] e] by simp
  obtain m' where m': "ms' = ms @ [m']" "m_type m' = MsgAppend" "m_entries m' = es" "m_index m' = i" "m_log_term m' = t"
    using outcomeD[OF core_send_appends s] m1 by auto
  have "pr_next_idx pr = Suc i" using t(1) by auto
  then have "log_wf W (r_raft_log r) \<Longrightarrow> piece_of W lg m'"
    using entries_piece[OF _ _ t(2) m'(4,5,3)] e by simp
  then show ?thesis using rd m' by (simp add: posts_def is_grant_def)
qed

lemma maybe_send_append_posts [log_frames]:
  assumes Q: "\<And>b pr' ms' r'. posts E W ms r ms' r' \<Longrightarrow> Q (b, pr', ms', r')"
  shows "outcome Q (maybe_send_append E to allow_empty pr ms r)"
proof (cases "r_batch_append r")
  case True
  then show ?thesis by (intro maybe_send_append_frame Q) (simp add: posts_def)
next
  case False
  have snap: "outcome Q (prepare_send_snapshot E m pr to r1 \<bind> (\<lambda>(b, m1, pr1, r2).
      if \<not> b then Some (False, pr1, ms, r2)
      else core_send r2 m1 ms \<bind> (\<lambda>msgs1. Some (True, pr1, msgs1, r2))))"
    if "reads E r r1" for m r1
    by (intro via_snapshot_posts Q) (rule posts_trans[OF posts_reads[OF that]])
  have rd: "outcome P (rl_entries E i mx ctx lg)"
    if "\<And>es lg'. \<lbrakk>rl_entries E i mx ctx lg = Some (es, lg'); log_read E lg lg'\<rbrakk> \<Longrightarrow> P (es, lg')" for P i mx ctx lg
    using that outcomeD[OF rl_entries_frame[where Q = "\<lambda>(_, l). log_read E lg l"]] by (auto intro!: outcome_any)
  show ?thesis
    unfolding maybe_send_append_def Let_def
    apply (intro snap rd vcg outcome_any Q)
    apply (simp_all add: posts_reads False)
    apply (erule entry_posts[where i = "pr_next_idx pr - 1"]; simp)
    done
qed

lemma core_send_append_aggressively_posts [log_frames]:
  assumes "\<And>pr' ms' r'. posts E W ms r ms' r' \<Longrightarrow> Q (pr', ms', r')"
  shows "outcome Q (core_send_append_aggressively E to pr ms r)"
proof -
  let ?P = "\<lambda>F to pr ms r y. case y of (_, ms', r') \<Rightarrow> F = E \<longrightarrow> posts E W ms r ms' r'"
  have "?P E to pr ms r y" if "core_send_append_aggressively E to pr ms r = Some y" for y
  proof (rule core_send_append_aggressively.raw_induct[where P = ?P, OF _ that])
    fix f :: "'a env \<Rightarrow> nat \<Rightarrow> progress \<Rightarrow> message list \<Rightarrow> 'a raft \<Rightarrow> (progress \<times> message list \<times> 'a raft) option"
      and F to pr ms r y
    assume IH: "\<And>F to pr ms r y. f F to pr ms r = Some y \<Longrightarrow> ?P F to pr ms r y"
      and f: "maybe_send_append F to False pr ms r \<bind> (\<lambda>(b, pr1, msgs1, r1).
          if b then f F to pr1 msgs1 r1 else Some (pr1, msgs1, r1)) = Some y"
    have "outcome (?P E to pr ms r)
       (maybe_send_append E to False pr ms r \<bind> (\<lambda>(b, pr1, msgs1, r1).
          if b then f E to pr1 msgs1 r1 else Some (pr1, msgs1, r1)))"
      by (intro vcg log_frames outcome_any) (auto dest!: IH intro: posts_trans)
    note E = outcomeD[OF this]
    show "?P F to pr ms r y"
      using E[of y] f by (cases "F = E") (simp_all only: simp_thms split: prod.splits)
  qed
  then show ?thesis using assms by (auto intro!: outcome_any)
qed

lemma raft_send_append_sends [log_frames]:
  assumes "\<And>r'. sends W r r' \<Longrightarrow> Q r'"
  shows "outcome Q (raft_send_append E to r)"
  unfolding raft_send_append_def by (intro vcg log_frames outcome_any assms) (simp add: posts_sends)

lemma raft_send_append_aggressively_sends [log_frames]:
  assumes "\<And>r'. sends W r r' \<Longrightarrow> Q r'"
  shows "outcome Q (raft_send_append_aggressively E to r)"
  unfolding raft_send_append_aggressively_def by (intro vcg log_frames outcome_any assms) (simp add: posts_sends)

lemma bcast_loop_posts [log_frames]:
  assumes "\<And>prs' ms' r'. posts E W ms r ms' r' \<Longrightarrow> Q (prs', ms', r')"
  shows "outcome Q (bcast_loop E ae self prs ms r)"
  using assms
proof (induction prs arbitrary: ms r Q)
  case (Cons x prs)
  obtain i pr where x: "x = (i, pr)" by (cases x)
  show ?case
    unfolding x bcast_loop.simps
    by (intro vcg log_frames Cons.IH Cons.prems) (auto intro: posts_trans)
qed (simp add: posts_reads)

lemma bcast_with_sends [log_frames]:
  assumes "\<And>r'. sends W r r' \<Longrightarrow> Q r'"
  shows "outcome Q (bcast_with E ae r)"
proof -
  have "sends W r (r'\<lparr>r_prs := (r_prs r')\<lparr>pt_progress := p\<rparr>, r_msgs := ms'\<rparr>)"
    if "posts E W (r_msgs r) r ms' r'" for r' ms' p
  proof -
    have eq: "r'\<lparr>r_prs := t, r_msgs := ms'\<rparr> = (r'\<lparr>r_msgs := ms'\<rparr>)\<lparr>r_prs := t\<rparr>" for t by simp
    show ?thesis unfolding eq by (rule iffD2[OF sends_set_prs(1) posts_sends[OF that]]) simp_all
  qed
  then show ?thesis unfolding bcast_with_def by (intro vcg log_frames assms) simp
qed

lemma bcast_append_sends [log_frames]:
  assumes "\<And>r'. sends W r r' \<Longrightarrow> Q r'"
  shows "outcome Q (bcast_append E r)"
  unfolding bcast_append_def by (intro log_frames assms)

end

text \<open>Messages of the other types do not touch the log.\<close>

definition aside :: "message list \<Rightarrow> message list \<Rightarrow> bool" where
  "aside ms ms' \<longleftrightarrow> grants ms' = grants ms \<and> appends ms' = appends ms"

lemma aside_sends: "aside (r_msgs r) ms' \<Longrightarrow> sends W r (r\<lparr>r_msgs := ms'\<rparr>)"
  using extended_refl[of W "r_raft_log r"] by (auto simp: aside_def sends_def adds_def)

lemma heartbeat_loop_aside [log_frames]:
  assumes "\<And>ms'. aside ms ms' \<Longrightarrow> Q ms'"
  shows "outcome Q (heartbeat_loop self ctx prs ms r)"
  using assms
proof (induction prs arbitrary: ms)
  case (Cons x prs)
  obtain i pr where x: "x = (i, pr)" by (cases x)
  have s: "outcome (aside ms) (core_send_heartbeat i pr ctx ms r)"
    unfolding core_send_heartbeat_def Let_def
    by (rule outcome_conseq[OF core_send_other]) (auto simp: aside_def split: option.splits)
  show ?case
    unfolding x heartbeat_loop.simps
    by (intro vcg Cons.IH Cons.prems outcome_conseq[OF s]) (auto simp: aside_def)
qed (simp add: aside_def)

lemma bcast_heartbeat_with_ctx_sends [log_frames]:
  assumes "\<And>r'. sends W r r' \<Longrightarrow> Q r'"
  shows "outcome Q (bcast_heartbeat_with_ctx ctx r)"
  unfolding bcast_heartbeat_with_ctx_def by (intro vcg log_frames assms aside_sends)

lemma bcast_heartbeat_sends [log_frames]:
  assumes "\<And>r'. sends W r r' \<Longrightarrow> Q r'"
  shows "outcome Q (bcast_heartbeat r)"
  unfolding bcast_heartbeat_def by (intro log_frames assms)

lemma send_timeout_now_sends [log_frames]:
  assumes "\<And>r'. sends W r r' \<Longrightarrow> Q r'"
  shows "outcome Q (send_timeout_now to r)"
  unfolding send_timeout_now_def by (intro log_frames assms) auto

lemma send_request_snapshot_sends [log_frames]:
  assumes "\<And>r'. sends W r r' \<Longrightarrow> Q r'"
  shows "outcome Q (send_request_snapshot E r)"
  unfolding send_request_snapshot_def by (intro vcg log_frames outcome_any assms) auto


section \<open>The marks of the log\<close>

text \<open>\<open>marks\<close>: at most the committed and the persisted mark have changed, and the committed one has not gone back.\<close>

definition marks :: "'s store_view \<Rightarrow> 's raft_log \<Rightarrow> 's raft_log \<Rightarrow> bool" where
  "marks W lg lg' \<longleftrightarrow> advances lg lg' \<and> (log_wf W lg \<longrightarrow> extended W [] lg lg')"

lemma marks_refl [simp]: "marks W lg lg"
  by (simp add: marks_def extended_refl)

lemma marks_trans [trans]: "marks W a b \<Longrightarrow> marks W b c \<Longrightarrow> marks W a c"
  unfolding marks_def using advances_trans[of a b c] extended_trans[of W "[]" a b "[]" c] by (auto simp: extended_def)

lemma marks_sends [simp]: "marks W (r_raft_log r) lg \<Longrightarrow> sends W r (set_log lg r)"
  by (auto simp: marks_def sends_def adds_def)

lemma sends_after_log: "sends W (set_log lg r) r' \<Longrightarrow> marks W (r_raft_log r) lg \<Longrightarrow> sends W r r'"
  by (rule sends_trans[OF marks_sends])

context reading_storage
begin

lemma log_read_marks: "log_read E lg lg' \<Longrightarrow> marks W lg lg'"
  by (simp add: marks_def log_read_advances log_read_extended)

lemma rl_slice_marks [log_frames]:
  assumes "\<And>res lg'. marks W lg lg' \<Longrightarrow> Q (res, lg')"
  shows "outcome Q (rl_slice E lo hi mx ctx lg)"
  by (intro rl_slice_frame assms log_read_marks)

lemma rl_commit_to_marks [log_frames]:
  assumes "\<And>lg'. marks W lg lg' \<Longrightarrow> Q lg'"
  shows "outcome Q (rl_commit_to E i lg)"
proof -
  have a: "outcome (advances lg) (rl_commit_to E i lg)" by (intro frames)
  show ?thesis
    using outcomeD[OF a] outcomeD[OF rl_commit_to_extended] by (intro outcome_any assms) (auto simp: marks_def)
qed

lemma rl_maybe_commit_marks [log_frames]:
  assumes "\<And>b lg'. marks W lg lg' \<Longrightarrow> Q (b, lg')"
  shows "outcome Q (rl_maybe_commit E i t lg)"
  unfolding rl_maybe_commit_def by (intro vcg log_frames outcome_any assms) auto

lemma rl_maybe_persist_marks [log_frames]:
  assumes "\<And>b lg'. marks W lg lg' \<Longrightarrow> Q (b, lg')"
  shows "outcome Q (rl_maybe_persist E i t lg)"
proof -
  have a: "outcome (\<lambda>(b, lg'). advances lg lg') (rl_maybe_persist E i t lg)" by (intro frames) simp
  show ?thesis
    using outcomeD[OF a] outcomeD[OF rl_maybe_persist_extended] by (fastforce intro!: outcome_any assms simp: marks_def)
qed

lemma rl_maybe_persist_snap_marks [log_frames]:
  assumes "\<And>b lg'. marks W lg lg' \<Longrightarrow> Q (b, lg')"
  shows "outcome Q (rl_maybe_persist_snap i lg)"
proof -
  have a: "outcome (\<lambda>(b, lg'). advances lg lg') (rl_maybe_persist_snap i lg)" by (intro frames) simp
  show ?thesis
    using outcomeD[OF a] outcomeD[OF rl_maybe_persist_snap_extended] by (fastforce intro!: outcome_any assms simp: marks_def)
qed

lemma raft_maybe_commit_sends [log_frames]:
  assumes "\<And>b r'. sends W r r' \<Longrightarrow> Q (b, r')"
  shows "outcome Q (raft_maybe_commit E r)"
  unfolding raft_maybe_commit_def
  by (intro vcg log_frames outcome_any assms) simp_all

lemma stamp_entries_terms: "e \<in> set (stamp_entries t li i es) \<Longrightarrow> e_term e = t"
  by (induction es arbitrary: i) auto

lemma append_entry_sends [log_frames]:
  assumes st: "r_state r = Leader" and Q: "\<And>b r'. sends W r r' \<Longrightarrow> Q (b, r')"
  shows "outcome Q (append_entry E es r)"
proof -
  have q: "outcome (\<lambda>(b, r'). quiet r r') (append_entry E es r)" by (intro frames) simp
  have a: "outcome (\<lambda>(b, r'). adds W r r') (append_entry E es r)"
  proof (cases "log_wf W (r_raft_log r)")
    case True
    let ?es = "stamp_entries (r_term r) (log_last W (r_raft_log r)) 0 es"
    obtain i lg where lg: "rl_append E ?es (r_raft_log r) = Some (i, lg)" "extended W ?es (r_raft_log r) lg"
      using rl_append_stamped[OF True] unfolding extended_def by (metis order_refl)
    then have "adds W r (set_log lg (r\<lparr>r_uncommitted_state := u\<rparr>))" for u
      using st stamp_entries_terms by (fastforce simp: adds_def)
    then show ?thesis
      using lg(1) adds_refl[of W r]
      by (auto simp: append_entry_def raft_maybe_increase_uncommitted_size_def rl_last_index_eq[OF True] outcome_def
          split: prod.splits)
  qed (auto simp: append_entry_def adds_def raft_maybe_increase_uncommitted_size_def outcome_def bind_eq_Some_conv split: prod.splits)
  show ?thesis using outcomeD[OF q] outcomeD[OF a] by (fastforce intro!: outcome_any Q simp: sends_def)
qed

section \<open>Handlers that keep the role\<close>

lemma respond_read_sends [log_frames]:
  assumes "\<And>r'. sends W r r' \<Longrightarrow> Q r'"
  shows "outcome Q (respond_read req i r)"
  unfolding respond_read_def handle_ready_read_index_def
  by (intro vcg log_frames outcome_any assms) (auto intro: sends_trans)

lemma respond_reads_sends [log_frames]:
  assumes "\<And>r'. sends W r r' \<Longrightarrow> Q r'"
  shows "outcome Q (respond_reads rss r)"
  using assms
proof (induction rss arbitrary: r)
  case (Cons rs rss)
  show ?case
    unfolding respond_reads.simps by (intro vcg log_frames Cons.IH Cons.prems) (auto intro: sends_trans)
qed simp

lemma handle_append_response_sends [log_frames]:
  assumes "\<And>r'. sends W r r' \<Longrightarrow> Q r'"
  shows "outcome Q (handle_append_response E m r)"
  unfolding handle_append_response_def
  by (intro vcg log_frames outcome_any assms) (auto intro: sends_trans split: if_splits)

lemma handle_heartbeat_response_sends [log_frames]:
  assumes "\<And>r'. sends W r r' \<Longrightarrow> Q r'"
  shows "outcome Q (handle_heartbeat_response E m r)"
  unfolding handle_heartbeat_response_def
  by (intro vcg log_frames outcome_any assms) (auto intro: sends_trans split: if_splits)

lemma handle_transfer_leader_sends [log_frames]:
  assumes "\<And>r'. sends W r r' \<Longrightarrow> Q r'"
  shows "outcome Q (handle_transfer_leader E m r)"
  unfolding handle_transfer_leader_def
  by (intro vcg log_frames outcome_any assms) (auto intro: sends_trans split: if_splits)

lemma handle_snapshot_status_sends: "sends W r (handle_snapshot_status m r)"
  by (auto simp: handle_snapshot_status_def Let_def split: option.splits)

lemma handle_unreachable_sends: "sends W r (handle_unreachable m r)"
  by (auto simp: handle_unreachable_def split: option.splits)

lemma propose_entries_sends [log_frames]:
  assumes "\<And>res r'. sends W r r' \<Longrightarrow> Q (res, r')"
  shows "outcome Q (propose_entries E i es r)"
  using assms
proof (induction es arbitrary: i r Q)
  case (Cons e es)
  show ?case
    unfolding propose_entries.simps
    by (intro vcg Cons.IH Cons.prems outcome_any) (auto intro: sends_trans split: option.splits if_splits)
qed simp

lemma step_propose_sends [log_frames]:
  assumes "r_state r = Leader" "\<And>res r'. sends W r r' \<Longrightarrow> Q (res, r')"
  shows "outcome Q (step_propose E m r)"
  unfolding step_propose_def
  by (intro vcg log_frames ok_step_frame assms(2)) (use assms(1) in \<open>auto intro: sends_trans dest: sends_state\<close>)

lemma step_read_index_sends [log_frames]:
  assumes "\<And>r'. sends W r r' \<Longrightarrow> Q r'"
  shows "outcome Q (step_read_index E m r)"
  unfolding step_read_index_def
  by (cases "ro_option (r_read_only r)"; simp only: read_only_option.case;
      intro vcg log_frames outcome_any assms) (auto intro: sends_trans)

lemma check_quorum_active_sends: "check_quorum_active r = (b, r') \<Longrightarrow> sends W r r'"
  by (auto simp: check_quorum_active_def dest: quorum_recently_active_frame split: prod.splits)

lemma handle_heartbeat_sends [log_frames]:
  assumes "\<And>r'. sends W r r' \<Longrightarrow> Q r'"
  shows "outcome Q (handle_heartbeat E m r)"
  unfolding handle_heartbeat_def
  by (intro vcg log_frames outcome_any assms) (auto intro: sends_trans sends_after_log)

lemma post_conf_change_sends [log_frames]:
  assumes "\<And>cs r'. sends W r r' \<Longrightarrow> Q (cs, r')"
  shows "outcome Q (post_conf_change E r)"
  unfolding post_conf_change_def
  by (intro vcg log_frames outcome_any assms)
    (auto intro: sends_trans sends_after_log split: if_splits option.splits)

lemma on_persist_entries_sends [log_frames]:
  assumes "\<And>r'. sends W r r' \<Longrightarrow> Q r'"
  shows "outcome Q (on_persist_entries E i t r)"
  unfolding on_persist_entries_def
  by (intro vcg log_frames outcome_any assms)
    (auto intro: sends_trans sends_after_log split: if_splits option.splits)

lemma on_persist_snap_sends [log_frames]:
  assumes "\<And>r'. sends W r r' \<Longrightarrow> Q r'"
  shows "outcome Q (on_persist_snap i r)"
  unfolding on_persist_snap_def by (intro vcg log_frames assms) simp

lemma send_vote_requests_sends [log_frames]:
  assumes "vote_msg \<noteq> MsgRequestVoteResponse" "vote_msg \<noteq> MsgAppend" "\<And>r'. sends W r r' \<Longrightarrow> Q r'"
  shows "outcome Q (send_vote_requests E ct vote_msg t c cterm ids r)"
  using assms(3)
proof (induction ids arbitrary: r)
  case (Cons i ids)
  show ?case
    unfolding send_vote_requests.simps
    by (intro vcg log_frames outcome_any Cons.IH Cons.prems)
      (use assms(1,2) in \<open>auto simp: new_message_def intro: sends_trans\<close>)
qed simp

end

end
