(* ===== verification/Log_Growth.thy ===== *)
theory Log_Growth
  imports Log_Sends
begin

text \<open>
  Elections, as far as the log is concerned. They let the log \<open>grow\<close>: the term does not decrease, a node
  becomes leader of a term only as a candidate of that term (\<open>climbs\<close>), and the log is at most extended, by
  entries of its own term if the node has become leader.
\<close>

section \<open>Terms and roles\<close>

text \<open>
  \<open>climbs\<close>: the term does not decrease, and within a term a node becomes leader only as a candidate and does
  not become a candidate at all.
\<close>

definition climbs :: "'s raft \<Rightarrow> 's raft \<Rightarrow> bool" where
  "climbs r r' \<longleftrightarrow> r_term r \<le> r_term r' \<and> (r_term r' = r_term r \<longrightarrow>
     (r_state r' = Leader \<longrightarrow> r_state r = Leader \<or> r_state r = Candidate) \<and>
     (r_state r' = Candidate \<longrightarrow> r_state r = Candidate))"

lemma climbs_refl [simp]: "climbs r r"
  by (simp add: climbs_def)

lemma climbs_trans [trans]: "climbs r s \<Longrightarrow> climbs s t \<Longrightarrow> climbs r t"
  by (auto simp: climbs_def)

lemma sends_climbs: "sends W r s \<Longrightarrow> climbs r s"
  by (auto simp: climbs_def dest: sends_state)

lemma follower_climbs: "r_state s = Follower \<or> r_state s = PreCandidate \<Longrightarrow> r_term r \<le> r_term s \<Longrightarrow> climbs r s"
  by (auto simp: climbs_def)

text \<open>\<open>keeps\<close>: the log has at most read and moved its marks, and no append message was sent.\<close>

definition keeps :: "'s store_view \<Rightarrow> 's raft \<Rightarrow> 's raft \<Rightarrow> bool" where
  "keeps W r r' \<longleftrightarrow> r_batch_append r' = r_batch_append r \<and> appends (r_msgs r') = appends (r_msgs r) \<and>
     (log_wf W (r_raft_log r) \<longrightarrow> extended W [] (r_raft_log r) (r_raft_log r'))"

definition grows :: "'s store_view \<Rightarrow> 's raft \<Rightarrow> 's raft \<Rightarrow> bool" where
  "grows W r r' \<longleftrightarrow> climbs r r' \<and> adds W r r'"

lemma keeps_refl [simp]: "keeps W r r"
  by (simp add: keeps_def extended_refl)

lemma keeps_trans [trans]: "keeps W r s \<Longrightarrow> keeps W s t \<Longrightarrow> keeps W r t"
  unfolding keeps_def
  using extended_trans[of W "[]" "r_raft_log r" "r_raft_log s" "[]" "r_raft_log t"] by (auto simp: extended_def)

lemma keeps_adds: "keeps W r s \<Longrightarrow> adds W r s"
  by (auto simp: keeps_def adds_def)

lemma keeps_then_adds:
  assumes k: "keeps W r s" and a: "adds W s t"
  shows "adds W r t"
  unfolding adds_def
proof (intro conjI impI)
  show "r_batch_append t = r_batch_append r" using assms by (simp add: keeps_def adds_def)
  assume wf: "log_wf W (r_raft_log r)"
  then have x: "extended W [] (r_raft_log r) (r_raft_log s)" using k by (simp add: keeps_def)
  then have wf': "log_wf W (r_raft_log s)" by (simp add: extended_def)
  then show "\<exists>es. extended W es (r_raft_log r) (r_raft_log t) \<and>
      (es \<noteq> [] \<longrightarrow> r_state t = Leader \<and> (\<forall>e \<in> set es. e_term e = r_term t))"
    using a extended_trans[OF x] unfolding adds_def by fastforce
  show "\<forall>m \<in> appends (r_msgs t). m \<in> appends (r_msgs r) \<or> piece_of W (r_raft_log t) m"
    if "\<not> r_batch_append r"
    using that a k wf' by (simp add: adds_def keeps_def)
qed

lemma adds_then_keeps:
  assumes a: "adds W r s" and k: "keeps W s t" and l: "r_state s = Leader \<Longrightarrow> t = s"
  shows "adds W r t"
proof (cases "r_state s = Leader")
  case False
  show ?thesis
    unfolding adds_def
  proof (intro conjI impI)
    show "r_batch_append t = r_batch_append r" using assms by (simp add: keeps_def adds_def)
    assume wf: "log_wf W (r_raft_log r)"
    then have x: "extended W [] (r_raft_log r) (r_raft_log s)" using a False by (auto simp: adds_def)
    then have wf': "log_wf W (r_raft_log s)" by (simp add: extended_def)
    then have y: "extended W [] (r_raft_log s) (r_raft_log t)" using k by (simp add: keeps_def)
    show "\<exists>es. extended W es (r_raft_log r) (r_raft_log t) \<and>
        (es \<noteq> [] \<longrightarrow> r_state t = Leader \<and> (\<forall>e \<in> set es. e_term e = r_term t))"
      using extended_trans[OF x y] by (intro exI[of _ "[]"]) simp
    show "\<forall>m \<in> appends (r_msgs t). m \<in> appends (r_msgs r) \<or> piece_of W (r_raft_log t) m"
      if "\<not> r_batch_append r"
      using that a k wf extended_piece[OF wf' y] by (auto simp: adds_def keeps_def)
  qed
qed (use l a in simp)

lemma grows_refl [simp]: "grows W r r"
  by (simp add: grows_def adds_refl)

lemma sends_grows: "sends W r s \<Longrightarrow> grows W r s"
  using sends_climbs[of W r s] by (simp add: grows_def sends_def)

lemma grows_then_sends: "grows W r s \<Longrightarrow> sends W s t \<Longrightarrow> grows W r t"
  using climbs_trans[OF _ sends_climbs] adds_trans[of W r s t] sends_state[of W s t]
  by (auto simp: grows_def sends_def)

lemma keeps_then_grows: "keeps W r s \<Longrightarrow> climbs r s \<Longrightarrow> grows W s t \<Longrightarrow> grows W r t"
  by (auto simp: grows_def intro: climbs_trans keeps_then_adds)

lemma sends_then_grows_keeps:
  "sends W r s \<Longrightarrow> keeps W r s \<Longrightarrow> grows W s t \<Longrightarrow> grows W r t"
  by (auto intro: keeps_then_grows sends_climbs)

lemma marks_keeps: "marks W (r_raft_log r) lg \<Longrightarrow> keeps W r (set_log lg r)"
  by (simp add: keeps_def marks_def)

lemma raft_send_keeps:
  assumes "m_type m \<noteq> MsgAppend" "\<And>r'. keeps W r r' \<Longrightarrow> r_state r' = r_state r \<Longrightarrow> r_term r' = r_term r \<Longrightarrow> Q r'"
  shows "outcome Q (raft_send m r)"
proof -
  have "keeps W r r' \<and> r_state r' = r_state r \<and> r_term r' = r_term r" if s: "raft_send m r = Some r'" for r'
  proof -
    obtain ms where ms: "core_send r m (r_msgs r) = Some ms" "r' = r\<lparr>r_msgs := ms\<rparr>"
      using s by (auto simp: raft_send_def bind_eq_Some_conv)
    have "appends ms = appends (r_msgs r)" using outcomeD[OF core_send_appends ms(1)] assms(1) by auto
    then show ?thesis using extended_refl[of W "r_raft_log r"] by (auto simp: keeps_def ms(2))
  qed
  then show ?thesis using assms(2) by (auto intro: outcome_any)
qed

section \<open>Changes of role\<close>

definition still :: "'s raft \<Rightarrow> 's raft \<Rightarrow> bool" where
  "still r r' \<longleftrightarrow> r_raft_log r' = r_raft_log r \<and> r_msgs r' = r_msgs r \<and> r_batch_append r' = r_batch_append r"

lemma still_keeps: "still r r' \<Longrightarrow> keeps W r r'"
  by (simp add: still_def keeps_def extended_refl)

lemma raft_reset_still [log_frames]:
  assumes "\<And>r'. still r r' \<Longrightarrow> r_term r' = t \<Longrightarrow> r_state r' = r_state r \<Longrightarrow> Q r'"
  shows "outcome Q (raft_reset E t r)"
  unfolding raft_reset_def reset_randomized_election_timeout_def Let_def abort_leader_transfer_def
  by (intro vcg outcome_any assms) (auto simp: still_def)

lemma become_follower_still [log_frames]:
  assumes "\<And>r'. still r r' \<Longrightarrow> r_term r' = t \<Longrightarrow> r_state r' = Follower \<Longrightarrow> Q r'"
  shows "outcome Q (become_follower E t l r)"
  unfolding become_follower_def Let_def by (intro vcg log_frames assms) (auto simp: still_def)

lemma become_candidate_still [log_frames]:
  assumes "\<And>r'. still r r' \<Longrightarrow> r_term r' = Suc (r_term r) \<Longrightarrow> r_state r' = Candidate \<Longrightarrow> Q r'"
  shows "outcome Q (become_candidate E r)"
  unfolding become_candidate_def by (intro vcg log_frames assms) (auto simp: still_def)

lemma become_pre_candidate_still [log_frames]:
  assumes "\<And>r'. still r r' \<Longrightarrow> r_term r' = r_term r \<Longrightarrow> r_state r' = PreCandidate \<Longrightarrow> Q r'"
  shows "outcome Q (become_pre_candidate r)"
  unfolding become_pre_candidate_def by (intro vcg assms) (auto simp: still_def)

lemma recorded_fields [simp]:
  "r_state (recorded i v r) = r_state r" "r_term (recorded i v r) = r_term r" "still r (recorded i v r)"
  by (simp_all add: recorded_def still_def)

lemma follower_grows: "still r s \<Longrightarrow> r_term r \<le> r_term s \<Longrightarrow> r_state s = Follower \<Longrightarrow> grows W r s"
  by (simp add: grows_def follower_climbs keeps_adds still_keeps)

context reading_storage
begin

lemma leader_grows:
  assumes "sends W s r'" "still r s" "r_term s = r_term r" "r_state s = Leader" "r_state r = Candidate"
  shows "grows W r r' \<and> r_state r' = Leader"
proof
  have "climbs r s" using assms(3,5) by (simp add: climbs_def)
  then show "grows W r r'" by (rule keeps_then_grows[OF still_keeps[OF assms(2)] _ sends_grows[OF assms(1)]])
  show "r_state r' = Leader" using sends_state[OF assms(1)] assms(4) by simp
qed

lemma become_leader_grows [log_frames]:
  assumes "r_state r = Candidate" "\<And>r'. grows W r r' \<Longrightarrow> r_state r' = Leader \<Longrightarrow> Q r'"
  shows "outcome Q (become_leader E r)"
  unfolding become_leader_def Let_def
  apply (intro vcg log_frames outcome_any assms(2))
  subgoal by simp
  subgoal by (drule leader_grows[where r = r]; simp add: still_def assms(1))
  subgoal by (drule leader_grows[where r = r]; simp add: still_def assms(1))
  done

section \<open>Elections\<close>

lemma poll_candidate_grows:
  assumes "r_state r = Candidate" "\<And>res r'. grows W r r' \<Longrightarrow> Q (res, r')"
  shows "outcome Q (poll E i v r)"
proof -
  let ?s = "recorded i v r"
  obtain g rj res where t: "tally_votes (r_prs ?s) = (g, rj, res)" by (cases "tally_votes (r_prs ?s)")
  have k: "grows W r t" if "grows W ?s t" for t
    by (rule keeps_then_grows[OF still_keeps _ that]) (simp_all add: climbs_def)
  show ?thesis
  proof (cases res)
    case Won
    show ?thesis
      unfolding poll.simps Let_def recorded_def[symmetric] t Won using assms(1)
      by (simp, intro vcg log_frames assms(2) k) (auto intro: grows_then_sends)
  next
    case Lost
    show ?thesis
      unfolding poll.simps Let_def recorded_def[symmetric] t Lost
      by (simp, intro vcg log_frames assms(2) k) (simp add: follower_grows)
  next
    case Pending
    show ?thesis
      unfolding poll.simps Let_def recorded_def[symmetric] t Pending using assms(2)[OF k] by simp
  qed
qed

lemma campaign_election_grows:
  assumes "ct \<noteq> CAMPAIGN_PRE_ELECTION" and Q: "\<And>r'. grows W r r' \<Longrightarrow> Q r'"
  shows "outcome Q (campaign E ct r)"
proof (cases "begin_campaign E ct r")
  case (Some x)
  obtain vm u c where x: "x = (vm, u, c)" by (cases x)
  have "outcome (\<lambda>(vm, u, c). vm = MsgRequestVote \<and> still r c \<and> r_term c = Suc (r_term r) \<and> r_state c = Candidate)
      (begin_campaign E ct r)"
    unfolding begin_campaign_def using assms(1) by (simp, intro log_frames) simp
  from outcomeD[OF this Some[unfolded x]]
  have c: "vm = MsgRequestVote" "still r c" "r_term c = Suc (r_term r)" "r_state c = Candidate" by simp_all
  have k: "grows W r t" if "grows W c t" for t
    by (rule keeps_then_grows[OF still_keeps[OF c(2)] _ that]) (simp add: climbs_def c)
  have "outcome (\<lambda>(res, s). grows W r s) (poll E (r_id c) True c)"
    by (intro poll_candidate_grows c(4)) (simp add: k)
  then have p: "grows W r s" if "poll E (r_id c) True c = Some (res, s)" for res s
    using that by (auto dest: outcomeD)
  show ?thesis
    unfolding campaign.simps Some x option.case prod.case
    by (intro vcg log_frames outcome_any Q) (use c(1) in \<open>auto dest!: p intro: grows_then_sends\<close>)
qed (simp add: campaign.simps)

lemma poll_precandidate_grows:
  assumes "r_state r = PreCandidate" and Q: "\<And>res r'. grows W r r' \<Longrightarrow> Q (res, r')"
  shows "outcome Q (poll E i v r)"
proof -
  let ?s = "recorded i v r"
  obtain g rj res where t: "tally_votes (r_prs ?s) = (g, rj, res)" by (cases "tally_votes (r_prs ?s)")
  have k: "grows W r t" if "grows W ?s t" for t
    by (rule keeps_then_grows[OF still_keeps _ that]) (simp_all add: climbs_def)
  have "outcome (grows W r) (campaign E CAMPAIGN_ELECTION ?s)"
    by (intro campaign_election_grows k) (auto simp: CAMPAIGN_ELECTION_def CAMPAIGN_PRE_ELECTION_def)
  then have c: "grows W r r'" if "campaign E CAMPAIGN_ELECTION ?s = Some r'" for r'
    using that by (rule outcomeD)
  show ?thesis
    unfolding poll.simps Let_def recorded_def[symmetric] t
    using assms(1) by (cases res; simp; intro vcg log_frames outcome_any Q)
      (auto intro: k[OF grows_refl] k[OF follower_grows] dest!: c)
qed

lemma poll_grows [log_frames]:
  assumes "r_state r = Candidate \<or> r_state r = PreCandidate" "\<And>res r'. grows W r r' \<Longrightarrow> Q (res, r')"
  shows "outcome Q (poll E i v r)"
  using assms(1) by (rule disjE) (intro poll_candidate_grows poll_precandidate_grows assms; assumption)+

lemma campaign_grows [log_frames]:
  assumes Q: "\<And>r'. grows W r r' \<Longrightarrow> Q r'"
  shows "outcome Q (campaign E ct r)"
proof (cases "ct = CAMPAIGN_PRE_ELECTION")
  case True
  show ?thesis
  proof (cases "become_pre_candidate r")
    case (Some p)
    have "outcome (\<lambda>p. still r p \<and> r_term p = r_term r \<and> r_state p = PreCandidate) (become_pre_candidate r)"
      by (intro log_frames) simp
    from outcomeD[OF this Some] have p: "still r p" "r_term p = r_term r" "r_state p = PreCandidate" by simp_all
    have k: "grows W r t" if "grows W p t" for t
      by (rule keeps_then_grows[OF still_keeps[OF p(1)] _ that]) (simp add: climbs_def p)
    have "outcome (\<lambda>(res, s). grows W r s) (poll E (r_id p) True p)"
      by (intro poll_precandidate_grows p(3)) (simp add: k)
    then have pl: "grows W r s" if "poll E (r_id p) True p = Some (res, s)" for res s
      using that by (auto dest: outcomeD)
    show ?thesis
      unfolding campaign.simps begin_campaign_def Some True
      by (simp, intro vcg log_frames outcome_any Q) (auto dest!: pl intro: grows_then_sends)
  qed (simp add: campaign.simps begin_campaign_def True)
qed (rule campaign_election_grows[OF _ assms])

lemma hup_grows [log_frames]:
  assumes Q: "\<And>r'. grows W r r' \<Longrightarrow> Q r'"
  shows "outcome Q (hup E transfer r)"
proof -
  have k: "grows W r t" if "marks W (r_raft_log r) lg" "grows W (set_log lg r) t" for lg t
    by (rule keeps_then_grows[OF marks_keeps[OF that(1)] _ that(2)]) (simp add: climbs_def)
  show ?thesis
    unfolding hup_def Let_def by (intro vcg log_frames outcome_any Q) (auto intro: k sends_grows)
qed

end

end
