(* ===== verification/Log_Moves.thy ===== *)
theory Log_Moves
  imports Log_Growth
begin

text \<open>
  The messages that change the log of a follower, \<open>step\<close> with its three roles, the clock and the rest of
  \<open>node_handle\<close>: every input of a node either lets its log grow or makes a follower accept the entries of
  an append message or a snapshot.
\<close>

text \<open>
  \<open>accepts\<close>: a follower has taken over the entries or the snapshot of a message. A leader does so only by
  moving to a later term. No append message is sent.
\<close>

definition accepts :: "'s store_view \<Rightarrow> message \<Rightarrow> 's raft \<Rightarrow> 's raft \<Rightarrow> bool" where
  "accepts W m r r' \<longleftrightarrow> r_state r' = Follower \<and> r_term r \<le> r_term r' \<and> (r_state r = Leader \<longrightarrow> r_term r < r_term r') \<and>
     r_batch_append r' = r_batch_append r \<and> appends (r_msgs r') = appends (r_msgs r) \<and>
     (m_type m = MsgAppend \<and> (log_wf W (r_raft_log r) \<longrightarrow> spliced W m (r_raft_log r) (r_raft_log r')) \<or>
      m_type m = MsgSnapshot \<and> (log_wf W (r_raft_log r) \<longrightarrow> restored W (r_raft_log r) (r_raft_log r')))"

text \<open>\<open>moves\<close>: what the step of a node on a message does to the log.\<close>

definition moves :: "'s store_view \<Rightarrow> message \<Rightarrow> 's raft \<Rightarrow> 's raft \<Rightarrow> bool" where
  "moves W m r r' \<longleftrightarrow> grows W r r' \<or> accepts W m r r'"

text \<open>The message is well formed: the entries of an append message are numbered from the position after \<open>m_index\<close>.\<close>

definition message_wf :: "message \<Rightarrow> bool" where
  "message_wf m \<longleftrightarrow> (m_type m = MsgAppend \<longrightarrow> numbered (Suc (m_index m)) (m_entries m))"

lemma grows_moves: "grows W r r' \<Longrightarrow> moves W m r r'"
  by (simp add: moves_def)

lemma sends_moves: "sends W r r' \<Longrightarrow> moves W m r r'"
  by (simp add: moves_def sends_grows)

lemma accepts_then_keeps:
  assumes "accepts W m r s" "keeps W s t" "r_state t = r_state s" "r_term t = r_term s"
  shows "accepts W m r t"
proof -
  have "spliced W m (r_raft_log r) (r_raft_log t)"
    if "spliced W m (r_raft_log r) (r_raft_log s)" "extended W [] (r_raft_log s) (r_raft_log t)"
    using that by (auto simp: spliced_def extended_def)
  moreover have "restored W (r_raft_log r) (r_raft_log t)"
    if "restored W (r_raft_log r) (r_raft_log s)" "extended W [] (r_raft_log s) (r_raft_log t)"
    using that by (auto simp: restored_def extended_def)
  moreover have "log_wf W (r_raft_log s)" if "log_wf W (r_raft_log r)"
    using that assms(1) by (auto simp: accepts_def spliced_def restored_def)
  ultimately show ?thesis using assms by (auto simp: accepts_def keeps_def)
qed

lemma still_then_accepts:
  "\<lbrakk>still r s; accepts W m s t; r_term r \<le> r_term s; r_state r = Leader \<Longrightarrow> r_term r < r_term t\<rbrakk> \<Longrightarrow> accepts W m r t"
  by (auto simp: accepts_def still_def)

lemma still_then_moves:
  assumes "still r s" "climbs r s" "moves W m s t" "r_state r = Leader \<Longrightarrow> r_term r < r_term s"
  shows "moves W m r t"
proof (cases "grows W s t")
  case True
  then show ?thesis using keeps_then_grows[OF still_keeps[OF assms(1)] assms(2)] by (simp add: moves_def)
next
  case False
  then have a: "accepts W m s t" using assms(3) by (simp add: moves_def)
  then have "accepts W m r t"
    using assms by (intro still_then_accepts[OF assms(1) a]) (auto simp: climbs_def accepts_def)
  then show ?thesis by (simp add: moves_def)
qed

lemma raft_send_plain:
  assumes "\<not> is_grant m" "m_type m \<noteq> MsgAppend" "\<And>r'. keeps W r r' \<Longrightarrow> quiet r r' \<Longrightarrow> Q r'"
  shows "outcome Q (raft_send m r)"
proof -
  have "outcome (quiet r) (raft_send m r)" by (rule raft_send_quiet[OF assms(1)])
  moreover have "outcome (keeps W r) (raft_send m r)" by (intro raft_send_keeps assms(2))
  ultimately show ?thesis using assms(3) by (auto simp: outcome_def)
qed

lemma post_conf_change_keeps:
  assumes "r_state r \<noteq> Leader" "\<And>cs b. Q (cs, r\<lparr>r_promotable := b\<rparr>)"
  shows "outcome Q (post_conf_change E r)"
  unfolding post_conf_change_def using assms by (auto simp: Let_def)

context reading_storage
begin

lemma maybe_commit_by_vote_keeps [log_frames]:
  assumes Q: "\<And>r'. \<lbrakk>keeps W r r'; r_state r = Leader \<Longrightarrow> r' = r; r_term r' = r_term r;
      r_state r' = r_state r \<or> r_state r' = Follower\<rbrakk> \<Longrightarrow> Q r'"
  shows "outcome Q (maybe_commit_by_vote E m r)"
proof -
  have k: "keeps W r r'" if "marks W (r_raft_log r) lg" "marks W lg lg1" "still (set_log lg1 r) r'" for lg lg1 r'
    using keeps_trans[OF marks_keeps[OF marks_trans[OF that(1,2)]] still_keeps[OF that(3)]] .
  show ?thesis
    unfolding maybe_commit_by_vote_def Let_def
    by (intro vcg log_frames outcome_any Q) (auto intro: k marks_keeps marks_trans)
qed

lemma append_outcome:
  assumes st: "r_state r = Follower" and m: "message_wf m" "m_type m = MsgAppend"
    and lg: "rl_maybe_append E (m_index m) (m_log_term m) (m_commit m) (m_entries m) (r_raft_log r) = Some (res, lg)"
    and c: "\<not> m_index m < rl_committed (r_raft_log r)" and k: "keeps W (set_log lg r) r'" "quiet (set_log lg r) r'"
  shows "sends W r r' \<or> accepts W m r r'"
proof (cases "log_wf W (r_raft_log r) \<longrightarrow> extended W [] (r_raft_log r) lg")
  case True
  have adv: "advances (r_raft_log r) lg"
    using outcomeD[OF rl_maybe_append_frame[where Q = "\<lambda>(_, l). advances (r_raft_log r) l"] lg] by simp
  then have "marks W (r_raft_log r) lg" using True by (simp add: marks_def)
  then show ?thesis
    using keeps_adds[OF keeps_trans[OF marks_keeps k(1)]] quiet_after_log[OF k(2) adv] by (simp add: sends_def)
next
  case False
  have num: "numbered (Suc (m_index m)) (m_entries m)" using m by (simp add: message_wf_def)
  have "spliced W m (r_raft_log r) lg"
    using outcomeD[OF rl_maybe_append_spliced[OF _ _ num] lg] c False by auto
  then have "accepts W m r (set_log lg r)" using m(2) st by (auto simp: accepts_def)
  then show ?thesis using accepts_then_keeps[OF _ k(1)] k(2) by (simp add: quiet_def)
qed

lemma handle_append_entries_moves [log_frames]:
  assumes m: "m_type m = MsgAppend" "message_wf m" and st: "r_state r = Follower"
    and Q: "\<And>r'. moves W m r r' \<Longrightarrow> Q r'"
  shows "outcome Q (handle_append_entries E m r)"
proof -
  have s: "outcome Q (send_request_snapshot E r)" by (intro log_frames Q sends_moves)
  have p: "Q r'" if "keeps W r r'" "quiet r r'" for r'
    using that keeps_adds[OF that(1)] by (intro Q sends_moves) (simp add: sends_def)
  have "Q r'" if "sends W r r' \<or> accepts W m r r'" for r'
    using that Q sends_moves unfolding moves_def by blast
  note a = this[OF append_outcome[OF st m(2,1)]]
  show ?thesis
    unfolding handle_append_entries_def
    by (intro s vcg raft_send_plain[where W = W] outcome_any) (auto intro: p a)
qed

lemma raft_restore_moves [log_frames]:
  assumes st: "r_state r = Follower"
    and Q: "\<And>b r'. \<lbrakk>keeps W r r' \<or> (log_wf W (r_raft_log r) \<longrightarrow> restored W (r_raft_log r) (r_raft_log r')) \<and>
        appends (r_msgs r') = appends (r_msgs r) \<and> r_batch_append r' = r_batch_append r;
      r_state r' = Follower; r_term r' = r_term r\<rbrakk> \<Longrightarrow> Q (b, r')"
  shows "outcome Q (raft_restore E snap r)"
proof -
  have k: "Q (b, r')" if "keeps W r r'" "r_state r' = Follower" "r_term r' = r_term r" for b r'
    using Q that by blast
  have a: "Q (b, r')" if "rl_restore snap (r_raft_log r) = Some lg" "r_raft_log r' = lg" "r_msgs r' = r_msgs r"
      "r_batch_append r' = r_batch_append r" "r_state r' = Follower" "r_term r' = r_term r" for b r' lg
    using outcomeD[OF rl_restore_restored that(1)] that by (intro Q) auto
  show ?thesis
    unfolding raft_restore_def Let_def
    by (intro vcg rl_commit_to_marks become_follower_still post_conf_change_keeps outcome_any; simp add: st k marks_keeps)
      (erule a; simp add: st)+
qed

lemma handle_snapshot_moves [log_frames]:
  assumes m: "m_type m = MsgSnapshot" and st: "r_state r = Follower"
    and Q: "\<And>r'. moves W m r r' \<Longrightarrow> Q r'"
  shows "outcome Q (handle_snapshot E m r)"
proof -
  have k: "Q r'" if "keeps W r s" "r_state s = Follower" "r_term s = r_term r" "keeps W s r'" "quiet s r'" for s r'
    using that st keeps_adds[OF keeps_trans[OF that(1,4)]]
    by (intro Q grows_moves) (simp add: grows_def climbs_def quiet_def)
  have a: "Q r'" if "log_wf W (r_raft_log r) \<longrightarrow> restored W (r_raft_log r) (r_raft_log s)"
      "appends (r_msgs s) = appends (r_msgs r)" "r_batch_append s = r_batch_append r"
      "r_state s = Follower" "r_term s = r_term r" "keeps W s r'" "quiet s r'" for s r'
  proof -
    have "accepts W m r s" using that st m by (simp add: accepts_def)
    then have "accepts W m r r'" using accepts_then_keeps[OF _ that(6)] that(7) by (simp add: quiet_def)
    then show ?thesis by (intro Q) (simp add: moves_def)
  qed
  show ?thesis
    unfolding handle_snapshot_def
    by (intro vcg raft_restore_moves[OF st] raft_send_plain[where W = W] outcome_any) (auto intro: k a)
qed

section \<open>A step of a node\<close>

lemma keeps_fields [simp]:
  "keeps W r (s\<lparr>r_election_elapsed := i\<rparr>) \<longleftrightarrow> keeps W r s" "keeps W r (s\<lparr>r_vote := v\<rparr>) \<longleftrightarrow> keeps W r s"
  "keeps W r (s\<lparr>r_election_elapsed := i, r_vote := v\<rparr>) \<longleftrightarrow> keeps W r s"
  by (simp_all add: keeps_def)

lemma keeps_grows: "keeps W r s \<Longrightarrow> r_term s = r_term r \<Longrightarrow> r_state s = r_state r \<or> r_state s = Follower \<Longrightarrow> grows W r s"
  by (auto simp: grows_def climbs_def keeps_adds)

lemma grows_then_keeps:
  assumes "grows W r s" "keeps W s t" "r_state s = Leader \<Longrightarrow> t = s" "r_term t = r_term s"
    "r_state t = r_state s \<or> r_state t = Follower"
  shows "grows W r t"
  using assms adds_then_keeps[OF _ assms(2)] by (auto simp: grows_def climbs_def)

lemma step_vote_request_grows [log_frames]:
  assumes Q: "\<And>r'. grows W r r' \<Longrightarrow> Q r'"
  shows "outcome Q (step_vote_request E m r)"
proof -
  have n: "resp \<noteq> MsgAppend" if "vote_resp_msg_type (m_type m) = Some resp" for resp
    using that by (auto simp: vote_resp_Some)
  have f: "r_state (if b then s\<lparr>r_election_elapsed := 0, r_vote := v\<rparr> else s) = r_state s"
    "r_term (if b then s\<lparr>r_election_elapsed := 0, r_vote := v\<rparr> else s) = r_term s"
    "keeps W r (if b then s\<lparr>r_election_elapsed := 0, r_vote := v\<rparr> else s) \<longleftrightarrow> keeps W r s" for b s v
    by simp_all
  have g: "grows W r t" if "keeps W r s" "r_state s = r_state r" "r_term s = r_term r"
    "keeps W s t" "r_term t = r_term s" "r_state t = r_state s \<or> r_state t = Follower" for s t
    using that keeps_trans[of W r s t] by (intro keeps_grows) auto
  show ?thesis
    unfolding step_vote_request_def Let_def
    by (intro vcg maybe_commit_by_vote_keeps raft_send_keeps[where W = W] outcome_any Q)
      (auto simp: n f intro: g keeps_grows)
qed

lemma step_leader_grows [log_frames]:
  assumes st: "r_state r = Leader" and Q: "\<And>res r'. grows W r r' \<Longrightarrow> Q (res, r')"
  shows "outcome Q (step_leader E m r)"
proof -
  have cq: "grows W r r'" if c: "check_quorum_active r = (b, r1)" and s: "still r1 r'" "r_term r' = r_term r1" "r_state r' = Follower"
    for b r1 r'
  proof -
    have "still r r1" "r_term r1 = r_term r" using c by (auto simp: check_quorum_active_def still_def split: prod.splits)
    then show ?thesis using s by (intro follower_grows) (simp_all add: still_def)
  qed
  show ?thesis
    unfolding step_leader_def Let_def
    by (cases "m_type m"; simp only: message_type.case; intro vcg log_frames ok_step_frame Q)
      (auto intro: sends_grows cq check_quorum_active_sends handle_snapshot_status_sends handle_unreachable_sends st)
qed

lemma step_candidate_moves [log_frames]:
  assumes m: "message_wf m" and st: "r_state r = Candidate \<or> r_state r = PreCandidate"
    and Q: "\<And>res r'. moves W m r r' \<Longrightarrow> Q (res, r')"
  shows "outcome Q (step_candidate E m r)"
proof -
  have f: "moves W m r t" if "still r s" "r_term s = m_term m" "r_state s = Follower" "r_term r = m_term m" "moves W m s t" for s t
    using that st by (intro still_then_moves[OF that(1) _ that(5)]) (auto intro: follower_climbs)
  have p: "outcome Q (ok_step (poll E (m_from m) (\<not> m_reject m) r \<bind> (\<lambda>(_, r1). maybe_commit_by_vote E m r1)))"
    by (intro vcg log_frames ok_step_frame Q st) (auto intro: grows_moves grows_then_keeps)
  show ?thesis
    unfolding step_candidate_def Let_def
    by (cases "m_type m"; simp only: message_type.case; intro p vcg log_frames ok_step_frame Q m)
      (auto intro: sends_moves f)
qed

lemma step_follower_moves [log_frames]:
  assumes m: "message_wf m" and st: "r_state r = Follower" and Q: "\<And>res r'. moves W m r r' \<Longrightarrow> Q (res, r')"
  shows "outcome Q (step_follower E m r)"
proof -
  have f: "moves W m r t" if "moves W m (r\<lparr>r_election_elapsed := 0, r_leader_id := l\<rparr>) t" for l t
    by (rule still_then_moves[OF _ _ that]) (simp_all add: still_def climbs_def st)
  have c: "moves W m r (r\<lparr>r_read_states := rs, r_raft_log := lg\<rparr>)" if "marks W (r_raft_log r) lg" for rs lg
    using that by (intro grows_moves keeps_grows) (simp_all add: keeps_def marks_def)
  have rr: "outcome Q (case m_entries m of [] \<Rightarrow> Some (Inr (), r)
     | [e] \<Rightarrow> ok_step (do {
              let r1 = r\<lparr>r_read_states := r_read_states r @
                         [\<lparr>rst_index = m_index m, rst_request_ctx = e_data e\<rparr>]\<rparr>;
              (_, lg) \<leftarrow> rl_maybe_commit E (m_index m) (m_term m) (r_raft_log r1);
              Some (set_log lg r1) })
     | e # e' # es \<Rightarrow> Some (Inr (), r))"
    by (cases "m_entries m"; simp; cases "tl (m_entries m)"; simp; intro vcg log_frames ok_step_frame Q)
      (auto intro: sends_moves c)
  show ?thesis
    unfolding step_follower_def
    by (cases "m_type m"; simp only: message_type.case; intro rr vcg log_frames ok_step_frame Q m)
      (auto intro: sends_moves grows_moves f simp: st)
qed

lemma step_role_moves [log_frames]:
  assumes "message_wf m" "\<And>res r'. moves W m r r' \<Longrightarrow> Q (res, r')"
  shows "outcome Q (step_role E m r)"
  unfolding step_role_def
  by (cases "r_state r"; simp only: state_role.case; intro vcg log_frames ok_step_frame assms)
    (auto intro: grows_moves)

lemma step_term_still [log_frames]:
  assumes stop: "\<And>r'. sends W r r' \<Longrightarrow> Q (Inl r')" and same: "Q (Inr r)"
    and newer: "\<And>s. still r s \<Longrightarrow> r_term r < r_term s \<Longrightarrow> r_state s = Follower \<Longrightarrow> Q (Inr s)"
  shows "outcome Q (step_term E m r)"
  unfolding step_term_def Let_def
  by (intro vcg log_frames stop same newer) (auto simp: new_message_def)

lemma raft_step_moves [log_frames]:
  assumes m: "message_wf m" and Q: "\<And>res r'. moves W m r r' \<Longrightarrow> Q (res, r')"
  shows "outcome Q (raft_step E m r)"
proof -
  have "moves W m r t" if "still r s" "r_term r < r_term s" "r_state s = Follower" "moves W m s t" for s t
    using that by (intro still_then_moves[OF that(1) _ that(4)]) (auto intro: follower_climbs)
  then show ?thesis
    unfolding raft_step_def by (intro vcg log_frames m Q) (auto intro!: vcg log_frames m Q intro: sends_moves)
qed

lemma step_ignore_moves [log_frames]:
  assumes "message_wf m" "\<And>r'. moves W m r r' \<Longrightarrow> Q r'"
  shows "outcome Q (step_ignore E m r)"
  unfolding step_ignore_def by (intro vcg log_frames assms)

section \<open>Everything the application does to a node\<close>

lemma local_moves: "moves W m r r' \<Longrightarrow> m_type m \<noteq> MsgAppend \<Longrightarrow> m_type m \<noteq> MsgSnapshot \<Longrightarrow> grows W r r'"
  by (auto simp: moves_def accepts_def)

lemma step_local_grows:
  assumes "m_type m \<noteq> MsgAppend" "m_type m \<noteq> MsgSnapshot" "\<And>r'. grows W r r' \<Longrightarrow> Q r'"
  shows "outcome Q (step_ignore E m r)"
  by (intro step_ignore_moves assms(3) local_moves[OF _ assms(1,2)]) (use assms(1) in \<open>simp_all add: message_wf_def\<close>)

lemma step_beat_sends:
  assumes "r_state r = Leader" "\<And>r'. sends W r r' \<Longrightarrow> Q r'"
  shows "outcome Q (step_ignore E (new_message INVALID_ID MsgBeat (Some i)) r)"
  unfolding step_ignore_def raft_step_def step_term_def step_role_def step_leader_def
  using assms(1) by simp (intro vcg log_frames ok_step_frame assms(2))

lemma still_then_grows: "still r s \<Longrightarrow> r_term s = r_term r \<Longrightarrow> r_state s = r_state r \<Longrightarrow> grows W s t \<Longrightarrow> grows W r t"
  by (rule keeps_then_grows[OF still_keeps]) (simp_all add: climbs_def)

lemma abort_leader_transfer_role [simp]:
  "r_state (abort_leader_transfer r) = r_state r" "r_term (abort_leader_transfer r) = r_term r"
  by (simp_all add: abort_leader_transfer_def)

lemma raft_tick_grows [log_frames]:
  assumes Q: "\<And>b r'. grows W r r' \<Longrightarrow> Q (b, r')"
  shows "outcome Q (raft_tick E r)"
proof -
  have e: "outcome Q (tick_election E r)"
    unfolding tick_election_def Let_def
    by (intro vcg step_local_grows Q) (auto intro: sends_grows still_then_grows[rotated 3] simp: still_def)
  define r1 where "r1 = r\<lparr>r_heartbeat_elapsed := r_heartbeat_elapsed r + 1, r_election_elapsed := r_election_elapsed r + 1\<rparr>"
  have r1: "sends W r r1" "sends W r (r1\<lparr>r_election_elapsed := 0\<rparr>)"
    unfolding sends_def r1_def
    by (intro conjI keeps_adds still_keeps; simp add: quiet_def steady_def still_def)+
  have l: "grows W r t" if "grows W (r1\<lparr>r_election_elapsed := 0\<rparr>) t" for t
    by (rule still_then_grows[OF _ _ _ that]) (simp_all add: still_def r1_def)
  have t: "grows W s (if b then abort_leader_transfer x else x) \<longleftrightarrow> grows W s x"
    "sends W (if b then abort_leader_transfer x else x) s \<longleftrightarrow> sends W x s"
    "r_state (if b then abort_leader_transfer x else x) = r_state x" for s x b
    by (auto simp: grows_def climbs_def)
  have h: "outcome Q (tick_heartbeat E r)"
    unfolding tick_heartbeat_def Let_def r1_def[symmetric]
    by (intro step_beat_sends step_local_grows vcg Q; (simp only: t simp_thms sends_other_fields_left)?)
      (auto intro: r1 sends_grows l grows_then_sends sends_trans)
  show ?thesis unfolding raft_tick_def by (cases "r_state r") (simp_all add: e h)
qed

lemma raft_commit_apply_sends [log_frames]:
  assumes Q: "\<And>r'. sends W r r' \<Longrightarrow> Q r'"
  shows "outcome Q (raft_commit_apply E i r)"
proof -
  have a: "sends W r (set_log lg r)" if l: "rl_applied_to i (r_raft_log r) = Some lg" for lg
  proof -
    have "outcome (\<lambda>lg. quiet r (set_log lg r)) (rl_applied_to i (r_raft_log r))"
      by (intro frames) (simp add: quiet_def steady_def)
    then have "quiet r (set_log lg r)" using l by (rule outcomeD)
    moreover have "keeps W r (set_log lg r)"
      using outcomeD[OF rl_applied_to_extended l] by (simp add: keeps_def)
    ultimately show ?thesis by (simp add: sends_def keeps_adds)
  qed
  show ?thesis
    unfolding raft_commit_apply_def Let_def
    apply (intro vcg append_entry_sends outcome_any Q)
    subgoal by simp
    subgoal by (drule a) (auto intro: sends_trans)
    subgoal by (rule a)
    done
qed

lemma raft_apply_conf_change_grows [log_frames]:
  assumes Q: "\<And>res r'. grows W r r' \<Longrightarrow> Q (res, r')"
  shows "outcome Q (raft_apply_conf_change E cc r)"
proof -
  have c: "grows W r r'" if "sends W (r\<lparr>r_prs := t\<rparr>) r'" for t r'
    using sends_grows[OF that] by (simp add: grows_def climbs_def)
  show ?thesis
    unfolding raft_apply_conf_change_def
    by (intro vcg log_frames outcome_any Q) (auto intro: c)
qed

end

definition input_wf :: "input \<Rightarrow> bool" where
  "input_wf inp \<longleftrightarrow> (case inp of Receive m \<Rightarrow> message_wf m | _ \<Rightarrow> True)"

definition input_moves :: "'s store_view \<Rightarrow> input \<Rightarrow> 's raft \<Rightarrow> 's raft \<Rightarrow> bool" where
  "input_moves W inp r r' \<longleftrightarrow> grows W r r' \<or> (\<exists>m. inp = Receive m \<and> accepts W m r r')"

context reading_storage
begin

lemma node_handle_moves:
  assumes "input_wf inp"
  shows "outcome (input_moves W inp r) (node_handle E inp r)"
proof -
  have g: "input_moves W inp r r'" if "grows W r r'" for inp r' using that by (simp add: input_moves_def)
  show ?thesis
  proof (cases inp)
    case (Receive m)
    then show ?thesis
      using assms unfolding Receive node_handle.simps input_wf_def
      by (intro log_frames) (auto simp: moves_def input_moves_def)
  next
    case Handover
    have "grows W r (r\<lparr>r_msgs := []\<rparr>)" using extended_refl[of W "r_raft_log r"] by (auto simp: grows_def climbs_def adds_def)
    then show ?thesis using g by (simp add: Handover)
  qed (simp only: node_handle.simps; intro vcg log_frames; auto intro!: g intro: sends_grows)+
qed

end

end
