(* ===== verification/Log_Links.thy ===== *)
theory Log_Links
  imports Log_Moves
begin

text \<open>
  Links: what a log says about its entries, and how the links of a log change when it is extended by a
  leader or takes over the entries of an append message.
\<close>

section \<open>Links\<close>

text \<open>A link is an entry together with the term of the position before it.\<close>

definition links :: "'s store_view \<Rightarrow> 's raft_log \<Rightarrow> (entry \<times> nat option) set" where
  "links W lg = {(log_at W lg p, log_term W lg (p - 1)) |p. log_base W lg < p \<and> p \<le> log_last W lg}"

definition message_links :: "message \<Rightarrow> (entry \<times> nat option) set" where
  "message_links m = {(m_entries m ! k, Some (message_term m k)) |k. k < length (m_entries m)}"

text \<open>The links of the entries that were appended.\<close>

definition new_links :: "'s store_view \<Rightarrow> 's raft_log \<Rightarrow> 's raft_log \<Rightarrow> (entry \<times> nat option) set" where
  "new_links W lg lg' = {(log_at W lg' p, log_term W lg' (p - 1)) |p. log_last W lg < p \<and> p \<le> log_last W lg'}"

text \<open>
  \<open>covers H L\<close>: the links of \<open>L\<close> are in \<open>H\<close>, up to terms that \<open>L\<close> does not know. A storage that has dropped
  the beginning of the log may not know the term before its first entry.
\<close>

definition covers :: "(entry \<times> nat option) set \<Rightarrow> (entry \<times> nat option) set \<Rightarrow> bool" where
  "covers H L \<longleftrightarrow> (\<forall>(e, t) \<in> L. \<exists>t'. (e, t') \<in> H \<and> (t = None \<or> t = t'))"

lemma covers_subset: "L \<subseteq> H \<Longrightarrow> covers H L"
  by (auto simp: covers_def)

lemma covers_mono: "covers H L \<Longrightarrow> H \<subseteq> H' \<Longrightarrow> covers H' L"
  unfolding covers_def by blast

lemma covers_trans: "covers H L \<Longrightarrow> covers L K \<Longrightarrow> covers H K"
  unfolding covers_def by fastforce

lemma covers_Un: "covers H L \<Longrightarrow> covers H K \<Longrightarrow> covers H (L \<union> K)"
  by (auto simp: covers_def)

lemma covers_less: "covers H L \<Longrightarrow> K \<subseteq> L \<Longrightarrow> covers H K"
  by (auto simp: covers_def)

lemma covers_known: "covers H (message_links m) \<Longrightarrow> message_links m \<subseteq> H"
  by (fastforce simp: covers_def message_links_def)

lemma log_at_term:
  assumes "log_base W lg < p" "p \<le> log_last W lg"
  shows "log_term W lg p = Some (e_term (log_at W lg p))"
  using assms by (simp add: log_term_def log_at_def)

lemma links_empty: "log_ents W lg = [] \<Longrightarrow> links W lg = {}"
  by (simp add: links_def log_last_def)

lemma extended_at:
  assumes "extended W es lg lg'" "log_base W lg < p" "p \<le> log_last W lg"
  shows "log_at W lg' p = log_at W lg p"
  using assms by (auto simp: extended_def log_at_def log_last_def nth_append)

lemma spliced_links:
  assumes wf: "log_wf W lg" and s: "spliced W m lg lg'"
  shows "links W lg' \<subseteq> links W lg \<union> message_links m"
proof (clarsimp simp: links_def[of W lg'])
  fix p assume p: "log_base W lg' < p" "p \<le> log_last W lg'"
    and nm: "(log_at W lg' p, log_term W lg' (p - Suc 0)) \<notin> message_links m"
  obtain k where k: "k < length (m_entries m)" "rl_committed lg \<le> m_index m + k" "m_index m + k \<le> log_last W lg"
      "log_term W lg (m_index m + k) = Some (message_term m k)"
      "log_ents W lg' = take (m_index m + k - log_base W lg) (log_ents W lg) @ drop k (m_entries m)"
    and b: "log_base W lg' = log_base W lg" "log_base_term W lg' = log_base_term W lg"
    using s unfolding spliced_def by blast
  let ?c = "m_index m + k"
  have c: "log_base W lg \<le> ?c" using wf k(2) by (simp add: log_wf_def)
  have last: "log_last W lg' = m_index m + length (m_entries m)"
    using k c b by (simp add: log_last_def)
  have lo: "log_at W lg' q = log_at W lg q" if "log_base W lg < q" "q \<le> ?c" for q
    using that k(3,5) b c by (auto simp: log_at_def log_last_def nth_append)
  have lot: "log_term W lg' q = log_term W lg q" if "log_base W lg \<le> q" "q \<le> ?c" for q
    using that lo[of q] k(1,3) b c last by (auto simp: log_term_def log_at_def)
  have hi: "log_at W lg' q = m_entries m ! (q - m_index m - 1)" if "?c < q" "q \<le> log_last W lg'" for q
  proof -
    have "q - log_base W lg - 1 - (?c - log_base W lg) + k = q - m_index m - 1" using that c by simp
    then show ?thesis using that k c b last by (simp add: log_at_def nth_append log_last_def add.commute)
  qed
  show "(log_at W lg' p, log_term W lg' (p - Suc 0)) \<in> links W lg"
  proof (cases "p \<le> ?c")
    case True
    then show ?thesis using p lo lot[of "p - 1"] b k(3) by (auto simp: links_def)
  next
    case False
    let ?j = "p - m_index m - 1"
    have j: "?j < length (m_entries m)" "k \<le> ?j" using False p(2) last by auto
    have "log_term W lg' (p - 1) = Some (message_term m ?j)"
    proof (cases "p - 1 = ?c")
      case True
      then have "?j = k" using False by simp
      then show ?thesis using True lot[of ?c] c k(4) by simp
    next
      case neq: False
      then have q: "?c < p - 1" "p - 1 \<le> log_last W lg'" using False p(2) by auto
      then show ?thesis
        using log_at_term[of W lg' "p - 1"] hi[OF q] b c by (auto simp: message_term_def)
    qed
    then have "(log_at W lg' p, log_term W lg' (p - Suc 0)) \<in> message_links m"
      using hi[of p] False p(2) j(1) by (auto simp: message_links_def)
    then show ?thesis using nm by simp
  qed
qed


context reading_storage
begin

lemma log_at_index:
  assumes "log_wf W lg" "log_base W lg < p" "p \<le> log_last W lg"
  shows "e_index (log_at W lg p) = p"
  using numbered_nth[OF log_numbered[OF assms(1)], of "p - log_base W lg - 1"] assms(2,3)
  by (simp add: log_at_def log_last_def)

lemma extended_links:
  assumes "log_wf W lg" "extended W es lg lg'"
  shows "links W lg' \<subseteq> links W lg \<union> new_links W lg lg'"
proof (clarsimp simp: links_def[of W lg'])
  fix p assume p: "log_base W lg' < p" "p \<le> log_last W lg'" "(log_at W lg' p, log_term W lg' (p - Suc 0)) \<notin> new_links W lg lg'"
  have b: "log_base W lg' = log_base W lg" using assms(2) by (simp add: extended_def)
  have le: "p \<le> log_last W lg"
  proof (rule ccontr)
    assume "\<not> p \<le> log_last W lg"
    then have "(log_at W lg' p, log_term W lg' (p - 1)) \<in> new_links W lg lg'"
      unfolding new_links_def using p(2) by (intro CollectI exI[of _ p]) simp
    then show False using p(3) by simp
  qed
  show "(log_at W lg' p, log_term W lg' (p - Suc 0)) \<in> links W lg"
    using p(1) b le extended_at[OF assms(2) _ le] extended_marks(2)[OF assms, of "p - 1"] by (auto simp: links_def)
qed

lemma new_links_entry:
  assumes "log_wf W lg" "extended W es lg lg'" "(e, t) \<in> new_links W lg lg'"
  shows "e \<in> set es \<and> log_last W lg < e_index e \<and> e_index e \<le> log_last W lg'"
proof -
  obtain p where p: "e = log_at W lg' p" "log_last W lg < p" "p \<le> log_last W lg'" using assms(3) by (auto simp: new_links_def)
  have b: "log_base W lg' = log_base W lg" "log_wf W lg'" "log_ents W lg' = log_ents W lg @ es"
    using assms(2) by (simp_all add: extended_def)
  have "log_base W lg' < p" using p(2) b(1) by (simp add: log_last_def)
  moreover have "e \<in> set es" using p b unfolding log_at_def log_last_def by (auto simp: nth_append)
  ultimately show ?thesis using log_at_index[OF b(2) _ p(3)] p by simp
qed

lemma piece_links:
  assumes wf: "log_wf W lg" and p: "piece_of W lg m"
  shows "numbered (Suc (m_index m)) (m_entries m) \<and> message_links m \<subseteq> links W lg"
proof (cases "m_entries m = []")
  case False
  let ?n = "length (m_entries m)"
  have m: "log_base W lg \<le> m_index m" "m_index m + ?n \<le> log_last W lg" "log_term W lg (m_index m) = Some (m_log_term m)"
      "m_entries m = log_range W lg (m_index m + 1) (m_index m + 1 + ?n)"
    using p False by (auto simp: piece_of_def)
  have at: "m_entries m ! k = log_at W lg (m_index m + 1 + k)" if "k < ?n" for k
    using that m(1,2) by (subst m(4)) (simp add: log_range_def log_at_def log_last_def add.commute)
  have idx: "e_index (m_entries m ! k) = Suc (m_index m) + k" if "k < ?n" for k
    using that at[OF that] log_at_index[OF wf, of "m_index m + 1 + k"] m(1,2) by simp
  have "Some (message_term m k) = log_term W lg (m_index m + k)" if "k < ?n" for k
    using that m(1-3) at[of "k - 1"] log_at_term[of W lg "m_index m + k"] by (cases k) (auto simp: message_term_def)
  then have "message_links m \<subseteq> links W lg"
    using at m(1,2) by (fastforce simp: message_links_def links_def)
  moreover have "numbered (Suc (m_index m)) (m_entries m)" using idx by (simp add: numbered_def)
  ultimately show ?thesis by simp
qed (simp add: message_links_def numbered_def)
end

end
