(* ===== verification/Log_Safety.thy ===== *)
theory Log_Safety
  imports Log_Moves
begin

text \<open>
  What every run of a single node keeps: committed entries stay, and the log of a leader only gets longer.
  Both follow from \<open>node_handle_moves\<close> by induction on the inputs.
\<close>

section \<open>Committed entries\<close>

definition committed_kept :: "'s store_view \<Rightarrow> 's raft_log \<Rightarrow> 's raft_log \<Rightarrow> bool" where
  "committed_kept W lg lg' \<longleftrightarrow> rl_committed lg \<le> rl_committed lg' \<and> log_base W lg \<le> log_base W lg' \<and>
     (\<forall>i. log_base W lg' < i \<longrightarrow> i \<le> rl_committed lg \<longrightarrow> log_at W lg' i = log_at W lg i)"

lemma committed_kept_refl [simp]: "committed_kept W lg lg"
  by (simp add: committed_kept_def)

lemma committed_kept_trans [trans]:
  "committed_kept W a b \<Longrightarrow> committed_kept W b c \<Longrightarrow> committed_kept W a c"
  unfolding committed_kept_def by (metis le_trans le_less_trans)

lemma extended_committed:
  assumes "log_wf W lg" "extended W es lg lg'"
  shows "committed_kept W lg lg'"
proof -
  have "log_at W lg' i = log_at W lg i" if "log_base W lg' < i" "i \<le> rl_committed lg" for i
  proof -
    have "i \<le> log_last W lg" using that assms(1) by (simp add: log_wf_def)
    then show ?thesis using assms(2) that by (auto simp: log_at_def extended_def nth_append log_last_def)
  qed
  then show ?thesis using assms(2) by (simp add: committed_kept_def extended_def)
qed

lemma spliced_committed:
  assumes "log_wf W lg" "spliced W m lg lg'"
  shows "committed_kept W lg lg'"
proof -
  obtain k where k: "rl_committed lg \<le> m_index m + k" "m_index m + k \<le> log_last W lg"
      "log_ents W lg' = take (m_index m + k - log_base W lg) (log_ents W lg) @ drop k (m_entries m)"
    using assms(2) unfolding spliced_def by blast
  have "log_at W lg' i = log_at W lg i" if "log_base W lg' < i" "i \<le> rl_committed lg" for i
    using assms(2) that k by (auto simp: log_at_def spliced_def nth_append log_last_def)
  then show ?thesis using assms(2) by (simp add: committed_kept_def spliced_def)
qed

lemma restored_committed:
  assumes "log_wf W lg" "restored W lg lg'"
  shows "committed_kept W lg lg'"
  using assms by (auto simp: committed_kept_def restored_def log_wf_def)

lemma input_moves_cases:
  assumes "log_wf W (r_raft_log r)" "input_moves W inp r r'"
  obtains es where "extended W es (r_raft_log r) (r_raft_log r')"
  | m where "inp = Receive m" "m_type m = MsgAppend" "spliced W m (r_raft_log r) (r_raft_log r')"
  | "restored W (r_raft_log r) (r_raft_log r')"
  using assms unfolding input_moves_def grows_def adds_def accepts_def by blast

lemma input_moves_log:
  assumes "log_wf W (r_raft_log r)" "input_moves W inp r r'"
  shows "log_wf W (r_raft_log r') \<and> committed_kept W (r_raft_log r) (r_raft_log r')"
  using assms
proof (cases rule: input_moves_cases)
  case (1 es)
  then show ?thesis using extended_committed[OF assms(1)] by (auto simp: extended_def)
next
  case (2 m)
  then show ?thesis using spliced_committed[OF assms(1)] by (auto simp: spliced_def)
next
  case 3
  then show ?thesis using restored_committed[OF assms(1)] by (auto simp: restored_def)
qed

lemma node_run_log:
  assumes "reading_storage E W" "node_run E inps r = Some r'" "log_wf W (r_raft_log r)" "list_all input_wf inps"
  shows "log_wf W (r_raft_log r') \<and> committed_kept W (r_raft_log r) (r_raft_log r')"
  using assms(2-)
proof (induction inps arbitrary: r)
  case (Cons inp inps)
  then obtain r1 where r1: "node_handle E inp r = Some r1" "node_run E inps r1 = Some r'"
    by (auto simp: bind_eq_Some_conv)
  have s: "log_wf W (r_raft_log r1) \<and> committed_kept W (r_raft_log r) (r_raft_log r1)"
    using outcomeD[OF reading_storage.node_handle_moves[OF assms(1)] r1(1)] Cons.prems
    by (intro input_moves_log) simp_all
  then show ?case using Cons.IH[OF r1(2)] Cons.prems(3) committed_kept_trans by auto
qed simp

text \<open>
  C3. Committed entries stay: whatever a node handles (messages of any kind, ticks, notifications, configuration
  changes), its log stays well formed, the committed index does not go back, and every entry at a committed
  position is still there unchanged, unless the beginning of the log was given up for a snapshot. The only
  requirement on the inputs is that the entries of an append message are numbered from the position after
  its previous index on.
\<close>

theorem committed_entries_stay:
  assumes "reading_storage E W" "node_run E inps r = Some r'" "log_wf W (r_raft_log r)" "list_all input_wf inps"
  shows "log_wf W (r_raft_log r') \<and> rl_committed (r_raft_log r) \<le> rl_committed (r_raft_log r') \<and>
    log_base W (r_raft_log r) \<le> log_base W (r_raft_log r') \<and>
    (\<forall>i. log_base W (r_raft_log r') < i \<longrightarrow> i \<le> rl_committed (r_raft_log r) \<longrightarrow>
       log_at W (r_raft_log r') i = log_at W (r_raft_log r) i)"
  using node_run_log[OF assms] by (simp add: committed_kept_def)

section \<open>A leader only appends\<close>

lemma climbs_leader: "climbs r s \<Longrightarrow> climbs s t \<Longrightarrow> r_state r = Leader \<Longrightarrow> r_state t = Leader \<Longrightarrow> r_term t = r_term r \<Longrightarrow>
    r_state s = Leader \<and> r_term s = r_term r"
  by (auto simp: climbs_def)

lemma input_moves_climbs: "input_moves W inp r r' \<Longrightarrow> climbs r r'"
  by (auto simp: input_moves_def grows_def accepts_def climbs_def)

lemma input_moves_leader:
  assumes "input_moves W inp r r'" "r_state r = Leader" "r_term r' = r_term r" "log_wf W (r_raft_log r)"
  shows "\<exists>es. extended W es (r_raft_log r) (r_raft_log r') \<and> (\<forall>e \<in> set es. e_term e = r_term r)"
proof -
  have "adds W r r'" using assms(1-3) by (auto simp: input_moves_def grows_def accepts_def)
  then obtain es where "extended W es (r_raft_log r) (r_raft_log r')" "es \<noteq> [] \<longrightarrow> (\<forall>e \<in> set es. e_term e = r_term r')"
    using assms(4) by (auto simp: adds_def)
  then show ?thesis using assms(3) by (cases "es = []") auto
qed

lemma node_run_climbs:
  assumes "reading_storage E W" "node_run E inps r = Some r'" "list_all input_wf inps"
  shows "climbs r r'"
  using assms(2-)
proof (induction inps arbitrary: r)
  case (Cons inp inps)
  then obtain r1 where r1: "node_handle E inp r = Some r1" "node_run E inps r1 = Some r'"
    by (auto simp: bind_eq_Some_conv)
  have "climbs r r1"
    using outcomeD[OF reading_storage.node_handle_moves[OF assms(1)] r1(1)] Cons.prems by (auto intro: input_moves_climbs)
  then show ?case using Cons.IH[OF r1(2)] Cons.prems(2) climbs_trans by auto
qed simp

text \<open>
  C4. A leader only appends: between any two moments at which a node is leader of the same term it never
  overwrites or deletes an entry of its log, and the entries that were added are of that term.
\<close>

theorem leader_append_only:
  assumes "reading_storage E W" "node_run E inps r = Some r'" "log_wf W (r_raft_log r)" "list_all input_wf inps"
    and "r_state r = Leader" "r_state r' = Leader" "r_term r' = r_term r"
  shows "\<exists>es. log_ents W (r_raft_log r') = log_ents W (r_raft_log r) @ es \<and> (\<forall>e \<in> set es. e_term e = r_term r) \<and>
    log_base W (r_raft_log r') = log_base W (r_raft_log r)"
proof -
  have "\<exists>es. extended W es (r_raft_log r) (r_raft_log r') \<and> (\<forall>e \<in> set es. e_term e = r_term r)"
    using assms(2-)
  proof (induction inps arbitrary: r)
    case Nil
    then show ?case using extended_refl by (intro exI[of _ "[]"]) auto
  next
    case (Cons inp inps)
    then obtain r1 where r1: "node_handle E inp r = Some r1" "node_run E inps r1 = Some r'"
      by (auto simp: bind_eq_Some_conv)
    have mv: "input_moves W inp r r1"
      using outcomeD[OF reading_storage.node_handle_moves[OF assms(1)] r1(1)] Cons.prems(3) by simp
    have l: "r_state r1 = Leader" "r_term r1 = r_term r"
      using climbs_leader[OF input_moves_climbs[OF mv] node_run_climbs[OF assms(1) r1(2)]] Cons.prems(3-6) by auto
    obtain es where es: "extended W es (r_raft_log r) (r_raft_log r1)" "\<forall>e \<in> set es. e_term e = r_term r"
      using input_moves_leader[OF mv] Cons.prems l by blast
    then have "log_wf W (r_raft_log r1)" by (simp add: extended_def)
    then obtain fs where fs: "extended W fs (r_raft_log r1) (r_raft_log r')" "\<forall>e \<in> set fs. e_term e = r_term r"
      using Cons.IH[OF r1(2)] Cons.prems l by auto
    show ?case using extended_trans[OF es(1) fs(1)] es(2) fs(2) by (intro exI[of _ "es @ fs"]) auto
  qed
  then show ?thesis by (auto simp: extended_def)
qed

section \<open>Concrete runs\<close>

text \<open>The leader of \<open>Replication\<close> takes a proposal.\<close>

definition sample_propose :: message where
  "sample_propose = (sample_msg MsgPropose 2 2)\<lparr>m_entries := [sample_data]\<rparr>"

lemma sample_env_reading: "reading_storage sample_env mem_view"
  unfolding sample_env_def by (rule mem_reading_storage)

theorem leader_append_only_witness:
  "\<exists>r' es. node_run sample_env [Receive sample_propose] sample_leader = Some r' \<and> es \<noteq> [] \<and>
     log_ents mem_view (r_raft_log r') = log_ents mem_view (r_raft_log sample_leader) @ es \<and> (\<forall>e \<in> set es. e_term e = 1)"
proof -
  have "map_option (\<lambda>r'. (r_state r', r_term r', log_last mem_view (r_raft_log r')))
      (node_run sample_env [Receive sample_propose] sample_leader) = Some (Leader, 1, 2)"
    by code_simp
  then obtain r' where r': "node_run sample_env [Receive sample_propose] sample_leader = Some r'"
      "r_state r' = Leader" "r_term r' = 1" "log_last mem_view (r_raft_log r') = 2" by auto
  have wf: "list_all input_wf [Receive sample_propose]"
    by (simp add: input_wf_def message_wf_def sample_propose_def sample_msg_def message_default_def)
  obtain es where es: "log_ents mem_view (r_raft_log r') = log_ents mem_view (r_raft_log sample_leader) @ es"
      "\<forall>e \<in> set es. e_term e = r_term sample_leader" "log_base mem_view (r_raft_log r') = log_base mem_view (r_raft_log sample_leader)"
    using leader_append_only[OF sample_env_reading r'(1) sample_leader_log wf] r'(2,3) sample_leader_eval(1,2) by auto
  have "es \<noteq> []" using es(1,3) r'(4) sample_leader_eval(4) by (auto simp: log_last_def)
  then show ?thesis using es(1,2) r'(1) sample_leader_eval(2) by auto
qed

text \<open>A follower whose log has two committed entries gets an append message that replaces the two after them.\<close>

definition sample_conflict :: message where
  "sample_conflict = (sample_msg MsgAppend 2 3)\<lparr>m_index := 2, m_log_term := 1, m_entries := [sample_entry 3 5]\<rparr>"

abbreviation sample_behind :: "mem_storage raft" where
  "sample_behind \<equiv> set_log sample_log sample_three"

theorem committed_entries_stay_witness:
  "\<exists>r'. node_run sample_env [Receive sample_conflict] sample_behind = Some r' \<and> log_term mem_view (r_raft_log r') 3 = Some 5 \<and>
     log_at mem_view (r_raft_log r') 2 = log_at mem_view sample_log 2"
proof -
  have "map_option (\<lambda>r'. (log_term mem_view (r_raft_log r') 3, log_base mem_view (r_raft_log r')))
      (node_run sample_env [Receive sample_conflict] sample_behind) = Some (Some 5, 0)"
    by code_simp
  then obtain r' where r': "node_run sample_env [Receive sample_conflict] sample_behind = Some r'"
      "log_term mem_view (r_raft_log r') 3 = Some 5" "log_base mem_view (r_raft_log r') = 0" by auto
  have wf: "list_all input_wf [Receive sample_conflict]"
    by (simp add: input_wf_def message_wf_def sample_conflict_def sample_entry_def numbered_Cons)
  show ?thesis
    using committed_entries_stay[OF sample_env_reading r'(1) _ wf] r' sample_log_wf sample_log_marks by simp
qed


end
