(* ===== verification/Election.thy ===== *)
theory Election
  imports Raft_Samples
begin

text \<open>
  A cluster of nodes that run \<open>Raft\<close> and exchange messages, and election safety for it: at most one
  leader per term. The state of the cluster is the state of every node, the set of messages ever sent
  and a history variable, the votes ever cast. The invariant says that a vote cast in a term is never
  changed, that granted votes on the network have been cast, and that a leader has a quorum of votes of
  its term; two quorums of the same configuration share a voter.
\<close>

record 's cluster =
  cl_node :: "nat \<Rightarrow> 's raft"
  cl_net :: "message set"
  cl_votes :: "(nat \<times> nat \<times> nat) set"

text \<open>Votes are triples of voter, term and candidate.\<close>

definition own_vote :: "nat \<Rightarrow> 's raft \<Rightarrow> (nat \<times> nat \<times> nat) set" where
  "own_vote i r = (if r_vote r = INVALID_ID then {} else {(i, r_term r, r_vote r)})"

definition cluster_start :: "nat set \<Rightarrow> 's cluster \<Rightarrow> bool" where
  "cluster_start N s \<longleftrightarrow>
     (\<forall>i \<in> N. r_id (cl_node s i) = i \<and> i \<noteq> INVALID_ID \<and> r_state (cl_node s i) = Follower)
     \<and> (\<forall>m \<in> cl_net s. \<not> is_grant m) \<and> (\<forall>i \<in> N. grants (r_msgs (cl_node s i)) = {})
     \<and> cl_votes s = (\<Union>i \<in> N. own_vote i (cl_node s i))"

definition deliverable :: "'s cluster \<Rightarrow> nat \<Rightarrow> input \<Rightarrow> bool" where
  "deliverable s i inp \<longleftrightarrow> (case inp of
      Receive m \<Rightarrow> is_grant m \<longrightarrow> m \<in> cl_net s \<and> m_to m = i
    | _ \<Rightarrow> True)"

definition cluster_update :: "nat \<Rightarrow> 's raft \<Rightarrow> 's cluster \<Rightarrow> 's cluster" where
  "cluster_update i r s = s\<lparr>cl_node := (cl_node s)(i := r), cl_net := cl_net s \<union> set (r_msgs r),
     cl_votes := cl_votes s \<union> own_vote i r\<rparr>"

text \<open>
  A step of the cluster: a node handles an input, or it is started again by \<open>Raft::new\<close> from a storage
  that holds its term and its vote (the application persists the hard state of a \<open>Ready\<close> before it
  sends the messages of it). Any message may be lost, duplicated, delayed or invented, except that
  granted votes are only received if some node has sent them to the receiver. The membership is fixed:
  the voters of a node that has taken a step are \<open>C\<close>.
\<close>

inductive cluster_step :: "(nat \<Rightarrow> 's env) \<Rightarrow> nat set \<Rightarrow> joint_config \<Rightarrow> 's cluster \<Rightarrow> 's cluster \<Rightarrow> bool"
  for E N C where
  handle: "\<lbrakk>i \<in> N; deliverable s i inp; node_handle (E i) inp (cl_node s i) = Some r;
    conf_voters (pt_conf (r_prs r)) = C\<rbrakk> \<Longrightarrow> cluster_step E N C s (cluster_update i r s)"
| restart: "\<lbrakk>i \<in> N; st_initial_state (E i) store = Inr rs;
    hs_term (rs_hard_state rs) = r_term (cl_node s i); hs_vote (rs_hard_state rs) = r_vote (cl_node s i);
    raft_new (E i) c store = Some (Inr r); c_id c = i;
    conf_voters (pt_conf (r_prs r)) = C\<rbrakk> \<Longrightarrow> cluster_step E N C s (cluster_update i r s)"

inductive cluster_run :: "(nat \<Rightarrow> 's env) \<Rightarrow> nat set \<Rightarrow> joint_config \<Rightarrow> 's cluster \<Rightarrow> 's cluster \<Rightarrow> bool"
  for E N C where
  start: "cluster_run E N C s s"
| step: "cluster_run E N C s t \<Longrightarrow> cluster_step E N C t u \<Longrightarrow> cluster_run E N C s u"

inductive_cases cluster_stepE: "cluster_step E N C s t"

section \<open>The invariant\<close>

definition ids_inv :: "nat set \<Rightarrow> 's cluster \<Rightarrow> bool" where
  "ids_inv N s \<longleftrightarrow> (\<forall>i \<in> N. r_id (cl_node s i) = i \<and> i \<noteq> INVALID_ID)"

definition votes_inv :: "nat set \<Rightarrow> 's cluster \<Rightarrow> bool" where
  "votes_inv N s \<longleftrightarrow> (\<forall>i \<in> N. own_vote i (cl_node s i) \<subseteq> cl_votes s)
     \<and> (\<forall>j t c. (j, t, c) \<in> cl_votes s \<longrightarrow> j \<in> N \<and> c \<noteq> INVALID_ID \<and> t \<le> r_term (cl_node s j)
          \<and> (t = r_term (cl_node s j) \<longrightarrow> r_vote (cl_node s j) = c))"

definition once_inv :: "'s cluster \<Rightarrow> bool" where
  "once_inv s \<longleftrightarrow> (\<forall>j t c d. (j, t, c) \<in> cl_votes s \<longrightarrow> (j, t, d) \<in> cl_votes s \<longrightarrow> c = d)"

definition net_inv :: "nat set \<Rightarrow> 's cluster \<Rightarrow> bool" where
  "net_inv N s \<longleftrightarrow> (\<forall>i \<in> N. grants (r_msgs (cl_node s i)) \<subseteq> cl_net s)
     \<and> (\<forall>m \<in> cl_net s. is_grant m \<longrightarrow> m_term m \<noteq> 0 \<and>
          (m_to m \<noteq> INVALID_ID \<longrightarrow> (m_from m, m_term m, m_to m) \<in> cl_votes s))"

definition role_ok :: "joint_config \<Rightarrow> (nat \<times> nat \<times> nat) set \<Rightarrow> nat \<Rightarrow> 's raft \<Rightarrow> bool" where
  "role_ok C V i r \<longleftrightarrow>
     (r_state r = Candidate \<longrightarrow> {j. map_of (pt_votes (r_prs r)) j = Some True} \<subseteq> {j. (j, r_term r, i) \<in> V})
     \<and> (r_state r = Leader \<longrightarrow> joint_quorum C {j. (j, r_term r, i) \<in> V})"

definition role_inv :: "nat set \<Rightarrow> joint_config \<Rightarrow> 's cluster \<Rightarrow> bool" where
  "role_inv N C s \<longleftrightarrow> (\<forall>i \<in> N. role_ok C (cl_votes s) i (cl_node s i))"

lemma role_ok_mono: "role_ok C V i r \<Longrightarrow> V \<subseteq> V' \<Longrightarrow> role_ok C V' i r"
  by (auto simp: role_ok_def elim!: jq.enlarge)

lemma role_ok_elected:
  assumes "role_ok C V i r" "elected X r r'" "backers X r r' \<subseteq> {j. (j, r_term r', i) \<in> V'}" "V \<subseteq> V'"
    and "conf_voters (pt_conf (r_prs r')) = C" "conf_good C"
  shows "role_ok C V' i r'"
proof -
  have "joint_quorum C {j. (j, r_term r', i) \<in> V'}" if "r_state r' = Leader"
  proof (cases "r_state r = Leader \<and> r_term r' = r_term r")
    case True
    then show ?thesis using assms(1,4) unfolding role_ok_def by (auto elim: jq.enlarge)
  next
    case False
    then show ?thesis using assms(2,3,5,6) that unfolding elected_def by (blast intro: jq.enlarge)
  qed
  then show ?thesis using assms(2,3) unfolding role_ok_def elected_def by auto
qed

definition cluster_inv :: "nat set \<Rightarrow> joint_config \<Rightarrow> 's cluster \<Rightarrow> bool" where
  "cluster_inv N C s \<longleftrightarrow> ids_inv N s \<and> votes_inv N s \<and> once_inv s \<and> net_inv N s \<and> role_inv N C s"

lemma cluster_start_inv: "cluster_start N s \<Longrightarrow> cluster_inv N C s"
  by (auto simp: cluster_start_def cluster_inv_def ids_inv_def votes_inv_def once_inv_def net_inv_def
      role_inv_def role_ok_def own_vote_def split: if_splits)

lemma own_vote_iff: "(j, t, c) \<in> own_vote i r \<longleftrightarrow> j = i \<and> t = r_term r \<and> c = r_vote r \<and> c \<noteq> INVALID_ID"
  by (auto simp: own_vote_def)

lemma ballot_old_vote:
  assumes "votes_inv N s" "ballot (cl_node s i) r" "(i, t, c) \<in> cl_votes s"
  shows "t \<le> r_term r \<and> (t = r_term r \<longrightarrow> r_vote r = c)"
  using assms unfolding votes_inv_def ballot_def by (metis le_antisym le_trans)

lemma backers_voted:
  assumes inv: "cluster_inv N C s" and i: "i \<in> N" and d: "deliverable s i inp"
    and id: "r_id r = i"
  shows "backers (input_brings inp (cl_node s i)) (cl_node s i) r
     \<subseteq> {j. (j, r_term r, i) \<in> cl_votes s \<union> own_vote i r}"
proof -
  let ?o = "cl_node s i"
  have "(j, r_term r, i) \<in> cl_votes s"
    if j: "j \<in> input_brings inp ?o" and same: "r_term r = r_term ?o" for j
  proof -
    obtain m where m: "inp = Receive m" "j \<in> brings m ?o" using j
      by (cases inp) (auto simp: input_brings_def)
    then have g: "is_grant m" "j = m_from m" "m_term m = r_term ?o \<or> m_term m = 0"
      by (auto simp: brings_def is_grant_def split: if_splits)
    have "m \<in> cl_net s" "m_to m = i" using d g(1) by (auto simp: m(1) deliverable_def)
    then show ?thesis
      using inv i g same by (auto simp: cluster_inv_def net_inv_def ids_inv_def)
  qed
  moreover have "(j, r_term r, i) \<in> cl_votes s"
    if "r_state ?o = Candidate" "r_term r = r_term ?o" "map_of (pt_votes (r_prs ?o)) j = Some True" for j
    using inv i that by (auto simp: cluster_inv_def role_inv_def role_ok_def)
  moreover have "(i, r_term r, i) \<in> own_vote i r" if "r_vote r = i"
    using inv i that by (simp add: cluster_inv_def ids_inv_def own_vote_iff)
  ultimately show ?thesis using id by (auto simp: backers_def split: if_splits)
qed

lemma cluster_update_inv:
  assumes inv: "cluster_inv N C s" and i: "i \<in> N" and id: "r_id r = i"
    and L: "ballot (cl_node s i) r" "fair_grants (cl_node s i) r" "elected X (cl_node s i) r"
    and B: "backers X (cl_node s i) r \<subseteq> {j. (j, r_term r, i) \<in> cl_votes s \<union> own_vote i r}"
    and c: "conf_voters (pt_conf (r_prs r)) = C" and C: "conf_good C"
  shows "cluster_inv N C (cluster_update i r s)" (is "cluster_inv N C ?t")
proof -
  have "votes_inv N s" using inv by (simp add: cluster_inv_def)
  note O = ballot_old_vote[OF this L(1)]
  have "ids_inv N ?t" using inv id by (simp add: cluster_inv_def ids_inv_def cluster_update_def)
  moreover have "votes_inv N ?t"
    using inv i O by (auto simp: cluster_inv_def votes_inv_def own_vote_iff cluster_update_def)
  moreover have "once_inv ?t"
    using inv O by (auto simp: cluster_inv_def once_inv_def own_vote_iff cluster_update_def)
  moreover have G: "m \<in> cl_net s \<or> m_term m \<noteq> 0 \<and> (m_to m \<noteq> INVALID_ID \<longrightarrow>
      (m_from m, m_term m, m_to m) \<in> own_vote i r)" if "m \<in> set (r_msgs r)" "is_grant m" for m
    using that L(2) id inv i unfolding fair_grants_def grants_def own_vote_iff cluster_inv_def net_inv_def
    by blast
  then have "net_inv N ?t"
    using inv by (auto simp: cluster_inv_def net_inv_def grants_def cluster_update_def)
  moreover have "role_inv N C ?t"
    using inv i role_ok_elected[of C "cl_votes s", OF _ L(3) B _ c C]
      role_ok_mono[of C "cl_votes s" _ _ "cl_votes ?t"]
    by (auto simp: cluster_inv_def role_inv_def cluster_update_def)
  ultimately show ?thesis by (simp add: cluster_inv_def)
qed

lemma restart_inv:
  assumes inv: "cluster_inv N C s" and i: "i \<in> N" and r: "restarted i hs r"
    and hs: "hs_term hs = r_term (cl_node s i)" "hs_vote hs = r_vote (cl_node s i)"
    and c: "conf_voters (pt_conf (r_prs r)) = C" and C: "conf_good C"
  shows "cluster_inv N C (cluster_update i r s)"
proof (rule cluster_update_inv[where X = "{}", OF inv i _ _ _ _ _ c C])
  have "backers (input_brings Clock (cl_node s i)) (cl_node s i) r
     \<subseteq> {j. (j, r_term r, i) \<in> cl_votes s \<union> own_vote i r}"
    using r by (intro backers_voted[OF inv i]) (auto simp: deliverable_def restarted_def)
  then show "backers {} (cl_node s i) r \<subseteq> {j. (j, r_term r, i) \<in> cl_votes s \<union> own_vote i r}"
    by (simp add: input_brings_def)
qed (use r hs in \<open>auto simp: restarted_def ballot_def fair_grants_def elected_def\<close>)

lemma cluster_step_inv:
  assumes inv: "cluster_inv N C s" and st: "cluster_step E N C s t" and C: "conf_good C"
  shows "cluster_inv N C t"
  using st
proof cases
  case (handle i inp r)
  let ?o = "cl_node s i"
  have o: "r_id ?o = i" "i \<noteq> INVALID_ID" using inv handle by (auto simp: cluster_inv_def ids_inv_def)
  have L: "lawful (E i) (input_brings inp ?o) ?o r"
    using outcomeD[OF node_handle_frame handle(4)] o by simp
  then have "r_id r = i" using o by (simp add: lawful_def steady_def)
  with L show ?thesis
    using backers_voted[OF inv handle(2,3)] cluster_update_inv[OF inv handle(2) _ _ _ _ _ handle(5) C]
    unfolding lawful_def handle(1) by blast
next
  case (restart i store rs c r)
  have "restarted i (rs_hard_state rs) r"
    using outcomeD[OF raft_new_frame[OF restart(3)] restart(6)] restart(7) by simp
  then show ?thesis
    unfolding restart(1) using restart_inv[OF inv restart(2) _ restart(4,5,8) C] by blast
qed

lemma cluster_step_votes: "cluster_step E N C s t \<Longrightarrow> cl_votes s \<subseteq> cl_votes t"
  by (erule cluster_stepE) (auto simp: cluster_update_def)

lemma cluster_run_inv:
  assumes "cluster_run E N C s t" "cluster_inv N C s" "conf_good C"
  shows "cluster_inv N C t \<and> cl_votes s \<subseteq> cl_votes t"
  using assms
proof (induction rule: cluster_run.induct)
  case (step s t u)
  then show ?case using cluster_step_inv[of N C t E u] cluster_step_votes[of E N C t u] by blast
qed simp

section \<open>A concrete election\<close>

text \<open>Node 2 of three campaigns, node 3 grants its vote, and node 2 becomes the leader.\<close>

definition sample_start :: "mem_storage cluster" where
  "sample_start = \<lparr>cl_node = sample_node [2, 3, 4], cl_net = {}, cl_votes = {}\<rparr>"

definition sample_handle :: "nat \<Rightarrow> input \<Rightarrow> mem_storage cluster \<Rightarrow> mem_storage cluster" where
  "sample_handle i inp s =
     (case node_handle sample_env inp (cl_node s i) of None \<Rightarrow> s | Some r \<Rightarrow> cluster_update i r s)"

definition sample_fits :: "nat \<Rightarrow> input \<Rightarrow> mem_storage cluster \<Rightarrow> bool" where
  "sample_fits i inp s \<longleftrightarrow> deliverable s i inp \<and> (case node_handle sample_env inp (cl_node s i) of
      None \<Rightarrow> False | Some r \<Rightarrow> conf_voters (pt_conf (r_prs r)) = sample_voters)"

lemma sample_run:
  assumes "cluster_run (\<lambda>_. sample_env) N sample_voters s0 s" "i \<in> N" "sample_fits i inp s"
  shows "cluster_run (\<lambda>_. sample_env) N sample_voters s0 (sample_handle i inp s)"
proof -
  obtain r where "node_handle sample_env inp (cl_node s i) = Some r" "deliverable s i inp"
      "conf_voters (pt_conf (r_prs r)) = sample_voters"
    using assms(3) by (auto simp: sample_fits_def split: option.splits)
  then show ?thesis
    using assms(1,2) by (auto simp: sample_handle_def intro: cluster_run.step cluster_step.handle)
qed

definition sample_s1 :: "mem_storage cluster" where
  "sample_s1 = sample_handle 2 (Receive (sample_msg MsgHup 2 2)) sample_start"

definition sample_s2 :: "mem_storage cluster" where
  "sample_s2 = sample_handle 3 (Receive (hd (r_msgs (cl_node sample_s1 2)))) sample_s1"

definition sample_s3 :: "mem_storage cluster" where
  "sample_s3 = sample_handle 2 (Receive (hd (r_msgs (cl_node sample_s2 3)))) sample_s2"

lemma sample_start_ok: "cluster_start {2, 3, 4} sample_start"
  unfolding cluster_start_def by code_simp

lemma sample_fits1: "sample_fits 2 (Receive (sample_msg MsgHup 2 2)) sample_start"
  by code_simp

lemma sample_fits2: "sample_fits 3 (Receive (hd (r_msgs (cl_node sample_s1 2)))) sample_s1"
  by code_simp

lemma sample_fits3: "sample_fits 2 (Receive (hd (r_msgs (cl_node sample_s2 3)))) sample_s2"
  by code_simp

lemma sample_s3_run: "cluster_run (\<lambda>_. sample_env) {2, 3, 4} sample_voters sample_start sample_s3"
proof -
  have "cluster_run (\<lambda>_. sample_env) {2, 3, 4} sample_voters sample_start sample_s1"
    unfolding sample_s1_def by (rule sample_run[OF cluster_run.start _ sample_fits1]) simp
  then have "cluster_run (\<lambda>_. sample_env) {2, 3, 4} sample_voters sample_start sample_s2"
    unfolding sample_s2_def by (rule sample_run[OF _ _ sample_fits2]) simp
  then show ?thesis
    unfolding sample_s3_def by (rule sample_run[OF _ _ sample_fits3]) simp
qed

lemma sample_s3_leader: "r_state (cl_node sample_s3 2) = Leader \<and> r_term (cl_node sample_s3 2) = 1"
  by code_simp

section \<open>Election safety\<close>

text \<open>
  C1. Election safety of the whole system: in every run of a cluster with fixed membership, starting from
  followers that have granted no votes yet unreceived, with messages lost, repeated and reordered and
  nodes restarted from their hard state, no two nodes are ever leaders of the same term, not even at
  different moments of the run.
\<close>

theorem election_safety:
  assumes "cluster_start N s0" "conf_good C"
    and "cluster_run E N C s0 s" "cluster_run E N C s s'"
    and "i \<in> N" "r_state (cl_node s i) = Leader"
    and "j \<in> N" "r_state (cl_node s' j) = Leader"
    and "r_term (cl_node s i) = r_term (cl_node s' j)"
  shows "i = j"
proof -
  have s: "cluster_inv N C s" using cluster_run_inv[OF assms(3) cluster_start_inv assms(2)] assms(1) by blast
  have s': "cluster_inv N C s'" "cl_votes s \<subseteq> cl_votes s'"
    using cluster_run_inv[OF assms(4) s assms(2)] by auto
  let ?t = "r_term (cl_node s' j)"
  have "joint_quorum C {k. (k, ?t, i) \<in> cl_votes s}" "joint_quorum C {k. (k, ?t, j) \<in> cl_votes s'}"
    using s s'(1) assms(5-9) by (auto simp: cluster_inv_def role_inv_def role_ok_def)
  then obtain k where "(k, ?t, i) \<in> cl_votes s" "(k, ?t, j) \<in> cl_votes s'"
    using jq.meet by blast
  then show ?thesis using s' unfolding cluster_inv_def once_inv_def by blast
qed

theorem election_safety_witness:
  "cluster_run (\<lambda>_. sample_env) {2, 3, 4} sample_voters sample_start sample_s3 \<and>
   r_state (cl_node sample_s3 2) = Leader \<and> r_term (cl_node sample_s3 2) = 1 \<and>
   (\<nexists>s. cluster_run (\<lambda>_. sample_env) {2, 3, 4} sample_voters sample_s3 s \<and>
     r_state (cl_node s 3) = Leader \<and> r_term (cl_node s 3) = 1)"
proof -
  have "\<not> (cluster_run (\<lambda>_. sample_env) {2, 3, 4} sample_voters sample_s3 s \<and>
     r_state (cl_node s 3) = Leader \<and> r_term (cl_node s 3) = 1)" for s
    using election_safety[OF sample_start_ok sample_voters_good sample_s3_run, of s 2 3]
      sample_s3_leader by auto
  then show ?thesis using sample_s3_run sample_s3_leader by blast
qed

end
