(* ===== verification/Log_Matching.thy ===== *)
theory Log_Matching
  imports Log_Links Log_Safety Election
begin

text \<open>
  Log matching for the whole system: if two logs that nodes of a cluster have at any two moments agree on
  the term at a position, they hold the same entries up to that position. The cluster is the one of
  \<open>Election\<close> with the storage of the nodes in motion: the application writes and compacts it, and a
  node that is started again may have any log it has had before. The proof keeps a set \<open>H\<close> of links, the
  entries that leaders have ever created with the term before each. An entry has one creator, because the
  leader of a term is unique by the votes, and a leader creates at most one entry per position.
\<close>

section \<open>A cluster with logs\<close>

text \<open>\<open>hi_logs\<close> is a history variable: the logs that each node has had.\<close>

record 's history =
  hi_cluster :: "'s cluster"
  hi_logs :: "nat \<Rightarrow> 's raft_log set"

abbreviation hi_node :: "'s history \<Rightarrow> nat \<Rightarrow> 's raft" where
  "hi_node h i \<equiv> cl_node (hi_cluster h) i"

text \<open>At the start the logs are empty (behind a snapshot, possibly) and no append message is on the way.\<close>

definition history_start :: "'s store_view \<Rightarrow> nat set \<Rightarrow> 's history \<Rightarrow> bool" where
  "history_start W N h \<longleftrightarrow> cluster_start N (hi_cluster h) \<and> (\<forall>m \<in> cl_net (hi_cluster h). m_type m \<noteq> MsgAppend) \<and>
     (\<forall>i \<in> N. log_wf W (r_raft_log (hi_node h i)) \<and> log_ents W (r_raft_log (hi_node h i)) = [] \<and>
        \<not> r_batch_append (hi_node h i) \<and> appends (r_msgs (hi_node h i)) = {} \<and>
        hi_logs h i = {r_raft_log (hi_node h i)})"

definition history_update :: "nat \<Rightarrow> 's raft \<Rightarrow> 's history \<Rightarrow> 's history" where
  "history_update i r h = \<lparr>hi_cluster = cluster_update i r (hi_cluster h),
     hi_logs = (hi_logs h)(i := insert (r_raft_log r) (hi_logs h i))\<rparr>"

definition append_sent :: "'s history \<Rightarrow> input \<Rightarrow> bool" where
  "append_sent h inp \<longleftrightarrow> (case inp of
      Receive m \<Rightarrow> m_type m = MsgAppend \<longrightarrow> m \<in> cl_net (hi_cluster h)
    | _ \<Rightarrow> True)"

text \<open>
  What the application may do to the log of a node through its storage: write entries, mark them as stable
  and drop the beginning. The lemmas \<open>mem_persist_stored\<close> and \<open>mem_compact_stored\<close> below show that the
  operations of \<open>MemStorage\<close> are of this kind.
\<close>

definition stored :: "'s store_view \<Rightarrow> 's raft_log \<Rightarrow> 's raft_log \<Rightarrow> bool" where
  "stored W lg lg' \<longleftrightarrow> log_wf W lg' \<and> advances lg lg' \<and> log_last W lg' = log_last W lg \<and>
     covers (links W lg) (links W lg')"

text \<open>
  The steps: a node handles an input, where granted votes and append messages are only received if they
  were sent (other messages, snapshots among them, may be invented); its storage is written or compacted; it is started again by \<open>Raft::new\<close> with its
  term and its vote, and with the entries of some log that it has had, so that everything that was not yet
  written, or all of it, may be lost. Batching of append messages is off.
\<close>

inductive history_step ::
  "(nat \<Rightarrow> 's env) \<Rightarrow> 's store_view \<Rightarrow> nat set \<Rightarrow> joint_config \<Rightarrow> 's history \<Rightarrow> 's history \<Rightarrow> bool"
  for E W N C where
  handle: "\<lbrakk>i \<in> N; deliverable (hi_cluster h) i inp; append_sent h inp;
    node_handle (E i) inp (hi_node h i) = Some r; conf_voters (pt_conf (r_prs r)) = C\<rbrakk>
    \<Longrightarrow> history_step E W N C h (history_update i r h)"
| store: "\<lbrakk>i \<in> N; stored W (r_raft_log (hi_node h i)) lg; conf_voters (pt_conf (r_prs (hi_node h i))) = C\<rbrakk>
    \<Longrightarrow> history_step E W N C h (history_update i (set_log lg (hi_node h i)) h)"
| restart: "\<lbrakk>i \<in> N; st_initial_state (E i) st = Inr rs;
    hs_term (rs_hard_state rs) = r_term (hi_node h i); hs_vote (rs_hard_state rs) = r_vote (hi_node h i);
    raft_new (E i) c st = Some (Inr r); c_id c = i; \<not> c_batch_append c; conf_voters (pt_conf (r_prs r)) = C;
    log_wf W (r_raft_log r); lg \<in> hi_logs h i; covers (links W lg) (links W (r_raft_log r))\<rbrakk>
    \<Longrightarrow> history_step E W N C h (history_update i r h)"

inductive history_run ::
  "(nat \<Rightarrow> 's env) \<Rightarrow> 's store_view \<Rightarrow> nat set \<Rightarrow> joint_config \<Rightarrow> 's history \<Rightarrow> 's history \<Rightarrow> bool"
  for E W N C where
  start: "history_run E W N C h h"
| step: "history_run E W N C h h1 \<Longrightarrow> history_step E W N C h1 h2 \<Longrightarrow> history_run E W N C h h2"

section \<open>The invariant\<close>

text \<open>An entry determines, with its index and its term, everything about it and the term before it.\<close>

definition unique_links :: "(entry \<times> nat option) set \<Rightarrow> bool" where
  "unique_links H \<longleftrightarrow> (\<forall>e t e' t'. (e, t) \<in> H \<longrightarrow> (e', t') \<in> H \<longrightarrow> e_index e = e_index e' \<longrightarrow> e_term e = e_term e' \<longrightarrow>
     e = e' \<and> t = t')"

definition logs_inv :: "'s store_view \<Rightarrow> nat set \<Rightarrow> (entry \<times> nat option) set \<Rightarrow> 's history \<Rightarrow> bool" where
  "logs_inv W N H h \<longleftrightarrow> (\<forall>i \<in> N. \<not> r_batch_append (hi_node h i) \<and> r_raft_log (hi_node h i) \<in> hi_logs h i \<and>
     (\<forall>lg \<in> hi_logs h i. log_wf W lg \<and> covers H (links W lg)))"

definition chained :: "(entry \<times> nat option) set \<Rightarrow> message \<Rightarrow> bool" where
  "chained H m \<longleftrightarrow> numbered (Suc (m_index m)) (m_entries m) \<and> message_links m \<subseteq> H"

definition mail_inv :: "nat set \<Rightarrow> (entry \<times> nat option) set \<Rightarrow> 's history \<Rightarrow> bool" where
  "mail_inv N H h \<longleftrightarrow> (\<forall>m \<in> cl_net (hi_cluster h). m_type m = MsgAppend \<longrightarrow> chained H m) \<and>
     (\<forall>i \<in> N. appends (r_msgs (hi_node h i)) \<subseteq> cl_net (hi_cluster h))"

text \<open>The owner of an entry: the node that was elected for its term, and that cannot create the entry again.\<close>

definition settled :: "'s store_view \<Rightarrow> entry \<Rightarrow> 's raft \<Rightarrow> bool" where
  "settled W e r \<longleftrightarrow> e_term e < r_term r \<or> e_term e = r_term r \<and> r_state r \<noteq> Candidate \<and>
     (r_state r = Leader \<longrightarrow> e_index e \<le> log_last W (r_raft_log r))"

definition owner :: "'s store_view \<Rightarrow> joint_config \<Rightarrow> 's history \<Rightarrow> entry \<Rightarrow> nat \<Rightarrow> bool" where
  "owner W C h e i \<longleftrightarrow> joint_quorum C {k. (k, e_term e, i) \<in> cl_votes (hi_cluster h)} \<and> settled W e (hi_node h i)"

definition owners_inv :: "'s store_view \<Rightarrow> nat set \<Rightarrow> joint_config \<Rightarrow> (entry \<times> nat option) set \<Rightarrow> 's history \<Rightarrow> bool" where
  "owners_inv W N C H h \<longleftrightarrow> (\<forall>(e, t) \<in> H. \<exists>i \<in> N. owner W C h e i)"

definition history_inv :: "'s store_view \<Rightarrow> nat set \<Rightarrow> joint_config \<Rightarrow> (entry \<times> nat option) set \<Rightarrow> 's history \<Rightarrow> bool" where
  "history_inv W N C H h \<longleftrightarrow> cluster_inv N C (hi_cluster h) \<and> unique_links H \<and> logs_inv W N H h \<and> mail_inv N H h \<and>
     owners_inv W N C H h"

lemma history_start_inv:
  assumes "history_start W N h"
  shows "history_inv W N C {} h"
  using assms cluster_start_inv[of N "hi_cluster h" C]
  by (auto simp: covers_def links_empty history_inv_def history_start_def unique_links_def logs_inv_def mail_inv_def owners_inv_def)

lemma chained_mono: "chained H m \<Longrightarrow> H \<subseteq> H' \<Longrightarrow> chained H' m"
  by (auto simp: chained_def)

text \<open>The log of a leader that stays leader does not get shorter.\<close>

definition leads_on :: "'s store_view \<Rightarrow> 's raft \<Rightarrow> 's raft \<Rightarrow> bool" where
  "leads_on W r r' \<longleftrightarrow> (r_state r = Leader \<longrightarrow> r_state r' = Leader \<longrightarrow> r_term r' = r_term r \<longrightarrow>
     log_last W (r_raft_log r) \<le> log_last W (r_raft_log r'))"

lemma settled_climbs:
  assumes "settled W e r" "climbs r r'" "leads_on W r r'"
  shows "settled W e r'"
  using assms by (auto simp: settled_def climbs_def leads_on_def)

lemma owner_update:
  assumes "owner W C h e j" "climbs (hi_node h i) r" "leads_on W (hi_node h i) r"
  shows "owner W C (history_update i r h) e j"
proof -
  have "joint_quorum C {k. (k, e_term e, j) \<in> cl_votes (hi_cluster h)}" using assms(1) by (simp add: owner_def)
  then have "joint_quorum C {k. (k, e_term e, j) \<in> cl_votes (hi_cluster (history_update i r h))}"
    by (rule jq.enlarge) (auto simp: history_update_def cluster_update_def)
  then show ?thesis
    using assms settled_climbs[of W e "hi_node h i" r] by (auto simp: owner_def history_update_def cluster_update_def)
qed

lemma history_update_inv:
  assumes inv: "history_inv W N C H h" and i: "i \<in> N" and cl: "cluster_inv N C (cluster_update i r (hi_cluster h))"
    and H: "H \<subseteq> H'" "unique_links H'" and lg: "log_wf W (r_raft_log r)" "covers H' (links W (r_raft_log r))" "\<not> r_batch_append r"
    and ms: "\<And>m. m \<in> appends (r_msgs r) \<Longrightarrow> m \<in> appends (r_msgs (hi_node h i)) \<or> chained H' m"
    and up: "climbs (hi_node h i) r" "leads_on W (hi_node h i) r"
    and new: "\<And>e t. (e, t) \<in> H' \<Longrightarrow> (e, t) \<notin> H \<Longrightarrow>
       e_term e = r_term r \<and> r_state r = Leader \<and> e_index e \<le> log_last W (r_raft_log r)"
  shows "history_inv W N C H' (history_update i r h)" (is "history_inv W N C H' ?h")
proof -
  have "\<forall>j \<in> N. \<forall>l \<in> hi_logs h j. covers H' (links W l)"
    using inv covers_mono[OF _ H(1)] unfolding history_inv_def logs_inv_def by blast
  then have "logs_inv W N H' ?h"
    using inv lg by (simp add: history_inv_def logs_inv_def history_update_def cluster_update_def)
  moreover have "mail_inv N H' ?h"
  proof -
    have "chained H' m" if "m \<in> set (r_msgs r)" "m_type m = MsgAppend" for m
    proof -
      have "m \<in> appends (r_msgs (hi_node h i)) \<or> chained H' m" using that by (intro ms) (simp add: appends_def)
      then show ?thesis
        using inv i that(2) chained_mono[OF _ H(1), of m] by (auto simp: history_inv_def mail_inv_def)
    qed
    then show ?thesis
      using inv i chained_mono[OF _ H(1)]
      by (auto simp: history_inv_def mail_inv_def history_update_def cluster_update_def appends_def)
  qed
  moreover have "\<exists>j \<in> N. owner W C ?h e j" if e: "(e, t) \<in> H'" for e t
  proof (cases "(e, t) \<in> H")
    case True
    then obtain j where "j \<in> N" "owner W C h e j" using inv by (auto simp: history_inv_def owners_inv_def)
    then show ?thesis using owner_update[OF _ up] by blast
  next
    case False
    note n = new[OF e False]
    then have "joint_quorum C {k. (k, e_term e, i) \<in> cl_votes (hi_cluster ?h)}"
      using cl i by (auto simp: cluster_inv_def role_inv_def role_ok_def history_update_def cluster_update_def)
    then have "owner W C ?h e i" using n by (simp add: owner_def settled_def history_update_def cluster_update_def)
    then show ?thesis using i by blast
  qed
  ultimately show ?thesis
    using cl H(2) by (auto simp: history_inv_def owners_inv_def history_update_def)
qed

section \<open>The invariant is kept\<close>

lemma owner_unique:
  assumes "once_inv (hi_cluster h)" "owner W C h e i" "owner W C h e' j" "e_term e = e_term e'"
  shows "i = j"
proof -
  obtain k where "(k, e_term e, i) \<in> cl_votes (hi_cluster h)" "(k, e_term e, j) \<in> cl_votes (hi_cluster h)"
    using assms(2-4) jq.meet unfolding owner_def by fastforce
  then show ?thesis using assms(1) unfolding once_inv_def by blast
qed

text \<open>The entries that a leader creates are new.\<close>

lemma leader_links_unique:
  assumes inv: "history_inv W N C H h" and i: "i \<in> N" and cl: "cluster_inv N C (cluster_update i r (hi_cluster h))"
    and up: "climbs (hi_node h i) r" "leads_on W (hi_node h i) r" and env: "reading_storage E W"
    and x: "extended W es (r_raft_log (hi_node h i)) (r_raft_log r)"
    and es: "\<And>e. e \<in> set es \<Longrightarrow> r_state r = Leader \<and> e_term e = r_term r"
  shows "unique_links (H \<union> new_links W (r_raft_log (hi_node h i)) (r_raft_log r))"
proof -
  let ?lg = "r_raft_log (hi_node h i)" and ?h = "history_update i r h"
  have wf: "log_wf W ?lg" using inv i by (auto simp: history_inv_def logs_inv_def)
  note new = reading_storage.new_links_entry[OF env wf x]
  have fresh: False if a: "(e, t) \<in> new_links W ?lg (r_raft_log r)" and b: "(e', t') \<in> H"
      and eq: "e_index e = e_index e'" "e_term e = e_term e'" for e t e' t'
  proof -
    note n = new[OF a]
    then have l: "r_state r = Leader" "e_term e = r_term r" using es by auto
    obtain j where j: "j \<in> N" "owner W C h e' j" using inv b by (auto simp: history_inv_def owners_inv_def)
    have q: "joint_quorum C {k. (k, r_term r, i) \<in> cl_votes (hi_cluster ?h)}"
      using cl i l(1) by (auto simp: cluster_inv_def role_inv_def role_ok_def history_update_def cluster_update_def)
    have "joint_quorum C {k. (k, r_term r, j) \<in> cl_votes (hi_cluster ?h)}"
      using owner_update[OF j(2) up] eq(2) l(2) by (simp add: owner_def)
    with q obtain k where "(k, r_term r, i) \<in> cl_votes (hi_cluster ?h)" "(k, r_term r, j) \<in> cl_votes (hi_cluster ?h)"
      using jq.meet by blast
    then have "j = i" using cl unfolding cluster_inv_def once_inv_def history_update_def by auto
    then have "settled W e' (hi_node h i)" using j(2) by (simp add: owner_def)
    then show False using up(1) l eq n by (auto simp: settled_def climbs_def)
  qed
  have both: "e = e' \<and> t = t'"
    if a: "(e, t) \<in> new_links W ?lg (r_raft_log r)" "(e', t') \<in> new_links W ?lg (r_raft_log r)" "e_index e = e_index e'"
    for e t e' t'
  proof -
    have b: "log_wf W (r_raft_log r)" "log_base W (r_raft_log r) = log_base W ?lg" using x by (simp_all add: extended_def)
    have "e_index (log_at W (r_raft_log r) p) = p" if "log_last W ?lg < p" "p \<le> log_last W (r_raft_log r)" for p
      using that b(2) by (intro reading_storage.log_at_index[OF env b(1)]) (auto simp: log_last_def)
    then show ?thesis using a by (auto simp: new_links_def)
  qed
  show ?thesis
    using inv fresh both unfolding history_inv_def unique_links_def by (metis Un_iff)
qed

lemma handle_cluster_inv:
  assumes "cluster_inv N C s" "i \<in> N" "deliverable s i inp" "node_handle (E i) inp (cl_node s i) = Some r"
    "conf_voters (pt_conf (r_prs r)) = C" "conf_good C"
  shows "cluster_inv N C (cluster_update i r s)"
  by (rule cluster_step_inv[OF assms(1) cluster_step.handle[where E = E] assms(6)]) (use assms in auto)

lemma handle_inv:
  assumes inv: "history_inv W N C H h" and env: "reading_storage (E i) W" and C: "conf_good C" and i: "i \<in> N"
    and d: "deliverable (hi_cluster h) i inp" "append_sent h inp"
    and r: "node_handle (E i) inp (hi_node h i) = Some r" and c: "conf_voters (pt_conf (r_prs r)) = C"
  shows "\<exists>H'. history_inv W N C H' (history_update i r h)"
proof -
  let ?o = "hi_node h i"
  have cl: "cluster_inv N C (cluster_update i r (hi_cluster h))"
    using inv d(1) r c C i by (intro handle_cluster_inv[where E = E]) (auto simp: history_inv_def)
  have wf: "log_wf W (r_raft_log ?o)" "covers H (links W (r_raft_log ?o))" "\<not> r_batch_append ?o"
    using inv i by (auto simp: history_inv_def logs_inv_def)
  have msg: "chained H m" if "inp = Receive m" "m_type m = MsgAppend" for m
    using inv d(2) that by (auto simp: history_inv_def mail_inv_def append_sent_def)
  then have "input_wf inp" by (auto simp: input_wf_def message_wf_def chained_def split: input.split)
  then have mv: "input_moves W inp ?o r"
    using outcomeD[OF reading_storage.node_handle_moves[OF env] r] by simp
  note up = input_moves_climbs[OF mv]
  show ?thesis
  proof (cases "grows W ?o r")
    case True
    then obtain es where es: "extended W es (r_raft_log ?o) (r_raft_log r)"
        "\<And>e. e \<in> set es \<Longrightarrow> r_state r = Leader \<and> e_term e = r_term r"
      and ms: "\<And>m. m \<in> appends (r_msgs r) \<Longrightarrow> m \<in> appends (r_msgs ?o) \<or> piece_of W (r_raft_log r) m"
      and b: "\<not> r_batch_append r"
      using wf unfolding grows_def adds_def by (metis empty_iff list.set(1))
    have wf': "log_wf W (r_raft_log r)" using es(1) by (simp add: extended_def)
    have on: "leads_on W ?o r" using extended_marks(1)[OF wf(1) es(1)] by (simp add: leads_on_def)
    let ?new = "new_links W (r_raft_log ?o) (r_raft_log r)"
    have cov: "covers (H \<union> ?new) (links W (r_raft_log r))"
      using reading_storage.extended_links[OF env wf(1) es(1)] covers_mono[OF wf(2), of "H \<union> ?new"]
      by (auto intro: covers_less[OF covers_Un] covers_subset)
    have "history_inv W N C (H \<union> ?new) (history_update i r h)"
    proof (rule history_update_inv[OF inv i cl _ leader_links_unique[OF inv i cl up on env es] wf' cov b _ up on])
      show "m \<in> appends (r_msgs ?o) \<or> chained (H \<union> ?new) m" if "m \<in> appends (r_msgs r)" for m
        using ms[OF that] reading_storage.piece_links[OF env wf', of m] covers_known[OF covers_less[OF cov], of m]
        unfolding chained_def by blast
      show "e_term e = r_term r \<and> r_state r = Leader \<and> e_index e \<le> log_last W (r_raft_log r)"
        if "(e, t) \<in> H \<union> ?new" "(e, t) \<notin> H" for e t
        using reading_storage.new_links_entry[OF env wf(1) es(1), of e t] that es(2) by auto
    qed auto
    then show ?thesis ..
  next
    case False
    then obtain m where m: "inp = Receive m" "accepts W m ?o r" using mv by (auto simp: input_moves_def)
    have "log_wf W (r_raft_log r) \<and> covers H (links W (r_raft_log r))"
    proof (cases "m_type m = MsgAppend")
      case True
      then have s: "spliced W m (r_raft_log ?o) (r_raft_log r)" using m(2) wf by (auto simp: accepts_def)
      show ?thesis
        using covers_less[OF covers_Un[OF wf(2) covers_subset] spliced_links[OF wf(1) s]] msg[OF m(1) True] s
        by (auto simp: chained_def spliced_def)
    next
      case False
      then have "restored W (r_raft_log ?o) (r_raft_log r)" using m(2) wf by (auto simp: accepts_def)
      then show ?thesis using links_empty[of W "r_raft_log r"] by (auto simp: restored_def covers_def)
    qed
    moreover have "leads_on W ?o r" "\<not> r_batch_append r" "appends (r_msgs r) = appends (r_msgs ?o)"
      using m(2) wf(3) by (auto simp: accepts_def leads_on_def)
    ultimately have "history_inv W N C H (history_update i r h)"
      using inv by (intro history_update_inv[OF inv i cl _ _ _ _ _ _ up]) (auto simp: history_inv_def)
    then show ?thesis ..
  qed
qed

lemma commit_apply_follower:
  assumes "r_state r \<noteq> Leader" "\<And>lg. Q (set_log lg r)"
  shows "outcome Q (raft_commit_apply E i r)"
  unfolding raft_commit_apply_def Let_def using assms by (intro vcg outcome_any) auto

lemma raft_new_still:
  "outcome (\<lambda>res. case res of Inl _ \<Rightarrow> True | Inr r \<Rightarrow> r_batch_append r = c_batch_append c \<and> appends (r_msgs r) = {})
    (raft_new E c store)"
  unfolding raft_new_def Let_def
  by (intro vcg post_conf_change_keeps load_state_frame commit_apply_follower become_follower_still outcome_any)
    (auto simp: still_def)

lemma store_inv:
  assumes inv: "history_inv W N C H h" and C: "conf_good C" and i: "i \<in> N"
    and s: "stored W (r_raft_log (hi_node h i)) lg" and c: "conf_voters (pt_conf (r_prs (hi_node h i))) = C"
  shows "history_inv W N C H (history_update i (set_log lg (hi_node h i)) h)"
proof -
  let ?o = "hi_node h i" and ?r = "set_log lg (hi_node h i)"
  have q: "quiet ?o ?r" using s by (simp add: stored_def)
  then have L: "lawful E {} ?o ?r" for E by (rule quiet_lawful)
  have c0: "cluster_inv N C (hi_cluster h)" using inv by (simp add: history_inv_def)
  have id: "r_id ?r = i" using c0 i by (simp add: cluster_inv_def ids_inv_def)
  have b: "backers {} ?o ?r \<subseteq> {j. (j, r_term ?r, i) \<in> cl_votes (hi_cluster h) \<union> own_vote i ?r}"
    using backers_voted[OF c0 i, of Clock ?r] id by (simp add: deliverable_def input_brings_def)
  have cl: "cluster_inv N C (cluster_update i ?r (hi_cluster h))"
    using L c b by (intro cluster_update_inv[OF c0 i id _ _ _ b _ C]) (auto simp: lawful_def)
  have "covers H (links W lg)" "\<not> r_batch_append ?o"
    using inv i s covers_trans[of H "links W (r_raft_log ?o)"] by (auto simp: history_inv_def logs_inv_def stored_def)
  then show ?thesis
    using inv s by (intro history_update_inv[OF inv i cl]) (auto simp: history_inv_def stored_def climbs_def leads_on_def)
qed

lemma restart_history_inv:
  assumes inv: "history_inv W N C H h" and C: "conf_good C" and i: "i \<in> N"
    and st: "st_initial_state (E i) st = Inr rs" "hs_term (rs_hard_state rs) = r_term (hi_node h i)"
      "hs_vote (rs_hard_state rs) = r_vote (hi_node h i)"
    and r: "raft_new (E i) c st = Some (Inr r)" "c_id c = i" "\<not> c_batch_append c" "conf_voters (pt_conf (r_prs r)) = C"
    and lg: "log_wf W (r_raft_log r)" "lg \<in> hi_logs h i" "covers (links W lg) (links W (r_raft_log r))"
  shows "history_inv W N C H (history_update i r h)"
proof -
  have c0: "cluster_inv N C (hi_cluster h)" using inv by (simp add: history_inv_def)
  have rs: "restarted i (rs_hard_state rs) r" using outcomeD[OF raft_new_frame[OF st(1)] r(1)] r(2) by simp
  have cl: "cluster_inv N C (cluster_update i r (hi_cluster h))" by (rule restart_inv[OF c0 i rs st(2,3) r(4) C])
  have "covers H (links W (r_raft_log r))"
    using inv i covers_trans[OF _ lg(3)] lg(2) unfolding history_inv_def logs_inv_def by blast
  moreover have "\<not> r_batch_append r" "appends (r_msgs r) = {}" using outcomeD[OF raft_new_still r(1)] r(3) by auto
  ultimately show ?thesis
    using inv rs st lg(1)
    by (intro history_update_inv[OF inv i cl]) (auto simp: history_inv_def restarted_def climbs_def leads_on_def)
qed

lemma history_run_inv:
  assumes "history_run E W N C h0 h" "history_start W N h0" "conf_good C" "\<And>i. i \<in> N \<Longrightarrow> reading_storage (E i) W"
  shows "\<exists>H. history_inv W N C H h"
  using assms(1,2)
proof (induction rule: history_run.induct)
  case (start h)
  then show ?case using history_start_inv by blast
next
  case (step h h1 h2)
  then obtain H where inv: "history_inv W N C H h1" by blast
  from step.hyps(2) show ?case
  proof cases
    case (handle i inp r)
    then show ?thesis using handle_inv[where E = E, OF inv assms(4) assms(3)] by blast
  next
    case (store i lg)
    then show ?thesis using store_inv[OF inv assms(3)] by blast
  next
    case (restart i st rs c r lg)
    then show ?thesis using restart_history_inv[where E = E, OF inv assms(3)] by blast
  qed
qed

section \<open>Log matching\<close>

text \<open>One step down two logs that agree at a position.\<close>

lemma links_agree_step:
  assumes u: "unique_links H" and l: "log_wf W lg" "covers H (links W lg)" "log_wf W lg'" "covers H (links W lg')"
    and env: "reading_storage E W" and p: "log_base W lg < p" "log_base W lg' < p" "p \<le> log_last W lg" "p \<le> log_last W lg'"
    and t: "log_term W lg p = log_term W lg' p"
  shows "log_at W lg p = log_at W lg' p \<and>
    (log_term W lg (p - 1) = None \<or> log_term W lg' (p - 1) = None \<or> log_term W lg (p - 1) = log_term W lg' (p - 1))"
proof -
  have m: "(log_at W lg p, log_term W lg (p - 1)) \<in> links W lg" "(log_at W lg' p, log_term W lg' (p - 1)) \<in> links W lg'"
    using p by (auto simp: links_def)
  have "e_index (log_at W lg p) = e_index (log_at W lg' p)" "e_term (log_at W lg p) = e_term (log_at W lg' p)"
    using reading_storage.log_at_index[OF env l(1) p(1,3)] reading_storage.log_at_index[OF env l(3) p(2,4)]
      log_at_term[OF p(1,3)] log_at_term[OF p(2,4)] t by simp_all
  moreover obtain t t' where "(log_at W lg p, t) \<in> H" "log_term W lg (p - 1) = None \<or> log_term W lg (p - 1) = t"
      "(log_at W lg' p, t') \<in> H" "log_term W lg' (p - 1) = None \<or> log_term W lg' (p - 1) = t'"
    using l(2,4) m unfolding covers_def by blast
  ultimately show ?thesis using u unfolding unique_links_def by metis
qed

lemma links_agree:
  assumes H: "unique_links H" "log_wf W lg" "covers H (links W lg)" "log_wf W lg'" "covers H (links W lg')" "reading_storage E W"
    and p: "q \<le> p" "log_base W lg < q" "log_base W lg' < q" "p \<le> log_last W lg" "p \<le> log_last W lg'"
    and t: "log_term W lg p = log_term W lg' p"
  shows "log_term W lg q = log_term W lg' q \<and> log_at W lg q = log_at W lg' q"
  using p(1-3)
proof (induction q rule: inc_induct)
  case base
  then show ?case using links_agree_step[OF H, of p] p(4,5) t by simp
next
  case (step n)
  have "log_term W lg n = log_term W lg' n"
    using links_agree_step[OF H, of "Suc n"] step p(4,5) log_at_term[of W lg n] log_at_term[of W lg' n] by simp
  then show ?case using links_agree_step[OF H, of n] step p(4,5) by simp
qed


section \<open>Storage steps of a MemStorage\<close>

lemma covers_drop:
  assumes b: "log_base W lg \<le> log_base W lg'" "log_base W lg' \<le> log_last W lg"
    and e: "log_ents W lg' = drop (log_base W lg' - log_base W lg) (log_ents W lg)"
    and t: "log_base_term W lg' = None \<or> log_base_term W lg' = log_term W lg (log_base W lg')"
  shows "log_last W lg' = log_last W lg" "covers (links W lg) (links W lg')"
proof -
  show last: "log_last W lg' = log_last W lg" using b e by (simp add: log_last_def)
  have at: "log_at W lg' p = log_at W lg p" if "log_base W lg' < p" "p \<le> log_last W lg" for p
    using that b e by (simp add: log_at_def log_last_def)
  have "log_term W lg' p = log_term W lg p" if "log_base W lg' < p" "p \<le> log_last W lg" for p
    using that b last at[OF that] by (simp add: log_at_term)
  then have "log_term W lg' p = None \<or> log_term W lg' p = log_term W lg p" if "log_base W lg' \<le> p" "p \<le> log_last W lg" for p
    using that t b last by (cases "p = log_base W lg'") (auto simp: log_term_def)
  note terms = this
  have "(log_at W lg p, log_term W lg (p - 1)) \<in> links W lg" if "log_base W lg' < p" "p \<le> log_last W lg" for p
    unfolding links_def using that b by (intro CollectI exI[of _ p]) simp
  moreover have "log_term W lg' (p - 1) = None \<or> log_term W lg' (p - 1) = log_term W lg (p - 1)"
    if "log_base W lg' < p" "p \<le> log_last W lg" for p using terms[of "p - 1"] that by simp
  ultimately show "covers (links W lg) (links W lg')"
    unfolding covers_def links_def[of W lg'] using at last by (clarsimp) metis
qed

text \<open>The unstable entries are written to the storage and marked as stable: the log is the same.\<close>

lemma mem_persist_stored:
  assumes wf: "log_wf mem_view lg" and ne: "u_entries (rl_unstable lg) \<noteq> []" and sn: "u_snapshot (rl_unstable lg) = None"
    and a: "mem_append (u_entries (rl_unstable lg)) (rl_store lg) = Some s"
    and lg': "rl_stable_entries i t (lg\<lparr>rl_store := s\<rparr>) = Some lg'"
  shows "stored mem_view lg lg'"
proof -
  let ?u = "rl_unstable lg" and ?s = "rl_store lg"
  have ok: "mem_ok ?s" "numbered (u_offset ?u) (u_entries ?u)" and off: "mem_first_index ?s \<le> u_offset ?u"
      "u_offset ?u \<le> mem_last_index ?s + 1"
    using wf sn mem_first_index_Suc[of ?s] mem_last_index_eq[of ?s] by (auto simp: log_wf_def)
  have s: "mem_ok s" "mem_first_index s = mem_first_index ?s"
      "ms_entries s = take (u_offset ?u - mem_first_index ?s) (ms_entries ?s) @ u_entries ?u"
    using mem_append_spec[OF ok ne] a off by auto
  have meta: "ms_snapshot_metadata s = ms_snapshot_metadata ?s" using a mem_append_eq[OF ok ne] by (auto split: if_splits)
  have base: "mem_base s = mem_base ?s" using s(2) by (simp add: mem_base_def)
  have last: "e_index (last (u_entries ?u)) + 1 = u_offset ?u + length (u_entries ?u)"
    using numbered_last[OF ok(2) ne] ne by (cases "u_entries ?u") auto
  have l: "lg' = lg\<lparr>rl_store := s, rl_unstable := ?u\<lparr>u_offset := u_offset ?u + length (u_entries ?u), u_entries := [], u_entries_size := 0\<rparr>\<rparr>"
    using lg' ne last by (auto simp: rl_stable_entries_def unstable_stable_entries_def vec_last_def bind_eq_Some_conv split: if_splits)
  have len: "length (take (u_offset ?u - mem_first_index ?s) (ms_entries ?s)) = u_offset ?u - mem_first_index ?s"
    using off mem_last_index_eq[OF ok(1)] mem_first_index_Suc[OF ok(1)] by simp
  have v: "log_base mem_view lg' = log_base mem_view lg" "log_base_term mem_view lg' = log_base_term mem_view lg"
      "log_ents mem_view lg' = log_ents mem_view lg"
    using sn s(3) base meta off len mem_first_index_Suc[OF ok(1)]
    by (simp_all add: l log_base_def log_base_term_def log_ents_def log_stable_def mem_view_def)
  then have "log_last mem_view lg' = log_last mem_view lg" by (simp add: log_last_def)
  moreover have "log_wf mem_view lg'"
    using wf sn s base v len off mem_first_index_Suc[OF ok(1)] calculation
    unfolding log_wf_def v calculation by (simp add: l unstable_sized_def numbered_def)
  moreover have "covers (links mem_view lg) (links mem_view lg')"
    using v by (intro covers_drop) (simp_all add: log_last_def log_term_def)
  ultimately show ?thesis by (simp add: stored_def advances_def l)
qed

text \<open>Compaction up to an applied position drops entries and may lose the term before the first one.\<close>

lemma mem_compact_stored:
  assumes wf: "log_wf mem_view lg" and sn: "u_snapshot (rl_unstable lg) = None"
    and ci: "mem_first_index (rl_store lg) < ci" "ci \<le> mem_last_index (rl_store lg)" "ci \<le> rl_applied lg + 1"
    and s: "mem_compact ci (rl_store lg) = Some s"
  shows "stored mem_view lg (lg\<lparr>rl_store := s\<rparr>)"
proof -
  let ?u = "rl_unstable lg" and ?s = "rl_store lg" and ?lg = "lg\<lparr>rl_store := s\<rparr>"
  have ok: "mem_ok ?s" and off: "ci \<le> u_offset ?u" using wf sn ci(3) by (auto simp: log_wf_def)
  have e: "ms_entries s = drop (ci - mem_first_index ?s) (ms_entries ?s)" "ms_snapshot_metadata s = ms_snapshot_metadata ?s"
    using mem_compact_eq[OF ok ci(1)] ci(2) s by auto
  have ne: "ms_entries s \<noteq> []" using e(1) ci mem_last_index_eq[OF ok] mem_first_index_Suc[OF ok] by auto
  have num: "numbered ci (ms_entries s)"
    using numbered_drop[of "mem_first_index ?s" "ms_entries ?s" "ci - mem_first_index ?s"] ok ci(1)
    by (simp add: mem_ok_def e(1))
  have fi: "mem_first_index s = ci" using mem_first_index_hd[OF ne] numbered_hd[OF num ne] by simp
  have oks: "mem_ok s" using num ok ci(1) e(2) by (simp add: mem_ok_def fi)
  have b: "log_base mem_view ?lg = ci - 1" "log_base mem_view lg = mem_first_index ?s - 1"
    using sn fi by (simp_all add: log_base_def mem_base_def)
  have ents: "log_ents mem_view ?lg = drop (ci - mem_first_index ?s) (log_ents mem_view lg)"
    using sn off ci(1,2) mem_first_index_Suc[OF ok] mem_first_index_Suc[OF oks] fi e(1) mem_last_index_eq[OF ok]
    by (auto simp: log_ents_def log_stable_def take_drop)
  have d: "log_base mem_view ?lg - log_base mem_view lg = ci - mem_first_index ?s"
    using b mem_first_index_Suc[OF ok] by simp
  have le: "log_base mem_view lg \<le> ci - 1" "ci - 1 \<le> log_last mem_view lg"
    using wf ci(1,3) b(2) by (auto simp: log_wf_def)
  have bt: "log_base_term mem_view ?lg = None"
    using sn ok oks ci(1) fi e(2) by (auto simp: log_base_term_def mem_view_def mem_base_def mem_ok_def)
  have cov: "log_last mem_view ?lg = log_last mem_view lg" "covers (links mem_view lg) (links mem_view ?lg)"
    using covers_drop[of mem_view lg ?lg] b(1) le ents[folded d] bt by simp_all
  moreover have "log_wf mem_view ?lg"
    using wf sn oks ci off e(1) b mem_first_index_Suc[OF ok] mem_first_index_Suc[OF oks] fi mem_last_index_eq[OF ok]
    unfolding log_wf_def cov(1) b by auto
  ultimately show ?thesis by (simp add: stored_def advances_def)
qed

section \<open>A concrete replication\<close>

text \<open>The election of \<open>Election\<close>, and then node 3 gets the first entry of the leader.\<close>

definition history_handle :: "nat \<Rightarrow> input \<Rightarrow> mem_storage history \<Rightarrow> mem_storage history" where
  "history_handle i inp h = (case node_handle sample_env inp (hi_node h i) of None \<Rightarrow> h | Some r \<Rightarrow> history_update i r h)"

definition history_fits :: "nat \<Rightarrow> input \<Rightarrow> mem_storage history \<Rightarrow> bool" where
  "history_fits i inp h \<longleftrightarrow> deliverable (hi_cluster h) i inp \<and> append_sent h inp \<and>
     (case node_handle sample_env inp (hi_node h i) of
        None \<Rightarrow> False | Some r \<Rightarrow> conf_voters (pt_conf (r_prs r)) = sample_voters)"

lemma sample_history_run:
  assumes "history_run (\<lambda>_. sample_env) mem_view N sample_voters h0 h" "i \<in> N" "history_fits i inp h"
  shows "history_run (\<lambda>_. sample_env) mem_view N sample_voters h0 (history_handle i inp h)"
proof -
  obtain r where "node_handle sample_env inp (hi_node h i) = Some r" "deliverable (hi_cluster h) i inp" "append_sent h inp"
      "conf_voters (pt_conf (r_prs r)) = sample_voters"
    using assms(3) by (auto simp: history_fits_def split: option.splits)
  then show ?thesis
    using assms(1,2) by (auto simp: history_handle_def intro: history_run.step history_step.handle)
qed

definition sample_h0 :: "mem_storage history" where
  "sample_h0 = \<lparr>hi_cluster = sample_start, hi_logs = (\<lambda>i. {r_raft_log (cl_node sample_start i)})\<rparr>"

definition sample_h1 :: "mem_storage history" where
  "sample_h1 = history_handle 2 (Receive (sample_msg MsgHup 2 2)) sample_h0"

definition sample_h2 :: "mem_storage history" where
  "sample_h2 = history_handle 3 (Receive (hd (r_msgs (hi_node sample_h1 2)))) sample_h1"

definition sample_h3 :: "mem_storage history" where
  "sample_h3 = history_handle 2 (Receive (hd (r_msgs (hi_node sample_h2 3)))) sample_h2"

definition first_append :: "mem_storage history \<Rightarrow> message" where
  "first_append h = hd (filter (\<lambda>m. m_type m = MsgAppend \<and> m_to m = 3) (r_msgs (hi_node h 2)))"

definition sample_h4 :: "mem_storage history" where
  "sample_h4 = history_handle 3 (Receive (first_append sample_h3)) sample_h3"

lemma sample_h0_start: "history_start mem_view {2, 3, 4} sample_h0"
proof -
  have "log_wf mem_view (r_raft_log (cl_node sample_start i)) \<and> log_ents mem_view (r_raft_log (cl_node sample_start i)) = [] \<and>
      \<not> r_batch_append (cl_node sample_start i) \<and> r_msgs (cl_node sample_start i) = []" if "i \<in> {2, 3, 4}" for i
  proof -
    have "list_all (\<lambda>i. log_wf mem_view (r_raft_log (cl_node sample_start i)) \<and> log_ents mem_view (r_raft_log (cl_node sample_start i)) = [] \<and>
      \<not> r_batch_append (cl_node sample_start i) \<and> r_msgs (cl_node sample_start i) = []) [2, 3, 4]" by code_simp
    then show ?thesis using that by auto
  qed
  then show ?thesis
    using sample_start_ok by (simp add: history_start_def sample_h0_def) (simp add: sample_start_def)
qed

lemma sample_h_fits:
  "history_fits 2 (Receive (sample_msg MsgHup 2 2)) sample_h0"
  "history_fits 3 (Receive (hd (r_msgs (hi_node sample_h1 2)))) sample_h1"
  "history_fits 2 (Receive (hd (r_msgs (hi_node sample_h2 3)))) sample_h2"
  "history_fits 3 (Receive (first_append sample_h3)) sample_h3"
  by code_simp+

lemma sample_h4_run: "history_run (\<lambda>_. sample_env) mem_view {2, 3, 4} sample_voters sample_h0 sample_h4"
  unfolding sample_h4_def
  by (rule sample_history_run[OF _ _ sample_h_fits(4)], subst sample_h3_def,
      rule sample_history_run[OF _ _ sample_h_fits(3)], subst sample_h2_def,
      rule sample_history_run[OF _ _ sample_h_fits(2)], subst sample_h1_def,
      rule sample_history_run[OF _ _ sample_h_fits(1)]) (simp_all add: history_run.start)

lemma sample_h4_eval:
  "log_last mem_view (r_raft_log (hi_node sample_h4 2)) = 1" "log_last mem_view (r_raft_log (hi_node sample_h4 3)) = 1"
  "log_base mem_view (r_raft_log (hi_node sample_h4 2)) = 0" "log_base mem_view (r_raft_log (hi_node sample_h4 3)) = 0"
  "log_term mem_view (r_raft_log (hi_node sample_h4 2)) 1 = log_term mem_view (r_raft_log (hi_node sample_h4 3)) 1"
  by code_simp+


end
