(* ===== verification/Network.thy ===== *)
theory Network
  imports Log_Matching "HOL-Library.Code_Target_Nat" Complex_Main
begin

text \<open>
  The test harness of the repository (\<open>raft-rs/harness/src\<close>): a simulated network of nodes over in-memory storages.
  An \<open>Interface\<close> is a node or nothing; a \<open>Network\<close> delivers messages, lets the receiver persist what it has not yet
  written, filters its answers and goes on until no message is left. The map \<open>storage\<close> of a \<open>Network\<close> holds
  further handles of the storages inside the nodes and is not copied here. A drop rate is a rational number; the random
  numbers are a parameter \<open>rnd\<close>, a function of the number of draws.
\<close>

type_synonym interface = "mem_storage raft option"

definition iface_step :: "mem_storage env \<Rightarrow> message \<Rightarrow> interface \<Rightarrow> (unit result \<times> interface) panics" where
  "iface_step E m i = (case i of
       Some r \<Rightarrow> do { (res, r1) \<leftarrow> raft_step E m r; Some (res, Some r1) }
     | None \<Rightarrow> Some (Inr (), None))"

definition iface_read_messages :: "interface \<Rightarrow> message list \<times> interface" where
  "iface_read_messages i = (case i of Some r \<Rightarrow> (r_msgs r, Some (r\<lparr>r_msgs := []\<rparr>)) | None \<Rightarrow> ([], None))"

text \<open>The two parts of \<open>persist\<close>: the unstable snapshot, then the unstable entries.\<close>

definition persist_snapshot :: "mem_storage env \<Rightarrow> mem_storage raft \<Rightarrow> mem_storage raft panics" where
  "persist_snapshot E r = (case rl_unstable_snapshot (r_raft_log r) of
       None \<Rightarrow> Some r
     | Some snap \<Rightarrow> do {
         let index = sm_index (snap_metadata snap);
         lg \<leftarrow> rl_stable_snap index (r_raft_log r);
         let (res, store) = mem_apply_snapshot snap (rl_store lg);
         unwrap res;
         r1 \<leftarrow> on_persist_snap index (set_log (lg\<lparr>rl_store := store\<rparr>) r);
         raft_commit_apply E index r1 })"

definition persist_entries :: "mem_storage env \<Rightarrow> mem_storage raft \<Rightarrow> mem_storage raft panics" where
  "persist_entries E r = (let unstable = rl_unstable_entries (r_raft_log r) in
     case vec_last unstable of
       None \<Rightarrow> Some r
     | Some e \<Rightarrow> do {
         lg \<leftarrow> rl_stable_entries (e_index e) (e_term e) (r_raft_log r);
         store \<leftarrow> mem_append unstable (rl_store lg);
         on_persist_entries E (e_index e) (e_term e) (set_log (lg\<lparr>rl_store := store\<rparr>) r) })"

definition iface_persist :: "mem_storage env \<Rightarrow> interface \<Rightarrow> interface panics" where
  "iface_persist E i = (case i of
       None \<Rightarrow> Some None
     | Some r \<Rightarrow> do { r1 \<leftarrow> persist_snapshot E r; r2 \<leftarrow> persist_entries E r1; Some (Some r2) })"

record connection =
  cn_from :: nat
  cn_to :: nat

record network =
  nw_peers :: "(nat, interface) amap"
  nw_dropm :: "(connection, rat) amap"
  nw_ignorem :: "(message_type, bool) amap"
  nw_draws :: nat

definition network_default_config :: config where
  "network_default_config = config_default\<lparr>c_election_tick := 10, c_heartbeat_tick := 1,
     c_max_size_per_msg := NO_LIMIT, c_max_inflight_msgs := 256\<rparr>"

fun network_peers :: "mem_storage env \<Rightarrow> config \<Rightarrow> nat list \<Rightarrow> (interface option \<times> nat) list \<Rightarrow> (nat, interface) amap panics" where
  "network_peers E c addrs [] = Some []"
| "network_peers E c addrs ((p, i) # ps) = (case p of
       None \<Rightarrow> do {
         store \<leftarrow> mem_new_with_conf_state (conf_state_from addrs []);
         res \<leftarrow> raft_new E (c\<lparr>c_id := i\<rparr>) store;
         r \<leftarrow> unwrap res;
         rest \<leftarrow> network_peers E c addrs ps;
         Some ((i, Some r) # rest) }
     | Some iface \<Rightarrow>
         if (case iface of Some raft \<Rightarrow> r_id raft \<noteq> i | None \<Rightarrow> False) then None
         else do { rest \<leftarrow> network_peers E c addrs ps; Some ((i, iface) # rest) })"

definition network_new_with_config :: "mem_storage env \<Rightarrow> interface option list \<Rightarrow> config \<Rightarrow> network panics" where
  "network_new_with_config E peers c = do {
     let addrs = [1..<length peers + 1];
     ps \<leftarrow> network_peers E c addrs (zip peers addrs);
     Some \<lparr>nw_peers = ps, nw_dropm = [], nw_ignorem = [], nw_draws = 0\<rparr> }"

definition network_new :: "mem_storage env \<Rightarrow> interface option list \<Rightarrow> network panics" where
  "network_new E peers = network_new_with_config E peers network_default_config"

definition network_ignore :: "message_type \<Rightarrow> network \<Rightarrow> network" where
  "network_ignore t nw = nw\<lparr>nw_ignorem := amap_set t True (nw_ignorem nw)\<rparr>"

definition ignored :: "network \<Rightarrow> message_type \<Rightarrow> bool" where
  "ignored nw t = (case map_of (nw_ignorem nw) t of Some b \<Rightarrow> b | None \<Rightarrow> False)"

definition drop_rate :: "network \<Rightarrow> message \<Rightarrow> rat" where
  "drop_rate nw m = (case map_of (nw_dropm nw) \<lparr>cn_from = m_from m, cn_to = m_to m\<rparr> of Some p \<Rightarrow> p | None \<Rightarrow> 0)"

text \<open>The closure of \<open>filter\<close> on one message after the other; a message that is not ignored draws a random number.\<close>

fun filter_loop :: "(nat \<Rightarrow> rat) \<Rightarrow> network \<Rightarrow> nat \<Rightarrow> message list \<Rightarrow> (message list \<times> nat) panics" where
  "filter_loop rnd nw d [] = Some ([], d)"
| "filter_loop rnd nw d (m # ms) =
     (if ignored nw (m_type m) then filter_loop rnd nw d ms
      else if m_type m = MsgHup then None
      else do {
        (ms1, d1) \<leftarrow> filter_loop rnd nw (Suc d) ms;
        Some (if rnd d \<ge> drop_rate nw m then m # ms1 else ms1, d1) })"

definition network_filter :: "(nat \<Rightarrow> rat) \<Rightarrow> message list \<Rightarrow> network \<Rightarrow> (message list \<times> network) panics" where
  "network_filter rnd msgs nw = do {
     (ms, d) \<leftarrow> filter_loop rnd nw (nw_draws nw) msgs;
     Some (ms, nw\<lparr>nw_draws := d\<rparr>) }"

definition network_read_messages :: "network \<Rightarrow> message list \<times> network" where
  "network_read_messages nw = (concat (map (\<lambda>(_, p). fst (iface_read_messages p)) (nw_peers nw)),
     nw\<lparr>nw_peers := map (\<lambda>(i, p). (i, snd (iface_read_messages p))) (nw_peers nw)\<rparr>)"

text \<open>One message of \<open>send\<close>: the receiver steps, persists and answers; the answers are filtered.\<close>

definition deliver_one ::
  "mem_storage env \<Rightarrow> (nat \<Rightarrow> rat) \<Rightarrow> message \<Rightarrow> network \<Rightarrow> (message list \<times> network) panics" where
  "deliver_one E rnd m nw = do {
     p \<leftarrow> map_of (nw_peers nw) (m_to m);
     (_, p1) \<leftarrow> iface_step E m p;
     p2 \<leftarrow> iface_persist E p1;
     let (resp, p3) = iface_read_messages p2;
     network_filter rnd resp (nw\<lparr>nw_peers := amap_set (m_to m) p3 (nw_peers nw)\<rparr>) }"

fun send_round ::
  "mem_storage env \<Rightarrow> (nat \<Rightarrow> rat) \<Rightarrow> message list \<Rightarrow> network \<Rightarrow> (message list \<times> network) panics" where
  "send_round E rnd [] nw = Some ([], nw)"
| "send_round E rnd (m # ms) nw = do {
     (out, nw1) \<leftarrow> deliver_one E rnd m nw;
     (outs, nw2) \<leftarrow> send_round E rnd ms nw1;
     Some (out @ outs, nw2) }"

text \<open>The loop \<open>while !msgs.is_empty()\<close>; \<open>None\<close> is a panic or a loop that does not end.\<close>

partial_function (option) network_send ::
  "mem_storage env \<Rightarrow> (nat \<Rightarrow> rat) \<Rightarrow> message list \<Rightarrow> network \<Rightarrow> network option" where
  "network_send E rnd msgs nw =
     (if msgs = [] then Some nw
      else do { (new_msgs, nw1) \<leftarrow> send_round E rnd msgs nw; network_send E rnd new_msgs nw1 })"

declare network_send.simps [code]

definition network_filter_and_send ::
  "mem_storage env \<Rightarrow> (nat \<Rightarrow> rat) \<Rightarrow> message list \<Rightarrow> network \<Rightarrow> network option" where
  "network_filter_and_send E rnd msgs nw = do {
     (ms, nw1) \<leftarrow> network_filter rnd msgs nw;
     network_send E rnd ms nw1 }"

fun dispatch_loop :: "mem_storage env \<Rightarrow> message list \<Rightarrow> network \<Rightarrow> (unit result \<times> network) panics" where
  "dispatch_loop E [] nw = Some (Inr (), nw)"
| "dispatch_loop E (m # ms) nw = do {
     p \<leftarrow> map_of (nw_peers nw) (m_to m);
     (res, p1) \<leftarrow> iface_step E m p;
     let nw1 = nw\<lparr>nw_peers := amap_set (m_to m) p1 (nw_peers nw)\<rparr>;
     case res of Inl e \<Rightarrow> Some (Inl e, nw1) | Inr _ \<Rightarrow> dispatch_loop E ms nw1 }"

definition network_dispatch ::
  "mem_storage env \<Rightarrow> (nat \<Rightarrow> rat) \<Rightarrow> message list \<Rightarrow> network \<Rightarrow> (unit result \<times> network) panics" where
  "network_dispatch E rnd msgs nw = do {
     (ms, nw1) \<leftarrow> network_filter rnd msgs nw;
     dispatch_loop E ms nw1 }"

definition network_drop :: "nat \<Rightarrow> nat \<Rightarrow> rat \<Rightarrow> network \<Rightarrow> network" where
  "network_drop from to perc nw = nw\<lparr>nw_dropm := amap_set \<lparr>cn_from = from, cn_to = to\<rparr> perc (nw_dropm nw)\<rparr>"

definition network_cut :: "nat \<Rightarrow> nat \<Rightarrow> network \<Rightarrow> network" where
  "network_cut one other nw = network_drop other one 1 (network_drop one other 1 nw)"

definition network_isolate :: "nat \<Rightarrow> network \<Rightarrow> network" where
  "network_isolate i nw = fold (\<lambda>k nw. let nid = k + 1 in
       if nid \<noteq> i then network_drop nid i 1 (network_drop i nid 1 nw) else nw)
     [0..<length (nw_peers nw)] nw"

definition network_recover :: "network \<Rightarrow> network" where
  "network_recover nw = nw\<lparr>nw_dropm := [], nw_ignorem := []\<rparr>"

end
