(* ===== verification/Network_Conf.thy ===== *)
theory Network_Conf
  imports Network
begin

text \<open>
  What the step of a node leaves of its configuration, for the runs of a \<open>Network\<close>, whose membership is fixed.
\<close>

section \<open>The configuration of a node\<close>

text \<open>Only a snapshot and an applied configuration change touch the configuration of a node.\<close>

definition same_conf :: "'s raft \<Rightarrow> 's raft \<Rightarrow> bool" where
  "same_conf r r' \<longleftrightarrow> pt_conf (r_prs r') = pt_conf (r_prs r)"

named_theorems conf_frames \<open>functions that keep the configuration of a node\<close>

lemma same_conf_refl [simp]: "same_conf r r"
  by (simp add: same_conf_def)

lemma same_conf_trans [trans]: "same_conf r s \<Longrightarrow> same_conf s t \<Longrightarrow> same_conf r t"
  by (simp add: same_conf_def)

lemma quiet_same_conf: "quiet r r' \<Longrightarrow> same_conf r r'"
  by (simp add: quiet_def same_conf_def)

lemma renews_same_conf: "renews E t r r' \<Longrightarrow> same_conf r r'"
  by (simp add: renews_def same_conf_def)

lemma same_conf_recorded [simp]: "same_conf r (recorded i v s) \<longleftrightarrow> same_conf r s" "same_conf (recorded i v s) r \<longleftrightarrow> same_conf s r"
  by (simp_all add: same_conf_def recorded_def)

lemma begin_campaign_conf: "outcome (\<lambda>(vm, t, c). vm \<noteq> MsgRequestVoteResponse \<and> same_conf r c) (begin_campaign E ct r)"
  unfolding begin_campaign_def become_pre_candidate_def
  by (intro vcg become_candidate_frame) (auto simp: same_conf_def renews_def reset_votes_def)

lemma campaign_poll_conf:
  "outcome (same_conf r) (campaign E ct r)" "outcome (\<lambda>(res, r'). same_conf s r') (poll E i v s)"
proof (induction E ct r and E i v s rule: campaign_poll.induct)
  case (1 E ct r)
  show ?case
  proof (cases "begin_campaign E ct r")
    case (Some x)
    obtain vm u c where x: "x = (vm, u, c)" by (cases x)
    note b = outcomeD[OF begin_campaign_conf Some[unfolded x], simplified]
    have "outcome (\<lambda>(res, r'). same_conf c r') (poll E (r_id c) True c)" using 1 Some x by simp
    then have p: "same_conf r s" if "poll E (r_id c) True c = Some (res, s)" for res s
      using that b same_conf_trans by (auto dest: outcomeD)
    show ?thesis
      unfolding campaign.simps Some x option.case prod.case
      by (intro vcg send_vote_requests_frame outcome_any) (use b in \<open>auto dest!: p intro: same_conf_trans quiet_same_conf\<close>)
  qed (simp add: campaign.simps)
next
  case (2 E i v r)
  let ?s = "recorded i v r"
  obtain g rj res where t: "tally_votes (r_prs ?s) = (g, rj, res)" by (cases "tally_votes (r_prs ?s)")
  have lead: "same_conf r r'" if "become_leader E ?s = Some r1" "quiet r1 r'" for r1 r'
  proof -
    have "outcome (same_conf ?s) (become_leader E ?s)" by (intro become_leader_frame) (simp add: same_conf_def)
    from outcomeD[OF this that(1)] show ?thesis using quiet_same_conf[OF that(2)] by (auto intro: same_conf_trans)
  qed
  show ?case
  proof (cases res)
    case Won
    have "same_conf r r'" if "r_state ?s = PreCandidate" "campaign E CAMPAIGN_ELECTION ?s = Some r'" for r'
      using 2[OF refl refl t[unfolded recorded_def, symmetric] refl Won] that by (auto dest: outcomeD simp: recorded_def same_conf_def)
    then show ?thesis
      unfolding poll.simps Let_def recorded_def[symmetric] t Won
      by (simp, intro vcg bcast_append_frame outcome_any) (auto intro: lead)
  next
    case Lost
    show ?thesis
      unfolding poll.simps Let_def recorded_def[symmetric] t Lost
      by (simp, intro vcg become_follower_frame) (auto dest!: renews_same_conf)
  next
    case Pending
    show ?thesis unfolding poll.simps Let_def recorded_def[symmetric] t Pending by simp
  qed
qed

lemma campaign_conf [conf_frames]: "(\<And>r'. same_conf r r' \<Longrightarrow> Q r') \<Longrightarrow> outcome Q (campaign E ct r)"
  by (rule outcome_conseq[OF campaign_poll_conf(1)])

lemma poll_conf [conf_frames]: "(\<And>res r'. same_conf r r' \<Longrightarrow> Q (res, r')) \<Longrightarrow> outcome Q (poll E i v r)"
  by (rule outcome_conseq[OF campaign_poll_conf(2)]) auto

lemma hup_conf [conf_frames]:
  assumes "\<And>r'. same_conf r r' \<Longrightarrow> Q r'"
  shows "outcome Q (hup E b r)"
  unfolding hup_def Let_def
  by (intro vcg conf_frames outcome_any assms) (auto simp: same_conf_def)

lemma maybe_commit_by_vote_conf [conf_frames]:
  assumes Q: "\<And>r'. same_conf r r' \<Longrightarrow> Q r'"
  shows "outcome Q (maybe_commit_by_vote E m r)"
  by (intro maybe_commit_by_vote_frame Q)
    (auto simp: settles_def intro: quiet_same_conf renews_same_conf same_conf_trans)

lemma step_vote_request_conf [conf_frames]:
  assumes Q: "\<And>r'. same_conf r r' \<Longrightarrow> Q r'"
  shows "outcome Q (step_vote_request E m r)"
proof -
  have s: "same_conf r r1" if "raft_send m' r = Some r1" for m' r1
    using that by (auto simp: raft_send_def bind_eq_Some_conv same_conf_def)
  show ?thesis
    unfolding step_vote_request_def Let_def
    by (intro vcg conf_frames outcome_any Q) (auto dest!: s simp: same_conf_def)
qed

lemma step_leader_conf [conf_frames]:
  assumes Q: "\<And>res r'. same_conf r r' \<Longrightarrow> Q (res, r')"
  shows "outcome Q (step_leader E m r)"
  unfolding step_leader_def Let_def
  by (cases "m_type m"; simp only: message_type.case; intro vcg frames Q)
    (auto intro: quiet_same_conf same_conf_trans renews_same_conf check_quorum_active_quiet handle_snapshot_status_quiet handle_unreachable_quiet)

lemma step_candidate_conf [conf_frames]:
  assumes m: "m_type m \<noteq> MsgSnapshot" and Q: "\<And>res r'. same_conf r r' \<Longrightarrow> Q (res, r')"
  shows "outcome Q (step_candidate E m r)"
  unfolding step_candidate_def Let_def
  using m by (cases "m_type m"; simp only: message_type.case; intro conf_frames handle_append_entries_frame handle_heartbeat_frame become_follower_frame ok_step_frame vcg Q)
    (auto intro: quiet_same_conf renews_same_conf same_conf_trans)

lemma step_follower_conf [conf_frames]:
  assumes m: "m_type m \<noteq> MsgSnapshot" and Q: "\<And>res r'. same_conf r r' \<Longrightarrow> Q (res, r')"
  shows "outcome Q (step_follower E m r)"
proof -
  have e: "same_conf r t" if "quiet (r\<lparr>r_election_elapsed := 0, r_leader_id := l\<rparr>) t" for t l
    using quiet_same_conf[OF that] by (simp add: same_conf_def)
  have s: "outcome Q (ok_step (raft_send m' r))" for m'
    unfolding raft_send_def by (intro vcg ok_step_frame outcome_any Q) (simp_all add: same_conf_def)
  have rr: "outcome Q (case m_entries m of [] \<Rightarrow> Some (Inr (), r)
     | [e] \<Rightarrow> ok_step (do {
              let r1 = r\<lparr>r_read_states := r_read_states r @
                         [\<lparr>rst_index = m_index m, rst_request_ctx = e_data e\<rparr>]\<rparr>;
              (_, lg) \<leftarrow> rl_maybe_commit E (m_index m) (m_term m) (r_raft_log r1);
              Some (set_log lg r1) })
     | e # e' # es \<Rightarrow> Some (Inr (), r))"
    by (cases "m_entries m"; simp; cases "tl (m_entries m)"; simp; intro vcg ok_step_frame outcome_any Q) (auto simp: same_conf_def)
  show ?thesis
    unfolding step_follower_def
    using m by (cases "m_type m"; simp only: message_type.case;
      intro rr s conf_frames ok_step_frame handle_append_entries_frame handle_heartbeat_frame vcg Q)
      (auto intro: e)
qed

lemma raft_step_conf:
  assumes m: "m_type m \<noteq> MsgSnapshot"
  shows "outcome (\<lambda>(res, r'). same_conf r r') (raft_step E m r)"
proof -
  have role: "outcome (\<lambda>(res, r'). same_conf r r') (step_role E m s)" if "same_conf r s" for s
    unfolding step_role_def
    using m that by (cases "r_state s"; simp only: state_role.case; intro vcg conf_frames ok_step_frame) (auto intro: same_conf_trans)
  show ?thesis
    unfolding raft_step_def
    by (intro outcome_rules(3) step_term_frame) (auto intro!: role intro: quiet_same_conf renews_same_conf)
qed

end
