(* ===== verification/Network_Runs.thy ===== *)
theory Network_Runs
  imports Network_Conf
begin

text \<open>
  The operations of a \<open>Network\<close> as runs of the cluster with logs of \<open>Log_Matching\<close>: a message that is delivered is a step of its
  receiver, \<open>persist\<close> is a sequence of writes to its storage and notices to the node, and reading the messages hands them over.
\<close>

section \<open>Persisting\<close>

lemma mem_snapshot_stored:
  assumes wf: "log_wf mem_view lg" and sn: "u_snapshot (rl_unstable lg) = Some snap"
    and u: "rl_stable_snap i lg = Some lg1" and a: "mem_apply_snapshot snap (rl_store lg1) = (Inr x, s)"
  shows "stored mem_view lg (lg1\<lparr>rl_store := s\<rparr>)" (is "stored _ _ ?lg")
proof -
  have l: "lg1 = lg\<lparr>rl_unstable := (rl_unstable lg)\<lparr>u_snapshot := None\<rparr>\<rparr>"
    using u sn by (auto simp: rl_stable_snap_def unstable_stable_snap_def bind_eq_Some_conv split: if_splits)
  have s: "ms_entries s = []" "ms_snapshot_metadata s = snap_metadata snap"
    using a by (auto simp: mem_apply_snapshot_def Let_def split: if_splits)
  then have b: "mem_ok s" "mem_base s = snap_index snap" "mem_first_index s = Suc (snap_index snap)"
    by (simp_all add: mem_ok_def mem_base_def mem_first_index_def numbered_def)
  have v: "log_base mem_view ?lg = log_base mem_view lg" "log_base_term mem_view ?lg = log_base_term mem_view lg"
      "log_ents mem_view ?lg = log_ents mem_view lg"
    using sn s b by (simp_all add: l log_base_def log_base_term_def log_ents_def log_stable_def mem_view_def)
  then have last: "log_last mem_view ?lg = log_last mem_view lg" by (simp add: log_last_def)
  have "log_wf mem_view ?lg"
    using wf sn s b unfolding log_wf_def v last by (auto simp: l unstable_sized_def)
  moreover have "covers (links mem_view lg) (links mem_view ?lg)"
    using v by (intro covers_drop) (simp_all add: log_last_def log_term_def)
  ultimately show ?thesis using last by (simp add: stored_def advances_def l)
qed

lemma mem_write_stored:
  assumes wf: "log_wf mem_view lg" and u: "rl_stable_entries i t lg = Some lg1"
    and a: "mem_append (u_entries (rl_unstable lg)) (rl_store lg1) = Some s"
  shows "stored mem_view lg (lg1\<lparr>rl_store := s\<rparr>)"
proof -
  have l: "rl_stable_entries i t (lg\<lparr>rl_store := s\<rparr>) = Some (lg1\<lparr>rl_store := s\<rparr>)" "rl_store lg1 = rl_store lg"
    "u_snapshot (rl_unstable lg) = None" "u_entries (rl_unstable lg) \<noteq> []"
    using u by (auto simp: rl_stable_entries_def unstable_stable_entries_def bind_eq_Some_conv vec_last_def split: option.splits if_splits)
  show ?thesis using mem_persist_stored[OF wf l(4,3) a[unfolded l(2)] l(1)] .
qed

text \<open>\<open>leads i h h'\<close>: a run of the history in which only node \<open>i\<close> takes steps.\<close>

definition leads :: "(nat \<Rightarrow> 's env) \<Rightarrow> 's store_view \<Rightarrow> nat set \<Rightarrow> joint_config \<Rightarrow> nat \<Rightarrow> 's history \<Rightarrow> 's history \<Rightarrow> bool" where
  "leads E W N C i h h' \<longleftrightarrow> history_run E W N C h h' \<and> (\<forall>j. j \<noteq> i \<longrightarrow> hi_node h' j = hi_node h j) \<and>
     cl_net (hi_cluster h) \<subseteq> cl_net (hi_cluster h')"

lemma history_run_trans:
  assumes "history_run E W N C h h1" "history_run E W N C h1 h2"
  shows "history_run E W N C h h2"
  using assms(2,1) by (induction rule: history_run.induct) (auto intro: history_run.step)

lemma leads_refl: "leads E W N C i h h"
  by (simp add: leads_def history_run.start)

lemma leads_trans: "leads E W N C i h h1 \<Longrightarrow> leads E W N C i h1 h2 \<Longrightarrow> leads E W N C i h h2"
  by (auto simp: leads_def intro: history_run_trans)

lemma history_update_sel [simp]:
  "hi_node (history_update i r h) j = (if j = i then r else hi_node h j)"
  "cl_net (hi_cluster (history_update i r h)) = cl_net (hi_cluster h) \<union> set (r_msgs r)"
  by (simp_all add: history_update_def cluster_update_def)

lemma handle_leads:
  assumes "i \<in> N" "deliverable (hi_cluster h) i inp" "append_sent h inp"
    "node_handle (E i) inp (hi_node h i) = Some r" "conf_voters (pt_conf (r_prs r)) = C"
  shows "leads E W N C i h (history_update i r h)"
  using history_run.step[OF history_run.start history_step.handle[of i N h inp E, OF assms]] by (auto simp: leads_def)

lemma store_leads:
  assumes "i \<in> N" "stored W (r_raft_log (hi_node h i)) lg" "conf_voters (pt_conf (r_prs (hi_node h i))) = C"
  shows "leads E W N C i h (history_update i (set_log lg (hi_node h i)) h)"
  using history_run.step[OF history_run.start history_step.store[OF assms]] by (auto simp: leads_def)

text \<open>The node has the configuration \<open>C\<close>, and what it has to send is on the network.\<close>

definition posted :: "joint_config \<Rightarrow> 's history \<Rightarrow> nat \<Rightarrow> bool" where
  "posted C h i \<longleftrightarrow> conf_voters (pt_conf (r_prs (hi_node h i))) = C \<and> set (r_msgs (hi_node h i)) \<subseteq> cl_net (hi_cluster h)"

lemma local_leads:
  assumes "i \<in> N" "posted C h i" "node_handle (E i) inp (hi_node h i) = Some r" "same_conf (hi_node h i) r"
    "case inp of Receive _ \<Rightarrow> False | _ \<Rightarrow> True"
  shows "leads E W N C i h (history_update i r h) \<and> posted C (history_update i r h) i"
  using assms handle_leads[of i N h inp E r C W]
  by (auto simp: posted_def same_conf_def deliverable_def append_sent_def split: input.splits)

lemma write_leads:
  assumes "i \<in> N" "posted C h i" "stored W (r_raft_log (hi_node h i)) lg"
  shows "leads E W N C i h (history_update i (set_log lg (hi_node h i)) h) \<and> posted C (history_update i (set_log lg (hi_node h i)) h) i"
  using assms store_leads[of i N W h lg C E] by (auto simp: posted_def)

text \<open>A state of the cluster that is reached from a start.\<close>

definition reached :: "mem_storage env \<Rightarrow> nat set \<Rightarrow> joint_config \<Rightarrow> mem_storage history \<Rightarrow> bool" where
  "reached E N C h \<longleftrightarrow> conf_good C \<and> (\<exists>h0. history_start mem_view N h0 \<and> history_run (\<lambda>_. mem_env E) mem_view N C h0 h)"

lemma reached_wf:
  assumes "reached E N C h" "i \<in> N"
  shows "log_wf mem_view (r_raft_log (hi_node h i))"
proof -
  obtain h0 where "history_start mem_view N h0" "history_run (\<lambda>_. mem_env E) mem_view N C h0 h" "conf_good C"
    using assms(1) by (auto simp: reached_def)
  then obtain H where "history_inv mem_view N C H h"
    using history_run_inv mem.reading_storage_axioms by blast
  then show ?thesis using assms(2) by (auto simp: history_inv_def logs_inv_def)
qed

lemma reached_leads: "reached E N C h \<Longrightarrow> leads (\<lambda>_. mem_env E) mem_view N C i h h' \<Longrightarrow> reached E N C h'"
  by (auto simp: reached_def leads_def intro: history_run_trans)

lemma persist_snapshot_leads:
  assumes h: "reached E N C h" "i \<in> N" "posted C h i" and p: "persist_snapshot (mem_env E) (hi_node h i) = Some r"
  shows "\<exists>h'. leads (\<lambda>_. mem_env E) mem_view N C i h h' \<and> hi_node h' i = r \<and> posted C h' i"
proof (cases "u_snapshot (rl_unstable (r_raft_log (hi_node h i)))")
  case None
  then have "r = hi_node h i" using p by (simp add: persist_snapshot_def rl_unstable_snapshot_def)
  then show ?thesis using h(3) leads_refl by blast
next
  case (Some snap)
  let ?E = "mem_env E" and ?i = "sm_index (snap_metadata snap)" and ?r = "hi_node h i"
  obtain lg where lg: "rl_stable_snap ?i (r_raft_log ?r) = Some lg"
    using p Some by (auto simp: persist_snapshot_def rl_unstable_snapshot_def bind_eq_Some_conv Let_def)
  obtain y s where ys: "mem_apply_snapshot snap (rl_store lg) = (y, s)" by fastforce
  obtain x r1 where p1: "rl_stable_snap ?i (r_raft_log ?r) = Some lg"
      "mem_apply_snapshot snap (rl_store lg) = (Inr x, s)" "on_persist_snap ?i (set_log (lg\<lparr>rl_store := s\<rparr>) ?r) = Some r1"
      "raft_commit_apply ?E ?i r1 = Some r"
    using p Some lg ys by (auto simp: persist_snapshot_def rl_unstable_snapshot_def bind_eq_Some_conv Let_def unwrap_def split: sum.splits)
  let ?h1 = "history_update i (set_log (lg\<lparr>rl_store := s\<rparr>) ?r) h"
  let ?h2 = "history_update i r1 ?h1" and ?h3 = "history_update i r (history_update i r1 ?h1)"
  have 1: "leads (\<lambda>_. ?E) mem_view N C i h ?h1 \<and> posted C ?h1 i"
    using mem_snapshot_stored[OF reached_wf[OF h(1,2)] Some p1(1,2)] h by (intro write_leads) auto
  have "outcome (quiet (hi_node ?h1 i)) (on_persist_snap ?i (hi_node ?h1 i))" by (intro frames)
  then have "same_conf (hi_node ?h1 i) r1" using p1(3) by (auto dest: outcomeD intro: quiet_same_conf)
  then have 2: "leads (\<lambda>_. ?E) mem_view N C i ?h1 ?h2 \<and> posted C ?h2 i"
    using 1 p1(3) h(2) by (intro local_leads[where inp = "SnapPersisted ?i"]) auto
  have "outcome (quiet (hi_node ?h2 i)) (raft_commit_apply ?E ?i (hi_node ?h2 i))" by (intro frames)
  then have "same_conf (hi_node ?h2 i) r" using p1(4) by (auto dest: outcomeD intro: quiet_same_conf)
  then have 3: "leads (\<lambda>_. ?E) mem_view N C i ?h2 ?h3 \<and> posted C ?h3 i"
    using 2 p1(4) h(2) by (intro local_leads[where inp = "AppliedTo ?i"]) auto
  from 1 2 3 have "leads (\<lambda>_. ?E) mem_view N C i h ?h3" by (blast intro: leads_trans)
  moreover have "hi_node ?h3 i = r" by simp
  ultimately show ?thesis using 3 by blast
qed

lemma persist_entries_leads:
  assumes h: "reached E N C h" "i \<in> N" "posted C h i" and p: "persist_entries (mem_env E) (hi_node h i) = Some r"
  shows "\<exists>h'. leads (\<lambda>_. mem_env E) mem_view N C i h h' \<and> hi_node h' i = r \<and> posted C h' i"
proof (cases "vec_last (u_entries (rl_unstable (r_raft_log (hi_node h i))))")
  case None
  then have "r = hi_node h i" using p by (simp add: persist_entries_def rl_unstable_entries_def)
  then show ?thesis using h(3) leads_refl by blast
next
  case (Some e)
  let ?E = "mem_env E" and ?r = "hi_node h i"
  obtain lg s where p1: "rl_stable_entries (e_index e) (e_term e) (r_raft_log ?r) = Some lg"
      "mem_append (u_entries (rl_unstable (r_raft_log ?r))) (rl_store lg) = Some s"
      "on_persist_entries ?E (e_index e) (e_term e) (set_log (lg\<lparr>rl_store := s\<rparr>) ?r) = Some r"
    using p Some by (auto simp: persist_entries_def rl_unstable_entries_def bind_eq_Some_conv Let_def)
  let ?h1 = "history_update i (set_log (lg\<lparr>rl_store := s\<rparr>) ?r) h"
  let ?h2 = "history_update i r ?h1"
  have 1: "leads (\<lambda>_. ?E) mem_view N C i h ?h1 \<and> posted C ?h1 i"
    using mem_write_stored[OF reached_wf[OF h(1,2)] p1(1,2)] h by (intro write_leads) auto
  have "outcome (quiet (hi_node ?h1 i)) (on_persist_entries ?E (e_index e) (e_term e) (hi_node ?h1 i))" by (intro frames)
  then have "same_conf (hi_node ?h1 i) r" using p1(3) by (auto dest: outcomeD intro: quiet_same_conf)
  then have 2: "leads (\<lambda>_. ?E) mem_view N C i ?h1 ?h2 \<and> posted C ?h2 i"
    using 1 p1(3) h(2) by (intro local_leads[where inp = "EntriesPersisted (e_index e) (e_term e)"]) auto
  from 1 2 have "leads (\<lambda>_. ?E) mem_view N C i h ?h2" by (blast intro: leads_trans)
  moreover have "hi_node ?h2 i = r" by simp
  ultimately show ?thesis using 2 by blast
qed

lemma persist_leads:
  assumes h: "reached E N C h" "i \<in> N" "posted C h i" and p: "iface_persist (mem_env E) (Some (hi_node h i)) = Some q"
  shows "\<exists>h'. leads (\<lambda>_. mem_env E) mem_view N C i h h' \<and> q = Some (hi_node h' i) \<and> posted C h' i"
proof -
  obtain r1 r2 where p1: "persist_snapshot (mem_env E) (hi_node h i) = Some r1" "persist_entries (mem_env E) r1 = Some r2" "q = Some r2"
    using p by (auto simp: iface_persist_def bind_eq_Some_conv)
  obtain h1 where h1: "leads (\<lambda>_. mem_env E) mem_view N C i h h1" "hi_node h1 i = r1" "posted C h1 i"
    using persist_snapshot_leads[OF h p1(1)] by blast
  obtain h2 where h2: "leads (\<lambda>_. mem_env E) mem_view N C i h1 h2" "hi_node h2 i = r2" "posted C h2 i"
    using persist_entries_leads[OF reached_leads[OF h(1) h1(1)] h(2) h1(3)] p1(2) h1(2) by blast
  show ?thesis using h1 h2 p1(3) by (blast intro: leads_trans)
qed

text \<open>
  A network and a state of the cluster: the peers that are nodes are the nodes \<open>N\<close>, they have the configuration \<open>C\<close>, and what
  they have not yet handed over has been sent.
\<close>

definition mirrors :: "nat set \<Rightarrow> joint_config \<Rightarrow> network \<Rightarrow> mem_storage history \<Rightarrow> bool" where
  "mirrors N C nw h \<longleftrightarrow> amap_wf (nw_peers nw) \<and> (\<forall>i \<in> N. map_of (nw_peers nw) i = Some (Some (hi_node h i)) \<and> posted C h i) \<and>
     (\<forall>i r. map_of (nw_peers nw) i = Some (Some r) \<longrightarrow> i \<in> N)"

text \<open>What may be delivered: anything but snapshots, and granted votes and append messages only if a node has sent them.\<close>

definition deliverable_mail :: "'s history \<Rightarrow> message \<Rightarrow> bool" where
  "deliverable_mail h m \<longleftrightarrow> m_type m \<noteq> MsgSnapshot \<and> (is_grant m \<or> m_type m = MsgAppend \<longrightarrow> m \<in> cl_net (hi_cluster h))"

lemma mirrors_node:
  assumes "mirrors N C nw h" "map_of (nw_peers nw) i = Some (Some r)"
  shows "i \<in> N" "r = hi_node h i" "posted C h i"
  using assms unfolding mirrors_def by (metis option.inject)+

lemma mirrors_leads:
  assumes "mirrors N C nw h" "leads E W N C i h h'" "i \<in> N" "posted C h' i"
  shows "mirrors N C (nw\<lparr>nw_peers := amap_set i (Some (hi_node h' i)) (nw_peers nw)\<rparr>) h'"
proof -
  have "posted C h' j" if "j \<in> N" for j
  proof (cases "j = i")
    case False
    then have "posted C h j" "hi_node h' j = hi_node h j" "cl_net (hi_cluster h) \<subseteq> cl_net (hi_cluster h')"
      using assms that by (simp_all add: mirrors_def leads_def)
    then show ?thesis unfolding posted_def by auto
  qed (use assms in simp)
  then show ?thesis using assms by (auto simp: mirrors_def leads_def)
qed

lemma step_leads:
  assumes h: "i \<in> N" "posted C h i" and m: "deliverable_mail h m" "m_to m = i"
    and s: "raft_step (mem_env E) m (hi_node h i) = Some (res, r)"
  shows "leads (\<lambda>_. mem_env E) mem_view N C i h (history_update i r h) \<and> posted C (history_update i r h) i"
proof -
  have c: "conf_voters (pt_conf (r_prs r)) = C"
    using outcomeD[OF raft_step_conf s] m h(2) by (auto simp: deliverable_mail_def same_conf_def posted_def)
  have "leads (\<lambda>_. mem_env E) mem_view N C i h (history_update i r h)"
    using c s m h(1) by (intro handle_leads[where inp = "Receive m"])
      (auto simp: deliverable_def append_sent_def deliverable_mail_def step_ignore_def)
  then show ?thesis using c by (simp add: posted_def)
qed

lemma filter_loop_eq:
  "filter_loop rnd nw d ms = (let ns = filter (\<lambda>m. \<not> ignored nw (m_type m)) ms in
     if MsgHup \<in> m_type ` set ns then None
     else Some (map snd (filter (\<lambda>(k, m). drop_rate nw m \<le> rnd k) (enumerate d ns)), d + length ns))"
  by (induction ms arbitrary: d) (auto simp: Let_def)

lemma in_set_enumerate_mem: "(k, x) \<in> set (enumerate d xs) \<Longrightarrow> x \<in> set xs"
  by (metis imageI map_snd_enumerate set_map snd_conv)

lemma filter_loop_sub: "filter_loop rnd nw d ms = Some (ms', d') \<Longrightarrow> set ms' \<subseteq> {m \<in> set ms. \<not> ignored nw (m_type m)}"
  unfolding filter_loop_eq Let_def by (auto split: if_splits dest!: in_set_enumerate_mem)

text \<open>The network goes from \<open>nw\<close> to \<open>nw'\<close> as the cluster goes from \<open>h\<close> to \<open>h'\<close>.\<close>

definition follows :: "mem_storage env \<Rightarrow> nat set \<Rightarrow> joint_config \<Rightarrow> network \<Rightarrow> mem_storage history \<Rightarrow> network \<Rightarrow> mem_storage history \<Rightarrow> bool" where
  "follows E N C nw h nw' h' \<longleftrightarrow> history_run (\<lambda>_. mem_env E) mem_view N C h h' \<and> mirrors N C nw' h' \<and>
     cl_net (hi_cluster h) \<subseteq> cl_net (hi_cluster h') \<and> nw_ignorem nw' = nw_ignorem nw"

lemma deliver_one_follows:
  assumes h: "reached E N C h" "mirrors N C nw h" and ig: "ignored nw MsgSnapshot" and m: "deliverable_mail h m"
    and d: "deliver_one (mem_env E) rnd m nw = Some (out, nw')"
  shows "\<exists>h'. follows E N C nw h nw' h' \<and> (\<forall>m \<in> set out. deliverable_mail h' m)"
proof -
  let ?i = "m_to m"
  obtain p res p1 p2 ms n where p: "map_of (nw_peers nw) ?i = Some p" "iface_step (mem_env E) m p = Some (res, p1)"
      "iface_persist (mem_env E) p1 = Some p2"
      and f: "filter_loop rnd (nw\<lparr>nw_peers := amap_set ?i (snd (iface_read_messages p2)) (nw_peers nw)\<rparr>) (nw_draws nw)
        (fst (iface_read_messages p2)) = Some (out, n)"
      and nw': "nw' = nw\<lparr>nw_peers := amap_set ?i (snd (iface_read_messages p2)) (nw_peers nw), nw_draws := n\<rparr>"
    using d by (auto simp: deliver_one_def network_filter_def bind_eq_Some_conv Let_def split_beta)
  show ?thesis
  proof (cases p)
    case None
    then have "p2 = None" using p(2,3) by (auto simp: iface_step_def iface_persist_def)
    then show ?thesis
      using h(2) p(1) None f history_run.start[of "\<lambda>_. mem_env E" mem_view N C h]
      by (intro exI[of _ h]) (auto simp: nw' follows_def mirrors_def iface_read_messages_def)
  next
    case (Some r)
    have i: "?i \<in> N" "r = hi_node h ?i" "posted C h ?i" using mirrors_node[OF h(2)] p(1) Some by auto
    obtain r1 where r1: "p1 = Some r1" "raft_step (mem_env E) m (hi_node h ?i) = Some (res, r1)"
      using p(2) Some i(2) by (auto simp: iface_step_def bind_eq_Some_conv)
    let ?h1 = "history_update ?i r1 h"
    have 1: "leads (\<lambda>_. mem_env E) mem_view N C ?i h ?h1" "posted C ?h1 ?i" using step_leads[OF i(1,3) m refl r1(2)] by auto
    obtain h2 where 2: "leads (\<lambda>_. mem_env E) mem_view N C ?i ?h1 h2" "p2 = Some (hi_node h2 ?i)" "posted C h2 ?i"
      using persist_leads[OF reached_leads[OF h(1) 1(1)] i(1) 1(2), of p2] p(3) r1(1) by auto
    let ?h3 = "history_update ?i (hi_node h2 ?i\<lparr>r_msgs := []\<rparr>) h2"
    have 3: "leads (\<lambda>_. mem_env E) mem_view N C ?i h2 ?h3" "posted C ?h3 ?i"
      using local_leads[OF i(1) 2(3), of "\<lambda>_. mem_env E" Handover] by (auto simp: same_conf_def)
    have l: "leads (\<lambda>_. mem_env E) mem_view N C ?i h ?h3" using 1(1) 2(1) 3(1) by (blast intro: leads_trans)
    have "deliverable_mail ?h3 x" if "x \<in> set out" for x
      using that filter_loop_sub[OF f] 2(2,3) ig by (auto simp: deliverable_mail_def iface_read_messages_def posted_def ignored_def)
    moreover have "mirrors N C nw' ?h3"
      using mirrors_leads[OF h(2) l i(1) 3(2)] 2(2) by (simp add: nw' mirrors_def iface_read_messages_def)
    ultimately have "follows E N C nw h nw' ?h3" "\<forall>m \<in> set out. deliverable_mail ?h3 m"
      using l by (auto simp: follows_def leads_def nw')
    then show ?thesis by blast
  qed
qed

lemma follows_trans:
  "follows E N C nw h nw1 h1 \<Longrightarrow> follows E N C nw1 h1 nw2 h2 \<Longrightarrow> follows E N C nw h nw2 h2"
  by (auto simp: follows_def intro: history_run_trans)

lemma follows_refl: "mirrors N C nw h \<Longrightarrow> follows E N C nw h nw h"
  by (simp add: follows_def history_run.start)

lemma follows_mail: "follows E N C nw h nw' h' \<Longrightarrow> deliverable_mail h m \<Longrightarrow> deliverable_mail h' m"
  by (auto simp: follows_def deliverable_mail_def)

lemma follows_ready:
  assumes "follows E N C nw h nw' h'" "reached E N C h" "ignored nw MsgSnapshot"
  shows "reached E N C h' \<and> mirrors N C nw' h' \<and> ignored nw' MsgSnapshot"
  using assms by (auto simp: follows_def reached_def ignored_def intro: history_run_trans)

lemma send_round_follows:
  assumes "reached E N C h" "mirrors N C nw h" "ignored nw MsgSnapshot" "\<forall>m \<in> set ms. deliverable_mail h m"
    "send_round (mem_env E) rnd ms nw = Some (out, nw')"
  shows "\<exists>h'. follows E N C nw h nw' h' \<and> (\<forall>m \<in> set out. deliverable_mail h' m)"
  using assms
proof (induction ms arbitrary: nw h out)
  case Nil
  then have "follows E N C nw h nw' h" using follows_refl by simp
  then show ?case using Nil by auto
next
  case (Cons m ms)
  obtain o1 nw1 o2 where s: "deliver_one (mem_env E) rnd m nw = Some (o1, nw1)" "send_round (mem_env E) rnd ms nw1 = Some (o2, nw')"
    "out = o1 @ o2" using Cons.prems(5) by (auto simp: bind_eq_Some_conv)
  obtain h1 where h1: "follows E N C nw h nw1 h1" "\<forall>m \<in> set o1. deliverable_mail h1 m"
    using deliver_one_follows[OF Cons.prems(1-3) _ s(1)] Cons.prems(4) by auto
  have "\<forall>m \<in> set ms. deliverable_mail h1 m" using Cons.prems(4) follows_mail[OF h1(1)] by simp
  then obtain h2 where h2: "follows E N C nw1 h1 nw' h2" "\<forall>m \<in> set o2. deliverable_mail h2 m"
    using Cons.IH[of h1 nw1] s(2) follows_ready[OF h1(1) Cons.prems(1,3)] by blast
  show ?case using h1(2) h2 follows_mail[OF h2(1)] s(3) follows_trans[OF h1(1) h2(1)] by auto
qed

lemma network_send_follows:
  assumes "network_send (mem_env E) rnd ms nw = Some nw'"
    "reached E N C h" "mirrors N C nw h" "ignored nw MsgSnapshot" "\<forall>m \<in> set ms. deliverable_mail h m"
  shows "\<exists>h'. follows E N C nw h nw' h'"
proof -
  let ?P = "\<lambda>F rnd ms nw nw'. F = mem_env E \<longrightarrow> (\<forall>h. reached E N C h \<longrightarrow> mirrors N C nw h \<longrightarrow> ignored nw MsgSnapshot \<longrightarrow>
    (\<forall>m \<in> set ms. deliverable_mail h m) \<longrightarrow> (\<exists>h'. follows E N C nw h nw' h'))"
  have "?P (mem_env E) rnd ms nw nw'"
  proof (rule network_send.raw_induct[where P = ?P, OF _ assms(1)], intro impI allI)
    fix f F rnd' ms nw nw' h
    assume IH: "\<And>F rnd ms nw nw'. f F rnd ms nw = Some nw' \<Longrightarrow> ?P F rnd ms nw nw'" and F: "F = mem_env E"
      and s: "(if ms = [] then Some nw else do { (new_msgs, nw1) \<leftarrow> send_round F rnd' ms nw; f F rnd' new_msgs nw1 }) = Some nw'"
      and h: "reached E N C h" "mirrors N C nw h" "ignored nw MsgSnapshot" "\<forall>m \<in> set ms. deliverable_mail h m"
    show "\<exists>h'. follows E N C nw h nw' h'"
    proof (cases "ms = []")
      case False
      then obtain ms1 nw1 where r: "send_round (mem_env E) rnd' ms nw = Some (ms1, nw1)" "f F rnd' ms1 nw1 = Some nw'"
        using s F by (auto simp: bind_eq_Some_conv)
      obtain h1 where h1: "follows E N C nw h nw1 h1" "\<forall>m \<in> set ms1. deliverable_mail h1 m"
        using send_round_follows[OF h r(1)] by blast
      have "\<exists>h'. follows E N C nw1 h1 nw' h'"
        using IH[OF r(2)] F follows_ready[OF h1(1) h(1,3)] h1(2) by blast
      then show ?thesis using follows_trans[OF h1(1)] by blast
    next
      case True
      then have "follows E N C nw h nw' h" using s follows_refl[OF h(2)] by simp
      then show ?thesis by blast
    qed
  qed
  then show ?thesis using assms by blast
qed

section \<open>The other operations\<close>

lemma mirrors_cong: "nw_peers nw' = nw_peers nw \<Longrightarrow> mirrors N C nw' h \<longleftrightarrow> mirrors N C nw h"
  by (simp add: mirrors_def)

lemma network_filter_follows:
  assumes "mirrors N C nw h" "ignored nw MsgSnapshot" "\<forall>m \<in> set ms. m_type m = MsgSnapshot \<or> deliverable_mail h m"
    "network_filter rnd ms nw = Some (ms', nw')"
  shows "follows E N C nw h nw' h" "\<forall>m \<in> set ms'. deliverable_mail h m"
proof -
  show "follows E N C nw h nw' h"
    using assms(1,4) mirrors_cong[of nw' nw N C h]
    by (auto simp: network_filter_def bind_eq_Some_conv follows_def history_run.start)
  have "set ms' \<subseteq> {m \<in> set ms. \<not> ignored nw (m_type m)}"
    using assms(4) by (auto simp: network_filter_def bind_eq_Some_conv dest!: filter_loop_sub)
  then show "\<forall>m \<in> set ms'. deliverable_mail h m" using assms(2,3) by (metis (mono_tags, lifting) CollectD subsetD)
qed

lemma network_filter_and_send_follows:
  assumes h: "reached E N C h" "mirrors N C nw h" "ignored nw MsgSnapshot"
    and m: "\<forall>m \<in> set ms. m_type m = MsgSnapshot \<or> deliverable_mail h m"
    and s: "network_filter_and_send (mem_env E) rnd ms nw = Some nw'"
  shows "\<exists>h'. follows E N C nw h nw' h'"
proof -
  obtain ms1 nw1 where s: "network_filter rnd ms nw = Some (ms1, nw1)" "network_send (mem_env E) rnd ms1 nw1 = Some nw'"
    using s by (auto simp: network_filter_and_send_def bind_eq_Some_conv)
  note f = network_filter_follows(1)[OF h(2,3) m s(1), of E] network_filter_follows(2)[OF h(2,3) m s(1)]
  obtain h' where "follows E N C nw1 h nw' h'"
    using network_send_follows[OF s(2)] follows_ready[OF f(1) h(1,3)] f(2) by blast
  then show ?thesis using follows_trans[OF f(1)] by blast
qed

lemma peer_follows:
  assumes "mirrors N C nw h" "leads (\<lambda>_. mem_env E) mem_view N C i h h'" "i \<in> N" "posted C h' i"
  shows "follows E N C nw h (nw\<lparr>nw_peers := amap_set i (Some (hi_node h' i)) (nw_peers nw)\<rparr>) h'"
  using assms mirrors_leads[OF assms] by (auto simp: follows_def leads_def)

lemma dispatch_loop_follows:
  assumes "reached E N C h" "mirrors N C nw h" "ignored nw MsgSnapshot" "\<forall>m \<in> set ms. deliverable_mail h m"
    "dispatch_loop (mem_env E) ms nw = Some (res, nw')"
  shows "\<exists>h'. follows E N C nw h nw' h'"
  using assms
proof (induction ms arbitrary: nw h)
  case Nil
  then have "follows E N C nw h nw' h" using follows_refl by simp
  then show ?case by blast
next
  case (Cons m ms)
  let ?i = "m_to m"
  obtain p res1 p1 where p: "map_of (nw_peers nw) ?i = Some p" "iface_step (mem_env E) m p = Some (res1, p1)"
    using Cons.prems(5) by (auto simp: bind_eq_Some_conv)
  let ?nw1 = "nw\<lparr>nw_peers := amap_set ?i p1 (nw_peers nw)\<rparr>"
  obtain h1 where h1: "follows E N C nw h ?nw1 h1"
  proof (cases p)
    case None
    then have "mirrors N C ?nw1 h" using Cons.prems(2) p by (auto simp: mirrors_def iface_step_def)
    then have "follows E N C nw h ?nw1 h" by (simp add: follows_def history_run.start)
    then show ?thesis using that by blast
  next
    case (Some r)
    have i: "?i \<in> N" "r = hi_node h ?i" "posted C h ?i" using mirrors_node[OF Cons.prems(2)] p(1) Some by auto
    obtain r1 where r1: "p1 = Some r1" "raft_step (mem_env E) m (hi_node h ?i) = Some (res1, r1)"
      using p(2) Some i(2) by (auto simp: iface_step_def bind_eq_Some_conv)
    let ?h1 = "history_update ?i r1 h"
    have m: "deliverable_mail h m" using Cons.prems(4) by simp
    have "follows E N C nw h (nw\<lparr>nw_peers := amap_set ?i (Some (hi_node ?h1 ?i)) (nw_peers nw)\<rparr>) ?h1"
      using step_leads[OF i(1,3) m refl r1(2)] peer_follows[OF Cons.prems(2) _ i(1)] by blast
    then show ?thesis using that r1(1) by simp
  qed
  have "\<exists>h'. follows E N C ?nw1 h1 nw' h'"
  proof (cases res1)
    case (Inl e)
    then have "nw' = ?nw1" using Cons.prems(5) p by (simp add: Let_def)
    then show ?thesis using h1 follows_refl[of N C ?nw1 h1] by (auto simp: follows_def)
  next
    case (Inr u)
    then have "dispatch_loop (mem_env E) ms ?nw1 = Some (res, nw')" using Cons.prems(5) p by (simp add: Let_def)
    moreover have "\<forall>m \<in> set ms. deliverable_mail h1 m" using Cons.prems(4) follows_mail[OF h1] by simp
    ultimately show ?thesis using Cons.IH[of h1 ?nw1] follows_ready[OF h1 Cons.prems(1,3)] by blast
  qed
  then show ?case using follows_trans[OF h1] by blast
qed

lemma network_dispatch_follows:
  assumes h: "reached E N C h" "mirrors N C nw h" "ignored nw MsgSnapshot"
    and m: "\<forall>m \<in> set ms. m_type m = MsgSnapshot \<or> deliverable_mail h m"
    and s: "network_dispatch (mem_env E) rnd ms nw = Some (res, nw')"
  shows "\<exists>h'. follows E N C nw h nw' h'"
proof -
  obtain ms1 nw1 where s: "network_filter rnd ms nw = Some (ms1, nw1)" "dispatch_loop (mem_env E) ms1 nw1 = Some (res, nw')"
    using s by (auto simp: network_dispatch_def bind_eq_Some_conv)
  note f = network_filter_follows(1)[OF h(2,3) m s(1), of E] network_filter_follows(2)[OF h(2,3) m s(1)]
  obtain h' where "follows E N C nw1 h nw' h'"
    using dispatch_loop_follows[OF _ _ _ f(2) s(2)] follows_ready[OF f(1) h(1,3)] by blast
  then show ?thesis using follows_trans[OF f(1)] by blast
qed

text \<open>Reading all messages is handing them over at one node after the other.\<close>

lemma handover_all:
  assumes "\<forall>i \<in> N. posted C h i"
  shows "\<exists>h'. history_run (\<lambda>_. mem_env E) mem_view N C h h' \<and> cl_net (hi_cluster h) \<subseteq> cl_net (hi_cluster h') \<and> (\<forall>i \<in> N. posted C h' i) \<and>
    (\<forall>i. hi_node h' i = (if i \<in> N \<inter> set is then (hi_node h i)\<lparr>r_msgs := []\<rparr> else hi_node h i))"
proof (induction "is")
  case Nil
  show ?case using assms history_run.start by (intro exI[of _ h]) auto
next
  case (Cons k ks)
  then obtain h1 where h1: "history_run (\<lambda>_. mem_env E) mem_view N C h h1" "cl_net (hi_cluster h) \<subseteq> cl_net (hi_cluster h1)"
    "\<forall>i \<in> N. posted C h1 i" "\<forall>i. hi_node h1 i = (if i \<in> N \<inter> set ks then (hi_node h i)\<lparr>r_msgs := []\<rparr> else hi_node h i)" by blast
  show ?case
  proof (cases "k \<in> N")
    case True
    let ?h2 = "history_update k (hi_node h1 k\<lparr>r_msgs := []\<rparr>) h1"
    have l: "leads (\<lambda>_. mem_env E) mem_view N C k h1 ?h2"
      using local_leads[OF True h1(3)[rule_format, OF True], of "\<lambda>_. mem_env E" Handover] by (auto simp: same_conf_def)
    have "\<forall>i \<in> N. posted C ?h2 i" using h1(3) by (auto simp: posted_def)
    moreover have "\<forall>i. hi_node ?h2 i = (if i \<in> N \<inter> set (k # ks) then (hi_node h i)\<lparr>r_msgs := []\<rparr> else hi_node h i)"
      using h1(4) True by auto
    ultimately show ?thesis using h1(1,2) l by (intro exI[of _ ?h2]) (auto simp: leads_def intro: history_run_trans)
  next
    case False
    then show ?thesis using h1 by (intro exI[of _ h1]) auto
  qed
qed

lemma read_messages_follows:
  assumes m: "mirrors N C nw h" and r: "network_read_messages nw = (ms, nw')"
  shows "\<exists>h'. follows E N C nw h nw' h' \<and> (\<forall>m \<in> set ms. m_type m = MsgSnapshot \<or> deliverable_mail h' m)"
proof -
  have p: "\<forall>i \<in> N. posted C h i" and d: "amap_wf (nw_peers nw)" using m by (simp_all add: mirrors_def)
  obtain h' where h': "history_run (\<lambda>_. mem_env E) mem_view N C h h'" "cl_net (hi_cluster h) \<subseteq> cl_net (hi_cluster h')"
    "\<forall>i \<in> N. posted C h' i" "\<forall>i. hi_node h' i = (if i \<in> N \<inter> set (map fst (nw_peers nw)) then (hi_node h i)\<lparr>r_msgs := []\<rparr> else hi_node h i)"
    using handover_all[OF p, of E "map fst (nw_peers nw)"] by blast
  have nw': "nw_peers nw' = map (\<lambda>(i, p). (i, snd (iface_read_messages p))) (nw_peers nw)" "nw_ignorem nw' = nw_ignorem nw"
    and ms: "ms = concat (map (\<lambda>(_, p). fst (iface_read_messages p)) (nw_peers nw))"
    using r by (auto simp: network_read_messages_def)
  have mo: "map_of (nw_peers nw') i = map_option (\<lambda>p. snd (iface_read_messages p)) (map_of (nw_peers nw) i)" for i
    unfolding nw'(1) by (induction "nw_peers nw") (auto simp: map_of_map)
  have "i \<in> set (map fst (nw_peers nw))" if "i \<in> N" for i
    using m that by (force simp: mirrors_def dest: map_of_SomeD)
  moreover have "amap_wf (nw_peers nw')" using d by (simp add: nw'(1) split_beta comp_def)
  ultimately have "mirrors N C nw' h'"
    using m h' by (auto simp: mirrors_def mo iface_read_messages_def simp del: map_of_eq_Some_iff split: option.splits)
  then have f: "follows E N C nw h nw' h'" using h' nw'(2) by (simp add: follows_def)
  have "m_type x = MsgSnapshot \<or> deliverable_mail h' x" if x: "x \<in> set ms" for x
  proof -
    obtain i r where "(i, Some r) \<in> set (nw_peers nw)" "x \<in> set (r_msgs r)"
      using x by (force simp: ms iface_read_messages_def split: option.splits)
    then have "map_of (nw_peers nw) i = Some (Some r)" using d by simp
    then have "i \<in> N" "r = hi_node h i" using mirrors_node[OF m] by auto
    then have "x \<in> cl_net (hi_cluster h')" using p h'(2) \<open>x \<in> set (r_msgs r)\<close> by (auto simp: posted_def)
    then show ?thesis by (simp add: deliverable_mail_def)
  qed
  then show ?thesis using f by blast
qed

end
