(* ===== verification/Node_Start.thy ===== *)
theory Node_Start
  imports Node_Elections
begin

text \<open>
  Starting a node: \<open>Raft::new\<close> over a storage that keeps its contract, with the restored membership and
  the stored hard state.
\<close>

lemma conf_state_eq_refl: "conf_state_eq x x"
  by (simp add: conf_state_eq_def)

text \<open>The committed index a node starts with: the stored one, or the position before the stored entries.\<close>

definition start_commit :: "'s store_view \<Rightarrow> 's \<Rightarrow> hard_state \<Rightarrow> nat" where
  "start_commit W store hs = (if hs = hard_state_default then sv_base W store else hs_commit hs)"

text \<open>
  What \<open>Raft::new\<close> may be called on: a valid configuration, a sound storage with the state of a
  well-formed membership, and a commit and an applied position inside the stored log.
\<close>

definition startable :: "'s env \<Rightarrow> 's store_view \<Rightarrow> config \<Rightarrow> 's \<Rightarrow> hard_state \<Rightarrow> configuration \<Rightarrow> bool" where
  "startable E W c store hs cfg \<longleftrightarrow> config_validate c = Inr () \<and> sv_ok W store \<and>
     st_initial_state E store = Inr \<lparr>rs_hard_state = hs, rs_conf_state = to_conf_state cfg\<rparr> \<and>
     conf_ok cfg \<and> 0 \<notin> conf_members cfg \<and> incoming (conf_voters cfg) \<noteq> {} \<and>
     sv_base W store \<le> start_commit W store hs \<and>
     start_commit W store hs \<le> sv_base W store + length (sv_ents W store) \<and>
     (c_applied c = 0 \<or> sv_base W store \<le> c_applied c \<and> c_applied c \<le> start_commit W store hs)"

context log_storage
begin

lemma raft_log_new_eq:
  assumes "sv_ok W store"
  shows "raft_log_new E store = Some \<lparr>rl_store = store,
    rl_unstable = unstable_new (sv_base W store + length (sv_ents W store) + 1), rl_committed = sv_base W store,
    rl_persisted = sv_base W store + length (sv_ents W store), rl_applied = sv_base W store\<rparr>"
  using first_index[OF assms] last_index[OF assms] by (simp add: raft_log_new_def unwrap_def usub_def)

lemma fresh_log_wf:
  assumes "sv_ok W store" "sv_base W store \<le> com" "com \<le> sv_base W store + length (sv_ents W store)"
    "app \<le> com"
  shows "log_wf W \<lparr>rl_store = store, rl_unstable = unstable_new (sv_base W store + length (sv_ents W store) + 1),
    rl_committed = com, rl_persisted = sv_base W store + length (sv_ents W store), rl_applied = app\<rparr>"
  using assms by (simp add: log_wf_def log_base_def log_last_def log_ents_def log_stable_def unstable_new_def
      unstable_sized_def)

lemma become_follower_tracker:
  assumes "log_wf W (r_raft_log r)" "r_min_election_timeout r < r_max_election_timeout r" "tracker_ok (r_prs r)"
  shows "\<exists>r'. become_follower E t l r = Some r' \<and> renews E t r r' \<and> r_state r' = Follower \<and> r_leader_id r' = l \<and>
    tracker_ok (r_prs r') \<and> r_promotable r' = r_promotable r"
proof -
  obtain r' where r': "become_follower E t l r = Some r'" "renews E t r r'" "r_state r' = Follower" "r_leader_id r' = l"
    using become_follower_eq[OF assms(1,2)] by blast
  have "outcome (\<lambda>r'. map fst (pt_progress (r_prs r')) = map fst (pt_progress (r_prs r)) \<and> r_promotable r' = r_promotable r)
      (become_follower E t l r)"
    unfolding become_follower_def raft_reset_def reset_randomized_election_timeout_def abort_leader_transfer_def Let_def
    by (intro vcg outcome_any) (auto simp: reset_votes_def)
  then have "map fst (pt_progress (r_prs r')) = map fst (pt_progress (r_prs r))" "r_promotable r' = r_promotable r"
    using outcomeD[OF _ r'(1)] by auto
  moreover have "pt_conf (r_prs r') = pt_conf (r_prs r)" using r'(2) by (simp add: renews_def)
  ultimately show ?thesis
    using r' assms(3) unfolding tracker_ok_def by (metis list.set_map)
qed

lemma raft_start_tail:
  assumes r: "r_state r = Follower" "r_raft_log r = lg" "r_term r = 0" "r_vote r = 0"
      "r_min_election_timeout r < r_max_election_timeout r"
    and t: "tracker_ok t" and lg: "lg = \<lparr>rl_store = store,
      rl_unstable = unstable_new (sv_base W store + length (sv_ents W store) + 1), rl_committed = sv_base W store,
      rl_persisted = sv_base W store + length (sv_ents W store), rl_applied = sv_base W store\<rparr>"
    and ok: "sv_ok W store" and com: "sv_base W store \<le> start_commit W store hs"
      "start_commit W store hs \<le> sv_base W store + length (sv_ents W store)"
    and app: "app = 0 \<or> sv_base W store \<le> app \<and> app \<le> start_commit W store hs"
  shows "\<exists>r'. do {
      (new_cs, r1) \<leftarrow> post_conf_change E (r\<lparr>r_prs := t\<rparr>);
      ensure (conf_state_eq new_cs (to_conf_state (pt_conf t)));
      r2 \<leftarrow> (if hs \<noteq> hard_state_default then load_state E hs r1 else Some r1);
      r3 \<leftarrow> (if app > 0 then raft_commit_apply E app r2 else Some r2);
      r4 \<leftarrow> become_follower E (r_term r3) INVALID_ID r3;
      Some (Inr r4) } = Some (Inr r') \<and> r_id r' = r_id r \<and> r_state r' = Follower \<and> r_leader_id r' = INVALID_ID \<and>
    r_term r' = hs_term hs \<and> r_vote r' = hs_vote hs \<and> log_wf W (r_raft_log r') \<and> rl_store (r_raft_log r') = store \<and>
    rl_unstable (r_raft_log r') = rl_unstable lg \<and>
    rl_committed (r_raft_log r') = start_commit W store hs \<and> tracker_ok (r_prs r') \<and>
    pt_conf (r_prs r') = pt_conf t \<and> (r_promotable r' \<longleftrightarrow> joint_contains (conf_voters (pt_conf t)) (r_id r))"
proof -
  let ?l = "sv_base W store + length (sv_ents W store)"
  have wf0: "log_wf W lg" unfolding lg using fresh_log_wf[OF ok] by simp
  have last: "log_last W lg = ?l"
    by (simp add: lg log_last_def log_base_def log_ents_def log_stable_def unstable_new_def)
  let ?r1 = "r\<lparr>r_prs := t, r_promotable := joint_contains (conf_voters (pt_conf t)) (r_id r)\<rparr>"
  let ?r2 = "?r1\<lparr>r_raft_log := lg\<lparr>rl_committed := start_commit W store hs\<rparr>, r_term := hs_term hs, r_vote := hs_vote hs\<rparr>"
  let ?r3 = "?r2\<lparr>r_raft_log := lg\<lparr>rl_committed := start_commit W store hs,
      rl_applied := if app = 0 then sv_base W store else app\<rparr>\<rparr>"
  have 1: "post_conf_change E (r\<lparr>r_prs := t\<rparr>) = Some (to_conf_state (pt_conf t), ?r1)"
    using r(1) by (simp add: post_conf_change_def Let_def)
  have 2: "(if hs \<noteq> hard_state_default then load_state E hs ?r1 else Some ?r1) = Some ?r2"
  proof (cases "hs = hard_state_default")
    case True
    then show ?thesis using r by (cases r) (simp add: start_commit_def lg hard_state_default_def)
  next
    case False
    then show ?thesis
      using com r(2) by (simp add: load_state_def rl_last_index_eq[OF wf0] last start_commit_def) (simp add: lg)
  qed
  have 3: "(if app > 0 then raft_commit_apply E app ?r2 else Some ?r2) = Some ?r3"
    using app com r(1) by (auto simp: raft_commit_apply_def rl_applied_to_def lg Let_def)
  have "log_wf W (r_raft_log ?r3)"
    using fresh_log_wf[OF ok com, of "if app = 0 then sv_base W store else app"] app com(1)
    by (cases "app = 0") (simp_all add: lg)
  then obtain r' where 4: "become_follower E (r_term ?r3) INVALID_ID ?r3 = Some r'" "renews E (r_term ?r3) ?r3 r'"
    "r_state r' = Follower" "r_leader_id r' = INVALID_ID" "tracker_ok (r_prs r')" "r_promotable r' = r_promotable ?r3"
    using become_follower_tracker[of ?r3 "r_term ?r3" INVALID_ID] r(5) t by auto
  show ?thesis
    unfolding 1 bind.bind_lunit prod.case 2 3 4
    using 4(2-6) \<open>log_wf W (r_raft_log ?r3)\<close>
    by (auto simp: conf_state_eq_refl renews_def steady_def lg)
qed

end

lemma raft_new_built:
  assumes env: "log_storage E W" and s: "startable E W c store hs cfg"
  shows "\<exists>r. raft_new E c store = Some (Inr r) \<and> r_id r = c_id c \<and> r_state r = Follower \<and> r_leader_id r = INVALID_ID \<and>
    r_term r = hs_term hs \<and> r_vote r = hs_vote hs \<and> log_wf W (r_raft_log r) \<and> rl_store (r_raft_log r) = store \<and>
    rl_unstable (r_raft_log r) = unstable_new (sv_base W store + length (sv_ents W store) + 1) \<and>
    rl_committed (r_raft_log r) = start_commit W store hs \<and> tracker_ok (r_prs r) \<and> pt_conf (r_prs r) = cfg \<and>
    (r_promotable r \<longleftrightarrow> joint_contains (conf_voters cfg) (c_id c))"
proof -
  have ok: "sv_ok W store" and cfg: "conf_ok cfg" "0 \<notin> conf_members cfg" "incoming (conf_voters cfg) \<noteq> {}"
    and com: "sv_base W store \<le> start_commit W store hs"
      "start_commit W store hs \<le> sv_base W store + length (sv_ents W store)"
    and app: "c_applied c = 0 \<or> sv_base W store \<le> c_applied c \<and> c_applied c \<le> start_commit W store hs"
    and val: "config_validate c = Inr ()" and init: "st_initial_state E store =
        Inr \<lparr>rs_hard_state = hs, rs_conf_state = to_conf_state cfg\<rparr>"
    using s by (auto simp: startable_def)
  have mm: "min_election_tick c < max_election_tick c"
    using val by (auto simp: config_validate_def Let_def split: if_splits)
  define lg where "lg = \<lparr>rl_store = store, rl_unstable = unstable_new (sv_base W store + length (sv_ents W store) + 1),
     rl_committed = sv_base W store, rl_persisted = sv_base W store + length (sv_ents W store), rl_applied = sv_base W store\<rparr>"
  have "rl_last_index E lg = Some (sv_base W store + length (sv_ents W store))"
    using log_storage.last_index[OF env ok] by (simp add: lg_def rl_last_index_def maybe_last_index_def unstable_new_def unwrap_def)
  moreover obtain t where t: "confchange_restore (tracker_new (c_max_inflight_msgs c))
      (sv_base W store + length (sv_ents W store)) (to_conf_state cfg) = (Inr (), t)" "pt_conf t = cfg" "tracker_ok t"
    using restore_not_joint[OF cfg] restore_joint[OF cfg] by (cases "joint cfg") blast+
  moreover note log_storage.raft_log_new_eq[OF env ok, folded lg_def]
  ultimately have parts: "rl_last_index E lg = Some (sv_base W store + length (sv_ents W store))"
    "raft_log_new E store = Some lg" by blast+
  define r0 where "r0 = \<lparr>r_term = 0, r_vote = 0, r_id = c_id c, r_read_states = [], r_raft_log = lg,
                r_max_inflight = c_max_inflight_msgs c, r_max_msg_size = c_max_size_per_msg c,
                r_pending_request_snapshot = INVALID_INDEX, r_state = Follower,
                r_promotable = False, r_leader_id = 0, r_lead_transferee = None,
                r_pending_conf_index = 0, r_read_only = read_only_new (c_read_only_option c),
                r_election_elapsed = 0, r_heartbeat_elapsed = 0,
                r_check_quorum = c_check_quorum c, r_pre_vote = c_pre_vote c,
                r_skip_bcast_commit = c_skip_bcast_commit c, r_batch_append = c_batch_append c,
                r_heartbeat_timeout = c_heartbeat_tick c, r_election_timeout = c_election_tick c,
                r_randomized_election_timeout = 0,
                r_min_election_timeout = min_election_tick c,
                r_max_election_timeout = max_election_tick c, r_priority = c_priority c,
                r_uncommitted_state = \<lparr>us_max_uncommitted_size = c_max_uncommitted_size c,
                  us_uncommitted_size = 0, us_last_log_tail_index = 0\<rparr>,
                r_max_committed_size_per_ready = c_max_committed_size_per_ready c,
                r_prs = tracker_new (c_max_inflight_msgs c), r_msgs = [], r_draws = 0\<rparr>"
  have "raft_new E c store = do {
      (new_cs, r1) \<leftarrow> post_conf_change E (r0\<lparr>r_prs := t\<rparr>);
      ensure (conf_state_eq new_cs (to_conf_state (pt_conf t)));
      r2 \<leftarrow> (if hs \<noteq> hard_state_default then load_state E hs r1 else Some r1);
      r3 \<leftarrow> (if c_applied c > 0 then raft_commit_apply E (c_applied c) r2 else Some r2);
      r4 \<leftarrow> become_follower E (r_term r3) INVALID_ID r3;
      Some (Inr r4) }"
    using val init t(1) parts by (simp add: raft_new_def t(2) Let_def r0_def cong: if_cong)
  then show ?thesis
    using log_storage.raft_start_tail[OF env _ _ _ _ _ t(3) lg_def ok com app, of r0] mm
    by (simp add: r0_def t(2) lg_def)
qed

text \<open>
  C19. \<open>Raft::new\<close> does not panic or fail on a valid configuration and a sound storage, and builds a
  well-typed node: a follower without a leader, with the stored term, vote and committed index, a
  well-formed log over the given storage, and a well-formed tracker with exactly the stored membership;
  it is promotable exactly if it is a voter.
\<close>

theorem raft_new_starts:
  assumes env: "log_storage E W" and s: "startable E W c store hs cfg"
  shows "\<exists>r. raft_new E c store = Some (Inr r) \<and> r_id r = c_id c \<and> r_state r = Follower \<and> r_leader_id r = INVALID_ID \<and>
    r_term r = hs_term hs \<and> r_vote r = hs_vote hs \<and> log_wf W (r_raft_log r) \<and> rl_store (r_raft_log r) = store \<and>
    rl_committed (r_raft_log r) = start_commit W store hs \<and> tracker_ok (r_prs r) \<and> pt_conf (r_prs r) = cfg \<and>
    (r_promotable r \<longleftrightarrow> joint_contains (conf_voters cfg) (c_id c))"
  using raft_new_built[OF assms] by blast

definition sample_membership :: configuration where
  "sample_membership = configuration_new [2, 3, 4] []"

lemma sample_startable:
  "\<exists>s. voter_store [2, 3, 4] = Some s \<and> startable sample_env mem_view (sample_config 3) s hard_state_default sample_membership"
proof -
  have "(case voter_store [2, 3, 4] of None \<Rightarrow> False | Some s \<Rightarrow> config_validate (sample_config 3) = Inr () \<and> mem_ok s \<and>
     st_initial_state sample_env s = Inr \<lparr>rs_hard_state = hard_state_default, rs_conf_state = to_conf_state sample_membership\<rparr>
     \<and> start_commit mem_view s hard_state_default = mem_base s \<and> c_applied (sample_config 3) = 0)"
    by code_simp
  moreover have "conf_ok sample_membership" "0 \<notin> conf_members sample_membership"
    "incoming (conf_voters sample_membership) \<noteq> {}"
    by (auto simp: sample_membership_def configuration_new_def joint_new_def conf_ok_def conf_roles_ok_def conf_members_def
        joint_def)
  ultimately show ?thesis by (auto simp: startable_def split: option.splits)
qed

theorem raft_new_starts_witness:
  "\<exists>s r. voter_store [2, 3, 4] = Some s \<and> raft_new sample_env (sample_config 3) s = Some (Inr r) \<and> r_state r = Follower \<and>
     log_wf mem_view (r_raft_log r) \<and> tracker_ok (r_prs r) \<and> pt_conf (r_prs r) = sample_membership"
proof -
  obtain s where s: "voter_store [2, 3, 4] = Some s"
    "startable sample_env mem_view (sample_config 3) s hard_state_default sample_membership"
    using sample_startable by blast
  show ?thesis using s(1) raft_new_starts[OF sample_env_storage s(2)] by blast
qed

end
