(* ===== verification/Network_Tests.thy ===== *)
theory Network_Tests
  imports Network_Runs Node_Start
begin

text \<open>The runs of a test on a \<open>Network\<close>, and the cluster they are runs of.\<close>

section \<open>Runs of a test\<close>

text \<open>
  What a test does with a network: it sends and dispatches messages of its own, forwards what the nodes have to send, lets a node tick
  or persist, and sets up the faults. Its own messages are not append messages, snapshots or granted votes. Snapshots are ignored.
\<close>

definition injected :: "message \<Rightarrow> bool" where
  "injected m \<longleftrightarrow> m_type m \<noteq> MsgAppend \<and> m_type m \<noteq> MsgSnapshot \<and> \<not> is_grant m"

inductive test_step :: "mem_storage env \<Rightarrow> (nat \<Rightarrow> rat) \<Rightarrow> network \<Rightarrow> network \<Rightarrow> bool" for E rnd where
  send: "\<lbrakk>\<forall>m \<in> set ms. injected m; network_send E rnd ms nw = Some nw'\<rbrakk> \<Longrightarrow> test_step E rnd nw nw'"
| filter_and_send: "\<lbrakk>\<forall>m \<in> set ms. injected m; network_filter_and_send E rnd ms nw = Some nw'\<rbrakk> \<Longrightarrow> test_step E rnd nw nw'"
| dispatch: "\<lbrakk>\<forall>m \<in> set ms. injected m; network_dispatch E rnd ms nw = Some (res, nw')\<rbrakk> \<Longrightarrow> test_step E rnd nw nw'"
| forward: "\<lbrakk>network_read_messages nw = (ms, nw1); network_filter_and_send E rnd ms nw1 = Some nw'\<rbrakk> \<Longrightarrow> test_step E rnd nw nw'"
| tick: "\<lbrakk>map_of (nw_peers nw) i = Some (Some r); raft_tick E r = Some (b, r')\<rbrakk>
    \<Longrightarrow> test_step E rnd nw (nw\<lparr>nw_peers := amap_set i (Some r') (nw_peers nw)\<rparr>)"
| persist: "\<lbrakk>map_of (nw_peers nw) i = Some (Some r); iface_persist E (Some r) = Some p\<rbrakk>
    \<Longrightarrow> test_step E rnd nw (nw\<lparr>nw_peers := amap_set i p (nw_peers nw)\<rparr>)"
| drop: "test_step E rnd nw (network_drop from to perc nw)"
| cut: "test_step E rnd nw (network_cut one other nw)"
| isolate: "test_step E rnd nw (network_isolate i nw)"
| ignore: "test_step E rnd nw (network_ignore t nw)"
| recover: "test_step E rnd nw (network_ignore MsgSnapshot (network_recover nw))"

inductive test_run :: "mem_storage env \<Rightarrow> (nat \<Rightarrow> rat) \<Rightarrow> network \<Rightarrow> network \<Rightarrow> bool" for E rnd where
  start: "test_run E rnd nw nw"
| step: "test_run E rnd nw nw1 \<Longrightarrow> test_step E rnd nw1 nw2 \<Longrightarrow> test_run E rnd nw nw2"

lemma injected_mail: "injected m \<Longrightarrow> deliverable_mail h m"
  by (simp add: injected_def deliverable_mail_def)

lemma step_ignore_conf:
  assumes "m_type m \<noteq> MsgSnapshot" "\<And>r'. same_conf r r' \<Longrightarrow> Q r'"
  shows "outcome Q (step_ignore E m r)"
  unfolding step_ignore_def by (intro vcg outcome_conseq[OF raft_step_conf]) (use assms in auto)

lemma raft_tick_conf: "outcome (\<lambda>(b, r'). same_conf r r') (raft_tick E r)"
proof -
  have "outcome (\<lambda>(b, r'). same_conf r r') (tick_election E r)"
    unfolding tick_election_def Let_def by (intro vcg step_ignore_conf) (auto simp: same_conf_def)
  moreover have "outcome (\<lambda>(b, r'). same_conf r r') (tick_heartbeat E r)"
    unfolding tick_heartbeat_def Let_def
    by (intro vcg step_ignore_conf) (auto simp: same_conf_def abort_leader_transfer_def)
  ultimately show ?thesis unfolding raft_tick_def by (cases "r_state r") simp_all
qed

lemma network_drop_sel [simp]:
  "nw_peers (network_drop f t p nw) = nw_peers nw" "nw_ignorem (network_drop f t p nw) = nw_ignorem nw"
  by (simp_all add: network_drop_def)

lemma network_isolate_sel [simp]:
  "nw_peers (network_isolate i nw) = nw_peers nw" "nw_ignorem (network_isolate i nw) = nw_ignorem nw"
proof -
  have "nw_peers (fold (\<lambda>k nw. let nid = k + 1 in if nid \<noteq> i then network_drop nid i 1 (network_drop i nid 1 nw) else nw) ks nw) = nw_peers nw \<and>
    nw_ignorem (fold (\<lambda>k nw. let nid = k + 1 in if nid \<noteq> i then network_drop nid i 1 (network_drop i nid 1 nw) else nw) ks nw) = nw_ignorem nw" for ks
    by (induction ks arbitrary: nw) (auto simp: Let_def)
  then show "nw_peers (network_isolate i nw) = nw_peers nw" "nw_ignorem (network_isolate i nw) = nw_ignorem nw"
    by (simp_all add: network_isolate_def)
qed

section \<open>Every run of a test is a run of a cluster\<close>

text \<open>What the states of a test have in common.\<close>

definition tested :: "mem_storage env \<Rightarrow> nat set \<Rightarrow> joint_config \<Rightarrow> network \<Rightarrow> mem_storage history \<Rightarrow> bool" where
  "tested E N C nw h \<longleftrightarrow> reached E N C h \<and> mirrors N C nw h \<and> ignored nw MsgSnapshot"

lemma follows_tested: "tested E N C nw h \<Longrightarrow> follows E N C nw h nw' h' \<Longrightarrow> tested E N C nw' h'"
  using follows_ready by (auto simp: tested_def)

lemma quiet_tested:
  assumes "tested E N C nw h" "nw_peers nw' = nw_peers nw" "ignored nw' MsgSnapshot"
  shows "tested E N C nw' h"
  using assms mirrors_cong[OF assms(2)] by (auto simp: tested_def)

lemma peer_tested:
  assumes t: "tested E N C nw h" and p: "map_of (nw_peers nw) i = Some (Some r)"
    and l: "i \<in> N \<Longrightarrow> r = hi_node h i \<Longrightarrow> posted C h i \<Longrightarrow>
      \<exists>h'. leads (\<lambda>_. mem_env E) mem_view N C i h h' \<and> hi_node h' i = r' \<and> posted C h' i"
  shows "\<exists>h'. history_run (\<lambda>_. mem_env E) mem_view N C h h' \<and> tested E N C (nw\<lparr>nw_peers := amap_set i (Some r') (nw_peers nw)\<rparr>) h'"
proof -
  have m: "mirrors N C nw h" using t by (simp add: tested_def)
  then have i: "i \<in> N" "r = hi_node h i" "posted C h i" using p mirrors_node by auto
  then obtain h' where h': "leads (\<lambda>_. mem_env E) mem_view N C i h h'" "hi_node h' i = r'" "posted C h' i" using l by blast
  have "follows E N C nw h (nw\<lparr>nw_peers := amap_set i (Some r') (nw_peers nw)\<rparr>) h'"
    using peer_follows[OF m h'(1) i(1) h'(3)] h'(2) by simp
  then show ?thesis using follows_tested[OF t] h'(1) by (auto simp: leads_def)
qed

lemma test_step_runs:
  assumes t: "tested E N C nw h" and s: "test_step (mem_env E) rnd nw nw'"
  shows "\<exists>h'. history_run (\<lambda>_. mem_env E) mem_view N C h h' \<and> tested E N C nw' h'"
proof -
  have r: "reached E N C h" "mirrors N C nw h" "ignored nw MsgSnapshot" using t by (simp_all add: tested_def)
  have f: "\<exists>h'. history_run (\<lambda>_. mem_env E) mem_view N C h h' \<and> tested E N C nw' h'" if "\<exists>h'. follows E N C nw h nw' h'"
    using that follows_tested[OF t] by (auto simp: follows_def)
  have q: "\<exists>h'. history_run (\<lambda>_. mem_env E) mem_view N C h h' \<and> tested E N C nw1 h'"
    if "nw_peers nw1 = nw_peers nw" "ignored nw1 MsgSnapshot" for nw1
    using quiet_tested[OF t that] history_run.start by blast
  have inj: "\<forall>m \<in> set ms. deliverable_mail h m" "\<forall>m \<in> set ms. m_type m = MsgSnapshot \<or> deliverable_mail h m"
    if "\<forall>m \<in> set ms. injected m" for ms
    using that injected_mail by blast+
  from s show ?thesis
  proof cases
    case (send ms)
    then show ?thesis using f network_send_follows[OF send(2) r inj(1)[OF send(1)]] by blast
  next
    case (filter_and_send ms)
    then show ?thesis using f network_filter_and_send_follows[OF r inj(2)] by blast
  next
    case (dispatch ms res)
    then show ?thesis using f network_dispatch_follows[OF r inj(2)] by blast
  next
    case (forward ms nw1)
    obtain h1 where h1: "follows E N C nw h nw1 h1" "\<forall>m \<in> set ms. m_type m = MsgSnapshot \<or> deliverable_mail h1 m"
      using read_messages_follows[OF r(2) forward(1)] by blast
    then obtain h2 where "follows E N C nw1 h1 nw' h2"
      using network_filter_and_send_follows[OF _ _ _ h1(2) forward(2)] follows_ready[OF h1(1) r(1,3)] by blast
    then show ?thesis using f follows_trans[OF h1(1)] by blast
  next
    case (tick i u b r')
    have "same_conf u r'" using outcomeD[OF raft_tick_conf tick(3)] by simp
    then show ?thesis
      unfolding tick(1) using tick(3) local_leads[where inp = Clock and i = i and h = h and r = r' and E = "\<lambda>_. mem_env E"]
      by (intro peer_tested[OF t tick(2)] exI[of _ "history_update i r' h"]) auto
  next
    case (persist i u p)
    obtain r' where p: "p = Some r'" using persist(3) by (auto simp: iface_persist_def bind_eq_Some_conv)
    show ?thesis
      unfolding persist(1) p
    proof (rule peer_tested[OF t persist(2)])
      assume i: "i \<in> N" "u = hi_node h i" "posted C h i"
      show "\<exists>h'. leads (\<lambda>_. mem_env E) mem_view N C i h h' \<and> hi_node h' i = r' \<and> posted C h' i"
        using persist_leads[OF r(1) i(1,3)] persist(3) i(2) p by blast
    qed
  qed (use r(3) in \<open>auto intro!: q simp: network_cut_def network_ignore_def network_recover_def ignored_def\<close>)
qed

lemma test_run_runs:
  assumes "test_run (mem_env E) rnd nw nw'" "tested E N C nw h"
  shows "\<exists>h'. history_run (\<lambda>_. mem_env E) mem_view N C h h' \<and> tested E N C nw' h'"
  using assms
proof (induction rule: test_run.induct)
  case (start nw)
  then show ?case using history_run.start by blast
next
  case (step nw nw1 nw2)
  then obtain h1 where h1: "history_run (\<lambda>_. mem_env E) mem_view N C h h1" "tested E N C nw1 h1" by blast
  then show ?case using test_step_runs[OF h1(2) step(2)] history_run_trans by blast
qed

end
