(* ===== verification/Network_Safety.thy ===== *)
theory Network_Safety
  imports Network_Tests
begin

text \<open>
  The networks that \<open>Network::new_with_config\<close> builds are starts of the cluster model, so that what holds in every run of a cluster holds
  in every test.
\<close>

section \<open>The start of a test\<close>

text \<open>A peer that the network builds itself.\<close>

definition fresh_peer :: "joint_config \<Rightarrow> nat \<Rightarrow> mem_storage raft \<Rightarrow> bool" where
  "fresh_peer C i r \<longleftrightarrow> r_id r = i \<and> r_state r = Follower \<and> grants (r_msgs r) = {} \<and> appends (r_msgs r) = {} \<and>
     \<not> r_batch_append r \<and> log_wf mem_view (r_raft_log r) \<and> log_ents mem_view (r_raft_log r) = [] \<and> conf_voters (pt_conf (r_prs r)) = C"

text \<open>What a test has to set up: a valid configuration that does not batch append messages and claims nothing as applied.\<close>

definition test_config :: "config \<Rightarrow> bool" where
  "test_config c \<longleftrightarrow> config_validate (c\<lparr>c_id := 1\<rparr>) = Inr () \<and> \<not> c_batch_append c \<and> c_applied c = 0"

lemma test_config_id:
  assumes "test_config c" "i \<noteq> 0"
  shows "config_validate (c\<lparr>c_id := i\<rparr>) = Inr ()"
  using assms
  by (auto simp: test_config_def config_validate_def INVALID_ID_def min_election_tick_def max_election_tick_def Let_def split: if_splits)

lemma default_test_config: "test_config network_default_config"
  by (code_simp)

lemma fresh_peer_built:
  assumes c: "test_config c" and i: "i \<noteq> 0" and vs: "sorted vs" "distinct vs" "vs \<noteq> []" "0 \<notin> set vs"
  shows "\<exists>s r. mem_new_with_conf_state (conf_state_from vs []) = Some s \<and> raft_new (mem_env E) (c\<lparr>c_id := i\<rparr>) s = Some (Inr r) \<and>
    fresh_peer (joint_new (set vs)) i r"
proof -
  let ?cs = "conf_state_from vs []" and ?cfg = "configuration_new vs []" and ?c = "c\<lparr>c_id := i\<rparr>"
  define s where "s = mem_set_conf_state ?cs mem_storage_new"
  have s: "mem_new_with_conf_state ?cs = Some s"
    by (simp add: s_def mem_new_with_conf_state_def mem_initialize_with_conf_state_def mem_initial_state_def mem_storage_new_def
        raft_state_initialized_def raft_state_default_def unwrap_def)
  have base: "mem_base s = 0" "ms_entries s = []" "mem_ok s"
    by (simp_all add: s_def mem_set_conf_state_def mem_storage_new_def mem_base_def mem_first_index_def mem_ok_def numbered_def
        snapshot_metadata_default_def)
  have cs: "?cs = to_conf_state ?cfg"
    using sorted_list_of_set.idem_if_sorted_distinct[OF vs(1,2)]
    by (simp add: conf_state_from_def to_conf_state_def configuration_new_def joint_new_def majority_raw_slice_def conf_state_default_def)
  have cfg: "conf_ok ?cfg" "0 \<notin> conf_members ?cfg" "incoming (conf_voters ?cfg) \<noteq> {}" "conf_voters ?cfg = joint_new (set vs)"
    using vs(3,4) by (auto simp: configuration_new_def joint_new_def conf_ok_def conf_roles_ok_def conf_members_def joint_def)
  have ini: "st_initial_state (mem_env E) s = Inr \<lparr>rs_hard_state = hard_state_default, rs_conf_state = to_conf_state ?cfg\<rparr>"
    by (simp add: s_def mem_env_def mem_initial_state_def mem_set_conf_state_def mem_storage_new_def raft_state_default_def cs[symmetric])
  have st: "startable (mem_env E) mem_view ?c s hard_state_default ?cfg"
    using test_config_id[OF c i] c base cfg ini by (simp add: startable_def start_commit_def test_config_def)
  obtain r where r: "raft_new (mem_env E) ?c s = Some (Inr r)" "r_id r = i" "r_state r = Follower" "log_wf mem_view (r_raft_log r)"
      "rl_store (r_raft_log r) = s" "rl_unstable (r_raft_log r) = unstable_new 1" "pt_conf (r_prs r) = ?cfg"
    using raft_new_built[OF mem.log_storage_axioms st] base by auto
  have "grants (r_msgs r) = {}" using outcomeD[OF raft_new_frame[OF ini] r(1)] by (simp add: restarted_def)
  moreover have "\<not> r_batch_append r \<and> appends (r_msgs r) = {}"
    using outcomeD[OF raft_new_still r(1)] c by (simp add: test_config_def)
  moreover have "log_ents mem_view (r_raft_log r) = []" using r(5,6) base by (simp add: log_ents_def log_stable_def unstable_new_def)
  ultimately show ?thesis using s r cfg(4) by (auto simp: fresh_peer_def)
qed

text \<open>The peers of a test that are nodes, and the peers that the network is to make.\<close>

definition test_nodes :: "interface option list \<Rightarrow> nat set" where
  "test_nodes ps = {i. 0 < i \<and> i \<le> length ps \<and> ps ! (i - 1) = None}"

lemma network_peers_built:
  assumes c: "test_config c" and vs: "sorted vs" "distinct vs" "vs \<noteq> []" "0 \<notin> set vs"
    and ps: "\<forall>(p, i) \<in> set ps. i \<noteq> 0 \<and> (p = None \<or> p = Some None)"
  shows "\<exists>m. network_peers (mem_env E) c vs ps = Some m \<and> map fst m = map snd ps \<and>
    list_all2 (\<lambda>(p, i) (j, q). case p of None \<Rightarrow> \<exists>r. q = Some r \<and> fresh_peer (joint_new (set vs)) i r | Some _ \<Rightarrow> q = None) ps m"
  using ps
proof (induction ps)
  case (Cons a ps)
  obtain p i where a: "a = (p, i)" by (cases a)
  obtain m where m: "network_peers (mem_env E) c vs ps = Some m" "map fst m = map snd ps"
    "list_all2 (\<lambda>(p, i) (j, q). case p of None \<Rightarrow> \<exists>r. q = Some r \<and> fresh_peer (joint_new (set vs)) i r | Some _ \<Rightarrow> q = None) ps m"
    using Cons by auto
  show ?case
  proof (cases p)
    case None
    obtain s r where "mem_new_with_conf_state (conf_state_from vs []) = Some s" "raft_new (mem_env E) (c\<lparr>c_id := i\<rparr>) s = Some (Inr r)"
      "fresh_peer (joint_new (set vs)) i r" using fresh_peer_built[OF c _ vs, of i E] Cons.prems a by auto
    then show ?thesis using m None a by (auto simp: unwrap_def)
  next
    case (Some q)
    then show ?thesis using m a Cons.prems by auto
  qed
qed simp

lemma set_zip_numbers: "set (zip ps [1..<length ps + 1]) = {(ps ! k, Suc k) | k. k < length ps}"
  by (auto simp: set_zip simp del: upt_Suc)

lemma ignored_ignore: "ignored (network_ignore t nw) t"
  by (simp add: ignored_def network_ignore_def)

definition start_history :: "nat set \<Rightarrow> network \<Rightarrow> mem_storage history" where
  "start_history N nw = (let node = (\<lambda>i. the (the (map_of (nw_peers nw) i))) in
     \<lparr>hi_cluster = \<lparr>cl_node = node, cl_net = (\<Union>i \<in> N. set (r_msgs (node i))), cl_votes = (\<Union>i \<in> N. own_vote i (node i))\<rparr>,
      hi_logs = (\<lambda>i. {r_raft_log (node i)})\<rparr>)"

lemma fresh_start:
  assumes wf: "amap_wf (nw_peers nw)" and N: "\<forall>i \<in> N. i \<noteq> 0 \<and> (\<exists>r. map_of (nw_peers nw) i = Some (Some r) \<and> fresh_peer C i r)"
    and other: "\<forall>i r. map_of (nw_peers nw) i = Some (Some r) \<longrightarrow> i \<in> N"
  shows "history_start mem_view N (start_history N nw)" "mirrors N C nw (start_history N nw)"
proof -
  let ?h = "start_history N nw"
  have f: "map_of (nw_peers nw) i = Some (Some (hi_node ?h i))" "fresh_peer C i (hi_node ?h i)" if "i \<in> N" for i
    using N that by (fastforce simp: start_history_def Let_def)+
  have sel: "cl_net (hi_cluster ?h) = (\<Union>i \<in> N. set (r_msgs (hi_node ?h i)))" "cl_votes (hi_cluster ?h) = (\<Union>i \<in> N. own_vote i (hi_node ?h i))"
    "hi_logs ?h = (\<lambda>i. {r_raft_log (hi_node ?h i)})"
    by (simp_all add: start_history_def Let_def)
  show "mirrors N C nw ?h" using wf other f unfolding mirrors_def by (auto simp: sel fresh_peer_def posted_def simp del: map_of_eq_Some_iff)
  show "history_start mem_view N ?h"
    using f(2) N unfolding history_start_def cluster_start_def sel
    by (auto simp: fresh_peer_def grants_def appends_def INVALID_ID_def)
qed

lemma network_new_tested:
  assumes c: "test_config c" and ps: "ps \<noteq> []" "\<forall>p \<in> set ps. p = None \<or> p = Some None"
  shows "\<exists>nw h. network_new_with_config (mem_env E) ps c = Some nw \<and> history_start mem_view (test_nodes ps) h \<and>
    tested E (test_nodes ps) (joint_new {1..length ps}) (network_ignore MsgSnapshot nw) h"
proof -
  let ?vs = "[1..<length ps + 1]" and ?n = "length ps"
  have vs: "sorted ?vs" "distinct ?vs" "?vs \<noteq> []" "0 \<notin> set ?vs" "set ?vs = {1..?n}"
    using ps(1) by (auto simp: atLeastLessThanSuc_atLeastAtMost Suc_le_eq simp del: upt_Suc)
  have z: "\<forall>(p, i) \<in> set (zip ps ?vs). i \<noteq> 0 \<and> (p = None \<or> p = Some None)"
    using ps(2) unfolding set_zip_numbers by auto
  obtain m where m: "network_peers (mem_env E) c ?vs (zip ps ?vs) = Some m" "map fst m = ?vs"
    "list_all2 (\<lambda>(p, i) (j, q). case p of None \<Rightarrow> \<exists>r. q = Some r \<and> fresh_peer (joint_new {1..?n}) i r | Some _ \<Rightarrow> q = None)
      (zip ps ?vs) m"
    using network_peers_built[OF c vs(1-4) z, of E] unfolding vs(5) by auto
  define nw where "nw = \<lparr>nw_peers = m, nw_dropm = [], nw_ignorem = [], nw_draws = 0\<rparr>"
  have at: "\<exists>q. m ! k = (Suc k, q) \<and> (case ps ! k of None \<Rightarrow> \<exists>r. q = Some r \<and> fresh_peer (joint_new {1..?n}) (Suc k) r | Some _ \<Rightarrow> q = None)"
    if "k < ?n" for k
  proof -
    have z: "zip ps ?vs ! k = (ps ! k, Suc k)" "length (zip ps ?vs) = ?n" using that by (simp_all del: upt_Suc)
    have "fst (m ! k) = Suc k" using that arg_cong[OF m(2), of "\<lambda>xs. xs ! k"] arg_cong[OF m(2), of length] by (simp del: upt_Suc)
    then show ?thesis using list_all2_nthD[OF m(3), of k] z that by (cases "m ! k") (auto simp del: upt_Suc)
  qed
  have len: "length m = ?n" using arg_cong[OF m(2), of length] by (simp del: upt_Suc)
  have wf: "amap_wf m" using m(2) vs(2) by simp
  have mo: "map_of m i = Some q \<longleftrightarrow> (\<exists>k < ?n. m ! k = (i, q))" for i q
    using map_of_eq_Some_iff[OF wf, of i q] len by (simp only: in_set_conv_nth)
  have "\<forall>i \<in> test_nodes ps. i \<noteq> 0 \<and> (\<exists>r. map_of m i = Some (Some r) \<and> fresh_peer (joint_new {1..?n}) i r)"
  proof
    fix i assume i: "i \<in> test_nodes ps"
    then obtain k where k: "i = Suc k" "k < ?n" "ps ! k = None" by (cases i) (auto simp: test_nodes_def)
    obtain r where r: "m ! k = (i, Some r)" "fresh_peer (joint_new {1..?n}) i r" using at[OF k(2)] k(1,3) by auto
    then have "map_of m i = Some (Some r)" using k(2) unfolding mo by blast
    then show "i \<noteq> 0 \<and> (\<exists>r. map_of m i = Some (Some r) \<and> fresh_peer (joint_new {1..?n}) i r)" using r(2) k(1) by blast
  qed
  moreover have "i \<in> test_nodes ps" if i: "map_of m i = Some (Some r)" for i r
  proof -
    obtain k where k: "k < ?n" "m ! k = (i, Some r)" using i unfolding mo by blast
    then show ?thesis using at[OF k(1)] by (auto simp: test_nodes_def split: option.splits)
  qed
  ultimately have h: "history_start mem_view (test_nodes ps) (start_history (test_nodes ps) (network_ignore MsgSnapshot nw))"
      "mirrors (test_nodes ps) (joint_new {1..?n}) (network_ignore MsgSnapshot nw) (start_history (test_nodes ps) (network_ignore MsgSnapshot nw))"
    using wf by (intro fresh_start; simp add: network_ignore_def nw_def del: map_of_eq_Some_iff)+
  have "conf_good (joint_new {1..?n})" using ps(1) by (simp add: conf_good_def joint_new_def Suc_le_eq)
  then have "tested E (test_nodes ps) (joint_new {1..?n}) (network_ignore MsgSnapshot nw) (start_history (test_nodes ps) (network_ignore MsgSnapshot nw))"
    using h history_run.start ignored_ignore unfolding tested_def reached_def by blast
  moreover have "network_new_with_config (mem_env E) ps c = Some nw" using m(1) by (simp add: network_new_with_config_def nw_def del: upt_Suc)
  ultimately show ?thesis using h(1) by blast
qed

lemma inv_one_leader:
  assumes "cluster_inv N C s" "i \<in> N" "j \<in> N" "r_state (cl_node s i) = Leader" "r_state (cl_node s j) = Leader"
    "r_term (cl_node s i) = r_term (cl_node s j)"
  shows "i = j"
proof -
  have "joint_quorum C {k. (k, r_term (cl_node s j), i) \<in> cl_votes s}" "joint_quorum C {k. (k, r_term (cl_node s j), j) \<in> cl_votes s}"
    using assms by (auto simp: cluster_inv_def role_inv_def role_ok_def)
  then obtain k where "(k, r_term (cl_node s j), i) \<in> cl_votes s" "(k, r_term (cl_node s j), j) \<in> cl_votes s" using jq.meet by blast
  then show ?thesis using assms(1) unfolding cluster_inv_def once_inv_def by blast
qed

section \<open>Safety of tests\<close>

lemma test_run_reached:
  assumes "test_config c" "ps \<noteq> []" "\<forall>p \<in> set ps. p = None \<or> p = Some None"
    "network_new_with_config (mem_env E) ps c = Some nw0" "test_run (mem_env E) rnd (network_ignore MsgSnapshot nw0) nw"
  shows "\<exists>h0 h. history_start mem_view (test_nodes ps) h0 \<and>
    history_run (\<lambda>_. mem_env E) mem_view (test_nodes ps) (joint_new {1..length ps}) h0 h \<and>
    tested E (test_nodes ps) (joint_new {1..length ps}) nw h"
proof -
  obtain h0 where h0: "history_start mem_view (test_nodes ps) h0"
    "tested E (test_nodes ps) (joint_new {1..length ps}) (network_ignore MsgSnapshot nw0) h0"
    using network_new_tested[OF assms(1-3), of E] assms(4) by auto
  then show ?thesis using test_run_runs[OF assms(5) h0(2)] by blast
qed


text \<open>
  The peers of a test are safe: at every moment of a test two leaders of the same term are the same peer, and two logs with the same term at a
  position hold the same entries at all positions up to it that both hold.
\<close>

theorem network_peers_safe:
  fixes E :: "mem_storage env"
  assumes "test_config c" "ps \<noteq> []" "\<forall>p \<in> set ps. p = None \<or> p = Some None"
    "network_new_with_config (mem_env E) ps c = Some nw0" "test_run (mem_env E) rnd (network_ignore MsgSnapshot nw0) nw"
    and i: "map_of (nw_peers nw) i = Some (Some r)" and j: "map_of (nw_peers nw) j = Some (Some s)"
  shows "(r_state r = Leader \<and> r_state s = Leader \<and> r_term r = r_term s \<longrightarrow> i = j) \<and>
    (\<forall>p q. p \<le> log_last mem_view (r_raft_log r) \<and> p \<le> log_last mem_view (r_raft_log s) \<and>
      log_term mem_view (r_raft_log r) p = log_term mem_view (r_raft_log s) p \<and>
      q \<le> p \<and> log_base mem_view (r_raft_log r) < q \<and> log_base mem_view (r_raft_log s) < q \<longrightarrow>
      log_at mem_view (r_raft_log r) q = log_at mem_view (r_raft_log s) q)"
proof -
  let ?N = "test_nodes ps" and ?C = "joint_new {1..length ps}"
  obtain h0 h where h: "history_start mem_view ?N h0" "history_run (\<lambda>_. mem_env E) mem_view ?N ?C h0 h" "mirrors ?N ?C nw h" "conf_good ?C"
    using test_run_reached[OF assms(1-5)] by (auto simp: tested_def reached_def)
  obtain H where H: "history_inv mem_view ?N ?C H h"
    using history_run_inv[OF h(2,1,4)] mem.reading_storage_axioms by blast
  note n = mirrors_node[OF h(3) i] mirrors_node[OF h(3) j]
  have "i = j" if "r_state r = Leader" "r_state s = Leader" "r_term r = r_term s"
    using inv_one_leader[of ?N ?C "hi_cluster h" i j] H n that by (auto simp: history_inv_def)
  moreover have "unique_links H" "log_wf mem_view (r_raft_log r)" "covers H (links mem_view (r_raft_log r))"
      "log_wf mem_view (r_raft_log s)" "covers H (links mem_view (r_raft_log s))"
    using H n by (auto simp: history_inv_def logs_inv_def)
  note l = links_agree[OF this mem.reading_storage_axioms]
  ultimately show ?thesis using l by blast
qed

text \<open>A test: three nodes, the first of which is told to campaign.\<close>

definition sample_net :: network where
  "sample_net = (case network_new sample_env [None, None, None] of Some nw \<Rightarrow> nw)"

definition sample_hup :: message where
  "sample_hup = message_default\<lparr>m_from := 1, m_to := 1, m_type := MsgHup\<rparr>"

definition sample_elected :: network where
  "sample_elected = (case network_send sample_env (\<lambda>_. 0) [sample_hup] (network_ignore MsgSnapshot sample_net) of Some nw \<Rightarrow> nw)"

definition elected_peer :: "nat \<Rightarrow> mem_storage raft" where
  "elected_peer i = the (the (map_of (nw_peers sample_elected) i))"

lemma sample_net_new: "network_new_with_config (mem_env sample_env) [None, None, None] network_default_config = Some sample_net"
proof -
  have "(case network_new sample_env [None, None, None] of Some _ \<Rightarrow> True | None \<Rightarrow> False)" by code_simp
  then show ?thesis by (auto simp: sample_net_def network_new_def sample_env_def mem_env_def split: option.splits)
qed

lemma sample_elected_run: "test_run (mem_env sample_env) (\<lambda>_. 0) (network_ignore MsgSnapshot sample_net) sample_elected"
proof -
  have "(case network_send sample_env (\<lambda>_. 0) [sample_hup] (network_ignore MsgSnapshot sample_net) of Some _ \<Rightarrow> True | None \<Rightarrow> False)"
    by code_simp
  then have "network_send (mem_env sample_env) (\<lambda>_. 0) [sample_hup] (network_ignore MsgSnapshot sample_net) = Some sample_elected"
    by (auto simp: sample_elected_def sample_env_def mem_env_def split: option.splits)
  moreover have "injected sample_hup" by (simp add: injected_def sample_hup_def is_grant_def)
  ultimately show ?thesis by (intro test_run.step[OF test_run.start test_step.send[of "[sample_hup]"]]) simp_all
qed

lemma sample_elected_peers:
  "map_of (nw_peers sample_elected) 1 = Some (Some (elected_peer 1))" "map_of (nw_peers sample_elected) 2 = Some (Some (elected_peer 2))"
proof -
  have "(case map_of (nw_peers sample_elected) 1 of Some (Some _) \<Rightarrow> True | _ \<Rightarrow> False)"
    "(case map_of (nw_peers sample_elected) 2 of Some (Some _) \<Rightarrow> True | _ \<Rightarrow> False)" by code_simp+
  then show "map_of (nw_peers sample_elected) 1 = Some (Some (elected_peer 1))" "map_of (nw_peers sample_elected) 2 = Some (Some (elected_peer 2))"
    by (auto simp: elected_peer_def split: option.splits)
qed

lemma sample_test_nodes: "test_nodes [None, None, None] = {1, 2, 3}" "length [None, None, None :: interface option] = 3"
  by (auto simp: test_nodes_def less_Suc_eq nth_Cons' numeral_eq_Suc)

text \<open>The first message of the test \<open>test_network\<close> of the harness: an empty append message appends nothing.\<close>

definition sample_empty_message :: message where
  "sample_empty_message = message_default\<lparr>m_from := 1, m_to := 2, m_type := MsgAppend\<rparr>"

lemma sample_empty_append:
  "map_option (\<lambda>nw. map (\<lambda>(i, p). (i, map_option (\<lambda>r. mem_last_index (rl_store (r_raft_log r))) p)) (nw_peers nw))
     (network_filter_and_send sample_env (\<lambda>_. 0) [sample_empty_message] sample_net) = Some [(1, Some 0), (2, Some 0), (3, Some 0)]"
  by code_simp


theorem network_peers_safe_witness:
  "r_state (elected_peer 1) = Leader \<and> r_state (elected_peer 2) = Follower \<and>
   log_at mem_view (r_raft_log (elected_peer 1)) 1 = log_at mem_view (r_raft_log (elected_peer 2)) 1"
proof -
  have "r_state (elected_peer 1) = Leader \<and> r_state (elected_peer 2) = Follower \<and>
    1 \<le> log_last mem_view (r_raft_log (elected_peer 1)) \<and> 1 \<le> log_last mem_view (r_raft_log (elected_peer 2)) \<and>
    log_term mem_view (r_raft_log (elected_peer 1)) 1 = log_term mem_view (r_raft_log (elected_peer 2)) 1 \<and>
    log_base mem_view (r_raft_log (elected_peer 1)) < 1 \<and> log_base mem_view (r_raft_log (elected_peer 2)) < 1" by code_simp
  then show ?thesis
    using network_peers_safe[OF default_test_config _ _ sample_net_new sample_elected_run sample_elected_peers] by auto
qed

end
