(* ===== verification/Network_Filter.thy ===== *)
theory Network_Filter
  imports Network_Runs
begin

text \<open>What the filter of a \<open>Network\<close> lets through when a peer is isolated.\<close>

section \<open>Isolation\<close>

text \<open>The messages between peer \<open>i\<close> and one of the other peers \<open>1\<close> to \<open>n\<close>.\<close>

definition separated :: "nat \<Rightarrow> nat \<Rightarrow> message \<Rightarrow> bool" where
  "separated n i m \<longleftrightarrow> m_from m \<noteq> m_to m \<and>
     (m_from m = i \<and> m_to m \<in> {1..n} \<or> m_to m = i \<and> m_from m \<in> {1..n})"

lemma isolate_rates:
  "map_of (nw_dropm (fold (\<lambda>k nw. let nid = k + 1 in
       if nid \<noteq> i then network_drop nid i 1 (network_drop i nid 1 nw) else nw) ks nw)) \<lparr>cn_from = f, cn_to = t\<rparr> =
     (if f \<noteq> t \<and> (f = i \<and> t \<in> Suc ` set ks \<or> t = i \<and> f \<in> Suc ` set ks) then Some 1
      else map_of (nw_dropm nw) \<lparr>cn_from = f, cn_to = t\<rparr>)"
  by (induction ks arbitrary: nw) (auto simp: Let_def network_drop_def)

lemma isolate_drop_rate:
  "drop_rate (network_isolate i nw) m = (if separated (length (nw_peers nw)) i m then 1 else drop_rate nw m)"
proof -
  have "Suc ` set [0..<n] = {1..n}" for n by (simp add: image_Suc_atLeastLessThan atLeastLessThanSuc_atLeastAtMost)
  then show ?thesis unfolding drop_rate_def network_isolate_def isolate_rates separated_def by auto
qed

lemma filter_enumerate:
  assumes "\<And>k m. P (k, m) \<longleftrightarrow> Q m"
  shows "map snd (filter P (enumerate d ms)) = filter Q ms"
  using assms by (induction ms arbitrary: d) auto

lemma network_isolate_ignored [simp]: "ignored (network_isolate i nw) t = ignored nw t"
proof -
  have "nw_ignorem (fold (\<lambda>k nw. let nid = k + 1 in if nid \<noteq> i then network_drop nid i 1 (network_drop i nid 1 nw) else nw) ks nw) = nw_ignorem nw" for ks
    by (induction ks arbitrary: nw) (auto simp: Let_def network_drop_def)
  then show ?thesis by (simp add: ignored_def network_isolate_def)
qed

text \<open>
  Isolating a peer of a network without other drop rates drops exactly the messages between it and the other peers, in both
  directions and for any random numbers: of the messages that are not ignored, the filter keeps all others, in order, messages of the peer
  to itself among them.
\<close>

theorem network_isolate_exact:
  assumes "\<forall>k. 0 \<le> rnd k \<and> rnd k < 1" "nw_dropm nw = []" "\<forall>m \<in> set ms. m_type m = MsgHup \<longrightarrow> ignored nw MsgHup"
  shows "\<exists>nw'. network_filter rnd ms (network_isolate i nw) = Some
    (filter (\<lambda>m. \<not> ignored nw (m_type m) \<and> \<not> separated (length (nw_peers nw)) i m) ms, nw')"
proof -
  let ?nw = "network_isolate i nw"
  have d: "drop_rate ?nw m \<le> rnd k \<longleftrightarrow> \<not> separated (length (nw_peers nw)) i m" for k m
    unfolding isolate_drop_rate using assms(1)[rule_format, of k] assms(2) by (simp add: drop_rate_def not_le)
  have "MsgHup \<notin> m_type ` set (filter (\<lambda>m. \<not> ignored nw (m_type m)) ms)" using assms(3) by force
  then show ?thesis
    by (simp add: network_filter_def filter_loop_eq Let_def conj_commute
        filter_enumerate[of _ "\<lambda>m. \<not> separated (length (nw_peers nw)) i m"] d)
qed

theorem network_isolate_exact_witness:
  "\<exists>nw'. network_filter (\<lambda>_. 1 / 2) [new_message 2 MsgHeartbeat (Some 1), new_message 3 MsgHeartbeat (Some 2)]
     (network_isolate 1 \<lparr>nw_peers = [(1, None), (2, None), (3, None)], nw_dropm = [], nw_ignorem = [], nw_draws = 0\<rparr>) =
     Some ([new_message 3 MsgHeartbeat (Some 2)], nw')"
  using network_isolate_exact[of "\<lambda>_. 1 / 2" "\<lparr>nw_peers = [(1, None), (2, None), (3, None)], nw_dropm = [], nw_ignorem = [], nw_draws = 0\<rparr>"
      "[new_message 2 MsgHeartbeat (Some 1), new_message 3 MsgHeartbeat (Some 2)]" 1]
  by (simp add: ignored_def separated_def new_message_def message_default_def)

end
