(* ===== verification/Raw_Node.thy ===== *)
theory Raw_Node
  imports Raft_Step
begin

text \<open>
  The application interface of a node (\<open>raft-rs/src/raw_node.rs\<close>): proposals, the \<open>Ready\<close> /
  \<open>advance\<close> cycle with its records of what has been handed out for persisting, and bootstrapping.
\<close>

record peer =
  peer_id :: nat
  peer_context :: "bytes option"

datatype snapshot_status = Finish | Failure

definition is_local_msg :: "message_type \<Rightarrow> bool" where
  "is_local_msg t \<longleftrightarrow> t = MsgHup \<or> t = MsgBeat \<or> t = MsgUnreachable \<or> t = MsgSnapStatus
     \<or> t = MsgCheckQuorum"

definition is_response_msg :: "message_type \<Rightarrow> bool" where
  "is_response_msg t \<longleftrightarrow> t = MsgAppendResponse \<or> t = MsgRequestVoteResponse
     \<or> t = MsgHeartbeatResponse \<or> t = MsgUnreachable \<or> t = MsgRequestPreVoteResponse"

record light_ready =
  lr_commit_index :: "nat option"
  lr_committed_entries :: "entry list"
  lr_messages :: "message list"

definition light_ready_default :: light_ready where
  "light_ready_default = \<lparr>lr_commit_index = None, lr_committed_entries = [], lr_messages = []\<rparr>"

record ready =
  rd_number :: nat
  rd_ss :: "soft_state option"
  rd_hs :: "hard_state option"
  rd_read_states :: "read_state list"
  rd_entries :: "entry list"
  rd_snapshot :: snapshot
  rd_is_persisted_msg :: bool
  rd_light :: light_ready
  rd_must_sync :: bool

definition ready_default :: ready where
  "ready_default = \<lparr>rd_number = 0, rd_ss = None, rd_hs = None, rd_read_states = [],
     rd_entries = [], rd_snapshot = snapshot_default, rd_is_persisted_msg = False,
     rd_light = light_ready_default, rd_must_sync = False\<rparr>"

definition must_sync :: "hard_state \<Rightarrow> hard_state \<Rightarrow> nat \<Rightarrow> bool" where
  "must_sync st pre_st ents_num \<longleftrightarrow>
     ents_num \<noteq> 0 \<or> hs_vote st \<noteq> hs_vote pre_st \<or> hs_term st \<noteq> hs_term pre_st"

definition ready_new ::
  "'s env \<Rightarrow> 's raft \<Rightarrow> soft_state option \<Rightarrow> hard_state \<Rightarrow> (ready \<times> 's raft) panics" where
  "ready_new E raft prev_soft_st prev_hard_st = do {
     (all_ents, lg) \<leftarrow> rl_all_entries E (r_raft_log raft);
     let raft1 = set_log lg raft;
     let light = \<lparr>lr_commit_index = Some (rl_committed lg), lr_committed_entries = all_ents,
                  lr_messages = r_msgs raft1\<rparr>;
     let rd = \<lparr>rd_number = 0, rd_ss = prev_soft_st, rd_hs = Some prev_hard_st,
               rd_read_states = [], rd_entries = rl_unstable_entries lg,
               rd_snapshot = snapshot_default, rd_is_persisted_msg = True, rd_light = light,
               rd_must_sync = True\<rparr>;
     let rd1 = (case prev_soft_st of
          Some ss \<Rightarrow> if raft_soft_state raft1 \<noteq> ss
                     then rd\<lparr>rd_ss := Some (raft_soft_state raft1)\<rparr> else rd
        | None \<Rightarrow> rd);
     let rd2 = (if prev_hard_st \<noteq> raft_hard_state raft1
                then rd1\<lparr>rd_hs := Some (raft_hard_state raft1)\<rparr> else rd1);
     let rd3 = (case u_snapshot (rl_unstable lg) of
          Some snap \<Rightarrow> rd2\<lparr>rd_snapshot := snap\<rparr> | None \<Rightarrow> rd2);
     let rd4 = (if r_read_states raft1 \<noteq> []
                then rd3\<lparr>rd_read_states := r_read_states raft1\<rparr> else rd3);
     Some (rd4, raft1) }"

definition ready_messages :: "ready \<Rightarrow> message list" where
  "ready_messages rd = (if \<not> rd_is_persisted_msg rd then lr_messages (rd_light rd) else [])"

definition ready_persisted_messages :: "ready \<Rightarrow> message list" where
  "ready_persisted_messages rd =
     (if rd_is_persisted_msg rd then lr_messages (rd_light rd) else [])"

record ready_record =
  rr_number :: nat
  rr_last_entry :: "(nat \<times> nat) option"
  rr_snapshot :: "(nat \<times> nat) option"

record 's raw_node =
  rn_raft :: "'s raft"
  rn_prev_ss :: soft_state
  rn_prev_hs :: hard_state
  rn_max_number :: nat
  rn_records :: "ready_record list"
  rn_commit_since_index :: nat

definition raw_node_new :: "'s env \<Rightarrow> config \<Rightarrow> 's \<Rightarrow> 's raw_node result panics" where
  "raw_node_new E c store = do {
     ensure (c_id c \<noteq> 0);
     res \<leftarrow> raft_new E c store;
     Some (case res of
         Inl e \<Rightarrow> Inl e
       | Inr r \<Rightarrow> Inr \<lparr>rn_raft = r, rn_prev_ss = raft_soft_state r, rn_prev_hs = raft_hard_state r,
            rn_max_number = 0, rn_records = [], rn_commit_since_index = c_applied c\<rparr>) }"

text \<open>Lifting of a transition of the \<open>Raft\<close> inside.\<close>

definition rn_lift :: "('s raft \<Rightarrow> 's stepped) \<Rightarrow> 's raw_node \<Rightarrow> (unit result \<times> 's raw_node) panics"
  where
  "rn_lift f n = do { (res, r) \<leftarrow> f (rn_raft n); Some (res, n\<lparr>rn_raft := r\<rparr>) }"

definition rn_tick :: "'s env \<Rightarrow> 's raw_node \<Rightarrow> (bool \<times> 's raw_node) panics" where
  "rn_tick E n = do { (b, r) \<leftarrow> raft_tick E (rn_raft n); Some (b, n\<lparr>rn_raft := r\<rparr>) }"

definition rn_campaign :: "'s env \<Rightarrow> 's raw_node \<Rightarrow> (unit result \<times> 's raw_node) panics" where
  "rn_campaign E n = rn_lift (raft_step E (message_default\<lparr>m_type := MsgHup\<rparr>)) n"

definition rn_propose ::
  "'s env \<Rightarrow> bytes \<Rightarrow> bytes \<Rightarrow> 's raw_node \<Rightarrow> (unit result \<times> 's raw_node) panics" where
  "rn_propose E context data n =
     (let m = message_default\<lparr>m_type := MsgPropose, m_from := r_id (rn_raft n),
                m_entries := [entry_default\<lparr>e_data := data, e_context := context\<rparr>]\<rparr>
      in rn_lift (raft_step E m) n)"

definition rn_ping :: "'s raw_node \<Rightarrow> 's raw_node panics" where
  "rn_ping n = do { r \<leftarrow> raft_ping (rn_raft n); Some (n\<lparr>rn_raft := r\<rparr>) }"

definition rn_propose_conf_change ::
  "'s env \<Rightarrow> bytes \<Rightarrow> conf_change_i \<Rightarrow> 's raw_node \<Rightarrow> (unit result \<times> 's raw_node) panics" where
  "rn_propose_conf_change E context cc n =
     (case (case as_v1 cc of
              Some c \<Rightarrow> (env_cc_write E c, EntryConfChange)
            | None \<Rightarrow> (env_ccv2_write E (as_v2 cc), EntryConfChangeV2)) of
        (Inl e, _) \<Rightarrow> Some (Inl e, n)
      | (Inr data, ty) \<Rightarrow>
          let m = message_default\<lparr>m_type := MsgPropose,
                m_entries := [entry_default\<lparr>e_type := ty, e_data := data, e_context := context\<rparr>]\<rparr>
          in rn_lift (raft_step E m) n)"

definition rn_apply_conf_change ::
  "'s env \<Rightarrow> conf_change_i \<Rightarrow> 's raw_node \<Rightarrow> (conf_state result \<times> 's raw_node) panics" where
  "rn_apply_conf_change E cc n = do {
     (res, r) \<leftarrow> raft_apply_conf_change E (as_v2 cc) (rn_raft n);
     Some (res, n\<lparr>rn_raft := r\<rparr>) }"

definition rn_step ::
  "'s env \<Rightarrow> message \<Rightarrow> 's raw_node \<Rightarrow> (unit result \<times> 's raw_node) panics" where
  "rn_step E m n =
     (if is_local_msg (m_type m) then Some (Inl StepLocalMsg, n)
      else if tracker_get (r_prs (rn_raft n)) (m_from m) \<noteq> None \<or> \<not> is_response_msg (m_type m)
      then rn_lift (raft_step E m) n
      else Some (Inl StepPeerNotFound, n))"

definition rn_on_entries_fetched ::
  "'s env \<Rightarrow> get_entries_for \<Rightarrow> 's raw_node \<Rightarrow> 's raw_node panics" where
  "rn_on_entries_fetched E context n = (case context of
       SendAppend to t aggressively \<Rightarrow>
         if r_term (rn_raft n) \<noteq> t \<or> r_state (rn_raft n) \<noteq> Leader then Some n
         else if tracker_get (r_prs (rn_raft n)) to = None then Some n
         else do {
           r \<leftarrow> (if aggressively then raft_send_append_aggressively E to (rn_raft n)
                else raft_send_append E to (rn_raft n));
           Some (n\<lparr>rn_raft := r\<rparr>) }
     | Empty b \<Rightarrow> if b then Some n else None
     | _ \<Rightarrow> None)"

definition gen_light_ready :: "'s env \<Rightarrow> 's raw_node \<Rightarrow> (light_ready \<times> 's raw_node) panics" where
  "gen_light_ready E n = do {
     let raft = rn_raft n;
     (ce, lg) \<leftarrow> rl_next_entries_since E (rn_commit_since_index n)
                  (Some (r_max_committed_size_per_ready raft)) (r_raft_log raft);
     let ents = (case ce of Some v \<Rightarrow> v | None \<Rightarrow> []);
     let raft1 = reduce_uncommitted_size ents (set_log lg raft);
     n1 \<leftarrow> (case vec_last ents of
         Some e \<Rightarrow> do {
           ensure (rn_commit_since_index n < e_index e);
           Some (n\<lparr>rn_raft := raft1, rn_commit_since_index := e_index e\<rparr>) }
       | None \<Rightarrow> Some (n\<lparr>rn_raft := raft1\<rparr>));
     Some (\<lparr>lr_commit_index = None, lr_committed_entries = ents, lr_messages = r_msgs raft1\<rparr>,
           n1\<lparr>rn_raft := (rn_raft n1)\<lparr>r_msgs := []\<rparr>\<rparr>) }"

fun drain_records :: "ready_record list \<Rightarrow> unit panics" where
  "drain_records [] = Some ()"
| "drain_records (rec # recs) = do {
     ensure (rr_last_entry rec = None);
     ensure (rr_snapshot rec = None);
     drain_records recs }"

definition rn_ready :: "'s env \<Rightarrow> 's raw_node \<Rightarrow> (ready \<times> 's raw_node) panics" where
  "rn_ready E n = do {
     let number = rn_max_number n + 1;
     let n0 = n\<lparr>rn_max_number := number\<rparr>;
     let raft = rn_raft n0;
     n1 \<leftarrow> (if ss_raft_state (rn_prev_ss n0) \<noteq> Leader \<and> r_state raft = Leader then do {
             drain_records (rn_records n0);
             Some (n0\<lparr>rn_records := []\<rparr>) }
           else Some n0);
     let ss = raft_soft_state raft;
     let hs = raft_hard_state raft;
     let rd1 = ready_default\<lparr>rd_number := number,
                 rd_ss := (if ss \<noteq> rn_prev_ss n1 then Some ss else None)\<rparr>;
     let rd2 = (if hs \<noteq> rn_prev_hs n1
                then rd1\<lparr>rd_hs := Some hs,
                       rd_must_sync := (hs_vote hs \<noteq> hs_vote (rn_prev_hs n1)
                                        \<or> hs_term hs \<noteq> hs_term (rn_prev_hs n1))\<rparr>
                else rd1);
     let rd3 = rd2\<lparr>rd_read_states := r_read_states raft\<rparr>;
     let n2 = n1\<lparr>rn_raft := raft\<lparr>r_read_states := []\<rparr>\<rparr>;
     (rd4, sn, n3) \<leftarrow> (case rl_unstable_snapshot (r_raft_log raft) of
         Some snap \<Rightarrow> do {
           ensure (rn_commit_since_index n2 \<le> snap_index snap);
           b \<leftarrow> rl_has_next_entries_since E (r_raft_log raft) (snap_index snap);
           ensure (\<not> b);
           Some (rd3\<lparr>rd_snapshot := snap, rd_must_sync := True\<rparr>,
                 Some (snap_index snap, snap_term snap),
                 n2\<lparr>rn_commit_since_index := snap_index snap\<rparr>) }
       | None \<Rightarrow> Some (rd3, None, n2));
     let ents = rl_unstable_entries (r_raft_log raft);
     let rd5 = rd4\<lparr>rd_entries := ents\<rparr>;
     let (rd6, le) = (case vec_last ents of
         Some e \<Rightarrow> (rd5\<lparr>rd_must_sync := True\<rparr>, Some (e_index e, e_term e))
       | None \<Rightarrow> (rd5, None));
     (light, n4) \<leftarrow> gen_light_ready E n3;
     let rec = \<lparr>rr_number = number, rr_last_entry = le, rr_snapshot = sn\<rparr>;
     Some (rd6\<lparr>rd_is_persisted_msg := (r_state raft \<noteq> Leader), rd_light := light\<rparr>,
           n4\<lparr>rn_records := rn_records n4 @ [rec]\<rparr>) }"

definition rn_ready_without_accept :: "'s env \<Rightarrow> 's raw_node \<Rightarrow> (ready \<times> 's raw_node) panics" where
  "rn_ready_without_accept E n = do {
     (rd, r) \<leftarrow> ready_new E (rn_raft n) (Some (rn_prev_ss n)) (rn_prev_hs n);
     Some (rd, n\<lparr>rn_raft := r\<rparr>) }"

definition rn_accept_ready :: "ready \<Rightarrow> 's raw_node \<Rightarrow> 's raw_node" where
  "rn_accept_ready rd n =
     (let n1 = (case rd_ss rd of Some ss \<Rightarrow> n\<lparr>rn_prev_ss := ss\<rparr> | None \<Rightarrow> n)
      in n1\<lparr>rn_raft := (rn_raft n1)\<lparr>r_read_states := [], r_msgs := []\<rparr>\<rparr>)"

definition rn_has_ready :: "'s env \<Rightarrow> 's raw_node \<Rightarrow> bool panics" where
  "rn_has_ready E n =
     (let raft = rn_raft n in
      if r_msgs raft \<noteq> [] then Some True
      else if raft_soft_state raft \<noteq> rn_prev_ss n then Some True
      else if raft_hard_state raft \<noteq> rn_prev_hs n then Some True
      else if r_read_states raft \<noteq> [] then Some True
      else if rl_unstable_entries (r_raft_log raft) \<noteq> [] then Some True
      else if (case raft_snap raft of Some s \<Rightarrow> \<not> snapshot_is_empty s | None \<Rightarrow> False)
      then Some True
      else rl_has_next_entries_since E (r_raft_log raft) (rn_commit_since_index n))"

definition rn_commit_ready :: "ready \<Rightarrow> 's raw_node \<Rightarrow> 's raw_node panics" where
  "rn_commit_ready rd n = do {
     let n1 = (case rd_ss rd of Some ss \<Rightarrow> n\<lparr>rn_prev_ss := ss\<rparr> | None \<Rightarrow> n);
     let n2 = (case rd_hs rd of Some hs \<Rightarrow> n1\<lparr>rn_prev_hs := hs\<rparr> | None \<Rightarrow> n1);
     rec \<leftarrow> vec_last (rn_records n2);
     ensure (rr_number rec = rd_number rd);
     let lg = r_raft_log (rn_raft n2);
     lg1 \<leftarrow> (case rr_snapshot rec of
         Some (index, _) \<Rightarrow> rl_stable_snap index lg | None \<Rightarrow> Some lg);
     lg2 \<leftarrow> (case rr_last_entry rec of
         Some (index, t) \<Rightarrow> rl_stable_entries index t lg1 | None \<Rightarrow> Some lg1);
     Some (n2\<lparr>rn_raft := set_log lg2 (rn_raft n2)\<rparr>) }"

text \<open>The \<open>while let\<close> loop of \<open>on_persist_ready\<close>: (index, term), snapshot index, remaining records.\<close>

fun persist_loop ::
  "nat \<Rightarrow> nat \<times> nat \<Rightarrow> nat \<Rightarrow> ready_record list \<Rightarrow> (nat \<times> nat) \<times> nat \<times> ready_record list" where
  "persist_loop number it snap_idx [] = (it, snap_idx, [])"
| "persist_loop number it snap_idx (rec # recs) =
     (if rr_number rec > number then (it, snap_idx, rec # recs)
      else
        let (it1, snap1) = (case rr_snapshot rec of
              Some (i, _) \<Rightarrow> ((0, 0), i) | None \<Rightarrow> (it, snap_idx));
            it2 = (case rr_last_entry rec of Some p \<Rightarrow> p | None \<Rightarrow> it1)
        in persist_loop number it2 snap1 recs)"

definition rn_on_persist_ready :: "'s env \<Rightarrow> nat \<Rightarrow> 's raw_node \<Rightarrow> 's raw_node panics" where
  "rn_on_persist_ready E number n = do {
     let ((index, t), snap_idx, recs) = persist_loop number (0, 0) 0 (rn_records n);
     let n1 = n\<lparr>rn_records := recs\<rparr>;
     r1 \<leftarrow> (if snap_idx \<noteq> 0 then on_persist_snap snap_idx (rn_raft n1) else Some (rn_raft n1));
     r2 \<leftarrow> (if index \<noteq> 0 then on_persist_entries E index t r1 else Some r1);
     Some (n1\<lparr>rn_raft := r2\<rparr>) }"

definition rn_advance_append ::
  "'s env \<Rightarrow> ready \<Rightarrow> 's raw_node \<Rightarrow> (light_ready \<times> 's raw_node) panics" where
  "rn_advance_append E rd n = do {
     n1 \<leftarrow> rn_commit_ready rd n;
     n2 \<leftarrow> rn_on_persist_ready E (rn_max_number n1) n1;
     (light_rd, n3) \<leftarrow> gen_light_ready E n2;
     ensure (\<not> (r_state (rn_raft n3) \<noteq> Leader \<and> lr_messages light_rd \<noteq> []));
     let hs = raft_hard_state (rn_raft n3);
     (light1, n4) \<leftarrow> (if hs_commit hs > hs_commit (rn_prev_hs n3) then
           Some (light_rd\<lparr>lr_commit_index := Some (hs_commit hs)\<rparr>,
                 n3\<lparr>rn_prev_hs := (rn_prev_hs n3)\<lparr>hs_commit := hs_commit hs\<rparr>\<rparr>)
         else do {
           ensure (hs_commit hs = hs_commit (rn_prev_hs n3));
           Some (light_rd\<lparr>lr_commit_index := None\<rparr>, n3) });
     ensure (hs = rn_prev_hs n4);
     Some (light1, n4) }"

definition rn_advance_append_async :: "ready \<Rightarrow> 's raw_node \<Rightarrow> 's raw_node panics" where
  "rn_advance_append_async rd n = rn_commit_ready rd n"

definition rn_advance_apply_to :: "'s env \<Rightarrow> nat \<Rightarrow> 's raw_node \<Rightarrow> 's raw_node panics" where
  "rn_advance_apply_to E applied n = do {
     r \<leftarrow> raft_commit_apply E applied (rn_raft n);
     Some (n\<lparr>rn_raft := r\<rparr>) }"

definition rn_advance_apply :: "'s env \<Rightarrow> 's raw_node \<Rightarrow> 's raw_node panics" where
  "rn_advance_apply E n = rn_advance_apply_to E (rn_commit_since_index n) n"

definition rn_advance ::
  "'s env \<Rightarrow> ready \<Rightarrow> 's raw_node \<Rightarrow> (light_ready \<times> 's raw_node) panics" where
  "rn_advance E rd n = do {
     let applied = rn_commit_since_index n;
     (light_rd, n1) \<leftarrow> rn_advance_append E rd n;
     n2 \<leftarrow> rn_advance_apply_to E applied n1;
     Some (light_rd, n2) }"

definition rn_step_ignore :: "'s env \<Rightarrow> message \<Rightarrow> 's raw_node \<Rightarrow> 's raw_node panics" where
  "rn_step_ignore E m n = do { r \<leftarrow> step_ignore E m (rn_raft n); Some (n\<lparr>rn_raft := r\<rparr>) }"

definition rn_report_unreachable :: "'s env \<Rightarrow> nat \<Rightarrow> 's raw_node \<Rightarrow> 's raw_node panics" where
  "rn_report_unreachable E i n =
     rn_step_ignore E (message_default\<lparr>m_type := MsgUnreachable, m_from := i\<rparr>) n"

definition rn_report_snapshot ::
  "'s env \<Rightarrow> nat \<Rightarrow> snapshot_status \<Rightarrow> 's raw_node \<Rightarrow> 's raw_node panics" where
  "rn_report_snapshot E i status n =
     rn_step_ignore E (message_default\<lparr>m_type := MsgSnapStatus, m_from := i,
       m_reject := (status = Failure)\<rparr>) n"

definition rn_request_snapshot :: "'s env \<Rightarrow> 's raw_node \<Rightarrow> (unit result \<times> 's raw_node) panics" where
  "rn_request_snapshot E n = rn_lift (raft_request_snapshot E) n"

definition rn_transfer_leader :: "'s env \<Rightarrow> nat \<Rightarrow> 's raw_node \<Rightarrow> 's raw_node panics" where
  "rn_transfer_leader E transferee n =
     rn_step_ignore E (message_default\<lparr>m_type := MsgTransferLeader, m_from := transferee\<rparr>) n"

definition rn_read_index :: "'s env \<Rightarrow> bytes \<Rightarrow> 's raw_node \<Rightarrow> 's raw_node panics" where
  "rn_read_index E rctx n =
     rn_step_ignore E (message_default\<lparr>m_type := MsgReadIndex,
       m_entries := [entry_default\<lparr>e_data := rctx\<rparr>]\<rparr>) n"

definition rn_set_priority :: "int \<Rightarrow> 's raw_node \<Rightarrow> 's raw_node" where
  "rn_set_priority priority n = n\<lparr>rn_raft := raft_set_priority priority (rn_raft n)\<rparr>"

definition rn_skip_bcast_commit :: "bool \<Rightarrow> 's raw_node \<Rightarrow> 's raw_node" where
  "rn_skip_bcast_commit skip n = n\<lparr>rn_raft := raft_skip_bcast_commit skip (rn_raft n)\<rparr>"

definition rn_set_batch_append :: "bool \<Rightarrow> 's raw_node \<Rightarrow> 's raw_node" where
  "rn_set_batch_append batch_append n =
     n\<lparr>rn_raft := raft_set_batch_append batch_append (rn_raft n)\<rparr>"

fun bootstrap_entries :: "'s env \<Rightarrow> nat \<Rightarrow> peer list \<Rightarrow> entry list panics" where
  "bootstrap_entries E i [] = Some []"
| "bootstrap_entries E i (p # ps) = do {
     ctx \<leftarrow> peer_context p;
     let cc = \<lparr>cc_change_type = AddNode, cc_node_id = peer_id p, cc_context = ctx, cc_id = 0\<rparr>;
     data \<leftarrow> unwrap (env_cc_write E cc);
     es \<leftarrow> bootstrap_entries E (Suc i) ps;
     Some (entry_default\<lparr>e_index := i + 1, e_term := 1, e_type := EntryConfChange, e_data := data\<rparr>
           # es) }"

fun bootstrap_apply :: "'s env \<Rightarrow> peer list \<Rightarrow> 's raft \<Rightarrow> 's raft panics" where
  "bootstrap_apply E [] r = Some r"
| "bootstrap_apply E (p # ps) r = do {
     (_, r1) \<leftarrow> raft_apply_conf_change E (as_v2 (V1 (conf_change_default
                 \<lparr>cc_node_id := peer_id p, cc_change_type := AddNode\<rparr>))) r;
     bootstrap_apply E ps r1 }"

definition rn_bootstrap ::
  "'s env \<Rightarrow> peer list \<Rightarrow> 's raw_node \<Rightarrow> (unit result \<times> 's raw_node) panics" where
  "rn_bootstrap E peers n =
     (if peers = [] then
        Some (Inl (ConfigInvalid ''must provide at least one peer to Bootstrap''), n)
      else case st_last_index E (rl_store (r_raft_log (rn_raft n))) of
        Inl e \<Rightarrow> Some (Inl e, n)
      | Inr last_index \<Rightarrow>
          if last_index \<noteq> 0
          then Some (Inl (ConfigInvalid ''can't bootstrap a nonempty Storage''), n)
          else do {
            r1 \<leftarrow> become_follower E 1 INVALID_ID (rn_raft n);
            ents \<leftarrow> bootstrap_entries E 0 peers;
            (_, lg) \<leftarrow> rl_append E ents (r_raft_log r1);
            let r2 = set_log (lg\<lparr>rl_committed := length ents\<rparr>) r1;
            r3 \<leftarrow> bootstrap_apply E peers r2;
            Some (Inr (), n\<lparr>rn_prev_hs := hard_state_default, rn_raft := r3\<rparr>) })"

end
