(* ===== verification/Ready_Cycle.thy ===== *)
theory Ready_Cycle
  imports Raw_Node Raft_Samples
begin

text \<open>
  The \<open>Ready\<close> / \<open>advance\<close> cycle of \<open>RawNode\<close>: what is handed to the application, when there is something to
  hand out, and what a persistence notification covers.
\<close>

section \<open>Handing out committed entries\<close>

lemma raft_log_frame_reduce [simp]:
  "r_msgs (reduce_uncommitted_size es r) = r_msgs r" "r_raft_log (reduce_uncommitted_size es r) = r_raft_log r"
  by (simp_all add: reduce_uncommitted_size_def)

text \<open>
  The committed and persisted entries after the last one handed out, as far as the size limit goes.
\<close>

definition handed_out :: "'s env \<Rightarrow> 's store_view \<Rightarrow> 's raw_node \<Rightarrow> entry list" where
  "handed_out E W n = (let lg = r_raft_log (rn_raft n); lo = rn_commit_since_index n + 1;
       hi = min (rl_committed lg) (rl_persisted lg) + 1
     in limit_size (env_compute_size E) (log_range W lg lo hi) (Some (r_max_committed_size_per_ready (rn_raft n))))"

lemma log_range_numbered:
  assumes "log_storage E W" "log_wf W lg" "log_base W lg < lo"
  shows "numbered lo (log_range W lg lo hi)"
proof -
  have "log_base W lg + 1 + (lo - log_base W lg - 1) = lo" using assms(3) by simp
  then show ?thesis
    using numbered_take[OF numbered_drop[OF log_storage.log_numbered[OF assms(1,2)], of "lo - log_base W lg - 1"]]
    unfolding log_range_def by metis
qed

lemma handed_out_numbered:
  assumes "log_storage E W" "log_wf W (r_raft_log (rn_raft n))"
    "log_base W (r_raft_log (rn_raft n)) \<le> rn_commit_since_index n"
  shows "numbered (rn_commit_since_index n + 1) (handed_out E W n)"
    "handed_out E W n \<noteq> [] \<Longrightarrow> rn_commit_since_index n + length (handed_out E W n)
       \<le> min (rl_committed (r_raft_log (rn_raft n))) (rl_persisted (r_raft_log (rn_raft n)))"
proof -
  let ?lg = "r_raft_log (rn_raft n)" and ?lo = "rn_commit_since_index n + 1"
  let ?hi = "min (rl_committed ?lg) (rl_persisted ?lg) + 1"
  obtain k where k: "handed_out E W n = take k (log_range W ?lg ?lo ?hi)"
    using limit_size_prefix unfolding handed_out_def Let_def by blast
  show "numbered ?lo (handed_out E W n)"
    unfolding k by (intro numbered_take log_range_numbered[OF assms(1,2)]) (use assms(3) in simp)
  show "rn_commit_since_index n + length (handed_out E W n) \<le> min (rl_committed ?lg) (rl_persisted ?lg)"
    if "handed_out E W n \<noteq> []" using that unfolding k by (auto simp: log_range_def)
qed

lemma gen_light_ready_eq:
  assumes env: "log_storage E W" and wf: "log_wf W (r_raft_log (rn_raft n))"
    and b: "log_base W (r_raft_log (rn_raft n)) \<le> rn_commit_since_index n"
  shows "\<exists>st raft'. same_view W (rl_store (r_raft_log (rn_raft n))) st \<and>
    r_raft_log raft' = (r_raft_log (rn_raft n))\<lparr>rl_store := st\<rparr> \<and> r_msgs raft' = [] \<and>
    gen_light_ready E n = Some (\<lparr>lr_commit_index = None, lr_committed_entries = handed_out E W n,
        lr_messages = r_msgs (rn_raft n)\<rparr>,
      n\<lparr>rn_raft := raft', rn_commit_since_index := rn_commit_since_index n + length (handed_out E W n)\<rparr>) \<and>
    numbered (rn_commit_since_index n + 1) (handed_out E W n) \<and>
    (handed_out E W n = [] \<or> rn_commit_since_index n + length (handed_out E W n)
       \<le> min (rl_committed (r_raft_log (rn_raft n))) (rl_persisted (r_raft_log (rn_raft n))))"
proof -
  let ?lg = "r_raft_log (rn_raft n)" and ?lo = "rn_commit_since_index n + 1" and ?es = "handed_out E W n"
  let ?hi = "min (rl_committed ?lg) (rl_persisted ?lg) + 1"
  note num = handed_out_numbered[OF assms]
  obtain st where sv: "same_view W (rl_store ?lg) st" and
    ne: "rl_next_entries_since E (rn_commit_since_index n) (Some (r_max_committed_size_per_ready (rn_raft n))) ?lg =
      (if ?lo < ?hi then Some (Some ?es, ?lg\<lparr>rl_store := st\<rparr>) else Some (None, ?lg))"
    using log_storage.rl_next_entries_since_eq[OF env wf, of "rn_commit_since_index n"
        "Some (r_max_committed_size_per_ready (rn_raft n))"] b
    by (auto simp: Let_def handed_out_def max_def split: if_splits)
  have empty: "?es = []" if "\<not> ?lo < ?hi"
  proof -
    have "?hi - ?lo = 0" using that by linarith
    then show ?thesis unfolding handed_out_def Let_def log_range_def by (simp only: take_0 limit_size_Nil)
  qed
  have self: "same_view W (rl_store ?lg) (rl_store ?lg)" using wf by (simp add: same_view_def log_wf_def)
  define st' where "st' = (if ?lo < ?hi then st else rl_store ?lg)"
  have sv': "same_view W (rl_store ?lg) st'" using sv self by (simp add: st'_def)
  define raft' where "raft' = (reduce_uncommitted_size ?es (set_log (?lg\<lparr>rl_store := st'\<rparr>) (rn_raft n)))\<lparr>r_msgs := []\<rparr>"
  have last: "e_index (last ?es) = rn_commit_since_index n + length ?es" if "?es \<noteq> []"
    using numbered_last[OF num(1) that] by simp
  have "gen_light_ready E n = Some (\<lparr>lr_commit_index = None, lr_committed_entries = ?es,
        lr_messages = r_msgs (rn_raft n)\<rparr>,
      n\<lparr>rn_raft := raft', rn_commit_since_index := rn_commit_since_index n + length ?es\<rparr>)"
  proof (cases "?es = []")
    case True
    then have "gen_light_ready E n = Some (\<lparr>lr_commit_index = None, lr_committed_entries = [],
        lr_messages = r_msgs (rn_raft n)\<rparr>, n\<lparr>rn_raft := raft'\<rparr>)"
      by (auto simp: gen_light_ready_def ne raft'_def st'_def Let_def)
    then show ?thesis using True by simp
  next
    case False
    then have "?lo < ?hi" using empty by blast
    then show ?thesis
      using False last by (simp add: gen_light_ready_def ne raft'_def st'_def vec_last_def Let_def)
  qed
  then show ?thesis
    using sv' num by (intro exI[of _ st'] exI[of _ raft']) (auto simp: raft'_def)
qed

text \<open>
  C20. Committed entries are handed out once, in order and without gaps: \<open>gen_light_ready\<close> returns the entries
  right after the last one handed out, numbered consecutively, never past what is committed and
  persisted; it moves the mark to the last of them, empties the mailbox into the result, leaves the
  log as it is and does not panic.
\<close>

theorem light_ready_spec:
  assumes env: "log_storage E W" and wf: "log_wf W (r_raft_log (rn_raft n))"
    and b: "log_base W (r_raft_log (rn_raft n)) \<le> rn_commit_since_index n"
  shows "\<exists>st raft'. same_view W (rl_store (r_raft_log (rn_raft n))) st \<and>
    r_raft_log raft' = (r_raft_log (rn_raft n))\<lparr>rl_store := st\<rparr> \<and> r_msgs raft' = [] \<and>
    gen_light_ready E n = Some (\<lparr>lr_commit_index = None, lr_committed_entries = handed_out E W n,
        lr_messages = r_msgs (rn_raft n)\<rparr>,
      n\<lparr>rn_raft := raft', rn_commit_since_index := rn_commit_since_index n + length (handed_out E W n)\<rparr>) \<and>
    numbered (rn_commit_since_index n + 1) (handed_out E W n) \<and>
    (handed_out E W n = [] \<or> rn_commit_since_index n + length (handed_out E W n)
       \<le> min (rl_committed (r_raft_log (rn_raft n))) (rl_persisted (r_raft_log (rn_raft n))))"
  using gen_light_ready_eq[OF assms] .

section \<open>Ready\<close>

text \<open>A \<open>Ready\<close> that gives the application something to do.\<close>

definition ready_nonempty :: "ready \<Rightarrow> bool" where
  "ready_nonempty rd \<longleftrightarrow> rd_ss rd \<noteq> None \<or> rd_hs rd \<noteq> None \<or> rd_read_states rd \<noteq> [] \<or> rd_entries rd \<noteq> [] \<or>
     \<not> snapshot_is_empty (rd_snapshot rd) \<or> lr_committed_entries (rd_light rd) \<noteq> [] \<or>
     lr_messages (rd_light rd) \<noteq> []"

lemma gen_light_ready_messages [frames]:
  assumes "\<And>lt n'. lr_messages lt = r_msgs (rn_raft n) \<Longrightarrow> gen_light_ready E n = Some (lt, n') \<Longrightarrow> Q (lt, n')"
  shows "outcome Q (gen_light_ready E n)"
proof -
  have "outcome (\<lambda>(lt, n'). lr_messages lt = r_msgs (rn_raft n)) (gen_light_ready E n)"
    unfolding gen_light_ready_def Let_def by (intro vcg outcome_any) auto
  then show ?thesis using assms by (auto simp: outcome_def)
qed

lemma rn_ready_fields:
  "outcome (\<lambda>(rd, n'). let r = rn_raft n in
      rd_ss rd = (if raft_soft_state r \<noteq> rn_prev_ss n then Some (raft_soft_state r) else None) \<and>
      rd_hs rd = (if raft_hard_state r \<noteq> rn_prev_hs n then Some (raft_hard_state r) else None) \<and>
      rd_read_states rd = r_read_states r \<and> rd_entries rd = rl_unstable_entries (r_raft_log r) \<and>
      rd_snapshot rd = (case raft_snap r of Some s \<Rightarrow> s | None \<Rightarrow> snapshot_default) \<and>
      lr_messages (rd_light rd) = r_msgs r \<and>
      (raft_snap r = None \<longrightarrow> (\<exists>n2 n3. gen_light_ready E n2 = Some (rd_light rd, n3) \<and>
         r_raft_log (rn_raft n2) = r_raft_log r \<and> rn_commit_since_index n2 = rn_commit_since_index n \<and>
         r_max_committed_size_per_ready (rn_raft n2) = r_max_committed_size_per_ready r)))
    (rn_ready E n)"
  unfolding rn_ready_def Let_def
  by (intro vcg frames outcome_any)
    (auto simp: ready_default_def raft_snap_def rl_unstable_snapshot_def split: if_splits option.splits)
text \<open>
  \<open>has_ready\<close> tells the truth: when \<open>ready\<close> returns, \<open>has_ready\<close> answers true exactly if the \<open>Ready\<close> holds
  a changed soft or hard state, read states, entries to persist, a snapshot, committed entries or
  messages.
\<close>

theorem has_ready_iff_ready_nonempty:
  assumes env: "log_storage E W" and wf: "log_wf W (r_raft_log (rn_raft n))"
    and b: "raft_snap (rn_raft n) = None \<Longrightarrow> log_base W (r_raft_log (rn_raft n)) \<le> rn_commit_since_index n"
    and sn: "raft_snap (rn_raft n) = None \<or> (\<exists>s. raft_snap (rn_raft n) = Some s \<and> \<not> snapshot_is_empty s)"
    and rd: "rn_ready E n = Some (rd, n')"
  shows "rn_has_ready E n = Some (ready_nonempty rd)"
proof -
  let ?r = "rn_raft n" and ?lg = "r_raft_log (rn_raft n)"
  note f = outcomeD[OF rn_ready_fields rd, unfolded Let_def prod.case]
  have fst: "rl_first_index E ?lg = Some (log_base W ?lg + 1)" by (rule log_storage.rl_first_index_eq[OF env wf])
  have dflt: "snapshot_is_empty snapshot_default" by code_simp
  show ?thesis
  proof (cases "raft_snap ?r")
    case (Some s)
    then show ?thesis using sn f fst
      by (auto simp: rn_has_ready_def Let_def ready_nonempty_def)
  next
    case None
    obtain n2 n3 where n2: "gen_light_ready E n2 = Some (rd_light rd, n3)" "r_raft_log (rn_raft n2) = ?lg"
      "rn_commit_since_index n2 = rn_commit_since_index n" using f None by blast
    then have "lr_committed_entries (rd_light rd) = handed_out E W n2"
      using gen_light_ready_eq[OF env, of n2] wf b None by auto
    also have "\<dots> = [] \<longleftrightarrow> \<not> max (rn_commit_since_index n + 1) (log_base W ?lg + 1) < min (rl_committed ?lg) (rl_persisted ?lg) + 1"
    proof -
      have "rl_committed ?lg \<le> log_last W ?lg" using wf by (simp add: log_wf_def)
      then show ?thesis
        using b[OF None] by (auto simp: handed_out_def Let_def n2 log_range_def log_last_def)
    qed
    finally show ?thesis
      using f None fst dflt
      by (auto simp: rn_has_ready_def Let_def ready_nonempty_def rl_has_next_entries_since_def)
  qed
qed

section \<open>Persisted readies\<close>

text \<open>
  A notification that the ready with a given number is persisted also covers the earlier ones: the
  records up to that number are taken off the front, the rest is kept; the snapshot reported is the
  last one among them, and the entry reported is the last entry of the last of these records that has
  an entry or a snapshot (none, if that record has only a snapshot, since the snapshot replaced the
  log).
\<close>

theorem persist_loop_spec:
  "persist_loop number it snap_idx recs =
     (let done = takeWhile (\<lambda>rec. rr_number rec \<le> number) recs in
      (case find (\<lambda>rec. \<not> (rr_last_entry rec = None \<and> rr_snapshot rec = None)) (rev done) of
         None \<Rightarrow> it
       | Some rec \<Rightarrow> (case rr_last_entry rec of Some p \<Rightarrow> p | None \<Rightarrow> (0, 0)),
       case find (\<lambda>rec. rr_snapshot rec \<noteq> None) (rev done) of
         None \<Rightarrow> snap_idx
       | Some rec \<Rightarrow> fst (the (rr_snapshot rec)),
       dropWhile (\<lambda>rec. rr_number rec \<le> number) recs))"
proof (induction recs arbitrary: it snap_idx)
  case (Cons rec recs)
  show ?case
  proof (cases "number < rr_number rec")
    case False
    then show ?thesis
      by (cases "rr_snapshot rec"; cases "rr_last_entry rec")
        (auto simp: Let_def find_append Cons.IH split: option.split)
  qed simp
qed simp

section \<open>Concrete readies\<close>

definition sample_raw :: "mem_storage raw_node" where
  "sample_raw = \<lparr>rn_raft = set_log sample_log (sample_three\<lparr>r_msgs := [message_default]\<rparr>),
     rn_prev_ss = raft_soft_state sample_three, rn_prev_hs = hard_state_default, rn_max_number = 0, rn_records = [],
     rn_commit_since_index = 1\<rparr>"

theorem light_ready_spec_witness:
  "\<exists>n'. gen_light_ready sample_env sample_raw = Some (\<lparr>lr_commit_index = None,
      lr_committed_entries = [sample_entry 2 1], lr_messages = [message_default]\<rparr>, n') \<and> rn_commit_since_index n' = 2"
proof -
  have h: "handed_out sample_env mem_view sample_raw = [sample_entry 2 1]" by code_simp
  have b: "log_base mem_view (r_raft_log (rn_raft sample_raw)) \<le> rn_commit_since_index sample_raw" by code_simp
  have wf: "log_wf mem_view (r_raft_log (rn_raft sample_raw))" using sample_log_wf by (simp add: sample_raw_def)
  show ?thesis
    using light_ready_spec[OF sample_env_storage wf b] unfolding h by (auto simp: sample_raw_def numeral_2_eq_2)
qed

theorem has_ready_iff_ready_nonempty_witness:
  "\<exists>rd n'. rn_ready sample_env sample_raw = Some (rd, n') \<and> ready_nonempty rd \<and> rn_has_ready sample_env sample_raw = Some True"
proof -
  have e: "rn_ready sample_env sample_raw \<noteq> None" "rn_has_ready sample_env sample_raw = Some True"
    "raft_snap (rn_raft sample_raw) = None"
    "log_base mem_view (r_raft_log (rn_raft sample_raw)) \<le> rn_commit_since_index sample_raw" by code_simp+
  have wf: "log_wf mem_view (r_raft_log (rn_raft sample_raw))" using sample_log_wf by (simp add: sample_raw_def)
  obtain rd n' where rd: "rn_ready sample_env sample_raw = Some (rd, n')" using e(1) by auto
  show ?thesis using has_ready_iff_ready_nonempty[OF sample_env_storage wf _ _ rd] e rd by auto
qed

end
