(* ===== verification/Status.thy ===== *)
theory Status
  imports Raft_Step
begin

text \<open>
  The status reports of a node (\<open>raft-rs/src/status.rs\<close>). The borrowed tracker of \<open>BaseStatus\<close> is a
  copy here.
\<close>

record base_status =
  bs_id :: nat
  bs_hs :: hard_state
  bs_ss :: soft_state
  bs_applied :: nat
  bs_progress :: "progress_tracker option"

record status =
  st_base_status :: base_status
  st_config :: configuration
  st_progress :: progress_map

definition base_status_new :: "'s raft \<Rightarrow> base_status" where
  "base_status_new raft =
     \<lparr>bs_id = r_id raft, bs_hs = raft_hard_state raft, bs_ss = raft_soft_state raft,
      bs_applied = rl_applied (r_raft_log raft),
      bs_progress = (if r_state raft = Leader then Some (r_prs raft) else None)\<rparr>"

definition base_status_from :: "'s raft \<Rightarrow> base_status" where
  "base_status_from raft =
     \<lparr>bs_id = r_id raft, bs_hs = raft_hard_state raft, bs_ss = raft_soft_state raft,
      bs_applied = rl_applied (r_raft_log raft), bs_progress = None\<rparr>"

definition status_of :: "base_status \<Rightarrow> 's raft \<Rightarrow> status" where
  "status_of bs raft =
     \<lparr>st_base_status = bs, st_config = pt_conf (r_prs raft),
      st_progress = (if ss_raft_state (bs_ss bs) = Leader then pt_progress (r_prs raft) else [])\<rparr>"

definition status_new :: "'s raft \<Rightarrow> status" where
  "status_new raft = status_of (base_status_new raft) raft"

definition status_from :: "'s raft \<Rightarrow> status" where
  "status_from raft = status_of (base_status_from raft) raft"

end
