(* ===== verification/Async_Node.thy ===== *)
theory Async_Node
  imports Raw_Node Status
begin

text \<open>
  The asynchronous node (\<open>raft-rs/src/node.rs\<close>, \<open>async_ch.rs\<close>): a task that owns the loop \<open>run\<close> and talks
  to its clients over channels.

  The channels and \<open>select!\<close> belong to the runtime. What a \<open>select!\<close> of the loop receives is an \<open>event\<close>,
  with \<open>None\<close> for a closed channel; what the loop sends is a list of \<open>effect\<close>s. What a client sends is a
  list of \<open>request\<close>s, and which branch of its \<open>select!\<close> completes is an argument. A sender handed over to
  the other side (\<open>Sender<T>\<close>) is the number of its channel. The lock around \<open>RawNode\<close> makes every access
  atomic; between two accesses of the loop a client may call \<open>tick\<close>, which works on the shared
  \<open>RawNode\<close> directly.
\<close>

section \<open>Messages with a reply channel\<close>

record msg_with_result =
  mr_m :: "message option"
  mr_ch :: "nat option"

definition new_with_msg :: "message \<Rightarrow> msg_with_result" where
  "new_with_msg m = \<lparr>mr_m = Some m, mr_ch = None\<rparr>"

definition new_with_channel :: "nat \<Rightarrow> message \<Rightarrow> msg_with_result" where
  "new_with_channel tx m = \<lparr>mr_m = Some m, mr_ch = Some tx\<rparr>"

datatype effect =
    ReadySent ready
  | ConfStateSent conf_state
  | Replied nat "unit result"
  | ReplyClosed nat
  | StatusSent nat status
  | DoneSent

definition mr_notify :: "unit result \<Rightarrow> msg_with_result \<Rightarrow> effect list" where
  "mr_notify res pm = (case mr_ch pm of Some tx \<Rightarrow> [Replied tx res] | None \<Rightarrow> [])"

definition mr_notify_and_close ::
  "unit result \<Rightarrow> msg_with_result \<Rightarrow> effect list \<times> msg_with_result" where
  "mr_notify_and_close res pm = (case mr_ch pm of
       Some tx \<Rightarrow> ([Replied tx res, ReplyClosed tx], pm\<lparr>mr_ch := None\<rparr>)
     | None \<Rightarrow> ([], pm))"

section \<open>The loop\<close>

text \<open>
  Where the loop stands: at the top of an iteration; after \<open>has_ready\<close> has answered yes; with a \<open>Ready\<close>
  taken from the node; with that \<open>Ready\<close> sent but not yet accepted; waiting in \<open>select!\<close>; returned.
\<close>

datatype position = AtTop | ReadyDue | ReadyTaken | ReadyPublished | Selecting | Returned

record 's node_loop =
  nl_raw_node :: "'s raw_node"
  nl_wait_advance :: bool
  nl_ready :: ready
  nl_first :: bool
  nl_position :: position

definition inner_node_new :: "'s raw_node \<Rightarrow> 's node_loop" where
  "inner_node_new n = \<lparr>nl_raw_node = n, nl_wait_advance = False, nl_ready = ready_default,
     nl_first = True, nl_position = AtTop\<rparr>"

definition is_voter_with_conf_state :: "conf_state \<Rightarrow> 's raw_node \<Rightarrow> bool" where
  "is_voter_with_conf_state cs n \<longleftrightarrow>
     r_id (rn_raft n) \<in> set (cs_voters cs) \<or> r_id (rn_raft n) \<in> set (cs_voters_outgoing cs)"

definition is_voter :: "'s raw_node \<Rightarrow> bool" where
  "is_voter n = is_voter_with_conf_state (to_conf_state (pt_conf (r_prs (rn_raft n)))) n"

text \<open>
  The first half of an iteration, one access to the shared node per step: check for a \<open>Ready\<close>, take it,
  send it, accept it.
\<close>

definition publish_check :: "'s env \<Rightarrow> 's node_loop \<Rightarrow> 's node_loop panics" where
  "publish_check E s =
     (if nl_wait_advance s then Some (s\<lparr>nl_first := False, nl_position := Selecting\<rparr>)
      else do {
        b \<leftarrow> rn_has_ready E (nl_raw_node s);
        Some (if b \<and> \<not> nl_first s then s\<lparr>nl_position := ReadyDue\<rparr>
              else s\<lparr>nl_first := False, nl_position := Selecting\<rparr>) })"

definition publish_take :: "'s env \<Rightarrow> 's node_loop \<Rightarrow> 's node_loop panics" where
  "publish_take E s = do {
     (rd, n) \<leftarrow> rn_ready_without_accept E (nl_raw_node s);
     Some (s\<lparr>nl_raw_node := n, nl_ready := rd, nl_position := ReadyTaken\<rparr>) }"

definition publish_accept :: "'s node_loop \<Rightarrow> 's node_loop" where
  "publish_accept s = s\<lparr>nl_raw_node := rn_accept_ready (nl_ready s) (nl_raw_node s),
     nl_wait_advance := True, nl_first := False, nl_position := Selecting\<rparr>"

fun publish_step :: "'s env \<Rightarrow> 's node_loop \<Rightarrow> (effect list \<times> 's node_loop) panics" where
  "publish_step E s = (case nl_position s of
       AtTop \<Rightarrow> do { s1 \<leftarrow> publish_check E s; Some ([], s1) }
     | ReadyDue \<Rightarrow> do { s1 \<leftarrow> publish_take E s; Some ([], s1) }
     | ReadyTaken \<Rightarrow> Some ([ReadySent (nl_ready s)], s\<lparr>nl_position := ReadyPublished\<rparr>)
     | ReadyPublished \<Rightarrow> Some ([], publish_accept s)
     | _ \<Rightarrow> None)"

text \<open>
  The second half: one branch of \<open>select!\<close>. The flag of \<open>ConfEvent\<close> tells which branch of the inner
  \<open>select!\<close> completes: sending the configuration state (true) or the done channel (false).
\<close>

datatype event =
    ConfEvent "conf_change_v2 option" bool
  | PropEvent "msg_with_result option"
  | RecvEvent "message option"
  | TickEvent
  | AdvanceEvent
  | StatusEvent "nat option"
  | StopEvent

definition on_conf ::
  "'s env \<Rightarrow> conf_change_v2 option \<Rightarrow> bool \<Rightarrow> 's raw_node \<Rightarrow> (effect list \<times> 's raw_node) panics" where
  "on_conf E conf sent n = do {
     cc \<leftarrow> conf;
     (res, n1) \<leftarrow> rn_apply_conf_change E (V2 cc) n;
     cs \<leftarrow> unwrap res;
     Some (if sent then [ConfStateSent cs] else [], n1) }"

definition on_prop ::
  "'s env \<Rightarrow> msg_with_result option \<Rightarrow> 's raw_node \<Rightarrow> (effect list \<times> 's raw_node) panics" where
  "on_prop E prop n = do {
     pm \<leftarrow> prop;
     if \<not> is_voter n then Some (mr_notify (Inl NotIsVoter) pm, n)
     else if \<not> has_leader (rn_raft n) then Some (mr_notify (Inl NoLeader) pm, n)
     else do {
       msg \<leftarrow> mr_m pm;
       (res, n1) \<leftarrow> rn_step E (msg\<lparr>m_from := r_id (rn_raft n)\<rparr>) n;
       Some (fst (mr_notify_and_close res pm), n1) } }"

definition on_recv :: "'s env \<Rightarrow> message option \<Rightarrow> 's raw_node \<Rightarrow> 's raw_node panics" where
  "on_recv E rcv n = do {
     msg \<leftarrow> rcv;
     if tracker_get (r_prs (rn_raft n)) (m_from msg) \<noteq> None \<or> \<not> is_response_msg (m_type msg)
     then do { (_, n1) \<leftarrow> rn_lift (raft_step E msg) n; Some n1 }
     else Some n }"

definition at_top :: "'s node_loop \<Rightarrow> 's raw_node \<Rightarrow> 's node_loop" where
  "at_top s n = s\<lparr>nl_raw_node := n, nl_position := AtTop\<rparr>"

fun select_event ::
  "'s env \<Rightarrow> event \<Rightarrow> 's node_loop \<Rightarrow> (effect list \<times> 's node_loop) panics" where
  "select_event E (ConfEvent conf sent) s = do {
     (out, n) \<leftarrow> on_conf E conf sent (nl_raw_node s); Some (out, at_top s n) }"
| "select_event E (PropEvent pm) s = do {
     (out, n) \<leftarrow> on_prop E pm (nl_raw_node s); Some (out, at_top s n) }"
| "select_event E (RecvEvent msg) s = do {
     n \<leftarrow> on_recv E msg (nl_raw_node s); Some ([], at_top s n) }"
| "select_event E TickEvent s = do {
     (_, n) \<leftarrow> rn_tick E (nl_raw_node s); Some ([], at_top s n) }"
| "select_event E AdvanceEvent s = do {
     (_, n) \<leftarrow> rn_advance E (nl_ready s) (nl_raw_node s);
     Some ([], (at_top s n)\<lparr>nl_wait_advance := False\<rparr>) }"
| "select_event E (StatusEvent status) s = do {
     tx \<leftarrow> status;
     Some ([StatusSent tx (status_from (rn_raft (nl_raw_node s)))], at_top s (nl_raw_node s)) }"
| "select_event E StopEvent s = Some ([DoneSent], s\<lparr>nl_position := Returned\<rparr>)"

section \<open>The clients\<close>

datatype request =
    ToRecv message
  | ToProp msg_with_result
  | ToAdvance
  | ToConf conf_change_v2
  | ToStatus nat
  | ToStop

text \<open>
  How a \<open>select!\<close> between a receive and the done channel ends: with a value, with a closed channel
  (whose error is unwrapped), or with the done channel.
\<close>

datatype 'a awaited = Got 'a | Closed | DoneFired

text \<open>
  \<open>stopped\<close>: the done channel wins the first \<open>select!\<close>. \<open>notify\<close> is the number of the reply channel and
  \<open>reply\<close> the end of the second \<open>select!\<close>.
\<close>

definition step_wait_option ::
  "bool \<Rightarrow> nat \<Rightarrow> unit result awaited \<Rightarrow> message \<Rightarrow> bool \<Rightarrow> (request list \<times> unit result) panics" where
  "step_wait_option stopped notify reply m wait =
     (if m_type m \<noteq> MsgPropose then
        Some (if stopped then ([], Inl Stopped) else ([ToRecv m], Inr ()))
      else if stopped then Some ([], Inl Stopped)
      else if \<not> wait then Some ([ToProp (new_with_msg m)], Inr ())
      else case reply of
          Got res \<Rightarrow> Some ([ToProp (new_with_channel notify m)], res)
        | Closed \<Rightarrow> None
        | DoneFired \<Rightarrow> Some ([ToProp (new_with_channel notify m)], Inl Stopped))"

definition do_step :: "bool \<Rightarrow> message \<Rightarrow> request list panics" where
  "do_step stopped m = do { (reqs, _) \<leftarrow> step_wait_option stopped 0 DoneFired m False; Some reqs }"

definition step_wait ::
  "bool \<Rightarrow> nat \<Rightarrow> unit result awaited \<Rightarrow> message \<Rightarrow> (request list \<times> unit result) panics" where
  "step_wait stopped notify reply m = step_wait_option stopped notify reply m True"

definition node_campaign :: "bool \<Rightarrow> (request list \<times> unit result) panics" where
  "node_campaign stopped = do {
     reqs \<leftarrow> do_step stopped (message_default\<lparr>m_type := MsgHup\<rparr>);
     Some (reqs, Inr ()) }"

definition node_propose ::
  "bool \<Rightarrow> nat \<Rightarrow> unit result awaited \<Rightarrow> bytes \<Rightarrow> (request list \<times> unit result) panics" where
  "node_propose stopped notify reply data =
     step_wait stopped notify reply (message_default\<lparr>m_type := MsgPropose,
       m_entries := [entry_default\<lparr>e_data := data\<rparr>]\<rparr>)"

definition node_step :: "bool \<Rightarrow> message \<Rightarrow> (request list \<times> unit result) panics" where
  "node_step stopped m =
     (if is_local_msg (m_type m) then Some ([], Inr ())
      else do { reqs \<leftarrow> do_step stopped m; Some (reqs, Inr ()) })"

fun to_entry :: "'s env \<Rightarrow> conf_change_i \<Rightarrow> entry panics" where
  "to_entry E (V1 cc) = do {
     data \<leftarrow> unwrap (env_cc_write E cc);
     Some (entry_default\<lparr>e_data := data, e_type := EntryConfChange\<rparr>) }"
| "to_entry E (V2 cc) = do {
     data \<leftarrow> unwrap (env_ccv2_write E cc);
     Some (entry_default\<lparr>e_data := data, e_type := EntryConfChangeV2\<rparr>) }"

definition node_propose_conf_change ::
  "'s env \<Rightarrow> bool \<Rightarrow> conf_change_i \<Rightarrow> (request list \<times> unit result) panics" where
  "node_propose_conf_change E stopped cc = do {
     entry \<leftarrow> to_entry E cc;
     node_step stopped (message_default\<lparr>m_type := MsgPropose, m_entries := [entry]\<rparr>) }"

definition node_advance :: "bool \<Rightarrow> request list" where
  "node_advance stopped = (if stopped then [] else [ToAdvance])"

definition node_apply_conf_change ::
  "bool \<Rightarrow> conf_state awaited \<Rightarrow> conf_change \<Rightarrow> (request list \<times> conf_state option) panics" where
  "node_apply_conf_change stopped reply cc =
     (let reqs = (if stopped then [] else [ToConf (as_v2 (V1 cc))])
      in case reply of
          Got cs \<Rightarrow> Some (reqs, Some cs)
        | Closed \<Rightarrow> None
        | DoneFired \<Rightarrow> Some (reqs, None))"

definition send_recv :: "bool \<Rightarrow> message \<Rightarrow> request list" where
  "send_recv stopped msg = (if stopped then [] else [ToRecv msg])"

definition node_transfer_leader_ship :: "bool \<Rightarrow> nat \<Rightarrow> nat \<Rightarrow> request list" where
  "node_transfer_leader_ship stopped lead transferee =
     send_recv stopped (message_default\<lparr>m_type := MsgTransferLeader, m_from := transferee, m_to := lead\<rparr>)"

definition node_read_index :: "bool \<Rightarrow> bytes \<Rightarrow> (request list \<times> unit result) panics" where
  "node_read_index stopped rctx =
     node_step stopped (message_default\<lparr>m_type := MsgReadIndex,
       m_entries := [entry_default\<lparr>e_data := rctx\<rparr>]\<rparr>)"

definition node_report_unreachable :: "bool \<Rightarrow> nat \<Rightarrow> request list" where
  "node_report_unreachable stopped i =
     send_recv stopped (message_default\<lparr>m_type := MsgUnreachable, m_from := i\<rparr>)"

definition node_report_snapshot :: "bool \<Rightarrow> nat \<Rightarrow> snapshot_status \<Rightarrow> request list" where
  "node_report_snapshot stopped i status =
     send_recv stopped (message_default\<lparr>m_type := MsgSnapStatus, m_from := i,
       m_reject := (status = Failure)\<rparr>)"

text \<open>\<open>status\<close> waits for the reply whatever the first \<open>select!\<close> did; \<open>stop\<close> waits for the done channel.\<close>

definition node_status :: "bool \<Rightarrow> nat \<Rightarrow> status option \<Rightarrow> (request list \<times> status) panics" where
  "node_status stopped ch reply = do {
     st \<leftarrow> reply;
     Some (if stopped then [] else [ToStatus ch], st) }"

definition node_stop :: "bool \<Rightarrow> request list" where
  "node_stop stopped = (if stopped then [] else [ToStop])"

definition start_node :: "'s env \<Rightarrow> config \<Rightarrow> 's \<Rightarrow> peer list \<Rightarrow> 's node_loop panics" where
  "start_node E c store peers = do {
     ensure (peers \<noteq> []);
     res \<leftarrow> raw_node_new E c store;
     r \<leftarrow> unwrap res;
     (ok, r1) \<leftarrow> rn_bootstrap E peers r;
     unwrap ok;
     Some (inner_node_new r1) }"

section \<open>Runs\<close>

text \<open>
  A run interleaves the loop with the \<open>tick\<close> calls of the clients; \<open>run_from s outs s'\<close> collects what the
  loop has sent.
\<close>

inductive node_loop_step :: "'s env \<Rightarrow> 's node_loop \<Rightarrow> effect list \<Rightarrow> 's node_loop \<Rightarrow> bool" for E where
  publish: "publish_step E s = Some (out, s') \<Longrightarrow> node_loop_step E s out s'"
| select: "nl_position s = Selecting \<Longrightarrow> select_event E ev s = Some (out, s') \<Longrightarrow> node_loop_step E s out s'"
| client_tick: "rn_tick E (nl_raw_node s) = Some (b, n) \<Longrightarrow>
    node_loop_step E s [] (s\<lparr>nl_raw_node := n\<rparr>)"

inductive run_from :: "'s env \<Rightarrow> 's node_loop \<Rightarrow> effect list \<Rightarrow> 's node_loop \<Rightarrow> bool" for E s where
  start: "run_from E s [] s"
| more: "run_from E s outs s1 \<Longrightarrow> node_loop_step E s1 out s2 \<Longrightarrow> run_from E s (outs @ out) s2"

fun deliver :: "request \<Rightarrow> event" where
  "deliver (ToRecv m) = RecvEvent (Some m)"
| "deliver (ToProp pm) = PropEvent (Some pm)"
| "deliver ToAdvance = AdvanceEvent"
| "deliver (ToConf cc) = ConfEvent (Some cc) True"
| "deliver (ToStatus ch) = StatusEvent (Some ch)"
| "deliver ToStop = StopEvent"

fun serve ::
  "'s env \<Rightarrow> request list \<Rightarrow> 's node_loop \<Rightarrow> (effect list \<times> 's node_loop) panics" where
  "serve E [] s = Some ([], s)"
| "serve E (q # qs) s = do {
     (out, s1) \<leftarrow> select_event E (deliver q) s;
     (outs, s2) \<leftarrow> serve E qs s1;
     Some (out @ outs, s2) }"

end
