(* ===== verification/Async_Loop.thy ===== *)
theory Async_Loop
  imports Async_Node Node_Life
begin

text \<open>
  What the loop of the asynchronous node does with the node it wraps.
\<close>

section \<open>What a step leaves alone\<close>

lemma rl_entries_read:
  "rl_entries E i mx ctx lg = Some (res, lg') \<Longrightarrow> log_read E lg lg'"
  using outcomeD[OF rl_entries_frame[where E = E and lg = lg and Q = "\<lambda>(_, l). log_read E lg l"]] by fastforce

lemma rl_all_entries_read:
  assumes "rl_all_entries E lg = Some y"
  shows "log_read E lg (snd y)"
proof (rule rl_all_entries.raw_induct[where P = "\<lambda>E lg y. log_read E lg (snd y)", OF _ assms])
  fix f and E :: "'a env" and lg y
  assume IH: "\<And>E lg y. f E lg = Some y \<Longrightarrow> log_read E lg (snd y)"
    and eq: "rl_first_index E lg \<bind> (\<lambda>first_index.
      rl_entries E first_index None (Empty False) lg \<bind> (\<lambda>(r, lg'). case r of
          Inl e \<Rightarrow> if error_eq e (Store Compacted) then f E lg' else None
        | Inr ents \<Rightarrow> Some (ents, lg'))) = Some y"
  from eq obtain i res l1 where l1: "rl_entries E i None (Empty False) lg = Some (res, l1)"
    and r: "(case res of Inl e \<Rightarrow> if error_eq e (Store Compacted) then f E l1 else None
             | Inr es \<Rightarrow> Some (es, l1)) = Some y"
    by (auto simp: bind_eq_Some_conv)
  show "log_read E lg (snd y)"
    using r rl_entries_read[OF l1] IH[of E l1 y] by (auto split: sum.splits if_splits intro: log_read_trans)
qed

lemma rl_all_entries_frame [frames]:
  assumes "\<And>ents lg'. log_read E lg lg' \<Longrightarrow> Q (ents, lg')"
  shows "outcome Q (rl_all_entries E lg)"
  using assms rl_all_entries_read by (fastforce simp: outcome_def)

text \<open>A step of the \<open>RawNode\<close> that leaves the records of handed-out readies alone.\<close>

definition no_record :: "('s raft \<Rightarrow> 's raft \<Rightarrow> bool) \<Rightarrow> 's raw_node \<Rightarrow> 's raw_node \<Rightarrow> bool" where
  "no_record R n n' \<longleftrightarrow> rn_records n' = rn_records n \<and> R (rn_raft n) (rn_raft n')"

text \<open>What never goes back.\<close>

definition onward :: "'s raft \<Rightarrow> 's raft \<Rightarrow> bool" where
  "onward r r' \<longleftrightarrow> steady r r' \<and> ballot r r'"

lemma onward_refl [simp]: "onward r r"
  by (simp add: onward_def ballot_def)

lemma onward_trans: "onward r s \<Longrightarrow> onward s t \<Longrightarrow> onward r t"
  by (auto simp: onward_def ballot_def intro: steady_trans)

lemma lawful_onward: "lawful E X r r' \<Longrightarrow> onward r r'"
  by (simp add: lawful_def onward_def)

lemmas law_onward = lawful_onward[OF law_lawful] lawful_onward[OF quiet_lawful]

lemma rn_lift_frame:
  assumes "outcome (\<lambda>(res, r). R (rn_raft n) r) (f (rn_raft n))"
  shows "outcome (\<lambda>(res, n'). no_record R n n') (rn_lift f n)"
  using assms unfolding rn_lift_def no_record_def by (auto simp: outcome_def bind_eq_Some_conv)

lemma raw_step_onward:
  assumes "r_id (rn_raft n) \<noteq> INVALID_ID"
  shows "outcome (\<lambda>(res, n'). no_record onward n n') (rn_lift (raft_step E m) n)"
  by (rule rn_lift_frame) (intro frames; auto simp: assms intro: law_onward)

lemma rn_tick_onward:
  assumes "r_id (rn_raft n) \<noteq> INVALID_ID"
  shows "outcome (\<lambda>(b, n'). no_record onward n n') (rn_tick E n)"
  unfolding rn_tick_def no_record_def
  by (intro vcg frames) (auto simp: assms intro: law_onward)

lemma ready_without_accept_onward:
  "outcome (\<lambda>(rd, n'). no_record onward n n') (rn_ready_without_accept E n)"
  unfolding rn_ready_without_accept_def ready_new_def Let_def no_record_def
  by (intro vcg frames) (auto intro!: law_onward quiet_set_log simp: log_read_def)

lemma accept_ready_onward: "no_record onward n (rn_accept_ready rd n)"
  by (auto simp: no_record_def rn_accept_ready_def Let_def onward_def steady_def ballot_def split: option.split)

lemma on_conf_onward: "outcome (\<lambda>(out, n'). no_record onward n n') (on_conf E conf sent n)"
  unfolding on_conf_def rn_apply_conf_change_def no_record_def
  by (intro vcg frames outcome_any) (auto intro: lawful_onward)

lemma on_prop_onward:
  assumes "r_id (rn_raft n) \<noteq> INVALID_ID"
  shows "outcome (\<lambda>(out, n'). no_record onward n n') (on_prop E prop n)"
proof -
  note s = outcomeD[OF raw_step_onward[OF assms]]
  show ?thesis
    by (auto simp: outcome_def on_prop_def rn_step_def bind_eq_Some_conv no_record_def split: if_splits
        dest!: s)
qed

lemma on_recv_onward:
  assumes "r_id (rn_raft n) \<noteq> INVALID_ID"
  shows "outcome (no_record onward n) (on_recv E rcv n)"
proof -
  note s = outcomeD[OF raw_step_onward[OF assms]]
  show ?thesis
    by (auto simp: outcome_def on_recv_def bind_eq_Some_conv no_record_def split: if_splits dest!: s)
qed

section \<open>The loop keeps no record of what it publishes\<close>

lemma advance_without_record: "rn_records n = [] \<Longrightarrow> rn_advance E rd n = None"
  by (auto simp: rn_advance_def rn_advance_append_def rn_commit_ready_def Let_def split: option.split)

lemma publish_step_onward:
  assumes "publish_step E s = Some (out, s')"
  shows "no_record onward (nl_raw_node s) (nl_raw_node s')"
  using assms accept_ready_onward[of "nl_raw_node s" "nl_ready s"]
    outcomeD[OF ready_without_accept_onward, of E "nl_raw_node s"]
  by (auto simp: publish_check_def publish_take_def publish_accept_def no_record_def bind_eq_Some_conv
      split: position.splits if_splits)

lemma select_event_onward:
  assumes "r_id (rn_raft (nl_raw_node s)) \<noteq> INVALID_ID" "rn_records (nl_raw_node s) = []"
    "select_event E ev s = Some (out, s')"
  shows "no_record onward (nl_raw_node s) (nl_raw_node s')"
proof (cases ev)
  case (ConfEvent conf sent)
  then show ?thesis
    using assms(3) outcomeD[OF on_conf_onward, of E conf sent "nl_raw_node s"]
    by (auto simp: at_top_def bind_eq_Some_conv)
next
  case (PropEvent pm)
  then show ?thesis
    using assms(3) outcomeD[OF on_prop_onward[OF assms(1)], of E pm] by (auto simp: at_top_def bind_eq_Some_conv)
next
  case (RecvEvent rcv)
  then show ?thesis
    using assms(3) outcomeD[OF on_recv_onward[OF assms(1)], of E rcv] by (auto simp: at_top_def bind_eq_Some_conv)
next
  case TickEvent
  then show ?thesis
    using assms(3) outcomeD[OF rn_tick_onward[OF assms(1)], of E] by (auto simp: at_top_def bind_eq_Some_conv)
qed (use assms advance_without_record[OF assms(2)] in \<open>auto simp: at_top_def bind_eq_Some_conv no_record_def\<close>)

lemma node_loop_step_onward:
  assumes "node_loop_step E s out s'" "r_id (rn_raft (nl_raw_node s)) \<noteq> INVALID_ID" "rn_records (nl_raw_node s) = []"
  shows "no_record onward (nl_raw_node s) (nl_raw_node s')"
  using assms
proof cases
  case (client_tick b n)
  then show ?thesis using outcomeD[OF rn_tick_onward[OF assms(2)], of E] by auto
qed (use assms publish_step_onward select_event_onward in blast)+

lemma run_from_onward:
  assumes "run_from E s outs s'" "r_id (rn_raft (nl_raw_node s)) \<noteq> INVALID_ID" "rn_records (nl_raw_node s) = []"
  shows "no_record onward (nl_raw_node s) (nl_raw_node s')"
  using assms
proof induction
  case (more outs s1 out s2)
  then have 1: "no_record onward (nl_raw_node s) (nl_raw_node s1)" by simp
  then have "no_record onward (nl_raw_node s1) (nl_raw_node s2)"
    using node_loop_step_onward[OF more.hyps(2)] more.prems by (simp add: no_record_def onward_def steady_def)
  with 1 show ?case by (auto simp: no_record_def intro: onward_trans)
qed (simp add: no_record_def)

section \<open>Starting the loop\<close>

lemma bootstrap_apply_frame [frames]:
  assumes "\<And>r'. steady r r' \<Longrightarrow> Q r'"
  shows "outcome Q (bootstrap_apply E peers r)"
  using assms
proof (induction peers arbitrary: r)
  case (Cons p ps)
  show ?case
    unfolding bootstrap_apply.simps
    by (intro vcg frames Cons.IH) (auto intro!: Cons.prems simp: lawful_def elim: steady_trans)
qed simp

lemma rn_bootstrap_frame [frames]:
  assumes "\<And>res n'. rn_records n' = rn_records n \<Longrightarrow> r_id (rn_raft n') = r_id (rn_raft n) \<Longrightarrow> Q (res, n')"
  shows "outcome Q (rn_bootstrap E peers n)"
  unfolding rn_bootstrap_def Let_def
  by (intro vcg frames outcome_any assms) (auto simp: steady_def renews_def)

lemma start_node_frame:
  "outcome (\<lambda>s. rn_records (nl_raw_node s) = [] \<and> r_id (rn_raft (nl_raw_node s)) \<noteq> INVALID_ID \<and>
     s = inner_node_new (nl_raw_node s)) (start_node E c store peers)"
proof -
  have n: "r_id r \<noteq> INVALID_ID" if "raft_new E c store = Some (Inr r)" for r
    using outcomeD[OF raft_new_drawn that] by simp
  show ?thesis
    unfolding start_node_def raw_node_new_def
    by (intro vcg frames outcome_any) (auto simp: inner_node_new_def unwrap_def dest: n split: sum.splits)
qed

end
