(* ===== verification/Async_Runs.thy ===== *)
theory Async_Runs
  imports Async_Loop Replication
begin

text \<open>
  The properties of the asynchronous node: what a run of its loop does to the node, what it publishes,
  and how the calls of its clients arrive at the \<open>RawNode\<close>.
\<close>

section \<open>Runs\<close>

text \<open>
  C11. Whatever the clients of the asynchronous node do and however their ticks interleave with its
  loop: between any two points of a run of a started node the identity is constant, the term never
  decreases, a vote is never changed within a term, and the committed and the applied index never go
  back.
\<close>

theorem async_node_monotone:
  assumes "start_node E c store peers = Some s0" "run_from E s0 outs s" "run_from E s outs' s'"
    and "r = rn_raft (nl_raw_node s)" "r' = rn_raft (nl_raw_node s')"
  shows "r_id r' = r_id r \<and> r_term r \<le> r_term r' \<and>
    (r_term r' = r_term r \<and> r_vote r \<noteq> INVALID_ID \<longrightarrow> r_vote r' = r_vote r) \<and>
    rl_committed (r_raft_log r) \<le> rl_committed (r_raft_log r') \<and>
    rl_applied (r_raft_log r) \<le> rl_applied (r_raft_log r')"
proof -
  note s0 = outcomeD[OF start_node_frame assms(1)]
  have "no_record onward (nl_raw_node s0) (nl_raw_node s)" using run_from_onward[OF assms(2)] s0 by blast
  then have "no_record onward (nl_raw_node s) (nl_raw_node s')"
    using run_from_onward[OF assms(3)] s0 by (simp add: no_record_def onward_def steady_def)
  then show ?thesis using assms(4,5) by (simp add: no_record_def onward_def steady_def ballot_def)
qed

section \<open>What the loop publishes\<close>

definition readies :: "effect list \<Rightarrow> ready list" where
  "readies outs = [rd. ReadySent rd \<leftarrow> outs]"

lemma readies_simps [simp]:
  "readies [] = []" "readies (xs @ ys) = readies xs @ readies ys"
  "readies [ReadySent rd] = [rd]"
  by (simp_all add: readies_def)

definition published_inv :: "effect list \<Rightarrow> 's node_loop \<Rightarrow> bool" where
  "published_inv outs s \<longleftrightarrow> rn_records (nl_raw_node s) = [] \<and> r_id (rn_raft (nl_raw_node s)) \<noteq> INVALID_ID \<and>
     (if readies outs = [] then \<not> nl_wait_advance s \<and> nl_position s \<noteq> ReadyPublished
      else length (readies outs) = 1 \<and>
        (nl_position s = ReadyPublished \<or> nl_wait_advance s \<and> nl_position s \<in> {AtTop, Selecting, Returned}))"

lemma readies_select: "select_event E ev s = Some (out, s') \<Longrightarrow> readies out = []"
  by (cases ev) (auto simp: readies_def on_conf_def on_prop_def mr_notify_def mr_notify_and_close_def bind_eq_Some_conv
      split: if_splits option.splits)

lemma select_event_shape:
  assumes "rn_records (nl_raw_node s) = []" "select_event E ev s = Some (out, s')"
  shows "nl_wait_advance s' = nl_wait_advance s \<and> nl_position s' \<in> {AtTop, Returned}"
  using assms advance_without_record[OF assms(1)] by (cases ev) (auto simp: at_top_def bind_eq_Some_conv)

lemma publish_step_shape:
  assumes "publish_step E s = Some (out, s')"
  shows "case nl_position s of
      AtTop \<Rightarrow> readies out = [] \<and> nl_wait_advance s' = nl_wait_advance s \<and>
        (nl_position s' = Selecting \<or> nl_position s' = ReadyDue \<and> \<not> nl_wait_advance s)
    | ReadyDue \<Rightarrow> readies out = [] \<and> nl_wait_advance s' = nl_wait_advance s \<and> nl_position s' = ReadyTaken
    | ReadyTaken \<Rightarrow> length (readies out) = 1 \<and> nl_wait_advance s' = nl_wait_advance s \<and> nl_position s' = ReadyPublished
    | ReadyPublished \<Rightarrow> readies out = [] \<and> nl_wait_advance s' \<and> nl_position s' = Selecting
    | _ \<Rightarrow> False"
proof (cases "nl_position s")
  case AtTop
  then show ?thesis using assms by (auto simp: publish_check_def bind_eq_Some_conv split: if_splits)
next
  case ReadyDue
  then show ?thesis using assms by (auto simp: publish_take_def bind_eq_Some_conv)
next
  case ReadyTaken
  then show ?thesis using assms by auto
next
  case ReadyPublished
  then show ?thesis using assms by (auto simp: publish_accept_def)
qed (use assms in auto)

lemma published_inv_step:
  assumes "node_loop_step E s out s'" "published_inv outs s"
  shows "published_inv (outs @ out) s'"
proof -
  have n: "rn_records (nl_raw_node s') = []" "r_id (rn_raft (nl_raw_node s')) \<noteq> INVALID_ID"
    using node_loop_step_onward[OF assms(1)] assms(2)
    by (simp_all add: published_inv_def no_record_def onward_def steady_def)
  from assms(1) show ?thesis
  proof cases
    case publish
    show ?thesis
      using publish_step_shape[OF publish] n assms(2) unfolding published_inv_def
      by (cases "nl_position s") (auto split: if_splits)
  next
    case (select ev)
    have "readies out = []" "nl_wait_advance s' = nl_wait_advance s" "nl_position s' \<in> {AtTop, Returned}"
      using readies_select[OF select(2)] select_event_shape[OF _ select(2)] assms(2) by (auto simp: published_inv_def)
    then show ?thesis using n assms(2) select(1) by (auto simp: published_inv_def)
  next
    case (client_tick b n')
    then show ?thesis using n assms(2) by (auto simp: published_inv_def)
  qed
qed

text \<open>
  C33. The loop takes a \<open>Ready\<close> with \<open>ready_without_accept\<close>, which leaves no record, and hands it to
  \<open>advance\<close>, which unwraps the last record. So in every run of a started node, with any interleaving, the
  loop panics as soon as it receives an \<open>advance\<close>, and it publishes at most one \<open>Ready\<close> in its life.
\<close>

theorem async_publishes_once:
  assumes "start_node E c store peers = Some s0" "run_from E s0 outs s"
  shows "length (readies outs) \<le> 1 \<and> select_event E AdvanceEvent s = None"
proof -
  from assms(2) have "published_inv outs s"
  proof induction
    case start
    then show ?case
      using outcomeD[OF start_node_frame assms(1)]
      by (auto simp: published_inv_def inner_node_new_def dest: arg_cong[of _ _ nl_wait_advance] arg_cong[of _ _ nl_position])
  qed (rule published_inv_step)
  then show ?thesis by (auto simp: published_inv_def advance_without_record split: if_splits)
qed


text \<open>A run given by its choices: \<open>None\<close> lets the loop publish, \<open>Some ev\<close> lets it select \<open>ev\<close>.\<close>

fun drive :: "'s env \<Rightarrow> event option list \<Rightarrow> 's node_loop \<Rightarrow> (effect list \<times> 's node_loop) panics" where
  "drive E [] s = Some ([], s)"
| "drive E (c # cs) s = do {
     (out, s1) \<leftarrow> (case c of None \<Rightarrow> publish_step E s
                    | Some ev \<Rightarrow> do { ensure (nl_position s = Selecting); select_event E ev s });
     (outs, s2) \<leftarrow> drive E cs s1;
     Some (out @ outs, s2) }"

lemma run_from_trans:
  assumes "run_from E s1 outs' s2" "run_from E s outs s1"
  shows "run_from E s (outs @ outs') s2"
  using assms by induction (auto intro: run_from.intros simp flip: append_assoc)

lemma drive_run: "drive E cs s = Some (outs, s') \<Longrightarrow> run_from E s outs s'"
proof (induction cs arbitrary: s outs)
  case Nil
  then show ?case by (simp add: run_from.start)
next
  case (Cons c cs)
  then obtain out s1 outs1 where c: "(case c of None \<Rightarrow> publish_step E s
      | Some ev \<Rightarrow> do { ensure (nl_position s = Selecting); select_event E ev s }) = Some (out, s1)"
    and rest: "drive E cs s1 = Some (outs1, s')" "outs = out @ outs1"
    by (auto simp: bind_eq_Some_conv)
  have "node_loop_step E s out s1"
    using c by (auto simp del: publish_step.simps split: option.splits if_splits intro: node_loop_step.intros)
  then show ?case
    using run_from_trans[OF Cons.IH[OF rest(1)] run_from.more[OF run_from.start]] rest(2) by simp
qed

definition sample_peers :: "peer list" where
  "sample_peers = [\<lparr>peer_id = 1, peer_context = Some []\<rparr>]"

definition sample_async :: "mem_storage node_loop panics" where
  "sample_async = start_node sample_env (sample_config 1) mem_storage_new sample_peers"

definition sample_drive :: "event option list \<Rightarrow> (effect list \<times> mem_storage node_loop) panics" where
  "sample_drive cs = do { s \<leftarrow> sample_async; drive sample_env cs s }"

abbreviation sample_hup :: "event option" where
  "sample_hup \<equiv> Some (RecvEvent (Some (message_default\<lparr>m_type := MsgHup\<rparr>)))"

lemma sample_drive_eval:
  "map_option (\<lambda>(outs, s). (length (readies outs), nl_position s)) (sample_drive [None, sample_hup, None, None, None, None])
     = Some (1, Selecting)"
  by code_simp

lemma sample_drive_run:
  obtains s0 outs s where "start_node sample_env (sample_config 1) mem_storage_new sample_peers = Some s0"
    "run_from sample_env s0 outs s" "length (readies outs) = 1" "nl_position s = Selecting"
  using sample_drive_eval
  by (auto simp: sample_drive_def sample_async_def bind_eq_Some_conv simp del: drive.simps dest: drive_run)

theorem async_publishes_once_witness:
  "\<exists>s0 outs s. start_node sample_env (sample_config 1) mem_storage_new sample_peers = Some s0 \<and>
     run_from sample_env s0 outs s \<and> length (readies outs) = 1 \<and> nl_position s = Selecting \<and>
     select_event sample_env AdvanceEvent s = None"
proof -
  obtain s0 outs s where s: "start_node sample_env (sample_config 1) mem_storage_new sample_peers = Some s0"
    "run_from sample_env s0 outs s" "length (readies outs) = 1" "nl_position s = Selecting"
    by (rule sample_drive_run)
  have "select_event sample_env AdvanceEvent s = None" using async_publishes_once[OF s(1,2)] by (rule conjunct2)
  then show ?thesis using s by blast
qed

theorem async_node_monotone_witness:
  "\<exists>s0 outs s. start_node sample_env (sample_config 1) mem_storage_new sample_peers = Some s0 \<and>
     run_from sample_env s0 outs s \<and>
     r_term (rn_raft (nl_raw_node s0)) \<le> r_term (rn_raft (nl_raw_node s)) \<and>
     rl_committed (r_raft_log (rn_raft (nl_raw_node s0))) \<le> rl_committed (r_raft_log (rn_raft (nl_raw_node s)))"
proof -
  obtain s0 outs s where s: "start_node sample_env (sample_config 1) mem_storage_new sample_peers = Some s0"
    "run_from sample_env s0 outs s"
    by (rule sample_drive_run)
  show ?thesis using async_node_monotone[OF s(1) run_from.start s(2) refl refl] s by blast
qed

section \<open>Handing over a Ready\<close>

context log_storage
begin

lemma rl_all_entries_eq:
  assumes wf: "log_wf W lg"
  shows "\<exists>s'. rl_all_entries E lg = Some (log_ents W lg, lg\<lparr>rl_store := s'\<rparr>) \<and> same_view W (rl_store lg) s'"
proof (cases "log_ents W lg = []")
  case True
  then show ?thesis
    using wf by (subst rl_all_entries.simps)
      (auto simp: rl_first_index_eq rl_last_index_eq rl_entries_def log_last_def same_view_def log_wf_def
        intro!: exI[of _ "rl_store lg"])
next
  case False
  then have l: "log_base W lg + 1 \<le> log_last W lg" by (cases "log_ents W lg") (auto simp: log_last_def)
  have "log_range W lg (log_base W lg + 1) (log_last W lg + 1) = log_ents W lg"
    by (simp add: log_range_def log_last_def)
  then obtain s' where "rl_slice E (log_base W lg + 1) (log_last W lg + 1) None (Empty False) lg
      = Some (Inr (log_ents W lg), lg\<lparr>rl_store := s'\<rparr>)" "same_view W (rl_store lg) s'"
    using rl_slice_eq[OF wf, of "log_base W lg + 1" "log_last W lg + 1" None "Empty False"] l by auto
  then show ?thesis
    using l wf by (subst rl_all_entries.simps) (auto simp: rl_first_index_eq rl_last_index_eq rl_entries_def)
qed

end

definition current_ready :: "entry list \<Rightarrow> 's raft \<Rightarrow> ready" where
  "current_ready ents r = \<lparr>rd_number = 0, rd_ss = Some (raft_soft_state r), rd_hs = Some (raft_hard_state r),
     rd_read_states = r_read_states r, rd_entries = u_entries (rl_unstable (r_raft_log r)),
     rd_snapshot = (case u_snapshot (rl_unstable (r_raft_log r)) of Some sn \<Rightarrow> sn | None \<Rightarrow> snapshot_default),
     rd_is_persisted_msg = True,
     rd_light = \<lparr>lr_commit_index = Some (rl_committed (r_raft_log r)), lr_committed_entries = ents, lr_messages = r_msgs r\<rparr>,
     rd_must_sync = True\<rparr>"

lemma ready_new_eq:
  assumes "rl_all_entries E (r_raft_log r) = Some (ents, (r_raft_log r)\<lparr>rl_store := st\<rparr>)"
  shows "ready_new E r (Some pss) phs = Some (current_ready ents r, set_log ((r_raft_log r)\<lparr>rl_store := st\<rparr>) r)"
proof -
  have eqs: "raft_hard_state (set_log ((r_raft_log r)\<lparr>rl_store := st\<rparr>) r) = raft_hard_state r"
    "raft_soft_state (set_log ((r_raft_log r)\<lparr>rl_store := st\<rparr>) r) = raft_soft_state r"
    "rl_unstable_entries ((r_raft_log r)\<lparr>rl_store := st\<rparr>) = u_entries (rl_unstable (r_raft_log r))"
    by (simp_all add: raft_hard_state_def raft_soft_state_def rl_unstable_entries_def)
  show ?thesis
    by (cases "u_snapshot (rl_unstable (r_raft_log r))"; cases "raft_soft_state r = pss"; cases "phs = raft_hard_state r";
      cases "r_read_states r = []") (simp_all add: ready_new_def assms Let_def eqs current_ready_def)
qed

text \<open>
  C32. Handing over a \<open>Ready\<close>. When the loop has found its node ready and nothing interleaves, the
  next three accesses succeed on a well-formed log: exactly one \<open>Ready\<close> is sent, it carries the whole
  mailbox, the unstable entries and snapshot, the read states, and the current hard and soft state; then the
  mailbox and the read states are empty, nothing else of the node has changed (the storage may have been read),
  and the loop waits for \<open>advance\<close>. The entries sent as committed are the whole log.
\<close>

theorem async_handover:
  assumes env: "log_storage E W" and wf: "log_wf W (r_raft_log r)" and r: "r = rn_raft (nl_raw_node s)"
    and pos: "nl_position s = ReadyDue"
  shows "\<exists>rd st s1 s2 s3. publish_step E s = Some ([], s1) \<and> publish_step E s1 = Some ([ReadySent rd], s2) \<and>
    publish_step E s2 = Some ([], s3) \<and> nl_position s3 = Selecting \<and> nl_wait_advance s3 \<and>
    lr_messages (rd_light rd) = r_msgs r \<and> rd_entries rd = u_entries (rl_unstable (r_raft_log r)) \<and>
    rd_snapshot rd = (case u_snapshot (rl_unstable (r_raft_log r)) of Some sn \<Rightarrow> sn | None \<Rightarrow> snapshot_default) \<and>
    rd_read_states rd = r_read_states r \<and> rd_hs rd = Some (raft_hard_state r) \<and> rd_ss rd = Some (raft_soft_state r) \<and>
    lr_committed_entries (rd_light rd) = log_ents W (r_raft_log r) \<and>
    same_view W (rl_store (r_raft_log r)) st \<and>
    rn_raft (nl_raw_node s3) =
      r\<lparr>r_raft_log := (r_raft_log r)\<lparr>rl_store := st\<rparr>, r_read_states := [], r_msgs := []\<rparr>"
proof -
  obtain st where st: "rl_all_entries E (r_raft_log r) = Some (log_ents W (r_raft_log r), (r_raft_log r)\<lparr>rl_store := st\<rparr>)"
    "same_view W (rl_store (r_raft_log r)) st"
    using log_storage.rl_all_entries_eq[OF env wf] by blast
  define rd where "rd = current_ready (log_ents W (r_raft_log r)) r"
  define s1 where "s1 = s\<lparr>nl_raw_node := nl_raw_node s\<lparr>rn_raft := set_log ((r_raft_log r)\<lparr>rl_store := st\<rparr>) r\<rparr>,
    nl_ready := rd, nl_position := ReadyTaken\<rparr>"
  define s2 where "s2 = s1\<lparr>nl_position := ReadyPublished\<rparr>"
  have "publish_step E s = Some ([], s1)"
    using pos by (simp add: publish_take_def rn_ready_without_accept_def ready_new_eq[OF st(1)] s1_def rd_def flip: r)
  moreover have "publish_step E s1 = Some ([ReadySent rd], s2)" by (simp add: s1_def s2_def)
  moreover have "publish_step E s2 = Some ([], publish_accept s2)" by (simp add: s2_def)
  moreover have "rn_raft (nl_raw_node (publish_accept s2)) =
      r\<lparr>r_raft_log := (r_raft_log r)\<lparr>rl_store := st\<rparr>, r_read_states := [], r_msgs := []\<rparr>"
    by (simp add: publish_accept_def rn_accept_ready_def s1_def s2_def rd_def current_ready_def)
  ultimately show ?thesis
    using st(2) by (intro exI[of _ rd] exI[of _ st] exI[of _ s1] exI[of _ s2] exI[of _ "publish_accept s2"])
      (simp add: rd_def current_ready_def publish_accept_def)
qed

text \<open>A leader in the loop, with its mailbox full, when a \<open>Ready\<close> is due.\<close>

definition sample_due :: "mem_storage node_loop" where
  "sample_due = (inner_node_new \<lparr>rn_raft = sample_leader, rn_prev_ss = raft_soft_state sample_leader,
     rn_prev_hs = raft_hard_state sample_leader, rn_max_number = 0, rn_records = [], rn_commit_since_index = 0\<rparr>)
     \<lparr>nl_first := False, nl_position := ReadyDue\<rparr>"

lemma sample_due_raft: "rn_raft (nl_raw_node sample_due) = sample_leader" "nl_position sample_due = ReadyDue"
  by (simp_all add: sample_due_def inner_node_new_def)

theorem async_handover_witness:
  "\<exists>rd s1 s2 s3. publish_step sample_env sample_due = Some ([], s1) \<and> publish_step sample_env s1 = Some ([ReadySent rd], s2) \<and>
     publish_step sample_env s2 = Some ([], s3) \<and> lr_messages (rd_light rd) = r_msgs sample_leader \<and>
     r_msgs (rn_raft (nl_raw_node s3)) = []"
proof -
  note h = async_handover[OF sample_env_storage sample_leader_log sample_due_raft(1)[symmetric] sample_due_raft(2)]
  show ?thesis using h by (elim exE conjE) (intro exI conjI, assumption+, simp)
qed

text \<open>
  Without the exclusion of interleaving the mailbox is not handed over: the client's ticks between taking and
  accepting the \<open>Ready\<close> make this leader send heartbeats, which are in no \<open>Ready\<close> and no longer in the mailbox.
\<close>

definition sample_beat :: "(message list \<times> message list \<times> effect list \<times> message list) panics" where
  "sample_beat = do {
     (o1, s1) \<leftarrow> publish_step sample_env sample_due;
     (_, n1) \<leftarrow> rn_tick sample_env (nl_raw_node s1);
     (_, n2) \<leftarrow> rn_tick sample_env n1;
     (o2, s2) \<leftarrow> publish_step sample_env (s1\<lparr>nl_raw_node := n2\<rparr>);
     (o3, s3) \<leftarrow> publish_step sample_env s2;
     Some (r_msgs sample_leader, r_msgs (rn_raft n2), o1 @ o2 @ o3, r_msgs (rn_raft (nl_raw_node s3))) }"

lemma sample_beat_eval:
  "map_option (\<lambda>(before, with_beats, outs, after).
     (map m_type (drop (length before) with_beats), concat (map (\<lambda>rd. map m_type (lr_messages (rd_light rd))) (readies outs)), after))
     sample_beat = Some ([MsgHeartbeat, MsgHeartbeat], map m_type (r_msgs sample_leader), [])"
  by code_simp

section \<open>The calls of the clients\<close>

lemma serve_single:
  "serve E [q] s = select_event E (deliver q) s"
  by (cases "select_event E (deliver q) s") auto

lemma on_recv_stepped:
  "on_recv E (Some m) n =
     (if tracker_get (r_prs (rn_raft n)) (m_from m) \<noteq> None \<or> \<not> is_response_msg (m_type m)
      then rn_step_ignore E m n else Some n)"
  by (cases "raft_step E m (rn_raft n)") (auto simp: on_recv_def rn_lift_def rn_step_ignore_def step_ignore_def)

definition served_node :: "'s env \<Rightarrow> request list \<Rightarrow> 's node_loop \<Rightarrow> (effect list \<times> 's raw_node) panics" where
  "served_node E reqs s = map_option (\<lambda>(out, s'). (out, nl_raw_node s')) (serve E reqs s)"

lemma served_recv:
  "served_node E [ToRecv m] s = map_option (Pair [])
     (if tracker_get (r_prs (rn_raft (nl_raw_node s))) (m_from m) \<noteq> None \<or> \<not> is_response_msg (m_type m)
      then rn_step_ignore E m (nl_raw_node s) else Some (nl_raw_node s))"
  by (cases "on_recv E (Some m) (nl_raw_node s)")
    (auto simp: served_node_def on_recv_stepped at_top_def split: if_splits)

lemma served_prop:
  assumes "mr_m pm = Some m" "mr_ch pm = Some ch" "m_type m = MsgPropose"
  shows "served_node E [ToProp pm] s =
    (if \<not> is_voter (nl_raw_node s) then Some ([Replied ch (Inl NotIsVoter)], nl_raw_node s)
     else if r_leader_id (rn_raft (nl_raw_node s)) = INVALID_ID then Some ([Replied ch (Inl NoLeader)], nl_raw_node s)
     else map_option (\<lambda>(res, n'). ([Replied ch res, ReplyClosed ch], n'))
       (rn_lift (raft_step E (m\<lparr>m_from := r_id (rn_raft (nl_raw_node s))\<rparr>)) (nl_raw_node s)))"
  using assms
  by (cases "rn_lift (raft_step E (m\<lparr>m_from := r_id (rn_raft (nl_raw_node s))\<rparr>)) (nl_raw_node s)")
    (auto simp: served_node_def on_prop_def mr_notify_def mr_notify_and_close_def at_top_def has_leader_def NONE_def INVALID_ID_def
      rn_step_def is_local_msg_def is_response_msg_def)

text \<open>
  C12. The calls of the clients arrive at the node as the calls of \<open>RawNode\<close> of the same name. What \<open>campaign\<close>,
  \<open>read_index\<close>, \<open>report_snapshot\<close> and \<open>report_unreachable\<close> send makes the loop do to its node exactly what the
  method of \<open>RawNode\<close> does (a report about a peer that is not tracked does nothing). A proposal is answered once: refused
  with \<open>NotIsVoter\<close> or \<open>NoLeader\<close>, with the node unchanged, or stepped like \<open>RawNode::propose\<close>, whose result is
  the answer.
\<close>

theorem async_calls_refine_raw_node:
  "map_option (\<lambda>(reqs, _). served_node E reqs s) (node_campaign False) =
      Some (map_option (\<lambda>(_, n'). ([], n')) (rn_campaign E (nl_raw_node s))) \<and>
    map_option (\<lambda>(reqs, _). served_node E reqs s) (node_read_index False ctx) =
      Some (map_option (Pair []) (rn_read_index E ctx (nl_raw_node s))) \<and>
    served_node E (node_report_snapshot False i st) s = map_option (Pair []) (rn_report_snapshot E i st (nl_raw_node s)) \<and>
    served_node E (node_report_unreachable False i) s =
      (if tracker_get (r_prs (rn_raft (nl_raw_node s))) i = None then Some ([], nl_raw_node s)
       else map_option (Pair []) (rn_report_unreachable E i (nl_raw_node s))) \<and>
    map_option (\<lambda>(reqs, res). (served_node E reqs s, res)) (node_propose False ch (Got ans) data) =
      Some (if \<not> is_voter (nl_raw_node s) then Some ([Replied ch (Inl NotIsVoter)], nl_raw_node s)
            else if r_leader_id (rn_raft (nl_raw_node s)) = INVALID_ID then Some ([Replied ch (Inl NoLeader)], nl_raw_node s)
            else map_option (\<lambda>(res, n'). ([Replied ch res, ReplyClosed ch], n')) (rn_propose E [] data (nl_raw_node s)), ans)"
proof (intro conjI)
  have "map_option snd (rn_campaign E (nl_raw_node s)) =
      rn_step_ignore E (message_default\<lparr>m_type := MsgHup\<rparr>) (nl_raw_node s)"
    by (cases "raft_step E (message_default\<lparr>m_type := MsgHup\<rparr>) (rn_raft (nl_raw_node s))")
      (auto simp: rn_campaign_def rn_lift_def rn_step_ignore_def step_ignore_def)
  then show "map_option (\<lambda>(reqs, _). served_node E reqs s) (node_campaign False) =
      Some (map_option (\<lambda>(_, n'). ([], n')) (rn_campaign E (nl_raw_node s)))"
    by (cases "rn_campaign E (nl_raw_node s)")
      (auto simp: node_campaign_def do_step_def step_wait_option_def served_recv is_response_msg_def)
qed (simp_all add: node_read_index_def node_step_def do_step_def step_wait_option_def served_recv is_response_msg_def
    is_local_msg_def rn_read_index_def node_report_snapshot_def send_recv_def rn_report_snapshot_def
    node_report_unreachable_def rn_report_unreachable_def node_propose_def step_wait_def new_with_channel_def
    served_prop rn_propose_def Let_def message_default_def entry_default_def)

end
