(* ===== verification/Datadriven.thy ===== *)
theory Datadriven
  imports Proto
begin

text \<open>
  The data-driven test library of the repository (\<open>raft-rs/datadriven/src\<close>): directives are read from the lines of
  a text file, a function is called on each of them, and its output is compared with the expected output
  in the file (test mode) or written in its place (rewrite mode). Text is ASCII. The scanner
  \<open>Enumerate<Lines>\<close> is the list of the numbered lines that are left; the errors of \<open>anyhow\<close> are their
  messages. The function under test is a closure with a state: it takes a state and returns a new one. Reading
  and writing the files (\<open>run_test\<close>, \<open>walk\<close>, \<open>get_dirs_or_file\<close>) is not modelled.
\<close>

section \<open>Strings of the standard library\<close>

abbreviation newline :: char where
  "newline \<equiv> CHR 0x0A"

abbreviation carriage_return :: char where
  "carriage_return \<equiv> CHR 0x0D"

text \<open>\<open>str::split\<close> and \<open>str::splitn(2, _)\<close> on a character, and \<open>join\<close>.\<close>

fun str_split :: "char \<Rightarrow> string \<Rightarrow> string list" where
  "str_split d [] = [[]]"
| "str_split d (c # s) = (if c = d then [] # str_split d s else (case str_split d s of l # ls \<Rightarrow> (c # l) # ls))"

definition splitn2 :: "char \<Rightarrow> string \<Rightarrow> string list" where
  "splitn2 d s = (case dropWhile (\<lambda>c. c \<noteq> d) s of
       [] \<Rightarrow> [s]
     | _ # rest \<Rightarrow> [takeWhile (\<lambda>c. c \<noteq> d) s, rest])"

fun str_join :: "string \<Rightarrow> string list \<Rightarrow> string" where
  "str_join d [] = []"
| "str_join d [x] = x"
| "str_join d (x # xs) = x @ d @ str_join d xs"

text \<open>\<open>str::lines\<close>: a line ends with a newline, or a carriage return and a newline; the last line need not end.\<close>

definition strip_return :: "string \<Rightarrow> string" where
  "strip_return s = (if s \<noteq> [] \<and> last s = carriage_return then butlast s else s)"

definition str_lines :: "string \<Rightarrow> string list" where
  "str_lines s = (let ls = str_split newline s in
     map strip_return (butlast ls) @ (if last ls = [] then [] else [last ls]))"

section \<open>Arguments and test cases\<close>

record cmd_arg =
  ca_key :: string
  ca_vals :: "string list"

definition cmd_arg_fmt :: "cmd_arg \<Rightarrow> string" where
  "cmd_arg_fmt a = (case ca_vals a of
       [] \<Rightarrow> ca_key a
     | [v] \<Rightarrow> ca_key a @ ''='' @ v
     | vs \<Rightarrow> ca_key a @ ''=('' @ str_join '','' vs @ '')'')"

record test_data =
  td_pos :: string
  td_cmd :: string
  td_cmd_args :: "cmd_arg list"
  td_input :: string
  td_expected :: string

definition test_data_default :: test_data where
  "test_data_default = \<lparr>td_pos = [], td_cmd = [], td_cmd_args = [], td_input = [], td_expected = []\<rparr>"

fun contains_loop :: "string \<Rightarrow> cmd_arg list \<Rightarrow> bool" where
  "contains_loop k [] = False"
| "contains_loop k (a # as) = (if ca_key a = k then True else contains_loop k as)"

definition contains_key :: "test_data \<Rightarrow> string \<Rightarrow> bool" where
  "contains_key d k = contains_loop k (td_cmd_args d)"

section \<open>The directive line\<close>

text \<open>
  The regular expression \<open>RE\<close>. Its parts need no backtracking, since a name is followed by no character of a name, and so on;
  \<open>re_match\<close> is the length of its match. The lemma \<open>re_match_iff\<close> compares it with the language of the expression.
\<close>

definition name_char :: "char \<Rightarrow> bool" where
  "name_char c \<longleftrightarrow> (let n = of_char c :: nat in 97 \<le> n \<and> n \<le> 122 \<or> 65 \<le> n \<and> n \<le> 90 \<or> 48 \<le> n \<and> n \<le> 57) \<or>
     c \<in> set ''-/_,.''"

definition val_char :: "char \<Rightarrow> bool" where
  "val_char c \<longleftrightarrow> (let n = of_char c :: nat in 97 \<le> n \<and> n \<le> 122 \<or> 65 \<le> n \<and> n \<le> 90 \<or> 48 \<le> n \<and> n \<le> 57) \<or>
     c \<in> set ''-_@=+/,.''"

definition field_end :: "string \<Rightarrow> nat option" where
  "field_end s = (case s of [] \<Rightarrow> Some 0 | c # _ \<Rightarrow> if c = CHR '' '' then Some 1 else None)"

definition plain_value :: "string \<Rightarrow> nat option" where
  "plain_value s = (case s of
       c # r \<Rightarrow> if c = CHR ''='' then map_option (\<lambda>n. 1 + length (takeWhile val_char r) + n) (field_end (dropWhile val_char r)) else None
     | [] \<Rightarrow> None)"

definition list_value :: "string \<Rightarrow> nat option" where
  "list_value s = (case s of
       c # c' # r \<Rightarrow> if c = CHR ''='' \<and> c' = CHR ''('' then
           (case dropWhile (\<lambda>c. c \<noteq> CHR '')'') r of
              [] \<Rightarrow> None
            | _ # r' \<Rightarrow> map_option (\<lambda>n. 3 + length (takeWhile (\<lambda>c. c \<noteq> CHR '')'') r) + n) (field_end r'))
         else None
     | _ \<Rightarrow> None)"

definition re_match :: "string \<Rightarrow> nat option" where
  "re_match s = (let spaces = takeWhile (\<lambda>c. c = CHR '' '') s; s1 = dropWhile (\<lambda>c. c = CHR '' '') s;
       name = takeWhile name_char s1; s2 = dropWhile name_char s1
     in if name = [] then None
        else map_option (\<lambda>n. length spaces + length name + n)
          (case field_end s2 of Some n \<Rightarrow> Some n
           | None \<Rightarrow> (case plain_value s2 of Some n \<Rightarrow> Some n | None \<Rightarrow> list_value s2)))"

lemma re_match_pos: "re_match s = Some n \<Longrightarrow> 0 < n"
  by (auto simp: re_match_def Let_def split: if_splits)

function split_loop :: "string \<Rightarrow> string \<Rightarrow> string list \<Rightarrow> string + string list" where
  "split_loop origin line res = (if line = [] then Inr res else
     case re_match line of
       Some n \<Rightarrow> split_loop origin (drop n line) (res @ [trim (take n line)])
     | None \<Rightarrow> Inl (''cannot parse directive at column '' @ string_of_nat (length origin - length line + 1) @ '': '' @ origin))"
  by pat_completeness auto
termination
  by (relation "measure (\<lambda>(_, line, _). length line)") (auto dest: re_match_pos)

definition split_directives :: "string \<Rightarrow> string + string list" where
  "split_directives line = split_loop line line []"

definition parse_arg :: "string \<Rightarrow> string + cmd_arg" where
  "parse_arg arg = (case splitn2 (CHR ''='') arg of
       [key] \<Rightarrow> Inr \<lparr>ca_key = key, ca_vals = []\<rparr>
     | [key, val] \<Rightarrow>
         if val \<noteq> [] \<and> hd val = CHR ''('' \<and> last val = CHR '')''
         then Inr \<lparr>ca_key = key, ca_vals = map trim (str_split (CHR '','') (butlast (tl val)))\<rparr>
         else Inr \<lparr>ca_key = key, ca_vals = [val]\<rparr>
     | _ \<Rightarrow> Inl (''unknown argument format: '' @ arg))"

fun parse_args :: "string list \<Rightarrow> string + cmd_arg list" where
  "parse_args [] = Inr []"
| "parse_args (arg # args) = (case parse_arg arg of
       Inl e \<Rightarrow> Inl e
     | Inr a \<Rightarrow> (case parse_args args of Inl e \<Rightarrow> Inl e | Inr as \<Rightarrow> Inr (a # as)))"

definition parse_line :: "string \<Rightarrow> string + (string \<times> cmd_arg list)" where
  "parse_line line = (case split_directives line of
       Inl e \<Rightarrow> Inl e
     | Inr [] \<Rightarrow> Inr ([], [])
     | Inr (cmd # args) \<Rightarrow> (case parse_args args of Inl e \<Rightarrow> Inl e | Inr as \<Rightarrow> Inr (cmd, as)))"

section \<open>The reader\<close>

type_synonym scanner = "(nat \<times> string) list"

record reader =
  rd_source_name :: string
  rd_data :: test_data
  rd_scanner :: scanner
  rd_rewrite_buffer :: "string option"

definition reader_new :: "string \<Rightarrow> string \<Rightarrow> bool \<Rightarrow> reader" where
  "reader_new source_name content rewrite = \<lparr>rd_source_name = source_name, rd_data = test_data_default,
     rd_scanner = enumerate 0 (str_lines content), rd_rewrite_buffer = (if rewrite then Some [] else None)\<rparr>"

definition emit_to :: "string \<Rightarrow> string option \<Rightarrow> string option" where
  "emit_to s buf = map_option (\<lambda>rb. rb @ s @ [newline]) buf"

definition emit :: "string \<Rightarrow> reader \<Rightarrow> reader" where
  "emit s r = r\<lparr>rd_rewrite_buffer := emit_to s (rd_rewrite_buffer r)\<rparr>"

text \<open>The parts of \<open>next\<close>: comments and empty lines are skipped, lines that end with a backslash are continued, and the input is read up to the separator.\<close>

fun skip_comments :: "scanner \<Rightarrow> string option \<Rightarrow> (nat \<times> string) option \<times> scanner \<times> string option" where
  "skip_comments [] buf = (None, [], buf)"
| "skip_comments ((pos, l) # sc) buf = (let buf1 = emit_to l buf; line = trim l in
     if line = [] \<or> hd line = CHR ''#'' then skip_comments sc buf1 else (Some (pos, line), sc, buf1))"

fun continue_line :: "nat \<Rightarrow> string \<Rightarrow> scanner \<Rightarrow> string option \<Rightarrow> (nat \<times> string \<times> scanner \<times> string option) panics" where
  "continue_line pos line [] buf = (if line \<noteq> [] \<and> last line = CHR 0x5C then None else Some (pos, line, [], buf))"
| "continue_line pos line ((k, l) # sc) buf = (if line \<noteq> [] \<and> last line = CHR 0x5C then
       let next_line = trim l in
       continue_line (pos + 1) (if next_line = [] then butlast line else butlast line @ '' '' @ next_line) sc (emit_to l buf)
     else Some (pos, line, (k, l) # sc, buf))"

fun read_input :: "scanner \<Rightarrow> string \<Rightarrow> string option \<Rightarrow> string \<times> bool \<times> scanner \<times> string option" where
  "read_input [] acc buf = (acc, False, [], buf)"
| "read_input ((k, l) # sc) acc buf = (if l = ''----'' then (acc, True, sc, buf)
     else read_input sc (acc @ l @ [newline]) (emit_to l buf))"

text \<open>The two loops of \<open>read_expected\<close>: up to a double separator, or up to a blank line.\<close>

fun read_blank_lines :: "scanner \<Rightarrow> string \<Rightarrow> (string \<times> scanner) panics" where
  "read_blank_lines [] acc = None"
| "read_blank_lines [(k, l)] acc = None"
| "read_blank_lines ((k, l) # (k2, l2) # sc) acc = (if l = ''----'' then
       (if l2 = ''----'' then (case sc of [] \<Rightarrow> Some (acc, []) | (k3, l3) # sc3 \<Rightarrow> if l3 = [] then Some (acc, sc3) else None)
        else read_blank_lines sc (acc @ l @ [newline] @ l2 @ [newline]))
     else read_blank_lines ((k2, l2) # sc) (acc @ l @ [newline]))"

fun read_plain_lines :: "string \<Rightarrow> scanner \<Rightarrow> string \<Rightarrow> string \<times> scanner" where
  "read_plain_lines line [] acc = (if trim line = [] then (acc, []) else (acc @ line @ [newline], []))"
| "read_plain_lines line ((k, l) # sc) acc = (if trim line = [] then (acc, (k, l) # sc)
     else read_plain_lines l sc (acc @ line @ [newline]))"

definition read_expected :: "scanner \<Rightarrow> (string \<times> scanner) panics" where
  "read_expected sc = (case sc of
       [] \<Rightarrow> Some (read_plain_lines [] [] [])
     | (k, l) # sc1 \<Rightarrow> if l = ''----'' then read_blank_lines sc1 [] else Some (read_plain_lines l sc1 []))"

definition reader_next :: "reader \<Rightarrow> ((string + bool) \<times> reader) panics" where
  "reader_next r = (case skip_comments (rd_scanner r) (rd_rewrite_buffer r) of
       (None, sc, buf) \<Rightarrow> Some (Inr False, r\<lparr>rd_scanner := sc, rd_rewrite_buffer := buf\<rparr>)
     | (Some (pos0, line0), sc0, buf0) \<Rightarrow> do {
         (pos, line, sc1, buf1) \<leftarrow> continue_line pos0 line0 sc0 buf0;
         let data = test_data_default\<lparr>td_pos := rd_source_name r @ '' : L'' @ string_of_nat (pos + 1)\<rparr>;
         let r1 = r\<lparr>rd_data := data, rd_scanner := sc1, rd_rewrite_buffer := buf1\<rparr>;
         case parse_line line of
           Inl e \<Rightarrow> Some (Inl e, r1)
         | Inr (cmd, args) \<Rightarrow>
             if cmd = [] then Some (Inl ''cmd must not be empty'', r1)
             else do {
               let (input, separator, sc2, buf2) = read_input sc1 [] buf1;
               (expected, sc3) \<leftarrow> (if separator then read_expected sc2 else Some ([], sc2));
               Some (Inr True, r1\<lparr>rd_data := data\<lparr>td_cmd := cmd, td_cmd_args := args, td_input := trim input, td_expected := expected\<rparr>,
                 rd_scanner := sc3, rd_rewrite_buffer := buf2\<rparr>) } })"

section \<open>Running the tests of a file\<close>

text \<open>The regular expression \<open>BLANK_LINE_RE\<close>: a line of tabs and spaces that ends with a newline.\<close>

definition has_blank_line :: "string \<Rightarrow> bool" where
  "has_blank_line s = list_ex (list_all (\<lambda>c. c = CHR 0x09 \<or> c = CHR '' '')) (butlast (str_split newline s))"

definition finish_output :: "string \<Rightarrow> string" where
  "finish_output actual = (if actual \<noteq> [] \<and> last actual \<noteq> newline then actual @ [newline] else actual)"

type_synonym 's tested = "'s \<Rightarrow> test_data \<Rightarrow> string \<times> 's"

definition run_directive :: "'s tested \<Rightarrow> reader \<Rightarrow> 's \<Rightarrow> (reader \<times> 's) panics" where
  "run_directive f r s = (let (out, s1) = f s (rd_data r); actual = finish_output out in
     case rd_rewrite_buffer r of
       None \<Rightarrow> if actual = td_expected (rd_data r) then Some (r, s1) else None
     | Some _ \<Rightarrow>
         let r1 = emit ''----'' r in
         if has_blank_line actual then
           let r2 = emit ''----'' r1;
               r3 = r2\<lparr>rd_rewrite_buffer := map_option (\<lambda>rb. rb @ actual) (rd_rewrite_buffer r2)\<rparr>
           in Some (emit [] (emit ''----'' (emit ''----'' r3)), s1)
         else Some (emit actual r1, s1))"

text \<open>A directive takes at least one line from the scanner.\<close>

lemma skip_comments_shorter: "skip_comments sc buf = (Some x, sc', buf') \<Longrightarrow> length sc' < length sc"
  by (induction sc arbitrary: buf) (fastforce simp: Let_def split: if_splits)+

lemma continue_line_shorter: "continue_line pos line sc buf = Some (pos', line', sc', buf') \<Longrightarrow> length sc' \<le> length sc"
  by (induction pos line sc buf rule: continue_line.induct) (auto simp: Let_def split: if_splits)

lemma read_input_shorter: "read_input sc acc buf = (input, b, sc', buf') \<Longrightarrow> length sc' \<le> length sc"
  by (induction sc acc buf rule: read_input.induct) (auto split: if_splits)

lemma read_blank_lines_shorter: "read_blank_lines sc acc = Some (e, sc') \<Longrightarrow> length sc' \<le> length sc"
  by (induction sc acc rule: read_blank_lines.induct) (auto split: if_splits list.splits)

lemma read_plain_lines_shorter: "read_plain_lines l sc acc = (e, sc') \<Longrightarrow> length sc' \<le> length sc"
  by (induction l sc acc rule: read_plain_lines.induct) (auto split: if_splits)

text \<open>The data of a directive that has been read.\<close>

definition directive_data :: "string \<Rightarrow> nat \<Rightarrow> string \<Rightarrow> cmd_arg list \<Rightarrow> string \<Rightarrow> string \<Rightarrow> test_data" where
  "directive_data source pos cmd args input expected = \<lparr>td_pos = source @ '' : L'' @ string_of_nat (pos + 1), td_cmd = cmd,
     td_cmd_args = args, td_input = trim input, td_expected = expected\<rparr>"

lemma reader_next_True:
  "reader_next r = Some (Inr True, r') \<longleftrightarrow> (\<exists>pos0 line0 sc0 buf0 pos line sc1 buf1 cmd args input sep sc2 buf2 expected sc3.
     skip_comments (rd_scanner r) (rd_rewrite_buffer r) = (Some (pos0, line0), sc0, buf0) \<and>
     continue_line pos0 line0 sc0 buf0 = Some (pos, line, sc1, buf1) \<and> parse_line line = Inr (cmd, args) \<and> cmd \<noteq> [] \<and>
     read_input sc1 [] buf1 = (input, sep, sc2, buf2) \<and> (if sep then read_expected sc2 else Some ([], sc2)) = Some (expected, sc3) \<and>
     r' = r\<lparr>rd_data := directive_data (rd_source_name r) pos cmd args input expected, rd_scanner := sc3, rd_rewrite_buffer := buf2\<rparr>)"
  (is "?l \<longleftrightarrow> ?r")
proof
  assume l: ?l
  obtain x sc0 buf0 where sk: "skip_comments (rd_scanner r) (rd_rewrite_buffer r) = (x, sc0, buf0)" by (cases "skip_comments (rd_scanner r) (rd_rewrite_buffer r)")
  then obtain pos0 line0 where x: "x = Some (pos0, line0)" using l by (cases x) (auto simp: reader_next_def)
  obtain pos line sc1 buf1 where c: "continue_line pos0 line0 sc0 buf0 = Some (pos, line, sc1, buf1)"
    using l sk x by (cases "continue_line pos0 line0 sc0 buf0") (auto simp: reader_next_def)
  obtain cmd args where p: "parse_line line = Inr (cmd, args)" "cmd \<noteq> []"
    using l sk x c by (cases "parse_line line") (auto simp: reader_next_def Let_def split: if_splits)
  obtain input sep sc2 buf2 where i: "read_input sc1 [] buf1 = (input, sep, sc2, buf2)" by (cases "read_input sc1 [] buf1")
  then show ?r
    using l sk x c p by (auto simp: reader_next_def Let_def bind_eq_Some_conv directive_data_def test_data_default_def split: if_splits)
qed (auto simp: reader_next_def Let_def directive_data_def test_data_default_def)

lemma reader_next_shorter:
  assumes "reader_next r = Some (Inr True, r')"
  shows "length (rd_scanner r') < length (rd_scanner r)"
proof -
  have e: "length sc' \<le> length sc" if "(if sep then read_expected sc else Some ([], sc)) = Some (e, sc')" for sep sc e sc'
    using that by (auto simp: read_expected_def split: if_splits list.splits dest!: read_blank_lines_shorter read_plain_lines_shorter)
  show ?thesis
    using assms unfolding reader_next_True
    by (auto dest!: skip_comments_shorter continue_line_shorter read_input_shorter e)
qed

lemma run_directive_scanner: "run_directive f r s = Some (r', s') \<Longrightarrow> rd_scanner r' = rd_scanner r"
  by (auto simp: run_directive_def emit_def Let_def split: prod.splits option.splits if_splits)

function run_directives :: "'s tested \<Rightarrow> reader \<Rightarrow> 's \<Rightarrow> ((string + reader) \<times> 's) panics" where
  "run_directives f r s = (case reader_next r of
       None \<Rightarrow> None
     | Some (Inl e, r1) \<Rightarrow> Some (Inl e, s)
     | Some (Inr b, r1) \<Rightarrow> if b then
           (case run_directive f r1 s of None \<Rightarrow> None | Some (r2, s1) \<Rightarrow> run_directives f r2 s1)
         else Some (Inr r1, s))"
  by pat_completeness auto
termination
  by (relation "measure (\<lambda>(f, r, s). length (rd_scanner r))") (auto dest!: reader_next_shorter run_directive_scanner)

declare run_directives.simps [simp del]

definition run_test_internal :: "string \<Rightarrow> string \<Rightarrow> 's tested \<Rightarrow> bool \<Rightarrow> 's \<Rightarrow> ((string + string option) \<times> 's) panics" where
  "run_test_internal source_name content f rewrite s = do {
     (res, s1) \<leftarrow> run_directives f (reader_new source_name content rewrite) s;
     case res of
       Inl e \<Rightarrow> Some (Inl e, s1)
     | Inr r \<Rightarrow> Some (Inr (map_option (\<lambda>rb.
         if length rb \<ge> 2 \<and> last rb = newline \<and> last (butlast rb) = newline then butlast rb else rb) (rd_rewrite_buffer r)), s1) }"

end
