(* ===== verification/Datadriven_Parse.thy ===== *)
theory Datadriven_Parse
  imports Datadriven
begin

text \<open>The directive lines of the data-driven tests: the regular expression of a field, and reading back what \<open>CmdArg\<close> prints.\<close>

section \<open>The language of a field\<close>

text \<open>
  \<open>re_argument\<close> is the group \<open>(|=[-a-zA-Z0-9_@=+/,.]*|=\([^)]*\))\<close> of the expression, \<open>re_language m rest\<close> says that the expression matches \<open>m\<close> at
  the beginning of a text that goes on with \<open>rest\<close>.
\<close>

definition re_argument :: "string \<Rightarrow> bool" where
  "re_argument a \<longleftrightarrow> a = [] \<or> (\<exists>v. a = CHR ''='' # v \<and> list_all val_char v) \<or>
     (\<exists>v. a = ''=('' @ v @ '')'' \<and> CHR '')'' \<notin> set v)"

definition re_language :: "string \<Rightarrow> string \<Rightarrow> bool" where
  "re_language m rest \<longleftrightarrow> (\<exists>k name a e. m = replicate k (CHR '' '') @ name @ a @ e \<and> name \<noteq> [] \<and> list_all name_char name \<and>
     re_argument a \<and> (e = '' '' \<or> e = [] \<and> rest = []))"

lemma name_char_simps [simp]: "\<not> name_char (CHR '' '')" "\<not> name_char (CHR ''='')" "\<not> name_char (CHR ''('')" "\<not> name_char (CHR '')'')"
  by (simp_all add: name_char_def)

lemma val_char_simps [simp]: "\<not> val_char (CHR '' '')" "\<not> val_char (CHR ''('')" "\<not> val_char (CHR '')'')"
  by (simp_all add: val_char_def)

text \<open>A text that ends or goes on with a character that is not of a class.\<close>

lemma span_class:
  assumes "list_all P xs" "ys = [] \<or> \<not> P (hd ys)"
  shows "takeWhile P (xs @ ys) = xs" "dropWhile P (xs @ ys) = ys"
  using assms by (cases ys; simp add: list_all_iff takeWhile_append2 dropWhile_append2)+

lemma field_end_eq: "e = '' '' \<or> e = [] \<and> rest = [] \<Longrightarrow> field_end (e @ rest) = Some (length e)"
  by (auto simp: field_end_def)

lemma argument_match:
  assumes a: "re_argument a" and e: "e = '' '' \<or> e = [] \<and> rest = []"
  shows "(case field_end (a @ e @ rest) of Some n \<Rightarrow> Some n
     | None \<Rightarrow> (case plain_value (a @ e @ rest) of Some n \<Rightarrow> Some n | None \<Rightarrow> list_value (a @ e @ rest))) = Some (length a + length e)"
proof -
  consider "a = []" | v where "a = CHR ''='' # v" "list_all val_char v" | v where "a = ''=('' @ v @ '')''" "CHR '')'' \<notin> set v"
    using a by (auto simp: re_argument_def)
  then show ?thesis
  proof cases
    case 1
    then show ?thesis using field_end_eq[OF e] by simp
  next
    case (2 v)
    have "e @ rest = [] \<or> \<not> val_char (hd (e @ rest))" using e by auto
    then show ?thesis using span_class[OF 2(2), of "e @ rest"] field_end_eq[OF e] 2(1) by (simp add: field_end_def[of "_ # _"] plain_value_def)
  next
    case (3 v)
    have "list_all (\<lambda>c. c \<noteq> CHR '')'') v" using 3(2) by (auto simp: list_all_iff)
    then show ?thesis
      using span_class[of "\<lambda>c. c \<noteq> CHR '')''" v "CHR '')'' # e @ rest"] field_end_eq[OF e] 3(1)
      by (simp add: field_end_def[of "_ # _"] plain_value_def list_value_def)
  qed
qed

lemma re_match_language:
  assumes "re_language m rest"
  shows "re_match (m @ rest) = Some (length m)"
proof -
  obtain k name a e where m: "m = replicate k (CHR '' '') @ name @ a @ e" "name \<noteq> []" "list_all name_char name" "re_argument a"
    "e = '' '' \<or> e = [] \<and> rest = []" using assms by (auto simp: re_language_def)
  have "name @ a @ e @ rest = [] \<or> hd (name @ a @ e @ rest) \<noteq> CHR '' ''" using m(2,3) by (cases name) auto
  then have 1: "takeWhile (\<lambda>c. c = CHR '' '') (m @ rest) = replicate k (CHR '' '')" "dropWhile (\<lambda>c. c = CHR '' '') (m @ rest) = name @ a @ e @ rest"
    using span_class[of "\<lambda>c. c = CHR '' ''" "replicate k (CHR '' '')" "name @ a @ e @ rest"] m(1) by (auto simp: list_all_iff)
  have "a @ e @ rest = [] \<or> \<not> name_char (hd (a @ e @ rest))" using m(4,5) by (auto simp: re_argument_def)
  note 2 = span_class[OF m(3) this]
  show ?thesis unfolding re_match_def Let_def 1 2 argument_match[OF m(4,5)] using m(1,2) by simp
qed

lemma field_end_split: "field_end s = Some n \<Longrightarrow> \<exists>e rest. s = e @ rest \<and> n = length e \<and> (e = '' '' \<or> e = [] \<and> rest = [])"
  by (intro exI[of _ "take n s"] exI[of _ "drop n s"]) (auto simp: field_end_def split: if_splits list.splits)

lemma field_end_argument:
  assumes "field_end s = Some n"
  shows "\<exists>a e rest. s = a @ e @ rest \<and> re_argument a \<and> n = length a + length e \<and> (e = '' '' \<or> e = [] \<and> rest = [])"
proof -
  obtain e rest where "s = [] @ e @ rest" "n = length ([] :: string) + length e" "e = '' '' \<or> e = [] \<and> rest = []"
    using field_end_split[OF assms] by auto
  moreover have "re_argument []" by (simp add: re_argument_def)
  ultimately show ?thesis by blast
qed

lemma plain_value_split:
  assumes "plain_value s = Some n"
  shows "\<exists>a e rest. s = a @ e @ rest \<and> re_argument a \<and> n = length a + length e \<and> (e = '' '' \<or> e = [] \<and> rest = [])"
proof -
  obtain r k where s: "s = CHR ''='' # r" "field_end (dropWhile val_char r) = Some k" "n = 1 + length (takeWhile val_char r) + k"
    using assms by (cases s) (auto simp: plain_value_def split: if_splits)
  obtain e rest where e: "dropWhile val_char r = e @ rest" "k = length e" "e = '' '' \<or> e = [] \<and> rest = []"
    using field_end_split[OF s(2)] by blast
  have "s = (CHR ''='' # takeWhile val_char r) @ e @ rest" using s(1) e(1) takeWhile_dropWhile_id[of val_char r] by simp
  moreover have "re_argument (CHR ''='' # takeWhile val_char r)" by (auto simp: re_argument_def list_all_iff dest: set_takeWhileD)
  ultimately show ?thesis using s(3) e(2,3) by (intro exI[of _ "CHR ''='' # takeWhile val_char r"] exI[of _ e] exI[of _ rest]) simp
qed

lemma list_value_split:
  assumes "list_value s = Some n"
  shows "\<exists>a e rest. s = a @ e @ rest \<and> re_argument a \<and> n = length a + length e \<and> (e = '' '' \<or> e = [] \<and> rest = [])"
proof -
  let ?P = "\<lambda>c. c \<noteq> CHR '')''"
  obtain r where s: "s = ''=('' @ r" using assms by (auto simp: list_value_def split: list.splits if_splits)
  then obtain c r' k where d: "dropWhile ?P r = c # r'" "field_end r' = Some k" "n = 3 + length (takeWhile ?P r) + k"
    using assms by (auto simp: list_value_def split: list.splits)
  obtain e rest where e: "r' = e @ rest" "k = length e" "e = '' '' \<or> e = [] \<and> rest = []" using field_end_split[OF d(2)] by blast
  have "c = CHR '')''" using hd_dropWhile[of ?P r] d(1) by simp
  then have "s = (''=('' @ takeWhile ?P r @ '')'') @ e @ rest" using s d(1) e(1) takeWhile_dropWhile_id[of ?P r] by simp
  moreover have "re_argument (''=('' @ takeWhile ?P r @ '')'')" unfolding re_argument_def by (auto dest: set_takeWhileD)
  ultimately show ?thesis using d(3) e(2,3) by (intro exI[of _ "''=('' @ takeWhile ?P r @ '')''"] exI[of _ e] exI[of _ rest]) simp
qed

text \<open>The length that the model computes is that of the only match.\<close>

lemma re_match_iff: "re_match s = Some n \<longleftrightarrow> n \<le> length s \<and> re_language (take n s) (drop n s)"
proof
  assume l: "re_match s = Some n"
  let ?sp = "takeWhile (\<lambda>c. c = CHR '' '') s" and ?s1 = "dropWhile (\<lambda>c. c = CHR '' '') s"
  let ?nm = "takeWhile name_char ?s1" and ?s2 = "dropWhile name_char ?s1"
  obtain k where k: "?nm \<noteq> []" "n = length ?sp + length ?nm + k"
      "field_end ?s2 = Some k \<or> plain_value ?s2 = Some k \<or> list_value ?s2 = Some k"
    using l by (auto simp: re_match_def Let_def split: if_splits option.splits)
  have "\<exists>a e rest. ?s2 = a @ e @ rest \<and> re_argument a \<and> k = length a + length e \<and> (e = '' '' \<or> e = [] \<and> rest = [])"
    using k(3) by (elim disjE field_end_argument plain_value_split list_value_split)
  then obtain a e rest where a: "?s2 = a @ e @ rest" "re_argument a" "k = length a + length e" "e = '' '' \<or> e = [] \<and> rest = []"
    by (elim exE conjE) (rule that)
  have sp: "?sp = replicate (length ?sp) (CHR '' '')"
    by (rule replicate_length_same[symmetric]) (auto dest: set_takeWhileD)
  have s: "s = (replicate (length ?sp) (CHR '' '') @ ?nm @ a @ e) @ rest"
    unfolding sp[symmetric] using a(1) takeWhile_dropWhile_id[of "\<lambda>c. c = CHR '' ''" s] takeWhile_dropWhile_id[of name_char ?s1] by simp
  define m where "m = replicate (length ?sp) (CHR '' '') @ ?nm @ a @ e"
  have "n = length m" using k(2) a(3) by (simp add: m_def)
  moreover have "re_language m rest"
    unfolding re_language_def m_def using k(1) a(2,4)
    by (intro exI[of _ "length ?sp"] exI[of _ ?nm] exI[of _ a] exI[of _ e]) (auto simp: list_all_iff dest: set_takeWhileD)
  ultimately show "n \<le> length s \<and> re_language (take n s) (drop n s)" using s[folded m_def] by simp
next
  assume "n \<le> length s \<and> re_language (take n s) (drop n s)"
  then show "re_match s = Some n" using re_match_language[of "take n s" "drop n s"] by simp
qed

section \<open>Reading back what is printed\<close>

text \<open>The arguments that can be written: a name, and a value without blanks, or values without commas, parentheses and blanks around them.\<close>

definition listable :: "string \<Rightarrow> bool" where
  "listable v \<longleftrightarrow> trim v = v \<and> CHR '','' \<notin> set v \<and> CHR '')'' \<notin> set v"

definition writable_arg :: "cmd_arg \<Rightarrow> bool" where
  "writable_arg a \<longleftrightarrow> ca_key a \<noteq> [] \<and> list_all name_char (ca_key a) \<and>
     (case ca_vals a of [] \<Rightarrow> True | [v] \<Rightarrow> list_all val_char v | vs \<Rightarrow> list_all listable vs)"

definition writable_cmd :: "string \<Rightarrow> bool" where
  "writable_cmd cmd \<longleftrightarrow> cmd \<noteq> [] \<and> list_all name_char cmd"

text \<open>A field as it is printed: no blanks around it.\<close>

definition field :: "string \<Rightarrow> bool" where
  "field t \<longleftrightarrow> (\<exists>name a. t = name @ a \<and> name \<noteq> [] \<and> list_all name_char name \<and> re_argument a)"

lemma trim_id:
  assumes "s = [] \<or> \<not> is_trim_ws (hd s) \<and> \<not> is_trim_ws (last s)"
  shows "trim s = s"
proof (cases "s = []")
  case False
  then have "dropWhile is_trim_ws s = s" "dropWhile is_trim_ws (rev s) = rev s"
    using assms by (auto simp: dropWhile_eq_self_iff hd_rev)
  then show ?thesis by (simp add: trim_def)
qed (simp add: trim_def)

lemma trim_snoc_ws: "is_trim_ws c \<Longrightarrow> trim (s @ [c]) = trim s"
  by (simp add: trim_def dropWhile_append) (metis append_self_conv2 dropWhile.simps(1) dropWhile_eq_Nil_conv rev.simps(1) set_rev)

lemma char_no_ws: "name_char c \<Longrightarrow> \<not> is_trim_ws c" "val_char c \<Longrightarrow> \<not> is_trim_ws c"
  by (auto simp: name_char_def val_char_def is_trim_ws_def Let_def)

lemma field_trim:
  assumes "field t"
  shows "trim t = t" "t \<noteq> []"
proof -
  obtain name a where t: "t = name @ a" "name \<noteq> []" "list_all name_char name" "re_argument a" using assms by (auto simp: field_def)
  have "\<not> is_trim_ws (hd t)" using t(1,2,3) by (cases name) (auto dest: char_no_ws)
  moreover have "\<not> is_trim_ws (last t)"
  proof (cases "a = []")
    case True
    then show ?thesis using t(1,2,3) last_in_set[of name] by (auto simp: list_all_iff dest: char_no_ws)
  next
    case False
    then show ?thesis using t(1,4) last_in_set
      by (fastforce simp: re_argument_def list_all_iff is_trim_ws_def dest: char_no_ws split: if_splits)
  qed
  ultimately show "trim t = t" "t \<noteq> []" using trim_id t(1,2) by auto
qed

lemma field_language: "field t \<Longrightarrow> re_language (t @ '' '') rest" "field t \<Longrightarrow> re_language t []"
proof -
  assume "field t"
  then obtain name a where t: "t = replicate 0 (CHR '' '') @ name @ a" "name \<noteq> []" "list_all name_char name" "re_argument a"
    by (auto simp: field_def)
  show "re_language (t @ '' '') rest" "re_language t []"
    unfolding re_language_def using t by (metis append.assoc, metis append_Nil2)
qed

lemma split_loop_fields:
  assumes "list_all field ts"
  shows "split_loop origin (str_join '' '' ts) res = Inr (res @ ts)"
  using assms
proof (induction ts arbitrary: res)
  case (Cons t ts)
  have f: "field t" using Cons.prems by simp
  note ft = field_trim[OF f]
  show ?case
  proof (cases ts)
    case Nil
    then show ?thesis using ft re_match_language[OF field_language(2)[OF f]] by (simp add: split_loop.simps)
  next
    case us: (Cons u us)
    have "is_trim_ws (CHR '' '')" by (simp add: is_trim_ws_def)
    then have "trim (t @ '' '') = t" using trim_snoc_ws ft(1) by simp
    then show ?thesis
      using Cons.IH Cons.prems us ft re_match_language[OF field_language(1)[OF f], of "str_join '' '' ts"]
      by (subst split_loop.simps) simp
  qed
qed (simp add: split_loop.simps)

lemma str_split_none: "d \<notin> set s \<Longrightarrow> str_split d s = [s]"
  by (induction s) auto

lemma str_split_append: "d \<notin> set s \<Longrightarrow> str_split d (s @ d # r) = s # str_split d r"
  by (induction s) auto

lemma str_split_join: "vs \<noteq> [] \<Longrightarrow> list_all (\<lambda>v. d \<notin> set v) vs \<Longrightarrow> str_split d (str_join [d] vs) = vs"
  by (induction "[d]" vs rule: str_join.induct) (auto simp: str_split_none str_split_append)

lemma splitn2_eq: "list_all name_char k \<Longrightarrow> splitn2 (CHR ''='') (k @ CHR ''='' # v) = [k, v]" "list_all name_char k \<Longrightarrow> splitn2 (CHR ''='') k = [k]"
proof -
  assume k: "list_all name_char k"
  have c: "list_all (\<lambda>c. c \<noteq> CHR ''='') k" using k by (auto simp: list_all_iff)
  show "splitn2 (CHR ''='') (k @ CHR ''='' # v) = [k, v]"
    using span_class[OF c, of "CHR ''='' # v"] by (simp add: splitn2_def)
  have "dropWhile (\<lambda>c. c \<noteq> CHR ''='') k = []" using c by (simp only: dropWhile_eq_Nil_conv list_all_iff)
  then show "splitn2 (CHR ''='') k = [k]" by (simp only: splitn2_def list.case)
qed

lemma parse_arg_fmt:
  assumes "writable_arg a"
  shows "parse_arg (cmd_arg_fmt a) = Inr a" "field (cmd_arg_fmt a)"
proof -
  have k: "ca_key a \<noteq> []" "list_all name_char (ca_key a)" using assms by (simp_all add: writable_arg_def)
  consider "ca_vals a = []" | v where "ca_vals a = [v]" "list_all val_char v" | v w vs where "ca_vals a = v # w # vs" "list_all listable (v # w # vs)"
    using assms by (auto simp: writable_arg_def split: list.splits)
  then have "parse_arg (cmd_arg_fmt a) = Inr a \<and> field (cmd_arg_fmt a)"
  proof cases
    case 1
    have "re_argument []" by (simp add: re_argument_def)
    then show ?thesis using 1 k splitn2_eq(2)[OF k(2)] by (auto simp: cmd_arg_fmt_def parse_arg_def field_def)
  next
    case (2 v)
    have "\<not> (v \<noteq> [] \<and> hd v = CHR ''('')" using 2(2) by (cases v) auto
    moreover have "re_argument (CHR ''='' # v)" using 2(2) by (simp add: re_argument_def)
    ultimately show ?thesis using 2 k splitn2_eq(1)[OF k(2), of v] by (auto simp: cmd_arg_fmt_def parse_arg_def field_def)
  next
    case (3 v w vs)
    let ?j = "str_join '','' (v # w # vs)"
    have "list_all (\<lambda>v. CHR '','' \<notin> set v) (v # w # vs)" "map trim (v # w # vs) = v # w # vs"
      using 3(2) by (auto simp: listable_def list_all_iff intro: map_idI)
    then have j: "map trim (str_split (CHR '','') ?j) = v # w # vs" using str_split_join by (metis list.distinct(1))
    have "CHR '')'' \<notin> set (str_join '','' xs)" if "list_all listable xs" for xs
      using that by (induction "'',''" xs rule: str_join.induct) (auto simp: listable_def)
    then have "re_argument (''=('' @ ?j @ '')'')" using 3(2) unfolding re_argument_def by blast
    then have "field (cmd_arg_fmt a)" using 3(1) k by (auto simp: cmd_arg_fmt_def field_def)
    moreover have "parse_arg (cmd_arg_fmt a) = Inr a"
      using 3(1) j splitn2_eq(1)[OF k(2), of "''('' @ ?j @ '')''"] by (simp add: cmd_arg_fmt_def parse_arg_def del: str_join.simps)
    ultimately show ?thesis by blast
  qed
  then show "parse_arg (cmd_arg_fmt a) = Inr a" "field (cmd_arg_fmt a)" by blast+
qed

lemma parse_args_fmt: "list_all writable_arg as \<Longrightarrow> parse_args (map cmd_arg_fmt as) = Inr as"
  by (induction as) (simp_all add: parse_arg_fmt)



end
