(* ===== verification/Datadriven_Rewrite.thy ===== *)
theory Datadriven_Rewrite
  imports Datadriven_Parse
begin

text \<open>
  Rewrite mode and test mode of the data-driven tests belong together: a file that was rewritten with a function passes the test with it. The reader
  is shown to read from the rewritten lines the directives that it read from the original ones, whatever the lines are that follow.
\<close>

section \<open>Texts and their lines\<close>

definition text_of :: "string list \<Rightarrow> string" where
  "text_of ls = concat (map (\<lambda>l. l @ [newline]) ls)"

definition emits :: "string list \<Rightarrow> string option \<Rightarrow> string option" where
  "emits ls buf = map_option (\<lambda>rb. rb @ text_of ls) buf"

lemma text_of_simps [simp]: "text_of [] = []" "text_of (l # ls) = l @ newline # text_of ls" "text_of (xs @ ys) = text_of xs @ text_of ys"
  by (simp_all add: text_of_def)

lemma emits_simps [simp]: "emits [] buf = buf" "emits ls (emit_to l buf) = emits (l # ls) buf" "emits ls (emits ks buf) = emits (ks @ ls) buf"
    "emits ls None = None" "emits ls (Some rb) = Some (rb @ text_of ls)"
  by (simp_all add: emits_def emit_to_def option.map_ident option.map_comp comp_def)

lemma emit_to_emits: "emit_to l buf = emits [l] buf"
  by (simp add: emits_def emit_to_def)

text \<open>Lines as \<open>str::lines\<close> gives them, of a text without carriage returns.\<close>

definition clean_line :: "string \<Rightarrow> bool" where
  "clean_line l \<longleftrightarrow> newline \<notin> set l \<and> carriage_return \<notin> set l"

lemma str_split_nonempty [simp]: "str_split d s \<noteq> []"
  by (induction s) (auto split: list.split)

lemma str_split_pieces: "l \<in> set (str_split d s) \<Longrightarrow> d \<notin> set l \<and> set l \<subseteq> set s"
proof (induction s arbitrary: l)
  case (Cons c s)
  obtain p ps where p: "str_split d s = p # ps" using str_split_nonempty by (meson neq_Nil_conv)
  then have "l = [] \<or> l \<in> set (str_split d s) \<or> c \<noteq> d \<and> l = c # p" using Cons.prems by (auto split: if_splits)
  then show ?case using Cons.IH[of l] Cons.IH[of p] p by auto
qed simp

lemma clean_strip: "clean_line l \<Longrightarrow> strip_return l = l"
  by (metis clean_line_def last_in_set strip_return_def)

lemma str_lines_clean:
  assumes "carriage_return \<notin> set s"
  shows "list_all clean_line (str_lines s)"
proof -
  have "clean_line l \<and> strip_return l = l" if "l \<in> set (str_split newline s)" for l
    using str_split_pieces[OF that] assms clean_strip[of l] by (auto simp: clean_line_def)
  then show ?thesis
    using in_set_butlastD[of _ "str_split newline s"] last_in_set[of "str_split newline s"]
    by (auto simp: str_lines_def Let_def list_all_iff)
qed

lemma str_split_text: "list_all clean_line ls \<Longrightarrow> str_split newline (text_of ls) = ls @ [[]]"
  by (induction ls) (auto simp: clean_line_def str_split_append)

lemma str_lines_text:
  assumes "list_all clean_line ls"
  shows "str_lines (text_of ls) = ls"
proof -
  have "map strip_return ls = ls"
    using assms by (intro map_idI) (auto simp: list_all_iff intro: clean_strip)
  then show ?thesis using str_split_text[OF assms] by (simp add: str_lines_def)
qed

lemma popped_text:
  assumes "list_all clean_line ls" "length (text_of ls) \<ge> 2" "last (butlast (text_of ls)) = newline"
  shows "\<exists>ls'. ls = ls' @ [[]] \<and> butlast (text_of ls) = text_of ls'"
proof -
  obtain ks l where ls: "ls = ks @ [l]" using assms(2) by (cases ls rule: rev_cases) auto
  have b: "butlast (text_of ls) = text_of ks @ l" by (simp add: ls butlast_append)
  have "l = []"
  proof (rule ccontr)
    assume "l \<noteq> []"
    then have "newline \<in> set l" using assms(3) b last_in_set[of l] by simp
    then show False using assms(1) ls by (simp add: clean_line_def)
  qed
  then show ?thesis using ls b by simp
qed

section \<open>Reading the same lines again\<close>

lemma skip_comments_replay:
  assumes "skip_comments sc buf = (Some (p, line), sc', buf')"
  shows "\<exists>pre. map snd sc = pre @ map snd sc' \<and> buf' = emits pre buf \<and> (\<forall>sc2 b2 rest. map snd sc2 = pre @ rest \<longrightarrow>
    (\<exists>p2 sc2'. skip_comments sc2 b2 = (Some (p2, line), sc2', emits pre b2) \<and> map snd sc2' = rest))"
  using assms
proof (induction sc arbitrary: buf)
  case (Cons x sc)
  obtain k l where x: "x = (k, l)" by (cases x)
  show ?case
  proof (cases "trim l = [] \<or> hd (trim l) = CHR ''#''")
    case True
    then have "skip_comments sc (emit_to l buf) = (Some (p, line), sc', buf')" using Cons.prems x by (auto simp: Let_def)
    then obtain pre where pre: "map snd sc = pre @ map snd sc'" "buf' = emits pre (emit_to l buf)"
      "\<forall>sc2 b2 rest. map snd sc2 = pre @ rest \<longrightarrow> (\<exists>p2 sc2'. skip_comments sc2 b2 = (Some (p2, line), sc2', emits pre b2) \<and> map snd sc2' = rest)"
      using Cons.IH by blast
    have "\<exists>p2 sc2'. skip_comments sc2 b2 = (Some (p2, line), sc2', emits (l # pre) b2) \<and> map snd sc2' = rest"
      if m: "map snd sc2 = (l # pre) @ rest" for sc2 b2 rest
    proof -
      obtain k2 sc3 where s: "sc2 = (k2, l) # sc3" "map snd sc3 = pre @ rest" using m by (cases sc2) auto
      then show ?thesis using pre(3)[rule_format, OF s(2), of "emit_to l b2"] True by (auto simp: Let_def)
    qed
    then show ?thesis using pre(1,2) x by (intro exI[of _ "l # pre"]) auto
  next
    case False
    then have "p = k" "line = trim l" "sc' = sc" "buf' = emit_to l buf" using Cons.prems x by (auto simp: Let_def)
    then show ?thesis using x False by (intro exI[of _ "[l]"]) (auto simp: emit_to_emits Let_def)
  qed
qed simp

lemma skip_comments_end:
  assumes "skip_comments sc buf = (None, sc', buf')"
  shows "sc' = []" "buf' = emits (map snd sc) buf" "set (map snd sc2) \<subseteq> set (map snd sc) \<Longrightarrow> skip_comments sc2 b2 = (None, [], emits (map snd sc2) b2)"
proof -
  have c: "sc' = [] \<and> buf' = emits (map snd sc) buf \<and> (\<forall>l \<in> set (map snd sc). trim l = [] \<or> hd (trim l) = CHR ''#'')"
    using assms by (induction sc arbitrary: buf) (fastforce simp: Let_def split: if_splits)+
  then show "sc' = []" "buf' = emits (map snd sc) buf" by blast+
  assume s: "set (map snd sc2) \<subseteq> set (map snd sc)"
  then have "\<forall>l \<in> set (map snd sc2). trim l = [] \<or> hd (trim l) = CHR ''#''" using c by blast
  then show "skip_comments sc2 b2 = (None, [], emits (map snd sc2) b2)"
    by (induction sc2 arbitrary: b2) (auto simp: Let_def)
qed

lemma continue_line_replay:
  assumes "continue_line pos line sc buf = Some (pos', line', sc', buf')"
  shows "\<exists>pre. map snd sc = pre @ map snd sc' \<and> buf' = emits pre buf \<and> (\<forall>pos2 sc2 b2 rest. map snd sc2 = pre @ rest \<longrightarrow>
    (\<exists>pos2' sc2'. continue_line pos2 line sc2 b2 = Some (pos2', line', sc2', emits pre b2) \<and> map snd sc2' = rest))"
  using assms
proof (induction pos line sc buf rule: continue_line.induct)
  case (1 pos line buf)
  have "continue_line pos2 line sc2 b2 = Some (pos2, line, sc2, b2)" for pos2 sc2 b2
    using 1 by (cases sc2) (auto split: if_splits)
  then show ?case using 1 by (intro exI[of _ "[]"]) (auto split: if_splits)
next
  case (2 pos line k l sc buf)
  show ?case
  proof (cases "line \<noteq> [] \<and> last line = CHR 0x5C")
    case True
    let ?line = "if trim l = [] then butlast line else butlast line @ '' '' @ trim l"
    have "continue_line (pos + 1) ?line sc (emit_to l buf) = Some (pos', line', sc', buf')" using 2(2) True by (simp add: Let_def)
    then obtain pre where pre: "map snd sc = pre @ map snd sc'" "buf' = emits pre (emit_to l buf)"
      "\<forall>pos2 sc2 b2 rest. map snd sc2 = pre @ rest \<longrightarrow> (\<exists>pos2' sc2'. continue_line pos2 ?line sc2 b2 = Some (pos2', line', sc2', emits pre b2) \<and> map snd sc2' = rest)"
      using 2(1)[OF True refl] by blast
    have "\<exists>pos2' sc2'. continue_line pos2 line sc2 b2 = Some (pos2', line', sc2', emits (l # pre) b2) \<and> map snd sc2' = rest"
      if m: "map snd sc2 = (l # pre) @ rest" for pos2 sc2 b2 rest
    proof -
      obtain k2 sc3 where s: "sc2 = (k2, l) # sc3" "map snd sc3 = pre @ rest" using m by (cases sc2) auto
      then show ?thesis using pre(3)[rule_format, OF s(2), of "pos2 + 1" "emit_to l b2"] True by (auto simp: Let_def)
    qed
    then show ?thesis using pre(1,2) by (intro exI[of _ "l # pre"]) auto
  next
    case False
    then have "continue_line pos2 line sc2 b2 = Some (pos2, line, sc2, b2)" for pos2 sc2 b2 by (cases sc2) auto
    then show ?thesis using 2(2) False by (intro exI[of _ "[]"]) auto
  qed
qed

lemma read_input_lines:
  assumes "read_input sc acc buf = (input, sep, sc', buf')"
  shows "\<exists>ins. ''----'' \<notin> set ins \<and> map snd sc = ins @ (if sep then ''----'' # map snd sc' else []) \<and> (\<not> sep \<longrightarrow> sc' = []) \<and>
    buf' = emits ins buf \<and> input = acc @ text_of ins"
  using assms
proof (induction sc acc buf rule: read_input.induct)
  case (2 k l sc acc buf)
  show ?case
  proof (cases "l = ''----''")
    case False
    then obtain ins where "''----'' \<notin> set ins" "map snd sc = ins @ (if sep then ''----'' # map snd sc' else [])" "\<not> sep \<longrightarrow> sc' = []"
      "buf' = emits ins (emit_to l buf)" "input = (acc @ l @ [newline]) @ text_of ins" using 2 by auto
    then show ?thesis using False by (intro exI[of _ "l # ins"]) auto
  qed (use 2(2) in \<open>auto intro!: exI[of _ "[]"]\<close>)
qed auto

lemma read_input_replay:
  assumes "''----'' \<notin> set ins" "map snd sc = ins @ ''----'' # rest"
  shows "\<exists>sc'. read_input sc acc buf = (acc @ text_of ins, True, sc', emits ins buf) \<and> map snd sc' = rest"
  using assms
proof (induction ins arbitrary: sc acc buf)
  case Nil
  then show ?case by (cases sc) auto
next
  case (Cons l ins)
  obtain k sc1 where sc: "sc = (k, l) # sc1" "map snd sc1 = ins @ ''----'' # rest" using Cons.prems(2) by (cases sc) auto
  then show ?case using Cons.IH[of sc1 "acc @ l @ [newline]" "emit_to l buf"] Cons.prems(1) by auto
qed

section \<open>Reading back the output\<close>

text \<open>
  Outputs that can be written to a file: without a separator line, and without vertical tabs, form feeds and carriage returns, which the reader trims
  but the search for blank lines does not see.
\<close>

definition out_lines :: "string \<Rightarrow> string list" where
  "out_lines actual = butlast (str_split newline actual)"

definition writable_output :: "string \<Rightarrow> bool" where
  "writable_output out \<longleftrightarrow> ''----'' \<notin> set (out_lines (finish_output out)) \<and>
     (\<forall>c \<in> set out. c \<noteq> CHR 0x0B \<and> c \<noteq> CHR 0x0C \<and> c \<noteq> carriage_return)"

lemma str_split_snoc: "str_split d (s @ [d]) = str_split d s @ [[]]"
proof (induction s)
  case (Cons c s)
  then show ?case by (cases "str_split d s") auto
qed simp

lemma text_of_split: "text_of (str_split newline s) = s @ [newline]"
proof (induction s)
  case (Cons c s)
  then show ?case by (cases "str_split newline s") auto
qed simp

lemma out_lines_text: "text_of (out_lines (finish_output out)) = finish_output out"
proof (cases "finish_output out = []")
  case False
  then obtain s where "finish_output out = s @ [newline]"
    by (metis append_butlast_last_id finish_output_def last_snoc)
  then show ?thesis by (simp add: out_lines_def str_split_snoc text_of_split)
qed (simp add: out_lines_def)

lemma is_trim_ws_iff: "is_trim_ws c \<longleftrightarrow> c \<in> {CHR 0x09, CHR 0x0A, CHR 0x0B, CHR 0x0C, CHR 0x0D, CHR '' ''}"
proof -
  have e: "(of_char c :: nat) = n \<longleftrightarrow> c = d" if "of_char d = n" for d n using that by auto
  show ?thesis
    unfolding is_trim_ws_def
    using e[of "CHR 0x09" 9] e[of "CHR 0x0A" 10] e[of "CHR 0x0B" 11] e[of "CHR 0x0C" 12] e[of "CHR 0x0D" 13] e[of "CHR '' ''" 32] by simp
qed

lemma out_lines_clean:
  assumes "writable_output out" "l \<in> set (out_lines (finish_output out))"
  shows "clean_line l" "l \<noteq> ''----''" "c \<in> set l \<Longrightarrow> is_trim_ws c \<Longrightarrow> c = CHR 0x09 \<or> c = CHR '' ''"
proof -
  have l: "newline \<notin> set l" "set l \<subseteq> set (finish_output out)"
    using str_split_pieces[OF in_set_butlastD[OF assms(2)[unfolded out_lines_def]]] by auto
  have o: "\<forall>c \<in> set l. c \<noteq> CHR 0x0B \<and> c \<noteq> CHR 0x0C \<and> c \<noteq> carriage_return"
    using assms(1) l by (auto simp: writable_output_def finish_output_def split: if_splits)
  then show "clean_line l" using l(1) by (auto simp: clean_line_def)
  show "l \<noteq> ''----''" using assms by (auto simp: writable_output_def)
  assume c: "c \<in> set l" "is_trim_ws c"
  then have "c \<in> {CHR 0x09, CHR 0x0A, CHR 0x0B, CHR 0x0C, CHR 0x0D, CHR '' ''}" by (simp only: is_trim_ws_iff)
  then show "c = CHR 0x09 \<or> c = CHR '' ''" using c(1) o l(1) by auto
qed

lemma trim_Nil: "trim s = [] \<longleftrightarrow> list_all is_trim_ws s"
proof -
  have "dropWhile is_trim_ws s = []" if "trim s = []"
  proof (rule ccontr)
    assume d: "dropWhile is_trim_ws s \<noteq> []"
    have "\<forall>x \<in> set (dropWhile is_trim_ws s). is_trim_ws x" using that by (simp add: trim_def)
    then show False using hd_in_set[OF d] hd_dropWhile[OF d] by blast
  qed
  moreover have "trim s = []" if "dropWhile is_trim_ws s = []" unfolding trim_def that by simp
  ultimately have "trim s = [] \<longleftrightarrow> dropWhile is_trim_ws s = []" by blast
  then show ?thesis by (simp only: dropWhile_eq_Nil_conv list_all_iff)
qed

lemma has_blank_line_iff:
  assumes "writable_output out"
  shows "has_blank_line (finish_output out) \<longleftrightarrow> (\<exists>l \<in> set (out_lines (finish_output out)). trim l = [])"
proof -
  have "list_all (\<lambda>c. c = CHR 0x09 \<or> c = CHR '' '') l \<longleftrightarrow> trim l = []" if "l \<in> set (out_lines (finish_output out))" for l
    unfolding trim_Nil using out_lines_clean(3)[OF assms that]
    by (intro list.pred_cong refl) (auto simp: is_trim_ws_iff)
  then show ?thesis unfolding has_blank_line_def out_lines_def list_ex_iff by blast
qed

text \<open>The lines that rewrite mode writes for an output, up to and including the blank line behind it.\<close>

definition output_block :: "string \<Rightarrow> string list" where
  "output_block actual = (if has_blank_line actual then ''----'' # out_lines actual @ [''----'', ''----'', []] else out_lines actual @ [[]])"

lemma read_plain_lines_replay:
  assumes "\<forall>l \<in> set ls. trim l \<noteq> []" "l # map snd sc = ls @ [] # rest"
  shows "\<exists>sc'. read_plain_lines l sc acc = (acc @ text_of ls, sc') \<and> map snd sc' = rest"
  using assms
proof (induction ls arbitrary: l sc acc)
  case Nil
  then show ?case by (cases sc) (auto simp: trim_def)
next
  case (Cons k ls)
  then obtain n l1 sc1 where "sc = (n, l1) # sc1" by (cases sc) auto
  then show ?case using Cons.IH[of l1 sc1 "acc @ l @ [newline]"] Cons.prems by auto
qed

lemma read_plain_lines_end:
  assumes "\<forall>l \<in> set ls. trim l \<noteq> []" "l # map snd sc = ls"
  shows "read_plain_lines l sc acc = (acc @ text_of ls, [])"
  using assms
proof (induction ls arbitrary: l sc acc)
  case (Cons k ls)
  then show ?case using Cons.IH[of "snd (hd sc)" "tl sc" "acc @ l @ [newline]"] by (cases sc) auto
qed simp

lemma read_blank_lines_replay:
  assumes "''----'' \<notin> set ls" "map snd sc = ls @ ''----'' # ''----'' # rest" "rest = [] \<or> hd rest = []"
  shows "\<exists>sc'. read_blank_lines sc acc = Some (acc @ text_of ls, sc') \<and> map snd sc' = tl rest"
  using assms
proof (induction ls arbitrary: sc acc)
  case Nil
  then obtain k1 k2 sc2 where "sc = (k1, ''----'') # (k2, ''----'') # sc2" "map snd sc2 = rest" by (cases sc; cases "tl sc") auto
  then show ?case using Nil(3) by (cases sc2) auto
next
  case (Cons l ls)
  obtain k k2 l2 sc2 where sc: "sc = (k, l) # (k2, l2) # sc2" "map snd ((k2, l2) # sc2) = ls @ ''----'' # ''----'' # rest"
    using Cons.prems(2) by (cases sc; cases "tl sc") auto
  then show ?case using Cons.IH[of "(k2, l2) # sc2" "acc @ l @ [newline]"] Cons.prems(1,3) by auto
qed

lemma read_expected_replay:
  assumes w: "writable_output out" and sc: "map snd sc = output_block (finish_output out) @ rest"
  shows "\<exists>sc'. read_expected sc = Some (finish_output out, sc') \<and> map snd sc' = rest"
proof -
  let ?a = "finish_output out"
  obtain k l sc1 where s: "sc = (k, l) # sc1" using sc by (cases sc) (auto simp: output_block_def split: if_splits)
  show ?thesis
  proof (cases "has_blank_line ?a")
    case True
    then have l: "l = ''----''" "map snd sc1 = out_lines ?a @ ''----'' # ''----'' # ([] # rest)" using sc s by (auto simp: output_block_def)
    then show ?thesis
      using read_blank_lines_replay[OF _ l(2), of "[]"] w out_lines_text[of out] s by (auto simp: read_expected_def writable_output_def)
  next
    case False
    then have l: "l # map snd sc1 = out_lines ?a @ [] # rest" using sc s by (simp add: output_block_def)
    have n: "\<forall>l \<in> set (out_lines ?a). trim l \<noteq> []" using False has_blank_line_iff[OF w] by blast
    have "l \<noteq> ''----''" using l out_lines_clean(2)[OF w] by (cases "out_lines ?a") auto
    then show ?thesis using read_plain_lines_replay[OF n l, of "[]"] out_lines_text[of out] s by (auto simp: read_expected_def)
  qed
qed

text \<open>The same at the end of the file, where the blank line was removed.\<close>

lemma read_expected_end:
  assumes w: "writable_output out" and sc: "map snd sc @ [[]] = output_block (finish_output out)"
  shows "read_expected sc = Some (finish_output out, [])"
proof -
  let ?a = "finish_output out"
  show ?thesis
  proof (cases "has_blank_line ?a")
    case True
    then have "map snd sc @ [[]] = (''----'' # out_lines ?a @ [''----'', ''----'']) @ [[]]" using sc by (simp add: output_block_def)
    then obtain k sc1 where l: "sc = (k, ''----'') # sc1" "map snd sc1 = out_lines ?a @ ''----'' # ''----'' # []"
      by (cases sc) auto
    then show ?thesis
      using read_blank_lines_replay[OF _ l(2), of "[]"] w out_lines_text[of out] by (auto simp: read_expected_def writable_output_def)
  next
    case False
    then have l: "map snd sc = out_lines ?a" using sc by (simp add: output_block_def)
    have n: "\<forall>l \<in> set (out_lines ?a). trim l \<noteq> []" using False has_blank_line_iff[OF w] by blast
    show ?thesis
    proof (cases sc)
      case Nil
      then show ?thesis using l out_lines_text[of out] by (simp add: read_expected_def trim_def)
    next
      case (Cons x sc1)
      then have x: "snd x # map snd sc1 = out_lines ?a" using l by simp
      then have "snd x \<noteq> ''----''" using out_lines_clean(2)[OF w, of "snd x"] by (metis list.set_intros(1))
      then show ?thesis
        using Cons read_plain_lines_end[OF n x, of "[]"] out_lines_text[of out] by (cases x) (simp add: read_expected_def)
    qed
  qed
qed

lemma read_expected_block:
  assumes w: "writable_output out" and b: "output_block (finish_output out) = body @ [[]]"
    and sc: "map snd sc = body @ rest" "rest = [] \<or> hd rest = []"
  shows "\<exists>sc'. read_expected sc = Some (finish_output out, sc') \<and> map snd sc' = tl rest"
proof (cases rest)
  case Nil
  then show ?thesis using read_expected_end[OF w, of sc] sc(1) b by auto
next
  case (Cons l rest')
  then show ?thesis using read_expected_replay[OF w, of sc rest'] sc b by auto
qed

lemma read_blank_lines_set: "read_blank_lines sc acc = Some (e, sc') \<Longrightarrow> set sc' \<subseteq> set sc"
  by (induction sc acc rule: read_blank_lines.induct) (auto split: if_splits list.splits)

lemma read_plain_lines_set: "read_plain_lines l sc acc = (e, sc') \<Longrightarrow> set sc' \<subseteq> set sc"
  by (induction l sc acc rule: read_plain_lines.induct) (auto split: if_splits)

lemma read_expected_set: "(if sep then read_expected sc else Some ([], sc)) = Some (e, sc') \<Longrightarrow> set sc' \<subseteq> set sc"
  by (auto simp: read_expected_def split: if_splits list.splits dest!: read_blank_lines_set read_plain_lines_set)

section \<open>Rewriting and testing\<close>

text \<open>The function under test looks at the directive, not at the position in the file or at the expected output.\<close>

definition looks_at_directive :: "'s tested \<Rightarrow> bool" where
  "looks_at_directive f \<longleftrightarrow> (\<forall>s d pos e. f s (d\<lparr>td_pos := pos, td_expected := e\<rparr>) = f s d)"

lemma reader_next_reads:
  assumes "skip_comments (rd_scanner r) (rd_rewrite_buffer r) = (Some (pos0, line0), sc0, buf0)"
    "continue_line pos0 line0 sc0 buf0 = Some (pos, line, sc1, buf1)" "parse_line line = Inr (cmd, args)" "cmd \<noteq> []"
    "read_input sc1 [] buf1 = (input, True, sc2, buf2)" "read_expected sc2 = Some (expected, sc3)"
  shows "reader_next r = Some (Inr True, r\<lparr>rd_data := directive_data (rd_source_name r) pos cmd args input expected, rd_scanner := sc3,
    rd_rewrite_buffer := buf2\<rparr>)"
  using assms by (simp add: reader_next_def Let_def directive_data_def test_data_default_def)

lemma looks_at_same:
  assumes "looks_at_directive f"
  shows "f s (directive_data src pos cmd args input e) = f s (directive_data src' pos' cmd args input e')"
proof -
  let ?d = "directive_data src pos cmd args input e" and ?d' = "directive_data src' pos' cmd args input e'"
  have "?d' = ?d\<lparr>td_pos := td_pos ?d', td_expected := td_expected ?d'\<rparr>" by (simp add: directive_data_def)
  then show ?thesis using assms unfolding looks_at_directive_def by metis
qed

lemma run_directive_rewrites:
  assumes "run_directive f r s = Some (r', s')" "rd_rewrite_buffer r = Some rb"
  shows "\<exists>out. f s (rd_data r) = (out, s') \<and> rd_scanner r' = rd_scanner r \<and>
    rd_rewrite_buffer r' = Some (rb @ text_of (''----'' # output_block (finish_output out)))"
proof -
  obtain out s1 where f: "f s (rd_data r) = (out, s1)" by (cases "f s (rd_data r)")
  then show ?thesis
    using assms out_lines_text[of out]
    by (auto simp: run_directive_def emit_def emit_to_def output_block_def Let_def split: if_splits)
qed

lemma output_block_clean: "writable_output out \<Longrightarrow> list_all clean_line (output_block (finish_output out))"
  using out_lines_clean(1)[of out] by (auto simp: output_block_def list_all_iff clean_line_def)

lemma output_block_body: "output_block a = butlast (output_block a) @ [[]]"
  by (simp add: output_block_def butlast_append)

text \<open>One directive: what is written for it, and that it is read back with its output as the expected output.\<close>

lemma directive_rewrites:
  assumes n: "reader_next r = Some (Inr True, r1)" and d: "run_directive f r1 s = Some (r2, s1)" and b: "rd_rewrite_buffer r = Some rb"
    and c: "list_all clean_line (map snd (rd_scanner r))" and f: "looks_at_directive f" "\<forall>s d. writable_output (fst (f s d))"
  shows "\<exists>L B. rd_rewrite_buffer r2 = Some (rb @ text_of (L @ B @ [[]])) \<and> list_all clean_line (L @ B) \<and>
    list_all clean_line (map snd (rd_scanner r2)) \<and>
    (\<forall>q rest. rd_rewrite_buffer q = None \<longrightarrow> map snd (rd_scanner q) = L @ B @ rest \<longrightarrow> rest = [] \<or> hd rest = [] \<longrightarrow>
      (\<exists>q1. reader_next q = Some (Inr True, q1) \<and> run_directive f q1 s = Some (q1, s1) \<and> rd_rewrite_buffer q1 = None \<and>
        map snd (rd_scanner q1) = tl rest))"
proof -
  obtain pos0 line0 sc0 buf0 pos line sc1 buf1 cmd args input sep sc2 buf2 expected sc3 where x:
     "skip_comments (rd_scanner r) (rd_rewrite_buffer r) = (Some (pos0, line0), sc0, buf0)"
     "continue_line pos0 line0 sc0 buf0 = Some (pos, line, sc1, buf1)" "parse_line line = Inr (cmd, args)" "cmd \<noteq> []"
     "read_input sc1 [] buf1 = (input, sep, sc2, buf2)" "(if sep then read_expected sc2 else Some ([], sc2)) = Some (expected, sc3)"
     "r1 = r\<lparr>rd_data := directive_data (rd_source_name r) pos cmd args input expected, rd_scanner := sc3, rd_rewrite_buffer := buf2\<rparr>"
    using n unfolding reader_next_True by blast
  obtain p1 where p1: "map snd (rd_scanner r) = p1 @ map snd sc0" "buf0 = emits p1 (rd_rewrite_buffer r)"
    "\<forall>sc2 b2 rest. map snd sc2 = p1 @ rest \<longrightarrow> (\<exists>p2 sc2'. skip_comments sc2 b2 = (Some (p2, line0), sc2', emits p1 b2) \<and> map snd sc2' = rest)"
    using skip_comments_replay[OF x(1)] by blast
  obtain p2 where p2: "map snd sc0 = p2 @ map snd sc1" "buf1 = emits p2 buf0"
    "\<forall>pos2 sc2 b2 rest. map snd sc2 = p2 @ rest \<longrightarrow> (\<exists>pos2' sc2'. continue_line pos2 line0 sc2 b2 = Some (pos2', line, sc2', emits p2 b2) \<and> map snd sc2' = rest)"
    using continue_line_replay[OF x(2)] by blast
  obtain ins where ins: "''----'' \<notin> set ins" "map snd sc1 = ins @ (if sep then ''----'' # map snd sc2 else [])" "\<not> sep \<longrightarrow> sc2 = []"
    "buf2 = emits ins buf1" "input = text_of ins"
    using read_input_lines[OF x(5)] by auto
  obtain out where o: "f s (rd_data r1) = (out, s1)" "rd_scanner r2 = sc3"
    "rd_rewrite_buffer r2 = Some (rb @ text_of (p1 @ p2 @ ins @ ''----'' # output_block (finish_output out)))"
    using run_directive_rewrites[OF d] x(7) b p1(2) p2(2) ins(4) by auto
  have w: "writable_output out" using f(2) o(1) by (metis fst_conv)
  obtain body where body: "output_block (finish_output out) = body @ [[]]" using output_block_body by blast
  let ?L = "p1 @ p2 @ ins @ [''----'']"
  have "list_all clean_line (?L @ body)"
    using c p1(1) p2(1) ins(2) output_block_clean[OF w] body by (auto simp: list_all_iff clean_line_def split: if_splits)
  moreover have "list_all clean_line (map snd (rd_scanner r2))"
    using c p1(1) p2(1) ins(2,3) read_expected_set[OF x(6)] o(2) by (auto simp: list_all_iff split: if_splits)
  moreover have "\<exists>q1. reader_next q = Some (Inr True, q1) \<and> run_directive f q1 s = Some (q1, s1) \<and> rd_rewrite_buffer q1 = None \<and>
        map snd (rd_scanner q1) = tl rest"
    if q: "rd_rewrite_buffer q = None" "map snd (rd_scanner q) = ?L @ body @ rest" "rest = [] \<or> hd rest = []" for q rest
  proof -
    have "map snd (rd_scanner q) = p1 @ (p2 @ ins @ ''----'' # body @ rest)" using q(2) by simp
    note this = p1(3)[rule_format, OF this, of None]
    then obtain k0 q0 where q0: "skip_comments (rd_scanner q) None = (Some (k0, line0), q0, None)" "map snd q0 = p2 @ (ins @ ''----'' # body @ rest)"
      by auto
    then obtain k1 sq1 where q1: "continue_line k0 line0 q0 None = Some (k1, line, sq1, None)" "map snd sq1 = ins @ ''----'' # (body @ rest)"
      using p2(3)[rule_format, OF q0(2), of k0 None] by auto
    obtain sq2 where q2: "read_input sq1 [] None = (text_of ins, True, sq2, None)" "map snd sq2 = body @ rest"
      using read_input_replay[OF ins(1) q1(2), of "[]" None] by auto
    obtain sq3 where q3: "read_expected sq2 = Some (finish_output out, sq3)" "map snd sq3 = tl rest"
      using read_expected_block[OF w body q2(2) q(3)] by blast
    let ?q1 = "q\<lparr>rd_data := directive_data (rd_source_name q) k1 cmd args input (finish_output out), rd_scanner := sq3, rd_rewrite_buffer := None\<rparr>"
    have "reader_next q = Some (Inr True, ?q1)"
      using reader_next_reads[OF q0(1)[folded q(1)] _ x(3,4)] q1(1) q2(1) q3(1) ins(5) q(1) by simp
    moreover have "f s (rd_data ?q1) = (out, s1)"
      using o(1) x(7) looks_at_same[OF f(1), of s "rd_source_name r" pos cmd args input expected "rd_source_name q" k1 "finish_output out"] by simp
    then have "run_directive f ?q1 s = Some (?q1, s1)" by (simp add: run_directive_def directive_data_def)
    ultimately show ?thesis using q3(2) by (intro exI[of _ ?q1]) simp
  qed
  ultimately show ?thesis using o(3) body by (intro exI[of _ ?L] exI[of _ body]) simp
qed

lemma reader_next_False:
  assumes "reader_next r = Some (Inr False, r')"
  shows "skip_comments (rd_scanner r) (rd_rewrite_buffer r) = (None, rd_scanner r', rd_rewrite_buffer r')"
proof -
  obtain x sc buf where sk: "skip_comments (rd_scanner r) (rd_rewrite_buffer r) = (x, sc, buf)"
    by (cases "skip_comments (rd_scanner r) (rd_rewrite_buffer r)")
  show ?thesis
  proof (cases x)
    case (Some pl)
    obtain p l where pl: "pl = (p, l)" by (cases pl)
    obtain pos line sc1 buf1 where c: "continue_line p l sc buf = Some (pos, line, sc1, buf1)"
      using assms sk Some pl by (cases "continue_line p l sc buf") (auto simp: reader_next_def)
    obtain cmd args where q: "parse_line line = Inr (cmd, args)"
      using assms sk Some pl c by (cases "parse_line line") (auto simp: reader_next_def Let_def)
    obtain input sep sc2 buf2 where "read_input sc1 [] buf1 = (input, sep, sc2, buf2)" by (cases "read_input sc1 [] buf1")
    then show ?thesis
      using assms sk Some pl c q by (auto simp: reader_next_def Let_def bind_eq_Some_conv split: if_splits)
  qed (use assms sk in \<open>auto simp: reader_next_def\<close>)
qed

definition passes :: "'s tested \<Rightarrow> string list \<Rightarrow> 's \<Rightarrow> 's \<Rightarrow> bool" where
  "passes f ls s s' \<longleftrightarrow> (\<forall>q. rd_rewrite_buffer q = None \<longrightarrow> map snd (rd_scanner q) = ls \<longrightarrow>
     (\<exists>q'. run_directives f q s = Some (Inr q', s') \<and> rd_rewrite_buffer q' = None))"

lemma run_directives_rewrites:
  assumes f: "looks_at_directive f" "\<forall>s d. writable_output (fst (f s d))"
    and "run_directives f r s = Some (Inr r', s')" "rd_rewrite_buffer r = Some rb" "list_all clean_line (map snd (rd_scanner r))"
  shows "\<exists>L. rd_rewrite_buffer r' = Some (rb @ text_of L) \<and> list_all clean_line L \<and> (\<forall>L'. L' = L \<or> L = L' @ [[]] \<longrightarrow> passes f L' s s')"
  using assms(3-5)
proof (induction "length (rd_scanner r)" arbitrary: r s rb rule: less_induct)
  case less
  obtain res r1 where n: "reader_next r = Some (res, r1)" using less.prems(1) by (subst (asm) run_directives.simps) (auto split: option.splits)
  then obtain b where b: "res = Inr b" using less.prems(1) by (subst (asm) run_directives.simps) (cases res; simp)
  show ?case
  proof (cases b)
    case False
    then have r': "r' = r1" "s' = s" using less.prems(1) n b by (subst (asm) run_directives.simps, simp)+
    have "skip_comments (rd_scanner r) (rd_rewrite_buffer r) = (None, rd_scanner r1, rd_rewrite_buffer r1)"
      using n b False reader_next_False by simp
    note e = skip_comments_end[OF this]
    let ?L = "map snd (rd_scanner r)"
    have "passes f L' s s'" if "L' = ?L \<or> ?L = L' @ [[]]" for L'
      unfolding passes_def
    proof (intro allI impI)
      fix q :: reader assume q: "rd_rewrite_buffer q = None" "map snd (rd_scanner q) = L'"
      have "set L' \<subseteq> set ?L" using that by (metis set_append sup_ge1 order_refl)
      then have "set (map snd (rd_scanner q)) \<subseteq> set ?L" unfolding q(2) .
      then have "skip_comments (rd_scanner q) (rd_rewrite_buffer q) = (None, [], None)" using e(3) q(1) by simp
      then have "reader_next q = Some (Inr False, q\<lparr>rd_scanner := [], rd_rewrite_buffer := None\<rparr>)" by (simp add: reader_next_def)
      then show "\<exists>q'. run_directives f q s = Some (Inr q', s') \<and> rd_rewrite_buffer q' = None"
        using r'(2) by (subst run_directives.simps) simp
    qed
    then show ?thesis using e(2) r'(1) less.prems(2,3) by (intro exI[of _ ?L]) simp
  next
    case True
    then obtain r2 s1 where d: "run_directive f r1 s = Some (r2, s1)" "run_directives f r2 s1 = Some (Inr r', s')"
      using less.prems(1) n b by (subst (asm) run_directives.simps) (auto split: option.splits)
    have nt: "reader_next r = Some (Inr True, r1)" using n b True by simp
    obtain L B where LB: "rd_rewrite_buffer r2 = Some (rb @ text_of (L @ B @ [[]]))" "list_all clean_line (L @ B)"
      "list_all clean_line (map snd (rd_scanner r2))"
      and replay: "\<And>q rest. rd_rewrite_buffer q = None \<Longrightarrow> map snd (rd_scanner q) = L @ B @ rest \<Longrightarrow> rest = [] \<or> hd rest = [] \<Longrightarrow>
        \<exists>q1. reader_next q = Some (Inr True, q1) \<and> run_directive f q1 s = Some (q1, s1) \<and> rd_rewrite_buffer q1 = None \<and>
          map snd (rd_scanner q1) = tl rest"
      using directive_rewrites[OF nt d(1) less.prems(2,3) f] by blast
    have "length (rd_scanner r2) < length (rd_scanner r)"
      using reader_next_shorter[OF nt] run_directive_scanner[OF d(1)] by simp
    from less.hyps[OF this d(2) LB(1,3)] obtain L1 where
      L1: "rd_rewrite_buffer r' = Some ((rb @ text_of (L @ B @ [[]])) @ text_of L1)" "list_all clean_line L1"
      "\<forall>L'. L' = L1 \<or> L1 = L' @ [[]] \<longrightarrow> passes f L' s1 s'" by blast
    have go: "passes f (L @ B @ rest) s s'" if rest: "rest = [] \<or> hd rest = []" "passes f (tl rest) s1 s'" for rest
      unfolding passes_def
    proof (intro allI impI)
      fix q :: reader assume q: "rd_rewrite_buffer q = None" "map snd (rd_scanner q) = L @ B @ rest"
      obtain q1 where q1: "reader_next q = Some (Inr True, q1)" "run_directive f q1 s = Some (q1, s1)" "rd_rewrite_buffer q1 = None"
        "map snd (rd_scanner q1) = tl rest" using replay[OF q rest(1)] by blast
      then show "\<exists>q'. run_directives f q s = Some (Inr q', s') \<and> rd_rewrite_buffer q' = None"
        using rest(2) unfolding passes_def by (subst run_directives.simps) simp
    qed
    let ?L = "L @ B @ [[]] @ L1"
    have "passes f L' s s'" if L': "L' = ?L \<or> ?L = L' @ [[]]" for L'
    proof (cases "L' = ?L")
      case True
      then show ?thesis using go[of "[] # L1"] L1(3) by simp
    next
      case False
      then have e: "?L = L' @ [[]]" using L' by blast
      show ?thesis
      proof (cases L1 rule: rev_cases)
        case Nil
        then have "L' = L @ B @ []" using e by simp
        moreover have "passes f (tl []) s1 s'" using L1(3) Nil by simp
        ultimately show ?thesis using go[of "[]"] by simp
      next
        case (snoc L2 l)
        then have "L' = L @ B @ [] # L2" "l = []" using e by auto
        moreover have "passes f L2 s1 s'" using L1(3) snoc calculation by simp
        ultimately show ?thesis using go[of "[] # L2"] by simp
      qed
    qed
    moreover have "list_all clean_line ?L" using LB(2) L1(2) by (simp add: clean_line_def)
    ultimately show ?thesis using L1(1) by (intro exI[of _ ?L]) simp
  qed
qed

text \<open>
  C23. What rewrite mode writes passes the test: if a file without carriage returns is rewritten with a function that looks at the directives only and whose
  outputs have no separator lines, vertical tabs, form feeds or carriage returns, then the run of the rewritten file in test mode with the same function and
  the same initial state neither panics nor fails, and ends in the same state.
\<close>

theorem rewrite_then_test:
  assumes "looks_at_directive f" "\<forall>s d. writable_output (fst (f s d))" "carriage_return \<notin> set content"
    and "run_test_internal source_name content f True s = Some (Inr (Some out), s')"
  shows "run_test_internal source_name' out f False s = Some (Inr None, s')"
proof -
  let ?r = "reader_new source_name content True"
  obtain res s1 where res: "run_directives f ?r s = Some (res, s1)"
    using assms(4) by (auto simp: run_test_internal_def bind_eq_Some_conv)
  then obtain r' where r: "run_directives f ?r s = Some (Inr r', s')"
    and out: "map_option (\<lambda>rb. if length rb \<ge> 2 \<and> last rb = newline \<and> last (butlast rb) = newline then butlast rb else rb) (rd_rewrite_buffer r') = Some out"
    using assms(4) by (cases res) (auto simp: run_test_internal_def)
  have "map snd (rd_scanner ?r) = str_lines content" by (simp add: reader_new_def)
  then obtain L where L: "rd_rewrite_buffer r' = Some (text_of L)" "list_all clean_line L" "\<forall>L'. L' = L \<or> L = L' @ [[]] \<longrightarrow> passes f L' s s'"
    using run_directives_rewrites[OF assms(1,2) r, of "[]"] str_lines_clean[OF assms(3)] by (auto simp: reader_new_def)
  obtain L' where L': "out = text_of L'" "L' = L \<or> L = L' @ [[]]"
    using out L(1) popped_text[OF L(2)] by (auto split: if_splits)
  have "list_all clean_line L'" using L(2) L'(2) by auto
  then have q: "map snd (rd_scanner (reader_new source_name' out False)) = L'" by (simp add: reader_new_def L'(1) str_lines_text)
  have "passes f L' s s'" using L(3) L'(2) by blast
  moreover have "rd_rewrite_buffer (reader_new source_name' out False) = None" by (simp add: reader_new_def)
  ultimately obtain q' where "run_directives f (reader_new source_name' out False) s = Some (Inr q', s')" "rd_rewrite_buffer q' = None"
    unfolding passes_def using q by blast
  then show ?thesis by (simp add: run_test_internal_def)
qed

text \<open>A function under test that counts its calls, and a file with a comment, a continued line and two directives.\<close>

definition sample_tested :: "nat tested" where
  "sample_tested n d = (if contains_key d ''a'' then ''x'' @ [newline, newline] @ ''y'' else ''z'', n + 1)"

definition sample_file :: string where
  "sample_file = text_of [''# a comment'', ''cmd a=1 '' @ [CHR 0x5C], '' b=(2,3)'', ''input'', ''----'', ''old'', [], ''other'', ''----'', ''old'']"

definition sample_rewritten :: string where
  "sample_rewritten = text_of [''# a comment'', ''cmd a=1 '' @ [CHR 0x5C], '' b=(2,3)'', ''input'', ''----'', ''----'', ''x'', [], ''y'', ''----'', ''----'', [],
     ''other'', ''----'', ''z'']"

theorem rewrite_then_test_witness:
  "run_test_internal ''f'' sample_file sample_tested True 0 = Some (Inr (Some sample_rewritten), 2) \<and>
   run_test_internal ''g'' sample_rewritten sample_tested False 0 = Some (Inr None, 2)"
proof -
  have "looks_at_directive sample_tested" by (simp add: looks_at_directive_def sample_tested_def contains_key_def)
  moreover have "\<forall>s d. writable_output (fst (sample_tested s d))"
    by (simp add: writable_output_def sample_tested_def out_lines_def finish_output_def)
  moreover have "carriage_return \<notin> set sample_file" by (simp add: sample_file_def)
  moreover have run: "run_test_internal ''f'' sample_file sample_tested True 0 = Some (Inr (Some sample_rewritten), 2)" by code_simp
  ultimately have "run_test_internal ''g'' sample_rewritten sample_tested False 0 = Some (Inr None, 2)" by (rule rewrite_then_test)
  then show ?thesis using run by blast
qed

text \<open>
  The conditions on the output are needed: an output that is a separator line, or a form feed, is written to a file that does not pass. The first
  separator line that is read opens a section with blank lines, and a line with a form feed is blank for the reader only.
\<close>

lemma rewritten_separator_fails:
  "run_test_internal ''f'' (text_of [''cmd'', ''----'']) (\<lambda>s d. (''----'', s)) True () = Some (Inr (Some (text_of [''cmd'', ''----'', ''----''])), ()) \<and>
   run_test_internal ''f'' (text_of [''cmd'', ''----'', ''----'']) (\<lambda>s d. (''----'', s)) False () = None"
  by (rule conjI; code_simp)

lemma rewritten_form_feed_fails:
  "run_test_internal ''f'' (text_of [''cmd'', ''----'']) (\<lambda>s d. ([CHR 0x0C], s)) True () = Some (Inr (Some (text_of [''cmd'', ''----'', [CHR 0x0C]])), ()) \<and>
   run_test_internal ''f'' (text_of [''cmd'', ''----'', [CHR 0x0C]]) (\<lambda>s d. ([CHR 0x0C], s)) False () = None"
  by (rule conjI; code_simp)

end
