(* ===== verification/Http_Stats.thy ===== *)
theory Http_Stats
  imports Raft_Core Complex_Main "HOL-Library.Signed_Division"
begin

text \<open>
  The statistics that a server keeps of its requests (\<open>server/src/etcdserver/api/rafthttp/v2state\<close>): the window of the last
  requests with its rates (\<open>queue.rs\<close>), the latencies of a follower as its leader sees them (\<open>leader.rs\<close>), and the
  state of the server (\<open>server.rs\<close>). An \<open>isize\<close> is an integer, a \<open>f64\<close> a real number, and a point in time the number
  of nanoseconds since a fixed one; the clock is an argument. The locks around the queues are not modelled.
\<close>

section \<open>The window of requests\<close>

definition QUEUE_CAPACITY :: int where
  "QUEUE_CAPACITY = 200"

record request_state =
  rq_sending_time :: int
  rq_size :: int

definition request_state_new :: "int \<Rightarrow> int \<Rightarrow> request_state" where
  "request_state_new st n = \<lparr>rq_sending_time = st, rq_size = n\<rparr>"

record base_state_queue =
  sq_items :: "request_state option list"
  sq_size :: int
  sq_front :: int
  sq_back :: int
  sq_total_req_size :: int

text \<open>\<open>Vec::with_capacity\<close> reserves space: the vector has no element.\<close>

definition state_queue_new :: base_state_queue where
  "state_queue_new = \<lparr>sq_items = [], sq_size = 0, sq_front = 0, sq_back = -1, sq_total_req_size = 0\<rparr>"

text \<open>Access at an \<open>isize\<close> cast to \<open>usize\<close>: a negative one becomes too large for every vector.\<close>

definition item_at :: "'a list \<Rightarrow> int \<Rightarrow> 'a panics" where
  "item_at xs i = (if i < 0 then None else vec_get xs (nat i))"

definition item_put :: "'a list \<Rightarrow> int \<Rightarrow> 'a \<Rightarrow> 'a list panics" where
  "item_put xs i v = (if i < 0 then None else vec_set xs (nat i) v)"

definition sq_len :: "base_state_queue \<Rightarrow> int" where
  "sq_len q = sq_size q"

definition req_size :: "base_state_queue \<Rightarrow> int" where
  "req_size q = sq_total_req_size q"

definition front_and_back :: "base_state_queue \<Rightarrow> (request_state option \<times> request_state option) panics" where
  "front_and_back q =
     (if sq_size q \<noteq> 0 then do {
        a \<leftarrow> item_at (sq_items q) (sq_front q);
        b \<leftarrow> item_at (sq_items q) (sq_back q);
        Some (a, b) }
      else Some (None, None))"

definition sq_insert :: "request_state option \<Rightarrow> base_state_queue \<Rightarrow> base_state_queue panics" where
  "sq_insert p q = do {
     let q1 = q\<lparr>sq_back := (sq_back q + 1) smod QUEUE_CAPACITY\<rparr>;
     q2 \<leftarrow> (if sq_size q1 = QUEUE_CAPACITY then do {
              it \<leftarrow> item_at (sq_items q1) (sq_front q1);
              old \<leftarrow> it;
              Some (q1\<lparr>sq_total_req_size := sq_total_req_size q1 - rq_size old,
                       sq_front := (sq_back q1 + 1) smod QUEUE_CAPACITY\<rparr>) }
            else Some (q1\<lparr>sq_size := sq_size q1 + 1\<rparr>));
     items \<leftarrow> item_put (sq_items q2) (sq_back q2) p;
     new \<leftarrow> p;
     Some (q2\<lparr>sq_items := items, sq_total_req_size := sq_total_req_size q2 + rq_size new\<rparr>) }"

definition sq_clear :: "base_state_queue \<Rightarrow> base_state_queue" where
  "sq_clear q = q\<lparr>sq_back := -1, sq_front := 0, sq_size := 0, sq_total_req_size := 0\<rparr>"

text \<open>
  The guard asks whether one of the two is there, not whether one is missing. Below it \<open>back\<close> is \<open>None\<close>, so that
  the first \<open>unwrap\<close> panics and what follows is never reached.
\<close>

definition sq_rate :: "int \<Rightarrow> base_state_queue \<Rightarrow> ((real \<times> real) \<times> base_state_queue) panics" where
  "sq_rate now q = do {
     (front, back) \<leftarrow> front_and_back q;
     if front \<noteq> None \<or> back \<noteq> None then Some ((0, 0), q)
     else do {
       b \<leftarrow> back;
       if now - rq_sending_time b > 1000000000 then Some ((0, 0), sq_clear q)
       else do {
         f \<leftarrow> front;
         let duration = rq_sending_time b - rq_sending_time f;
         let secs = real_of_int (duration sdiv 1000000000);
         let pr = real_of_int (sq_size q) / secs * 1000;
         let br = real_of_int (sq_total_req_size q) / secs * 1000;
         Some ((pr, br), q) } } }"

section \<open>The latencies of a follower\<close>

record latency_stats =
  la_current :: real
  la_average :: real
  la_average_square :: real
  la_standard_deviation :: real
  la_minimum :: real
  la_maximum :: real

record counts_stats =
  co_fail :: nat
  co_success :: nat

record follower_stats =
  fo_latency :: latency_stats
  fo_counts :: counts_stats

definition follower_default :: follower_stats where
  "follower_default =
     \<lparr>fo_latency = \<lparr>la_current = 0, la_average = 0, la_average_square = 0, la_standard_deviation = 0,
                     la_minimum = 0, la_maximum = 0\<rparr>,
      fo_counts = \<lparr>co_fail = 0, co_success = 0\<rparr>\<rparr>"

text \<open>The latency of a duration in nanoseconds: its whole milliseconds over a million.\<close>

definition latency_of :: "int \<Rightarrow> real" where
  "latency_of d = real_of_int (d sdiv 1000000) / 1000000"

definition follower_succ :: "int \<Rightarrow> follower_stats \<Rightarrow> follower_stats" where
  "follower_succ d s =
     (let la = fo_latency s; co = fo_counts s;
          total = real (co_success co) * la_average la;
          total_square = real (co_success co) * la_average_square la;
          co1 = co\<lparr>co_success := co_success co + 1\<rparr>;
          la1 = la\<lparr>la_current := latency_of d\<rparr>;
          la2 = (if la_current la1 > la_maximum la1 then la1\<lparr>la_maximum := la_current la1\<rparr> else la1);
          la3 = (if la_current la2 < la_minimum la2 then la2\<lparr>la_minimum := la_current la2\<rparr> else la2);
          la4 = la3\<lparr>la_average := (total + la_current la3) / real (co_success co1)\<rparr>;
          la5 = la4\<lparr>la_average_square := (total_square + la_current la4 * la_current la4) / real (co_success co1)\<rparr>;
          la6 = la5\<lparr>la_standard_deviation := sqrt (la_average_square la5 - la_average la5 * la_average la5)\<rparr>
      in s\<lparr>fo_latency := la6, fo_counts := co1\<rparr>)"

definition follower_fail :: "follower_stats \<Rightarrow> follower_stats" where
  "follower_fail s = s\<lparr>fo_counts := (fo_counts s)\<lparr>co_fail := co_fail (fo_counts s) + 1\<rparr>\<rparr>"

record leader_stats =
  le_leader :: string
  le_followers :: "string \<rightharpoonup> follower_stats"

text \<open>The statistics of a follower are returned as a copy.\<close>

definition leader_follower :: "string \<Rightarrow> leader_stats \<Rightarrow> follower_stats \<times> leader_stats" where
  "leader_follower name l =
     (case le_followers l name of
        Some fs \<Rightarrow> (fs, l)
      | None \<Rightarrow> (follower_default, l\<lparr>le_followers := (le_followers l)(name \<mapsto> follower_default)\<rparr>))"

section \<open>The state of a server\<close>

record leader_info =
  li_name :: string
  li_up_time :: string
  li_start_time :: int

record server_state =
  ss_name :: string
  ss_id :: string
  ss_state :: state_role
  ss_start_time :: int
  ss_leader_info :: leader_info
  ss_recv_append_request_cnt :: nat
  ss_recving_pkg_rate :: real
  ss_recving_bandwidth_rate :: real
  ss_send_append_request_cnt :: nat
  ss_sending_pkg_rate :: real
  ss_sending_bandwidth_rate :: real
  ss_send_rate_queue :: base_state_queue
  ss_recv_rate_queue :: base_state_queue

text \<open>The clock is read twice, for the start of the server and for the start of its leader.\<close>

definition new_server_state :: "int \<Rightarrow> int \<Rightarrow> string \<Rightarrow> string \<Rightarrow> server_state" where
  "new_server_state now1 now2 name ident =
     \<lparr>ss_name = name, ss_id = ident, ss_state = Follower, ss_start_time = now1,
      ss_leader_info = \<lparr>li_name = [], li_up_time = [], li_start_time = now2\<rparr>,
      ss_recv_append_request_cnt = 0, ss_recving_pkg_rate = 0, ss_recving_bandwidth_rate = 0,
      ss_send_append_request_cnt = 0, ss_sending_pkg_rate = 0, ss_sending_bandwidth_rate = 0,
      ss_send_rate_queue = state_queue_new, ss_recv_rate_queue = state_queue_new\<rparr>"

text \<open>\<open>JSON\<close> with the encoder of \<open>serde_json\<close> as an argument; its errors are logged and give no bytes.\<close>

definition server_json :: "(server_state \<Rightarrow> 'e + bytes) \<Rightarrow> int \<Rightarrow> int \<Rightarrow> server_state \<Rightarrow> (bytes \<times> server_state) panics" where
  "server_json to_vec now1 now2 s = do {
     ((sp, sb), sq) \<leftarrow> sq_rate now1 (ss_send_rate_queue s);
     let s1 = s\<lparr>ss_send_rate_queue := sq\<rparr>;
     ((rp, rb), rq) \<leftarrow> sq_rate now2 (ss_recv_rate_queue s1);
     let s2 = s1\<lparr>ss_recv_rate_queue := rq, ss_sending_pkg_rate := sp, ss_sending_bandwidth_rate := sb,
                 ss_recving_pkg_rate := rp, ss_recving_bandwidth_rate := rb\<rparr>;
     Some (case to_vec s2 of Inl _ \<Rightarrow> [] | Inr bs \<Rightarrow> bs, s2) }"

definition server_recv_append_req :: "int \<Rightarrow> string \<Rightarrow> int \<Rightarrow> server_state \<Rightarrow> server_state panics" where
  "server_recv_append_req now leader n s = do {
     let s1 = s\<lparr>ss_state := Follower\<rparr>;
     let s2 = (if leader \<noteq> li_name (ss_leader_info s1)
               then s1\<lparr>ss_leader_info := (ss_leader_info s1)\<lparr>li_name := leader, li_start_time := now\<rparr>\<rparr> else s1);
     q \<leftarrow> sq_insert (Some (request_state_new now n)) (ss_recv_rate_queue s2);
     Some (s2\<lparr>ss_recv_rate_queue := q, ss_recv_append_request_cnt := ss_recv_append_request_cnt s2 + 1\<rparr>) }"

definition server_become_leader :: "int \<Rightarrow> server_state \<Rightarrow> server_state" where
  "server_become_leader now s =
     (if ss_state s \<noteq> Leader
      then s\<lparr>ss_state := Leader, ss_leader_info := (ss_leader_info s)\<lparr>li_name := ss_id s, li_start_time := now\<rparr>\<rparr>
      else s)"

definition server_send_append_req :: "int \<Rightarrow> int \<Rightarrow> int \<Rightarrow> server_state \<Rightarrow> server_state panics" where
  "server_send_append_req now1 now2 n s = do {
     let s1 = server_become_leader now1 s;
     q \<leftarrow> sq_insert (Some (request_state_new now2 n)) (ss_send_rate_queue s1);
     Some (s1\<lparr>ss_send_rate_queue := q, ss_send_append_request_cnt := ss_send_append_request_cnt s1 + 1\<rparr>) }"

section \<open>A queue whose items are there\<close>

text \<open>
  The queue holds a window of requests, oldest first, in a ring: what is needed is that the vector has the length of the
  ring.
\<close>

definition holds_window :: "base_state_queue \<Rightarrow> request_state list \<Rightarrow> bool" where
  "holds_window q w \<longleftrightarrow> length (sq_items q) = 200 \<and> length w \<le> 200 \<and> sq_size q = int (length w) \<and>
     (\<exists>f<200. sq_front q = int f \<and> sq_back q = (if w = [] then -1 else int ((f + length w - 1) mod 200)) \<and>
        (length w < 200 \<longrightarrow> f = 0) \<and> (\<forall>k<length w. sq_items q ! ((f + k) mod 200) = Some (w ! k))) \<and>
     sq_total_req_size q = sum_list (map rq_size w)"

lemma smod_nonneg: "(a::int) \<ge> 0 \<Longrightarrow> b > 0 \<Longrightarrow> a smod b = a mod b"
  by (simp add: signed_modulo_int_def sgn_if)

lemma sdiv_nonneg: "(a::int) \<ge> 0 \<Longrightarrow> b > 0 \<Longrightarrow> a sdiv b \<ge> 0"
  by (simp add: signed_divide_int_def sgn_if pos_imp_zdiv_nonneg_iff)

lemma item_at_nat [simp]: "item_at xs (int i) = vec_get xs i" "item_put xs (int i) v = vec_set xs i v"
  by (simp_all add: item_at_def item_put_def)

lemma ring_next: "f < 200 \<Longrightarrow> (int ((f + 199) mod 200) + 1) smod 200 = int f" "f < 200 \<Longrightarrow> (int f + 1) smod 200 = int ((f + 1) mod 200)"
  "f < 200 \<Longrightarrow> f = (199 + Suc f mod 200) mod (200::nat)"
proof -
  assume f: "f < 200"
  have "(f + 199) mod 200 = (if f = 0 then 199 else f - 1)" using f by (auto simp: mod_if)
  then show "(int ((f + 199) mod 200) + 1) smod 200 = int f" using f by (auto simp: smod_nonneg of_nat_diff)
  show "(int f + 1) smod 200 = int ((f + 1) mod 200)" using f by (cases "f = 199") (auto simp: smod_nonneg)
  show "f = (199 + Suc f mod 200) mod 200" using f by (cases "f = 199") (auto simp: mod_if)
qed

lemma insert_while_free:
  assumes "holds_window q w" "length w < 200"
  shows "\<exists>q'. sq_insert (Some r) q = Some q' \<and> holds_window q' (w @ [r])"
proof -
  have q: "length (sq_items q) = 200" "sq_size q = int (length w)" "sq_front q = 0" "sq_back q = int (length w) - 1"
      "\<forall>k<length w. sq_items q ! k = Some (w ! k)" "sq_total_req_size q = sum_list (map rq_size w)"
    using assms by (auto simp: holds_window_def of_nat_diff Suc_le_eq)
  have "(sq_back q + 1) smod 200 = int (length w)" using q(4) assms(2) by (simp add: smod_nonneg)
  then show ?thesis
    using q assms(2) by (auto simp: sq_insert_def QUEUE_CAPACITY_def Let_def vec_set_def holds_window_def nth_append nth_list_update)
qed

lemma insert_when_full:
  assumes "holds_window q w" "length w = 200"
  shows "\<exists>q'. sq_insert (Some r) q = Some q' \<and> holds_window q' (tl w @ [r])"
proof -
  obtain f where f: "f < 200" "sq_front q = int f" "sq_back q = int ((f + 199) mod 200)"
      "\<forall>k<200. sq_items q ! ((f + k) mod 200) = Some (w ! k)"
    and q: "length (sq_items q) = 200" "sq_size q = 200" "sq_total_req_size q = sum_list (map rq_size w)"
    using assms unfolding holds_window_def by (cases w) auto
  obtain x xs where w: "w = x # xs" using assms(2) by (cases w) auto
  have x: "sq_items q ! f = Some x" using f(4)[rule_format, of 0] f(1) w by simp
  define q' where "q' = q\<lparr>sq_back := int f, sq_total_req_size := sum_list (map rq_size w) - rq_size x + rq_size r,
      sq_front := int ((f + 1) mod 200), sq_items := (sq_items q)[f := Some r]\<rparr>"
  have "(sq_back q + 1) smod 200 = int f" using f(1,3) ring_next(1) by simp
  then have "sq_insert (Some r) q = Some q'"
    using f(1,2) q x by (simp add: sq_insert_def QUEUE_CAPACITY_def Let_def ring_next vec_get_def vec_set_def q'_def)
  moreover have "sq_items q' ! (((f + 1) mod 200 + k) mod 200) = Some ((xs @ [r]) ! k)" if "k < 200" for k
  proof (cases "k = 199")
    case True
    moreover have "((f + 1) mod 200 + 199) mod 200 = f" using f(1) by (simp add: mod_add_left_eq)
    ultimately show ?thesis using w assms(2) q(1) f(1) by (simp add: q'_def nth_append)
  next
    case False
    then have k: "k < 199" using that by simp
    have "((f + 1) mod 200 + k) mod 200 = (f + Suc k) mod 200" by (simp add: mod_add_left_eq)
    moreover have "(f + Suc k) mod 200 \<noteq> f"
      using f(1) k by (cases "f + Suc k < 200") (auto simp: mod_if)
    ultimately show ?thesis using f(4)[rule_format, of "Suc k"] k w assms(2) by (simp add: q'_def nth_append)
  qed
  moreover have "f = (199 + Suc f mod 200) mod 200" using ring_next(3)[OF f(1)] .
  ultimately have "holds_window q' (tl w @ [r])"
    using q w assms(2) unfolding holds_window_def by (auto simp: q'_def intro!: exI[of _ "(f + 1) mod 200"])
  then show ?thesis using \<open>sq_insert (Some r) q = Some q'\<close> by blast
qed

text \<open>The last requests that fit.\<close>

definition last_200 :: "'a list \<Rightarrow> 'a list" where
  "last_200 xs = drop (length xs - 200) xs"

lemma insert_window:
  assumes "holds_window q (last_200 rs)"
  shows "\<exists>q'. sq_insert (Some r) q = Some q' \<and> holds_window q' (last_200 (rs @ [r]))"
proof (cases "length rs < 200")
  case True
  then show ?thesis using insert_while_free[of q "last_200 rs"] assms by (simp add: last_200_def)
next
  case False
  then have "tl (last_200 rs) @ [r] = last_200 (rs @ [r])"
    by (simp add: last_200_def tl_drop drop_Suc[symmetric] Suc_diff_le[symmetric])
  then show ?thesis using insert_when_full[of q "last_200 rs"] False assms by (simp add: last_200_def)
qed

lemma window_ends:
  assumes "holds_window q w"
  shows "front_and_back q = Some (if w = [] then (None, None) else (Some (hd w), Some (last w)))"
proof (cases "w = []")
  case True
  then show ?thesis using assms by (simp add: holds_window_def front_and_back_def)
next
  case False
  obtain f where f: "f < 200" "sq_front q = int f" "sq_back q = int ((f + (length w - 1)) mod 200)"
      "\<forall>k<length w. sq_items q ! ((f + k) mod 200) = Some (w ! k)"
    and q: "length (sq_items q) = 200" "sq_size q = int (length w)"
    using assms False unfolding holds_window_def by (auto simp: Suc_le_eq)
  have "sq_items q ! f = Some (hd w)" using f(4)[rule_format, of 0] f(1) False by (simp add: hd_conv_nth)
  moreover have "sq_items q ! ((f + (length w - 1)) mod 200) = Some (last w)"
    using f(4)[rule_format, of "length w - 1"] False by (simp add: last_conv_nth)
  ultimately show ?thesis using f q False by (simp add: front_and_back_def vec_get_def)
qed

fun insert_all :: "request_state list \<Rightarrow> base_state_queue \<Rightarrow> base_state_queue panics" where
  "insert_all [] q = Some q"
| "insert_all (r # rs) q = sq_insert (Some r) q \<bind> insert_all rs"

lemma insert_all_window:
  "holds_window q (last_200 rs0) \<Longrightarrow> \<exists>q'. insert_all rs q = Some q' \<and> holds_window q' (last_200 (rs0 @ rs))"
proof (induction rs arbitrary: q rs0)
  case (Cons r rs)
  obtain q1 where "sq_insert (Some r) q = Some q1" "holds_window q1 (last_200 (rs0 @ [r]))"
    using insert_window[OF Cons.prems] by blast
  then show ?case using Cons.IH[of q1 "rs0 @ [r]"] by simp
qed simp

text \<open>
  The window of requests is right, once its vector has its 200 slots: after any requests it counts the last 200 of them, knows the
  sum of their sizes and the oldest and the newest; but the rate of a window that is not empty is always reported as zero.
\<close>

theorem state_queue_window:
  "\<exists>q. insert_all rs (state_queue_new\<lparr>sq_items := replicate 200 None\<rparr>) = Some q \<and>
     sq_len q = int (length (last_200 rs)) \<and> req_size q = sum_list (map rq_size (last_200 rs)) \<and>
     front_and_back q = Some (if rs = [] then (None, None) else (Some (hd (last_200 rs)), Some (last rs))) \<and>
     sq_rate now q = (if rs = [] then None else Some ((0, 0), q))"
proof -
  have "holds_window (state_queue_new\<lparr>sq_items := replicate 200 None\<rparr>) (last_200 [])"
    by (simp add: holds_window_def state_queue_new_def last_200_def)
  from insert_all_window[OF this, of rs] obtain q where
    q: "insert_all rs (state_queue_new\<lparr>sq_items := replicate 200 None\<rparr>) = Some q" "holds_window q (last_200 rs)" by auto
  have ne: "last_200 rs = [] \<longleftrightarrow> rs = []" "rs \<noteq> [] \<Longrightarrow> last (last_200 rs) = last rs" by (cases rs; simp add: last_200_def)+
  have fb: "front_and_back q = Some (if rs = [] then (None, None) else (Some (hd (last_200 rs)), Some (last rs)))"
    using window_ends[OF q(2)] ne by auto
  moreover have "sq_rate now q = (if rs = [] then None else Some ((0, 0), q))" by (simp add: sq_rate_def fb)
  ultimately show ?thesis using q by (auto simp: holds_window_def sq_len_def req_size_def)
qed

lemma insert_new_panics: "sq_insert p state_queue_new = None"
  by (simp add: sq_insert_def state_queue_new_def Let_def item_put_def vec_set_def QUEUE_CAPACITY_def)

lemma rate_new_panics: "sq_rate now state_queue_new = None"
  by (simp add: sq_rate_def state_queue_new_def front_and_back_def)

text \<open>
  A server as it is created can count nothing: its queues have no slots, so that the first append request that it receives or
  sends panics, and so does the report of its statistics.
\<close>

theorem new_server_counts_nothing:
  "server_recv_append_req now leader n (new_server_state t1 t2 name ident) = None \<and>
   server_send_append_req now now' n (new_server_state t1 t2 name ident) = None \<and>
   server_json to_vec now now' (new_server_state t1 t2 name ident) = None"
  by (simp add: server_recv_append_req_def server_send_append_req_def server_json_def server_become_leader_def
      new_server_state_def insert_new_panics rate_new_panics Let_def)

section \<open>The statistics of a follower\<close>

text \<open>A run of a follower's statistics: the duration of a request that succeeded, or \<open>None\<close> for one that failed.\<close>

fun follower_run :: "int option list \<Rightarrow> follower_stats \<Rightarrow> follower_stats" where
  "follower_run [] s = s"
| "follower_run (Some d # es) s = follower_run es (follower_succ d s)"
| "follower_run (None # es) s = follower_run es (follower_fail s)"

abbreviation mean :: "real list \<Rightarrow> real" where
  "mean xs \<equiv> sum_list xs / real (length xs)"

definition squares :: "real list \<Rightarrow> real list" where
  "squares xs = map (\<lambda>x. x * x) xs"

text \<open>What the statistics are after the latencies \<open>xs\<close>.\<close>

definition sums_up :: "real list \<Rightarrow> nat \<Rightarrow> follower_stats \<Rightarrow> bool" where
  "sums_up xs fails s \<longleftrightarrow> co_success (fo_counts s) = length xs \<and> co_fail (fo_counts s) = fails \<and>
     la_average (fo_latency s) = mean xs \<and> la_average_square (fo_latency s) = mean (squares xs) \<and>
     la_standard_deviation (fo_latency s) = sqrt (mean (squares xs) - mean xs * mean xs) \<and>
     la_maximum (fo_latency s) = Max (set (0 # xs)) \<and> la_minimum (fo_latency s) = Min (set (0 # xs))"

lemma mean_step: "real (length xs) * mean xs = sum_list xs"
  by (cases "xs = []") auto

lemma follower_succ_sel [simp]:
  "fo_counts (follower_succ d s) = (fo_counts s)\<lparr>co_success := co_success (fo_counts s) + 1\<rparr>"
  "la_average (fo_latency (follower_succ d s)) =
     (real (co_success (fo_counts s)) * la_average (fo_latency s) + latency_of d) / real (co_success (fo_counts s) + 1)"
  "la_average_square (fo_latency (follower_succ d s)) =
     (real (co_success (fo_counts s)) * la_average_square (fo_latency s) + latency_of d * latency_of d) / real (co_success (fo_counts s) + 1)"
  "la_maximum (fo_latency (follower_succ d s)) = max (la_maximum (fo_latency s)) (latency_of d)"
  "la_minimum (fo_latency (follower_succ d s)) = min (la_minimum (fo_latency s)) (latency_of d)"
  "la_standard_deviation (fo_latency (follower_succ d s)) =
     sqrt (la_average_square (fo_latency (follower_succ d s)) - la_average (fo_latency (follower_succ d s)) * la_average (fo_latency (follower_succ d s)))"
  by (simp_all add: follower_succ_def Let_def)

lemma sums_up_succ:
  assumes "sums_up xs fails s"
  shows "sums_up (xs @ [latency_of d]) fails (follower_succ d s)"
proof -
  define x where "x = latency_of d"
  have l: "squares (xs @ [x]) = squares xs @ [x * x]" "length (squares xs) = length xs" by (simp_all add: squares_def)
  have "real (length xs) * mean (squares xs) = sum_list (squares xs)" using mean_step[of "squares xs"] l by simp
  moreover have "Max (set (0 # xs @ [x])) = max (Max (set (0 # xs))) x" "Min (set (0 # xs @ [x])) = min (Min (set (0 # xs))) x"
    by (simp_all add: insert_commute[of 0] max.commute min.commute)
  ultimately show ?thesis
    using assms mean_step[of xs] unfolding sums_up_def x_def[symmetric] by (simp del: set_simps add: l x_def[symmetric] add.commute)
qed

lemma sums_up_run:
  "sums_up xs fails s \<Longrightarrow>
   sums_up (xs @ map latency_of (List.map_filter (\<lambda>e. e) es)) (fails + length (filter (\<lambda>e. e = None) es)) (follower_run es s)"
proof (induction es s arbitrary: xs fails rule: follower_run.induct)
  case (2 d es s)
  then show ?case using "2.IH"[OF sums_up_succ[OF "2.prems", of d]] by (simp add: map_filter_simps)
next
  case (3 es s)
  have "sums_up xs (Suc fails) (follower_fail s)" using "3.prems" by (simp add: sums_up_def follower_fail_def)
  from "3.IH"[OF this] show ?case by (simp add: map_filter_simps)
qed (simp add: map_filter_simps)

lemma variance_mean:
  "mean (squares xs) - mean xs * mean xs = mean (squares (map (\<lambda>x. x - mean xs) xs))"
proof (cases "xs = []")
  case False
  define n where "n = real (length xs)"
  define m where "m = mean xs"
  have n: "n > 0" "n * m = sum_list xs" using False by (simp_all add: n_def m_def)
  have "sum_list (squares (map (\<lambda>x. x - m) ys)) = sum_list (squares ys) - 2 * m * sum_list ys + real (length ys) * (m * m)" for ys
    by (induction ys) (auto simp: squares_def algebra_simps)
  then have "sum_list (squares (map (\<lambda>x. x - m) xs)) = sum_list (squares xs) - n * (m * m)"
    using n(2) by (simp add: n_def[symmetric] n(2)[symmetric])
  moreover have "length (squares (map (\<lambda>x. x - m) xs)) = length xs" "length (squares xs) = length xs" by (simp_all add: squares_def)
  ultimately have "mean (squares (map (\<lambda>x. x - m) xs)) = mean (squares xs) - m * m"
    using n(1) by (simp add: n_def[symmetric] diff_divide_distrib)
  then show ?thesis by (simp only: m_def)
qed (simp add: squares_def)

lemma squares_nonneg: "sum_list (squares xs) \<ge> 0"
  by (induction xs) (auto simp: squares_def)



end
