(* ===== verification/Http_Types.thy ===== *)
theory Http_Types
  imports Http_Stats Raw_Node "HOL-Library.Word" "HOL-Library.Multiset" "HOL-Library.Char_ord" "HOL-Library.List_Lexorder"
begin

text \<open>
  The values and helpers of the HTTP transport between servers (\<open>server/src/etcdserver/api/rafthttp\<close>): identifiers
  (\<open>types/id.rs\<close>), lists of URLs (\<open>types/urls.rs\<close>), the choice of a URL of a peer (\<open>url_pick.rs\<close>), the
  status of a peer (\<open>peer_status.rs\<close>), requests, their answers and versions (\<open>util/net_util.rs\<close>), and two
  readers (\<open>util/read_closer.rs\<close>, \<open>util/reader.rs\<close>). The crates \<open>url\<close>, \<open>hyper\<close> and \<open>semver\<close> are arguments:
  the record \<open>url_lib\<close> holds the functions that the code calls, over a type \<open>'u\<close> of URLs. An \<open>io::Error\<close> is its
  message. Text is ASCII.
\<close>

section \<open>Identifiers\<close>

type_synonym ident = "64 word"

definition hex_char :: "nat \<Rightarrow> char" where
  "hex_char d = (if d < 10 then char_of (48 + d) else char_of (87 + d))"

fun hex_of_nat :: "nat \<Rightarrow> string" where
  "hex_of_nat n = (if n < 16 then [hex_char n] else hex_of_nat (n div 16) @ [hex_char (n mod 16)])"

declare hex_of_nat.simps [simp del]

definition id_lower_hex :: "ident \<Rightarrow> string" where
  "id_lower_hex i = hex_of_nat (unat i)"

definition id_to_string :: "ident \<Rightarrow> string" where
  "id_to_string i = string_of_nat (unat i)"

text \<open>\<open>u64::from_str_radix(_, 16)\<close>.\<close>

definition hex_digit :: "char \<Rightarrow> nat option" where
  "hex_digit c = (let n = of_char c :: nat in
     if 48 \<le> n \<and> n \<le> 57 then Some (n - 48)
     else if 97 \<le> n \<and> n \<le> 102 then Some (n - 87)
     else if 65 \<le> n \<and> n \<le> 70 then Some (n - 55) else None)"

fun parse_hex :: "nat \<Rightarrow> string \<Rightarrow> string + nat" where
  "parse_hex acc [] = Inr acc"
| "parse_hex acc (c # cs) =
     (case hex_digit c of
        None \<Rightarrow> Inl ''invalid digit found in string''
      | Some d \<Rightarrow> if acc * 16 + d \<le> u64_max then parse_hex (acc * 16 + d) cs
                  else Inl ''number too large to fit in target type'')"

definition id_from_str :: "string \<Rightarrow> string + ident" where
  "id_from_str s = map_sum id word_of_nat (case s of
       [] \<Rightarrow> Inl ''cannot parse integer from empty string''
     | c # cs \<Rightarrow>
         if (c = CHR ''+'' \<or> c = CHR ''-'') \<and> cs = [] then Inl ''invalid digit found in string''
         else if c = CHR ''+'' then parse_hex 0 cs
         else parse_hex 0 s)"

section \<open>Lists of URLs\<close>

record 'u url_lib =
  ul_parse :: "string \<Rightarrow> string + 'u"
  ul_str :: "'u \<Rightarrow> string"
  ul_scheme :: "'u \<Rightarrow> string"
  ul_addrs :: "'u \<Rightarrow> string + string list"
  ul_path :: "'u \<Rightarrow> string"
  ul_set_path :: "string \<Rightarrow> 'u \<Rightarrow> 'u"
  ul_le :: "'u \<Rightarrow> 'u \<Rightarrow> bool"

type_synonym 'u urls = "'u list"

text \<open>The stable sort of a vector by an order.\<close>

fun insort_by :: "('a \<Rightarrow> 'a \<Rightarrow> bool) \<Rightarrow> 'a \<Rightarrow> 'a list \<Rightarrow> 'a list" where
  "insort_by le x [] = [x]"
| "insort_by le x (y # ys) = (if le x y then x # y # ys else y # insort_by le x ys)"

definition sort_by :: "('a \<Rightarrow> 'a \<Rightarrow> bool) \<Rightarrow> 'a list \<Rightarrow> 'a list" where
  "sort_by le xs = foldr (insort_by le) xs []"

fun urls_string :: "'u url_lib \<Rightarrow> 'u urls \<Rightarrow> string" where
  "urls_string L [] = []"
| "urls_string L (u # us) = ul_str L u @ '','' @ urls_string L us"

definition urls_less :: "'u url_lib \<Rightarrow> nat \<Rightarrow> nat \<Rightarrow> 'u urls \<Rightarrow> bool panics" where
  "urls_less L i j us = do {
     a \<leftarrow> vec_get us i;
     b \<leftarrow> vec_get us j;
     Some (ul_str L a < ul_str L b) }"

definition unwrap_ok :: "'e + 'a \<Rightarrow> 'a panics" where
  "unwrap_ok r = (case r of Inl _ \<Rightarrow> None | Inr x \<Rightarrow> Some x)"

definition urls_swap :: "'u url_lib \<Rightarrow> nat \<Rightarrow> nat \<Rightarrow> 'u urls \<Rightarrow> 'u urls panics" where
  "urls_swap L i j us = do {
     ui \<leftarrow> vec_get us i;
     let temp = ul_str L ui;
     uj \<leftarrow> vec_get us j;
     a \<leftarrow> unwrap_ok (ul_parse L (ul_str L uj));
     us1 \<leftarrow> vec_set us i a;
     b \<leftarrow> unwrap_ok (ul_parse L temp);
     vec_set us1 j b }"

definition urls_string_slice :: "'u url_lib \<Rightarrow> 'u urls \<Rightarrow> string list" where
  "urls_string_slice L us = map (ul_str L) us"

definition urls_sort :: "'u url_lib \<Rightarrow> 'u urls \<Rightarrow> 'u urls" where
  "urls_sort L us = sort_by (ul_le L) us"

definition get_url :: "'u urls \<Rightarrow> nat \<Rightarrow> 'u option" where
  "get_url us i = (if i < length us then Some (us ! i) else None)"

fun new_urls_loop :: "'u url_lib \<Rightarrow> string list \<Rightarrow> 'u urls \<Rightarrow> (string + 'u urls) panics" where
  "new_urls_loop L [] acc = Some (Inr acc)"
| "new_urls_loop L (s # ss) acc = do {
     u \<leftarrow> unwrap_ok (ul_parse L (trim s));
     if ul_scheme L u \<noteq> ''http'' \<and> ul_scheme L u \<noteq> ''https'' \<and> ul_scheme L u \<noteq> ''unix'' \<and> ul_scheme L u \<noteq> ''unixs''
     then Some (Inl ''URL scheme must be http, https, unix, or unixs: {}'')
     else (case ul_addrs L u of
         Inl e \<Rightarrow> Some (Inl e)
       | Inr addrs \<Rightarrow>
           if addrs = [] then Some (Inl ''URL address does not have the form \"host:port\": {}'')
           else if ul_path L u \<noteq> ''/'' then Some (Inl ''URL must not contain a path'')
           else new_urls_loop L ss (acc @ [u])) }"

definition new_urls :: "'u url_lib \<Rightarrow> string list \<Rightarrow> (string + 'u urls) panics" where
  "new_urls L strs =
     (if length strs = 0 then Some (Inl ''no valid URLs given'')
      else map_option (map_sum id (sort_by (ul_le L))) (new_urls_loop L strs []))"

section \<open>The choice of a URL\<close>

record 'u url_picker =
  pk_urls :: "'u urls"
  pk_picked :: int

definition picker_new :: "'u urls \<Rightarrow> 'u url_picker" where
  "picker_new us = \<lparr>pk_urls = us, pk_picked = 0\<rparr>"

definition picker_update :: "'u urls \<Rightarrow> 'u url_picker \<Rightarrow> 'u url_picker" where
  "picker_update us p = p\<lparr>pk_urls := us, pk_picked := 0\<rparr>"

text \<open>The URL at \<open>picked\<close>, an \<open>isize\<close> cast to \<open>usize\<close>.\<close>

definition picker_pick :: "'u url_picker \<Rightarrow> 'u option" where
  "picker_pick p = (if pk_picked p < 0 then None else get_url (pk_urls p) (nat (pk_picked p)))"

definition picker_unreachable :: "'u \<Rightarrow> 'u url_picker \<Rightarrow> 'u url_picker panics" where
  "picker_unreachable url p = do {
     u \<leftarrow> picker_pick p;
     if url = u then Some (p\<lparr>pk_picked := (pk_picked p + 1) smod int (length (pk_urls p))\<rparr>) else Some p }"

section \<open>The status of a peer\<close>

record peer_status =
  ps_local :: ident
  ps_id :: ident
  ps_active :: bool
  ps_since :: "int option"

definition peer_status_new :: "ident \<Rightarrow> ident \<Rightarrow> peer_status" where
  "peer_status_new loc i = \<lparr>ps_local = loc, ps_id = i, ps_active = False, ps_since = None\<rparr>"

definition ps_activate :: "int \<Rightarrow> peer_status \<Rightarrow> peer_status" where
  "ps_activate now s = (if \<not> ps_active s then s\<lparr>ps_active := True, ps_since := Some now\<rparr> else s)"

text \<open>The failure and its reason are logged only.\<close>

definition ps_deactivate :: "peer_status \<Rightarrow> peer_status" where
  "ps_deactivate s = (if ps_active s then s\<lparr>ps_active := False, ps_since := None\<rparr> else s)"

section \<open>Requests and their answers\<close>

datatype custom_error = IncompatibleVersion | ClusterIDMismatch | MemberRemoved | Other string

definition custom_error_fmt :: "custom_error \<Rightarrow> string" where
  "custom_error_fmt e = (case e of
       IncompatibleVersion \<Rightarrow> ''incompatible version''
     | ClusterIDMismatch \<Rightarrow> ''Cluster ID mismatch''
     | MemberRemoved \<Rightarrow> ''the member has been permanently removed from the cluster''
     | Other msg \<Rightarrow> ''Unhandled error: '' @ msg)"

definition Version_const :: string where
  "Version_const = ''3.6.0-alpha.0''"

definition MinClusterVersion :: string where
  "MinClusterVersion = ''3.0.0''"

text \<open>A request of the method \<open>POST\<close>; the argument \<open>valid\<close> says whether \<open>hyper\<close> accepts it.\<close>

record http_request =
  hr_uri :: string
  hr_headers :: "(string \<times> string) list"
  hr_body :: bytes

record http_response =
  hp_status :: nat
  hp_headers :: "(string \<times> string) list"
  hp_data :: "(string + bytes) option"

definition set_peer_urls_header :: "'u url_lib \<Rightarrow> 'u urls \<Rightarrow> (string \<times> string) list \<Rightarrow> (string \<times> string) list" where
  "set_peer_urls_header L us hs = (if length us = 0 then hs else hs @ [(''X-PeerURLs'', urls_string L us)])"

definition create_POST_request ::
    "'u url_lib \<Rightarrow> (http_request \<Rightarrow> bool) \<Rightarrow> 'u \<Rightarrow> string \<Rightarrow> bytes \<Rightarrow> string \<Rightarrow> 'u urls \<Rightarrow> ident \<Rightarrow> ident \<Rightarrow> http_request panics" where
  "create_POST_request L valid u path body ct us from cid =
     (let uu = ul_set_path L path u;
          hs = [(''Content-Type'', ct), (''X-Server-From'', id_to_string from), (''X-Server-Version'', Version_const),
                (''X-Min-Cluster-Version'', MinClusterVersion), (''X-Etcd-Cluster-ID'', id_to_string cid)];
          req = \<lparr>hr_uri = ul_str L uu, hr_headers = set_peer_urls_header L us hs, hr_body = body\<rparr>
      in if valid req then Some req else None)"

definition trim_end :: "string \<Rightarrow> string" where
  "trim_end s = rev (dropWhile is_trim_ws (rev s))"

fun str_contains :: "string \<Rightarrow> string \<Rightarrow> bool" where
  "str_contains p [] = (p = [])"
| "str_contains p (c # s) = (take (length p) (c # s) = p \<or> str_contains p s)"

text \<open>
  The answer to a request; \<open>status_str\<close> prints a status code. The body of a refused request is unwrapped, and so is the
  header of the cluster that only a log message uses.
\<close>

definition check_post_response :: "(nat \<Rightarrow> string) \<Rightarrow> http_response \<Rightarrow> http_request \<Rightarrow> (string + unit) panics" where
  "check_post_response status_str resp req =
     (if hp_status resp = 412 then do {
        data \<leftarrow> hp_data resp;
        body \<leftarrow> unwrap_ok data;
        let err = trim_end body;
        if str_contains (custom_error_fmt IncompatibleVersion) err then Some (Inl err)
        else if str_contains (custom_error_fmt ClusterIDMismatch) err then do {
          _ \<leftarrow> map_of (hp_headers resp) ''X-Etcd-Cluster-ID'';
          _ \<leftarrow> map_of (hr_headers req) ''X-Etcd-Cluster-ID'';
          Some (Inl err) }
        else Some (Inl []) }
      else if hp_status resp = 403 then Some (Inl (custom_error_fmt MemberRemoved))
      else if hp_status resp = 204 then Some (Inr ())
      else Some (Inl (''unexpected https status '' @ status_str (hp_status resp) @ '' while posting to '' @ hr_uri req)))"

section \<open>Versions\<close>

record version =
  v_major :: nat
  v_minor :: nat
  v_patch :: nat
  v_pre :: string
  v_build :: string

datatype ordering = OrdLess | OrdEqual | OrdGreater

text \<open>The functions of \<open>semver\<close> that the code calls.\<close>

record version_lib =
  vl_parse :: "string \<Rightarrow> string + version"
  vl_str :: "version \<Rightarrow> string"
  vl_cmp :: "version \<Rightarrow> version \<Rightarrow> ordering"

definition compare_major_minor_version :: "version_lib \<Rightarrow> version \<Rightarrow> version \<Rightarrow> int" where
  "compare_major_minor_version L a b =
     (let na = \<lparr>v_major = v_major a, v_minor = v_minor a, v_patch = 0, v_pre = [], v_build = []\<rparr>;
          nb = \<lparr>v_major = v_major b, v_minor = v_minor b, v_patch = 0, v_pre = [], v_build = []\<rparr>
      in case vl_cmp L na nb of OrdLess \<Rightarrow> -1 | OrdGreater \<Rightarrow> 1 | _ \<Rightarrow> 0)"

definition server_version :: "version_lib \<Rightarrow> (string \<times> string) list \<Rightarrow> string + version" where
  "server_version L hs = (case map_of hs ''X-Server-Version'' of Some s \<Rightarrow> vl_parse L s | None \<Rightarrow> vl_parse L ''2.0.0'')"

definition min_cluster_version :: "version_lib \<Rightarrow> (string \<times> string) list \<Rightarrow> string + version" where
  "min_cluster_version L hs = (case map_of hs ''X-Min-Cluster-Version'' of Some s \<Rightarrow> vl_parse L s | None \<Rightarrow> vl_parse L ''2.0.0'')"

definition check_version_compatibility ::
    "version_lib \<Rightarrow> string \<Rightarrow> version \<Rightarrow> version \<Rightarrow> (string + version \<times> version) panics" where
  "check_version_compatibility L name server min_cluster = do {
     local_server \<leftarrow> unwrap_ok (vl_parse L Version_const);
     local_min_cluster \<leftarrow> unwrap_ok (vl_parse L MinClusterVersion);
     if compare_major_minor_version L server local_min_cluster = -1
     then Some (Inl (''remote version is too low: remote['' @ name @ '']='' @ vl_str L server @ '', local='' @ vl_str L local_server))
     else if compare_major_minor_version L min_cluster local_min_cluster = 1
     then Some (Inl (''local version is too low: remote['' @ name @ '']='' @ vl_str L server @ '', local='' @ vl_str L local_server))
     else Some (Inr (local_server, local_min_cluster)) }"

section \<open>Readers\<close>

datatype http_error = ErrShortRead | ErrExpectEOF | ErrSend | ErrNoDBSnapshot | ErrNoSnapshot | ErrEmptySnapshot | ErrCRCMismatch

text \<open>
  A \<open>Read\<close> is a function of the length of the buffer and of the state of the reader; it gives an error or the bytes that it
  has written to the front of the buffer.
\<close>

type_synonym 'r reading = "nat \<Rightarrow> 'r \<Rightarrow> (string + bytes) \<times> 'r"

text \<open>The \<open>Read\<close> of a byte slice.\<close>

definition slice_read :: "bytes reading" where
  "slice_read n bs = (Inr (take n bs), drop n bs)"

record 'r exact_reader =
  er_rc :: 'r
  er_br :: int
  er_total_bytes :: int

definition exact_reader_new :: "'r \<Rightarrow> int \<Rightarrow> 'r exact_reader" where
  "exact_reader_new rc n = \<lparr>er_rc = rc, er_br = 0, er_total_bytes = n\<rparr>"

text \<open>The bytes are those in the buffer afterwards; \<open>Ok(n)\<close> gives their number.\<close>

definition exact_read :: "'r reading \<Rightarrow> nat \<Rightarrow> 'r exact_reader \<Rightarrow> ((http_error + nat) \<times> bytes \<times> 'r exact_reader) panics" where
  "exact_read rd len r = (case rd len (er_rc r) of (res, rc) \<Rightarrow> do {
     bs \<leftarrow> unwrap_ok res;
     let n = length bs;
     let r1 = r\<lparr>er_rc := rc, er_br := er_br r + int n\<rparr>;
     if er_br r1 > er_total_bytes r1 then Some (Inl ErrExpectEOF, bs, r1)
     else if er_br r1 < er_total_bytes r1 \<and> n = 0 then Some (Inl ErrShortRead, bs, r1)
     else Some (Inr n, bs, r1) })"

record 'r limited_reader =
  lr_r :: 'r
  lr_n :: nat

definition limited_read :: "'r reading \<Rightarrow> nat \<Rightarrow> 'r limited_reader \<Rightarrow> (string + bytes) \<times> 'r limited_reader" where
  "limited_read rd len r = (case rd (if len > lr_n r then lr_n r else len) (lr_r r) of
     (res, r') \<Rightarrow> (res, r\<lparr>lr_r := r'\<rparr>))"

section \<open>Identifiers are read back from hexadecimal\<close>

lemma hex_digit_char: "d < 16 \<Longrightarrow> hex_digit (hex_char d) = Some d"
  by (simp add: hex_digit_def hex_char_def Let_def)

lemma parse_hex_append: "parse_hex acc (s @ t) = (case parse_hex acc s of Inl e \<Rightarrow> Inl e | Inr n \<Rightarrow> parse_hex n t)"
  by (induction acc s rule: parse_hex.induct) (auto split: option.splits)

lemma parse_hex_of_nat: "n \<le> u64_max \<Longrightarrow> parse_hex 0 (hex_of_nat n) = Inr n"
proof (induction n rule: hex_of_nat.induct)
  case (1 n)
  show ?case
  proof (cases "n < 16")
    case True
    then show ?thesis by (subst hex_of_nat.simps) (simp add: hex_digit_char)
  next
    case False
    have "parse_hex 0 (hex_of_nat (n div 16)) = Inr (n div 16)"
      using "1.IH"[OF False] "1.prems" by (meson div_le_dividend le_trans)
    then show ?thesis using False "1.prems"
      by (subst hex_of_nat.simps) (simp add: parse_hex_append hex_digit_char mult.commute[of _ 16])
  qed
qed

lemma hex_of_nat_head: "\<exists>c s. hex_of_nat n = c # s \<and> c \<noteq> CHR ''+'' \<and> c \<noteq> CHR ''-''"
proof (induction n rule: hex_of_nat.induct)
  case (1 n)
  have "hex_char d \<noteq> CHR ''+''" "hex_char d \<noteq> CHR ''-''" if "d < 16" for d
    using hex_digit_char[OF that] by (auto simp: hex_digit_def Let_def)
  moreover have "hex_of_nat n = (if n < 16 then [hex_char n] else hex_of_nat (n div 16) @ [hex_char (n mod 16)])"
    by (rule hex_of_nat.simps)
  ultimately show ?case using 1 by auto
qed

lemma id_hex_roundtrip: "id_from_str (id_lower_hex i) = Inr i"
proof -
  have "unat i < 2 ^ 64" using unsigned_less[of i] by simp
  then have "parse_hex 0 (hex_of_nat (unat i)) = Inr (unat i)" by (intro parse_hex_of_nat) simp
  then show ?thesis using hex_of_nat_head[of "unat i"] unfolding id_from_str_def id_lower_hex_def by auto
qed

text \<open>But the decimal text that \<open>to_string\<close> gives, and that the requests carry, is read as another identifier.\<close>

lemma id_decimal_misread: "id_from_str (id_to_string 10) = Inr 16"
proof -
  have "char_of (49::nat) = CHR ''1''" "char_of (48::nat) = CHR ''0''" by (simp_all add: char_of_eq_iff)
  then have "id_to_string 10 = ''10''" by (simp add: id_to_string_def string_of_nat.simps digit_char_def)
  then show ?thesis by (simp add: id_from_str_def hex_digit_def)
qed

section \<open>URLs\<close>

lemma insort_by_mset [simp]: "mset (insort_by le x xs) = add_mset x (mset xs)"
  by (induction xs) auto

lemma sort_by_mset [simp]: "mset (sort_by le xs) = mset xs"
  by (induction xs) (auto simp: sort_by_def)

lemma sort_by_sorted:
  assumes "\<And>a b. le a b \<or> le b a" "\<And>a b c. le a b \<Longrightarrow> le b c \<Longrightarrow> le a c"
  shows "sorted_wrt le (sort_by le xs)"
proof -
  have "sorted_wrt le ys \<Longrightarrow> sorted_wrt le (insort_by le x ys)" for x ys
  proof (induction ys)
    case (Cons y ys)
    have "set (insort_by le x ys) = insert x (set ys)" by (metis insort_by_mset set_mset_add_mset_insert set_mset_mset)
    then show ?case using Cons assms by (auto simp: sort_by_def intro: assms(2) dest: assms(1)[THEN disjE])
  qed simp
  then show ?thesis by (induction xs) (auto simp: sort_by_def)
qed

definition url_ok :: "'u url_lib \<Rightarrow> 'u \<Rightarrow> bool" where
  "url_ok L u \<longleftrightarrow> ul_scheme L u \<in> {''http'', ''https'', ''unix'', ''unixs''} \<and>
     (\<exists>a as. ul_addrs L u = Inr (a # as)) \<and> ul_path L u = ''/''"

lemma new_urls_loop_ok:
  "new_urls_loop L ss acc = Some (Inr us) \<longleftrightarrow>
     (\<exists>vs. list_all2 (\<lambda>s v. ul_parse L (trim s) = Inr v \<and> url_ok L v) ss vs \<and> us = acc @ vs)"
proof (induction ss arbitrary: acc)
  case (Cons s ss)
  show ?case
  proof (cases "ul_parse L (trim s)")
    case (Inr u)
    have "new_urls_loop L (s # ss) acc = Some (Inr us) \<longleftrightarrow> url_ok L u \<and> new_urls_loop L ss (acc @ [u]) = Some (Inr us)"
      using Inr by (auto simp: unwrap_ok_def url_ok_def neq_Nil_conv split: sum.splits)
    then show ?thesis using Inr Cons.IH by (auto simp: list_all2_Cons1)
  qed (simp add: unwrap_ok_def list_all2_Cons1)
qed auto

lemma new_urls_spec:
  assumes "\<And>a b. ul_le L a b \<or> ul_le L b a" "\<And>a b c. ul_le L a b \<Longrightarrow> ul_le L b c \<Longrightarrow> ul_le L a c"
  shows "new_urls L strs = Some (Inr us) \<Longrightarrow>
    strs \<noteq> [] \<and> sorted_wrt (ul_le L) us \<and>
    (\<exists>vs. list_all2 (\<lambda>s v. ul_parse L (trim s) = Inr v \<and> url_ok L v) strs vs \<and> mset us = mset vs)"
    and "strs \<noteq> [] \<Longrightarrow> list_all2 (\<lambda>s v. ul_parse L (trim s) = Inr v \<and> url_ok L v) strs vs \<Longrightarrow> new_urls L strs = Some (Inr (sort_by (ul_le L) vs))"
proof -
  show "strs \<noteq> [] \<and> sorted_wrt (ul_le L) us \<and>
    (\<exists>vs. list_all2 (\<lambda>s v. ul_parse L (trim s) = Inr v \<and> url_ok L v) strs vs \<and> mset us = mset vs)"
    if n: "new_urls L strs = Some (Inr us)"
  proof -
    obtain vs where "new_urls_loop L strs [] = Some (Inr vs)" "us = sort_by (ul_le L) vs" "strs \<noteq> []"
      using n unfolding new_urls_def by (auto split: if_splits) (metis map_sum.simps obj_sumE sum.distinct(1) sum.inject(2))
    then show ?thesis using sort_by_sorted[of "ul_le L" vs] assms new_urls_loop_ok[of L strs "[]" vs] by auto
  qed
  show "new_urls L strs = Some (Inr (sort_by (ul_le L) vs))"
    if "strs \<noteq> []" "list_all2 (\<lambda>s v. ul_parse L (trim s) = Inr v \<and> url_ok L v) strs vs"
    using that new_urls_loop_ok[of L strs "[]" vs] by (auto simp: new_urls_def)
qed

lemma picker_fails_over:
  assumes "pk_picked p = int k" "k < length (pk_urls p)"
  shows "picker_pick p = Some (pk_urls p ! k)"
    and "picker_unreachable (pk_urls p ! k) p = Some (p\<lparr>pk_picked := int ((k + 1) mod length (pk_urls p))\<rparr>)"
proof -
  have "(int k + 1) smod int (length (pk_urls p)) = int ((k + 1) mod length (pk_urls p))"
    using assms(2) by (subst smod_nonneg) (auto simp: zmod_int add.commute)
  then show "picker_pick p = Some (pk_urls p ! k)"
    "picker_unreachable (pk_urls p ! k) p = Some (p\<lparr>pk_picked := int ((k + 1) mod length (pk_urls p))\<rparr>)"
    using assms by (auto simp: picker_pick_def get_url_def picker_unreachable_def)
qed

section \<open>Versions\<close>

text \<open>
  The version check, with what \<open>semver\<close> documents of its order: of versions without patch, pre-release and build the major
  numbers are compared first and then the minor ones. A peer is accepted if its version is at least the smallest version
  of a cluster, and the cluster it wants has at most that version: the version of the server itself is not asked.
\<close>

lemma check_version_iff:
  assumes "\<And>a b. v_patch a = 0 \<Longrightarrow> v_patch b = 0 \<Longrightarrow> v_pre a = [] \<Longrightarrow> v_pre b = [] \<Longrightarrow> v_build a = [] \<Longrightarrow> v_build b = [] \<Longrightarrow>
      vl_cmp L a b = (if (v_major a, v_minor a) = (v_major b, v_minor b) then OrdEqual
        else if v_major a < v_major b \<or> v_major a = v_major b \<and> v_minor a < v_minor b then OrdLess else OrdGreater)"
    and "vl_parse L Version_const = Inr lsv" "vl_parse L MinClusterVersion = Inr lmc"
  shows "check_version_compatibility L name server mc = Some (Inr (lsv, lmc)) \<longleftrightarrow>
    \<not> (v_major server < v_major lmc \<or> v_major server = v_major lmc \<and> v_minor server < v_minor lmc) \<and>
    \<not> (v_major lmc < v_major mc \<or> v_major lmc = v_major mc \<and> v_minor lmc < v_minor mc)"
  using assms(2,3) by (simp add: check_version_compatibility_def unwrap_ok_def compare_major_minor_version_def Let_def assms(1)) linarith

section \<open>Exact reading\<close>

text \<open>Reading on while it succeeds, with buffers of the given lengths.\<close>

fun exact_read_all :: "'r reading \<Rightarrow> nat list \<Rightarrow> 'r exact_reader \<Rightarrow> ((http_error + nat) \<times> bytes \<times> 'r exact_reader) panics" where
  "exact_read_all rd [] r = Some (Inr 0, [], r)"
| "exact_read_all rd (n # ns) r = do {
     (res, bs, r1) \<leftarrow> exact_read rd n r;
     case res of
       Inl e \<Rightarrow> Some (Inl e, bs, r1)
     | Inr _ \<Rightarrow> do { (res', bs', r2) \<leftarrow> exact_read_all rd ns r1; Some (res', bs @ bs', r2) } }"

text \<open>What \<open>Read\<close> promises of a source of bytes that does not fail: it gives a part of what is left, and nothing only at the end.\<close>

locale byte_source =
  fixes rd :: "'r reading" and rest :: "'r \<Rightarrow> bytes"
  assumes reads: "\<exists>bs r'. rd n r = (Inr bs, r') \<and> length bs \<le> n \<and> rest r = bs @ rest r' \<and> (bs = [] \<longrightarrow> n = 0 \<or> rest r = [])"
begin

lemma exact_read_cases:
  assumes "er_br r + int (length (rest (er_rc r))) = int k"
  shows "\<exists>res bs r'. exact_read rd n r = Some (res, bs, r') \<and> rest (er_rc r) = bs @ rest (er_rc r') \<and>
    er_br r' + int (length (rest (er_rc r'))) = int k \<and> er_total_bytes r' = er_total_bytes r \<and>
    (res = Inl ErrExpectEOF \<longleftrightarrow> er_br r' > er_total_bytes r) \<and>
    (res = Inl ErrShortRead \<longleftrightarrow> er_br r' < er_total_bytes r \<and> bs = []) \<and> (\<forall>e. res = Inl e \<longrightarrow> e \<in> {ErrExpectEOF, ErrShortRead}) \<and>
    (bs = [] \<longrightarrow> n = 0 \<or> rest (er_rc r) = [])"
proof -
  obtain bs r' where "rd n (er_rc r) = (Inr bs, r')" "rest (er_rc r) = bs @ rest r'" "bs = [] \<longrightarrow> n = 0 \<or> rest (er_rc r) = []"
    using reads[of n "er_rc r"] by blast
  then show ?thesis using assms by (auto simp: exact_read_def unwrap_ok_def Let_def)
qed

end

interpretation byte_slice: byte_source slice_read id
  by unfold_locales (auto simp: slice_read_def)

text \<open>An exact reader of a source of the right length never fails; one that has come to an end has read the right length.\<close>

lemma exact_reader_ok:
  assumes "length bs = n" "list_all (\<lambda>k. k > 0) ks"
  shows "\<exists>m cs r. exact_read_all slice_read ks (exact_reader_new bs (int n)) = Some (Inr m, cs, r) \<and> bs = cs @ er_rc r"
proof -
  have "\<exists>m cs r'. exact_read_all slice_read ks r = Some (Inr m, cs, r') \<and> er_rc r = cs @ er_rc r'"
    if "er_br r + int (length (er_rc r)) = int n" "er_total_bytes r = int n" for r
    using assms(2) that
  proof (induction ks arbitrary: r)
    case (Cons k ks)
    obtain res cs r1 where r1: "exact_read slice_read k r = Some (res, cs, r1)" "er_rc r = cs @ er_rc r1"
      "er_br r1 + int (length (er_rc r1)) = int n" "er_total_bytes r1 = int n" "\<And>e. res \<noteq> Inl e"
      using byte_slice.exact_read_cases[of r n k] Cons.prems by auto
    then obtain j where "res = Inr j" by (cases res) auto
    with Cons.IH[of r1] Cons.prems r1 show ?case by fastforce
  qed simp
  from this[of "exact_reader_new bs (int n)"] assms(1) show ?thesis by (simp add: exact_reader_new_def)
qed

lemma exact_reader_end:
  assumes "exact_read_all slice_read ks (exact_reader_new bs n) = Some (Inr m, cs, r)" "exact_read slice_read k r = Some (Inr 0, [], r')" "k > 0"
  shows "int (length bs) = n"
proof -
  have "er_br r + int (length (er_rc r)) = int j \<and> er_total_bytes r = er_total_bytes r0"
    if "exact_read_all slice_read ks r0 = Some (Inr m, cs, r)" "er_br r0 + int (length (er_rc r0)) = int j" for r0 j
    using that
  proof (induction ks arbitrary: r0 cs m)
    case (Cons i ks)
    then show ?case using byte_slice.exact_read_cases[of r0 j i] by (fastforce split: sum.splits bind_splits)
  qed simp
  from this[OF assms(1), of "length bs"] have "er_br r + int (length (er_rc r)) = int (length bs)" "er_total_bytes r = n"
    by (simp_all add: exact_reader_new_def)
  then show ?thesis using assms(2,3) byte_slice.exact_read_cases[of r "length bs" k] by (auto split: if_splits)
qed

end
