(* ===== verification/Http_Pipeline.thy ===== *)
theory Http_Pipeline
  imports Http_Types
begin

text \<open>
  Sending messages to a peer over HTTP (\<open>server/src/etcdserver/api/rafthttp\<close>): the pipeline that posts messages one after another
  (\<open>pipeline.rs\<close>), the sender of snapshots (\<open>snapshot_sender.rs\<close>), remotes (\<open>remote.rs\<close>) and the transport that they share
  (\<open>transport.rs\<close>). The task \<open>handle\<close> of a pipeline is a step relation over the places where it can wait: its \<open>select!\<close>, and the
  sends into its channels. The replies of the HTTP client and the clock are inputs. Of a channel (\<open>async_ch.rs\<close>, a wrapper of
  \<open>async_channel\<close>) only its filling matters here, and the record \<open>chan_lib\<close> holds what is asked of it.
\<close>

section \<open>What the tasks work with\<close>

record 'c chan_lib =
  cl_new :: "nat \<Rightarrow> 'c"
  cl_full :: "'c \<Rightarrow> bool"
  cl_send :: "'c \<Rightarrow> 'c"
  cl_recv :: "'c \<Rightarrow> 'c"

text \<open>The crates around the code: URLs, what \<open>hyper\<close> accepts and prints, channels, and the protobuf encoder.\<close>

record ('u, 'c) http_env =
  he_urls :: "'u url_lib"
  he_valid :: "http_request \<Rightarrow> bool"
  he_status_str :: "nat \<Rightarrow> string"
  he_chan :: "'c chan_lib"
  he_encode :: "message \<Rightarrow> string + bytes"

text \<open>
  A transport; \<open>tr_pipeline_client\<close> says whether there is a client. The fields that are only stored (TLS, timeouts, statistics,
  the snapshotter and the client of streams) are left out.
\<close>

record ('u, 'c) transport =
  tr_id :: ident
  tr_urls :: "'u urls"
  tr_cluster_id :: ident
  tr_errorc :: "'c option"
  tr_pipeline_client :: bool

fun parse_urls :: "'u url_lib \<Rightarrow> string list \<Rightarrow> 'u urls panics" where
  "parse_urls L [] = Some []"
| "parse_urls L (s # ss) = do { u \<leftarrow> unwrap_ok (ul_parse L s); us \<leftarrow> parse_urls L ss; Some (u # us) }"

definition transport_new :: "'u url_lib \<Rightarrow> string list \<Rightarrow> ident \<Rightarrow> ident \<Rightarrow> bool \<Rightarrow> 'c option \<Rightarrow> ('u, 'c) transport panics" where
  "transport_new L us i cid client errorc = do {
     url_vec \<leftarrow> parse_urls L us;
     Some \<lparr>tr_id = i, tr_urls = url_vec, tr_cluster_id = cid, tr_errorc = errorc, tr_pipeline_client = client\<rparr> }"

definition RaftPrefix :: string where
  "RaftPrefix = ''/raft''"

definition RaftSnapshotPrefix :: string where
  "RaftSnapshotPrefix = ''/raft/snapshot''"

definition is_msg_app :: "message \<Rightarrow> bool" where
  "is_msg_app m \<longleftrightarrow> m_type m = MsgAppend"

definition is_msg_snap :: "message \<Rightarrow> bool" where
  "is_msg_snap m \<longleftrightarrow> m_type m = MsgSnapshot"

text \<open>What a task does to its surroundings: requests, errors handed on, and reports to Raft.\<close>

datatype http_effect =
    Posted http_request
  | Sent_error string
  | Report_unreachable nat
  | Report_snapshot nat snapshot_status

section \<open>The pipeline\<close>

definition pipelineBufSize :: nat where
  "pipelineBufSize = 64"

record ('u, 'c) pipeline =
  pl_peer_id :: ident
  pl_tr :: "('u, 'c) transport"
  pl_picker :: "'u url_picker"
  pl_status :: peer_status
  pl_errorc :: 'c
  pl_follower_stats :: follower_stats
  pl_msgc :: 'c
  pl_stopc :: 'c
  pl_done :: 'c

text \<open>
  The places at which \<open>handle\<close> waits: its \<open>select!\<close>, the send of the error about the message that failed, and the send into
  \<open>done\<close>.
\<close>

datatype handle_pos = At_select | At_error_send message string | At_done_send | Ended

record ('u, 'c) handler =
  ha_pipe :: "('u, 'c) pipeline"
  ha_pos :: handle_pos
  ha_effects :: "http_effect list"

text \<open>
  \<open>start\<close> sets the subscriber of traces of the whole process, which fails if it has been set before, makes the channels, and spawns
  one task.
\<close>

definition pipeline_start :: "('u, 'c) http_env \<Rightarrow> bool \<Rightarrow> ('u, 'c) pipeline \<Rightarrow> ('u, 'c) handler panics" where
  "pipeline_start E subscriber_set p = do {
     ensure (\<not> subscriber_set);
     let p1 = p\<lparr>pl_stopc := cl_new (he_chan E) 64, pl_msgc := cl_new (he_chan E) pipelineBufSize, pl_done := cl_new (he_chan E) 64\<rparr>;
     Some \<lparr>ha_pipe = p1, ha_pos = At_select, ha_effects = []\<rparr> }"

definition add_effects :: "http_effect list \<Rightarrow> ('u, 'c) handler \<Rightarrow> ('u, 'c) handler" where
  "add_effects es h = h\<lparr>ha_effects := ha_effects h @ es\<rparr>"

definition on_pipe :: "(('u, 'c) pipeline \<Rightarrow> ('u, 'c) pipeline) \<Rightarrow> ('u, 'c) handler \<Rightarrow> ('u, 'c) handler" where
  "on_pipe f h = h\<lparr>ha_pipe := f (ha_pipe h)\<rparr>"

definition at_pos :: "handle_pos \<Rightarrow> ('u, 'c) handler \<Rightarrow> ('u, 'c) handler" where
  "at_pos x h = h\<lparr>ha_pos := x\<rparr>"

text \<open>The first half of \<open>post\<close>: the request to the URL that is picked.\<close>

definition post_request :: "('u, 'c) http_env \<Rightarrow> bytes \<Rightarrow> ('u, 'c) pipeline \<Rightarrow> ('u \<times> http_request) panics" where
  "post_request E data p = do {
     u \<leftarrow> picker_pick (pl_picker p);
     req \<leftarrow> create_POST_request (he_urls E) (he_valid E) u RaftPrefix data ''application/protobuf'' (tr_urls (pl_tr p)) (tr_id (pl_tr p)) (tr_cluster_id (pl_tr p));
     ensure (tr_pipeline_client (pl_tr p));
     Some (u, req) }"

text \<open>
  The second half of \<open>post\<close>, with the reply of the client: the picker afterwards and the error, with whether the error is handed
  on into \<open>errorc\<close>.
\<close>

definition post_reply ::
    "('u, 'c) http_env \<Rightarrow> 'u \<Rightarrow> http_request \<Rightarrow> (string + http_response) \<Rightarrow> 'u url_picker \<Rightarrow> ('u url_picker \<times> (string \<times> bool) option) panics" where
  "post_reply E u req reply pk = (case reply of
       Inl e \<Rightarrow> do { pk' \<leftarrow> picker_unreachable u pk; Some (pk', Some (e, False)) }
     | Inr resp \<Rightarrow> do {
         r \<leftarrow> check_post_response (he_status_str E) resp req;
         case r of
           Inl err \<Rightarrow> do {
             pk' \<leftarrow> picker_unreachable u pk;
             Some (pk', Some (err, str_contains ''the member has been permanently removed from the cluster'' err)) }
         | Inr _ \<Rightarrow> Some (pk, None) })"

text \<open>What \<open>handle\<close> does after a post that failed, and after one that succeeded.\<close>

definition handle_failed :: "message \<Rightarrow> ('u, 'c) handler \<Rightarrow> ('u, 'c) handler" where
  "handle_failed m h =
     (let h1 = on_pipe (\<lambda>p. p\<lparr>pl_status := ps_deactivate (pl_status p)\<rparr>) h;
          h2 = (if m_type m = MsgAppend then on_pipe (\<lambda>p. p\<lparr>pl_follower_stats := follower_fail (pl_follower_stats p)\<rparr>) h1 else h1);
          h3 = add_effects [Report_unreachable (m_to m)] h2;
          h4 = (if is_msg_snap m then add_effects [Report_snapshot (m_to m) Failure] h3 else h3)
      in at_pos At_done_send h4)"

definition handle_succeeded :: "message \<Rightarrow> int \<Rightarrow> int \<Rightarrow> ('u, 'c) handler \<Rightarrow> ('u, 'c) handler" where
  "handle_succeeded m elapsed now h =
     (let h1 = on_pipe (\<lambda>p. p\<lparr>pl_status := ps_activate now (pl_status p)\<rparr>) h;
          h2 = (if m_type m = MsgAppend then on_pipe (\<lambda>p. p\<lparr>pl_follower_stats := follower_succ elapsed (pl_follower_stats p)\<rparr>) h1 else h1);
          h3 = (if is_msg_snap m then add_effects [Report_snapshot (m_to m) Finish] h2 else h2)
      in at_pos At_done_send h3)"

definition handle_msg ::
    "('u, 'c) http_env \<Rightarrow> message \<Rightarrow> (string + http_response) \<Rightarrow> int \<Rightarrow> int \<Rightarrow> ('u, 'c) handler \<Rightarrow> ('u, 'c) handler panics" where
  "handle_msg E m reply elapsed now h = do {
     data \<leftarrow> unwrap_ok (he_encode E m);
     (u, req) \<leftarrow> post_request E data (ha_pipe h);
     let h1 = add_effects [Posted req] h;
     (pk, err) \<leftarrow> post_reply E u req reply (pl_picker (ha_pipe h1));
     let h2 = on_pipe (\<lambda>p. p\<lparr>pl_picker := pk\<rparr>) h1;
     Some (case err of
         Some (e, removed) \<Rightarrow> if removed then at_pos (At_error_send m e) h2 else handle_failed m h2
       | None \<Rightarrow> handle_succeeded m elapsed now h2) }"

text \<open>
  Inputs of the task: the stop signal, a message with the reply to its request, that a send goes through, and that others receive from
  its channels.
\<close>

datatype handle_input =
    Stop_signal
  | Msg_in message "string + http_response" int int
  | Go_on
  | Drain_done
  | Drain_error

inductive handle_step :: "('u, 'c) http_env \<Rightarrow> ('u, 'c) handler \<Rightarrow> handle_input \<Rightarrow> ('u, 'c) handler \<Rightarrow> bool" for E where
  stopped: "ha_pos h = At_select \<Longrightarrow> handle_step E h Stop_signal (at_pos Ended h)"
| message: "ha_pos h = At_select \<Longrightarrow> handle_msg E m reply elapsed now h = Some h' \<Longrightarrow> handle_step E h (Msg_in m reply elapsed now) h'"
| error_sent: "ha_pos h = At_error_send m e \<Longrightarrow> \<not> cl_full (he_chan E) (pl_errorc (ha_pipe h)) \<Longrightarrow>
    handle_step E h Go_on (handle_failed m (add_effects [Sent_error e] (on_pipe (\<lambda>p. p\<lparr>pl_errorc := cl_send (he_chan E) (pl_errorc p)\<rparr>) h)))"
| done_sent: "ha_pos h = At_done_send \<Longrightarrow> \<not> cl_full (he_chan E) (pl_done (ha_pipe h)) \<Longrightarrow>
    handle_step E h Go_on (at_pos At_select (on_pipe (\<lambda>p. p\<lparr>pl_done := cl_send (he_chan E) (pl_done p)\<rparr>) h))"
| drain_done: "handle_step E h Drain_done (on_pipe (\<lambda>p. p\<lparr>pl_done := cl_recv (he_chan E) (pl_done p)\<rparr>) h)"
| drain_error: "handle_step E h Drain_error (on_pipe (\<lambda>p. p\<lparr>pl_errorc := cl_recv (he_chan E) (pl_errorc p)\<rparr>) h)"

inductive handle_run :: "('u, 'c) http_env \<Rightarrow> ('u, 'c) handler \<Rightarrow> handle_input list \<Rightarrow> ('u, 'c) handler \<Rightarrow> bool" for E where
  run_nil: "handle_run E h [] h"
| run_cons: "handle_step E h i h1 \<Longrightarrow> handle_run E h1 is h2 \<Longrightarrow> handle_run E h (i # is) h2"

inductive_cases handle_run_cons: "handle_run E h (i # is) h'"
inductive_cases handle_run_nil: "handle_run E h [] h'"

section \<open>The sender of snapshots\<close>

record ('u, 'c) snapshot_sender =
  sn_from :: ident
  sn_to :: ident
  sn_cid :: ident
  sn_tr :: "('u, 'c) transport"
  sn_picker :: "'u url_picker"
  sn_status :: peer_status
  sn_errorc :: "'c option"

definition new_snapshot_sender :: "('u, 'c) transport \<Rightarrow> 'u url_picker \<Rightarrow> peer_status \<Rightarrow> ident \<Rightarrow> ('u, 'c) snapshot_sender" where
  "new_snapshot_sender tr picker status to = \<lparr>sn_from = tr_id tr, sn_to = to, sn_cid = tr_cluster_id tr, sn_tr = tr,
     sn_picker = picker, sn_status = status, sn_errorc = tr_errorc tr\<rparr>"

text \<open>
  \<open>post\<close> of the sender. The reply is unwrapped before it is looked at; then either the stop signal or the reply wins, as
  \<open>stopped\<close> says.
\<close>

definition snap_post ::
    "('u, 'c) http_env \<Rightarrow> http_request \<Rightarrow> (string + http_response) \<Rightarrow> bool \<Rightarrow> ('u, 'c) snapshot_sender \<Rightarrow> (string + unit) panics" where
  "snap_post E req reply stopped s = do {
     ensure (tr_pipeline_client (sn_tr s));
     resp \<leftarrow> unwrap_ok reply;
     if stopped then Some (Inl ''stopped'') else check_post_response (he_status_str E) resp req }"

text \<open>
  \<open>send\<close>, for a message that has a snapshot with its metadata (the log messages unwrap them). A send into \<open>errorc\<close> is taken to go
  through.
\<close>

definition snap_sent ::
    "('u, 'c) http_env \<Rightarrow> message \<Rightarrow> 'u \<Rightarrow> http_request \<Rightarrow> string + unit \<Rightarrow> int \<Rightarrow> ('u, 'c) snapshot_sender \<Rightarrow>
     (('u, 'c) snapshot_sender \<times> http_effect list) panics" where
  "snap_sent E m u req res now s = (case res of
       Inl err \<Rightarrow> do {
         (errorc, sent) \<leftarrow> (if err = custom_error_fmt MemberRemoved
                            then do { c \<leftarrow> sn_errorc s; Some (Some (cl_send (he_chan E) c), [Sent_error err]) }
                            else Some (sn_errorc s, []));
         picker \<leftarrow> picker_unreachable u (sn_picker s);
         Some (s\<lparr>sn_errorc := errorc, sn_picker := picker, sn_status := ps_deactivate (sn_status s)\<rparr>,
               [Posted req] @ sent @ [Report_unreachable (m_to m), Report_snapshot (m_to m) Failure]) }
     | Inr _ \<Rightarrow> Some (s\<lparr>sn_status := ps_activate now (sn_status s)\<rparr>, [Posted req, Report_snapshot (m_to m) Finish]))"

definition snap_send ::
    "('u, 'c) http_env \<Rightarrow> message \<Rightarrow> (string + http_response) \<Rightarrow> bool \<Rightarrow> int \<Rightarrow> ('u, 'c) snapshot_sender \<Rightarrow>
     (('u, 'c) snapshot_sender \<times> http_effect list) panics" where
  "snap_send E m reply stopped now s = do {
     body \<leftarrow> unwrap_ok (he_encode E m);
     u \<leftarrow> picker_pick (sn_picker s);
     req \<leftarrow> create_POST_request (he_urls E) (he_valid E) u RaftSnapshotPrefix body ''application/octet-stream'' (tr_urls (sn_tr s)) (sn_from s) (sn_cid s);
     res \<leftarrow> snap_post E req reply stopped s;
     snap_sent E m u req res now s }"

section \<open>Remotes\<close>

record ('u, 'c) remote =
  re_local_id :: ident
  re_id :: ident
  re_status :: peer_status
  re_pipeline :: "('u, 'c) pipeline"

text \<open>A message is put into the channel of the pipeline, or dropped when the channel is full.\<close>

definition remote_send :: "('u, 'c) http_env \<Rightarrow> message \<Rightarrow> ('u, 'c) remote \<Rightarrow> ('u, 'c) remote" where
  "remote_send E m r =
     (if cl_full (he_chan E) (pl_msgc (re_pipeline r)) then r
      else r\<lparr>re_pipeline := (re_pipeline r)\<lparr>pl_msgc := cl_send (he_chan E) (pl_msgc (re_pipeline r))\<rparr>\<rparr>)"

text \<open>\<open>stop\<close> and \<open>resume\<close> make the futures of \<open>Pipeline::stop\<close> and \<open>Pipeline::start\<close> and drop them without awaiting them: nothing runs.\<close>

definition remote_stop :: "('u, 'c) remote \<Rightarrow> ('u, 'c) remote" where
  "remote_stop r = r"

definition remote_pause :: "('u, 'c) remote \<Rightarrow> ('u, 'c) remote" where
  "remote_pause r = remote_stop r"

definition remote_resume :: "('u, 'c) remote \<Rightarrow> ('u, 'c) remote" where
  "remote_resume r = r"

section \<open>Steps of the task\<close>

definition failed_reply :: "string + http_response \<Rightarrow> bool" where
  "failed_reply r = (case r of Inl _ \<Rightarrow> True | Inr resp \<Rightarrow> hp_status resp \<noteq> 204)"

lemma check_post_ok: "check_post_response st resp req = Some r \<Longrightarrow> r = Inr () \<longleftrightarrow> hp_status resp = 204"
  by (auto simp: check_post_response_def Let_def split: if_splits bind_splits)

definition picks :: "nat \<Rightarrow> 'u urls \<Rightarrow> 'u url_picker \<Rightarrow> bool" where
  "picks k us p \<longleftrightarrow> pk_urls p = us \<and> pk_picked p = int k \<and> k < length us"

lemma picks_next: "picks k us p \<Longrightarrow> picker_unreachable (us ! k) p = Some p' \<Longrightarrow> picks ((k + 1) mod length us) us p'"
  using picker_fails_over(2)[of p k] by (auto simp: picks_def intro: mod_less_divisor)

lemma post_reply_picks:
  assumes "picks k us pk" "post_reply E (us ! k) req reply pk = Some (pk', err)"
  shows "picks (if failed_reply reply then (k + 1) mod length us else k) us pk'" "err = None \<longleftrightarrow> \<not> failed_reply reply"
  using assms picks_next[OF assms(1)]
  by (auto simp: post_reply_def failed_reply_def dest: check_post_ok split: sum.splits bind_splits)

lemma handler_sel [simp]:
  "ha_pipe (add_effects es h) = ha_pipe h" "ha_pos (add_effects es h) = ha_pos h" "ha_effects (add_effects es h) = ha_effects h @ es"
  "ha_pipe (on_pipe f h) = f (ha_pipe h)" "ha_pos (on_pipe f h) = ha_pos h" "ha_effects (on_pipe f h) = ha_effects h"
  "ha_pipe (at_pos x h) = ha_pipe h" "ha_pos (at_pos x h) = x" "ha_effects (at_pos x h) = ha_effects h"
  by (simp_all add: add_effects_def on_pipe_def at_pos_def)

definition failure_reports :: "message \<Rightarrow> http_effect list" where
  "failure_reports m = Report_unreachable (m_to m) # (if is_msg_snap m then [Report_snapshot (m_to m) Failure] else [])"

lemma handle_failed_sel [simp]:
  "ha_effects (handle_failed m h) = ha_effects h @ failure_reports m" "ha_pos (handle_failed m h) = At_done_send"
  "pl_picker (ha_pipe (handle_failed m h)) = pl_picker (ha_pipe h)" "pl_done (ha_pipe (handle_failed m h)) = pl_done (ha_pipe h)"
  "pl_follower_stats (ha_pipe (handle_failed m h)) = follower_run (if m_type m = MsgAppend then [None] else []) (pl_follower_stats (ha_pipe h))"
  "pl_tr (ha_pipe (handle_failed m h)) = pl_tr (ha_pipe h)" "pl_status (ha_pipe (handle_failed m h)) = ps_deactivate (pl_status (ha_pipe h))"
  by (simp_all add: handle_failed_def failure_reports_def Let_def)

lemma handle_succeeded_sel [simp]:
  "ha_effects (handle_succeeded m d now h) = ha_effects h @ (if is_msg_snap m then [Report_snapshot (m_to m) Finish] else [])"
  "ha_pos (handle_succeeded m d now h) = At_done_send"
  "pl_picker (ha_pipe (handle_succeeded m d now h)) = pl_picker (ha_pipe h)" "pl_done (ha_pipe (handle_succeeded m d now h)) = pl_done (ha_pipe h)"
  "pl_follower_stats (ha_pipe (handle_succeeded m d now h)) = follower_run (if m_type m = MsgAppend then [Some d] else []) (pl_follower_stats (ha_pipe h))"
  "pl_status (ha_pipe (handle_succeeded m d now h)) = ps_activate now (pl_status (ha_pipe h))"
  by (simp_all add: handle_succeeded_def Let_def)

text \<open>The address of a message, and what a message leads to.\<close>

definition raft_uri :: "('u, 'c) http_env \<Rightarrow> 'u \<Rightarrow> string" where
  "raft_uri E u = ul_str (he_urls E) (ul_set_path (he_urls E) ''/raft'' u)"

lemma handle_msgE:
  assumes "handle_msg E m reply d now h = Some h'" "picks k us (pl_picker (ha_pipe h))"
  obtains req pk h2 where "hr_uri req = raft_uri E (us ! k)" "picks (if failed_reply reply then (k + 1) mod length us else k) us pk"
    "h2 = on_pipe (\<lambda>p. p\<lparr>pl_picker := pk\<rparr>) (add_effects [Posted req] h)"
    "if failed_reply reply then (\<exists>e. h' = at_pos (At_error_send m e) h2) \<or> h' = handle_failed m h2 else h' = handle_succeeded m d now h2"
proof -
  have pick: "picker_pick (pl_picker (ha_pipe h)) = Some (us ! k)" using assms(2) picker_fails_over(1) unfolding picks_def by blast
  obtain data u req pk err where r: "post_request E data (ha_pipe h) = Some (u, req)" "post_reply E u req reply (pl_picker (ha_pipe h)) = Some (pk, err)"
    "h' = (case err of Some (e, removed) \<Rightarrow> if removed then at_pos (At_error_send m e) (on_pipe (\<lambda>p. p\<lparr>pl_picker := pk\<rparr>) (add_effects [Posted req] h))
         else handle_failed m (on_pipe (\<lambda>p. p\<lparr>pl_picker := pk\<rparr>) (add_effects [Posted req] h))
       | None \<Rightarrow> handle_succeeded m d now (on_pipe (\<lambda>p. p\<lparr>pl_picker := pk\<rparr>) (add_effects [Posted req] h)))"
    using assms(1) unfolding handle_msg_def Let_def by (auto split: bind_splits)
  have u: "u = us ! k" "hr_uri req = raft_uri E (us ! k)"
    using r(1) pick by (auto simp: post_request_def create_POST_request_def raft_uri_def RaftPrefix_def Let_def split: bind_splits if_splits)
  show ?thesis
    using that[OF u(2) post_reply_picks(1)[OF assms(2) r(2)[unfolded u(1)]] refl] post_reply_picks(2)[OF assms(2) r(2)[unfolded u(1)]] r(3)
    by (cases err) (auto split: if_splits, blast)
qed

section \<open>Every address is tried\<close>

fun is_msg_in :: "handle_input \<Rightarrow> bool" where
  "is_msg_in (Msg_in m r d n) = True"
| "is_msg_in _ = False"

fun fails_in :: "handle_input \<Rightarrow> bool" where
  "fails_in (Msg_in m r d n) = failed_reply r"
| "fails_in _ = True"

lemma step_posts:
  assumes "handle_step E h i h'" "picks k us (pl_picker (ha_pipe h))" "fails_in i"
  shows "picks (if is_msg_in i then (k + 1) mod length us else k) us (pl_picker (ha_pipe h'))"
    and "\<exists>es. ha_effects h' = ha_effects h @ es \<and> (is_msg_in i \<longrightarrow> (\<exists>req. Posted req \<in> set es \<and> hr_uri req = raft_uri E (us ! k)))"
  using assms
proof (atomize (full), induction rule: handle_step.induct)
  case (message h m reply d now h')
  from message(2,3) show ?case by (rule handle_msgE) (use message(4) in \<open>auto split: if_splits\<close>)
qed auto

lemma run_posts:
  assumes "handle_run E h is h'" "picks k us (pl_picker (ha_pipe h))" "list_all fails_in is"
  shows "\<exists>es. ha_effects h' = ha_effects h @ es \<and>
    (\<forall>j<length (filter is_msg_in is). \<exists>req. Posted req \<in> set es \<and> hr_uri req = raft_uri E (us ! ((k + j) mod length us)))"
  using assms
proof (induction arbitrary: k rule: handle_run.induct)
  case (run_cons h i h1 "is" h2)
  define k1 where "k1 = (if is_msg_in i then (k + 1) mod length us else k)"
  obtain es1 where es1: "ha_effects h1 = ha_effects h @ es1" "is_msg_in i \<longrightarrow> (\<exists>req. Posted req \<in> set es1 \<and> hr_uri req = raft_uri E (us ! k))"
    and k1: "picks k1 us (pl_picker (ha_pipe h1))"
    using step_posts[OF run_cons(1) run_cons.prems(1)] run_cons.prems(2) unfolding k1_def by auto
  obtain es2 where es2: "ha_effects h2 = ha_effects h1 @ es2"
    "\<forall>j<length (filter is_msg_in is). \<exists>req. Posted req \<in> set es2 \<and> hr_uri req = raft_uri E (us ! ((k1 + j) mod length us))"
    using run_cons.IH[OF k1] run_cons.prems(2) by auto
  have "\<exists>req. Posted req \<in> set (es1 @ es2) \<and> hr_uri req = raft_uri E (us ! ((k + j) mod length us))"
    if "j < length (filter is_msg_in (i # is))" for j
  proof (cases "is_msg_in i")
    case True
    show ?thesis
    proof (cases j)
      case 0
      then show ?thesis using es1(2) True run_cons.prems(1) by (auto simp: picks_def)
    next
      case (Suc j')
      then show ?thesis using es2(2) that True by (auto simp: k1_def mod_add_left_eq)
    qed
  next
    case False
    then show ?thesis using es2(2) that by (auto simp: k1_def)
  qed
  then show ?case using es1(1) es2(1) by (intro exI[of _ "es1 @ es2"]) auto
qed simp

text \<open>
  C38. A pipeline gives no address of its peer up for good: whenever as many messages in a row fail as the peer has URLs, each URL has been
  tried for one of them, from whichever URL the pipeline started, and whatever channels and errors do in between.
\<close>

theorem pipeline_tries_every_url:
  assumes "picks k us (pl_picker (ha_pipe h))" "handle_run E h is h'" "list_all fails_in is"
    "length us \<le> length (filter is_msg_in is)" "u \<in> set us"
  shows "\<exists>req. Posted req \<in> set (drop (length (ha_effects h)) (ha_effects h')) \<and> hr_uri req = raft_uri E u"
proof -
  define n where "n = length us"
  obtain i where i: "i < n" "u = us ! i" using assms(5) by (auto simp: n_def in_set_conv_nth)
  have k: "k < n" using assms(1) by (simp add: picks_def n_def)
  have "(k + (i + n - k) mod n) mod n = (k + (i + n - k)) mod n" by (simp add: mod_add_right_eq)
  also have "\<dots> = i" using i k by simp
  finally have "(k + (i + n - k) mod n) mod n = i" .
  moreover have "(i + n - k) mod n < length (filter is_msg_in is)" using k assms(4) by (metis mod_less_divisor n_def order_less_le_trans less_nat_zero_code neq0_conv)
  moreover obtain es where "ha_effects h' = ha_effects h @ es"
    "\<forall>j<length (filter is_msg_in is). \<exists>req. Posted req \<in> set es \<and> hr_uri req = raft_uri E (us ! ((k + j) mod n))"
    using run_posts[OF assms(2,1,3)] unfolding n_def by blast
  ultimately show ?thesis using i(2) by (metis append_eq_conv_conj)
qed

section \<open>Every message is accounted for\<close>

fun is_report :: "http_effect \<Rightarrow> bool" where
  "is_report (Report_unreachable _) = True"
| "is_report (Report_snapshot _ _) = True"
| "is_report _ = False"

fun reports_of :: "handle_input \<Rightarrow> http_effect list" where
  "reports_of (Msg_in m r d n) =
     (if failed_reply r then failure_reports m else if is_msg_snap m then [Report_snapshot (m_to m) Finish] else [])"
| "reports_of _ = []"

fun stats_of :: "handle_input \<Rightarrow> int option list" where
  "stats_of (Msg_in m r d n) = (if m_type m = MsgAppend then [if failed_reply r then None else Some d] else [])"
| "stats_of _ = []"

text \<open>What is still to come of the message whose error is being handed on.\<close>

definition owed :: "(message \<Rightarrow> 'a list) \<Rightarrow> ('u, 'c) handler \<Rightarrow> 'a list" where
  "owed f h = (case ha_pos h of At_error_send m e \<Rightarrow> f m | _ \<Rightarrow> [])"

definition failure_stats :: "message \<Rightarrow> int option list" where
  "failure_stats m = (if m_type m = MsgAppend then [None] else [])"

lemma failure_reports_only [simp]: "filter is_report (failure_reports m) = failure_reports m"
  by (simp add: failure_reports_def)

lemma follower_run_append: "follower_run (a @ b) s = follower_run b (follower_run a s)"
  by (induction a s rule: follower_run.induct) auto

lemma step_accounts:
  assumes "handle_step E h i h'" "picks k us (pl_picker (ha_pipe h))"
  shows "filter is_report (ha_effects h') @ owed failure_reports h' = filter is_report (ha_effects h) @ owed failure_reports h @ reports_of i"
    and "follower_run (owed failure_stats h') (pl_follower_stats (ha_pipe h')) =
      follower_run (owed failure_stats h @ stats_of i) (pl_follower_stats (ha_pipe h))"
    and "\<exists>k'. picks k' us (pl_picker (ha_pipe h'))"
  using assms
proof (atomize (full), induction rule: handle_step.induct)
  case (message h m reply d now h')
  from message(2,3) show ?case
    by (rule handle_msgE) (use message(1) in \<open>auto simp: owed_def failure_stats_def follower_run_append split: if_splits\<close>)
next
  case (error_sent h m e)
  then show ?case by (auto simp: owed_def failure_stats_def follower_run_append)
qed (auto simp: owed_def)

lemma run_accounts:
  assumes "handle_run E h is h'" "picks k us (pl_picker (ha_pipe h))"
  shows "filter is_report (ha_effects h') @ owed failure_reports h' =
      filter is_report (ha_effects h) @ owed failure_reports h @ concat (map reports_of is)"
    and "follower_run (owed failure_stats h') (pl_follower_stats (ha_pipe h')) =
      follower_run (owed failure_stats h @ concat (map stats_of is)) (pl_follower_stats (ha_pipe h))"
  using assms
proof (atomize (full), induction arbitrary: k rule: handle_run.induct)
  case (run_cons h i h1 "is" h2)
  obtain k1 where k1: "picks k1 us (pl_picker (ha_pipe h1))" using step_accounts(3)[OF run_cons(1) run_cons.prems] by blast
  from run_cons.IH[OF this] step_accounts(1,2)[OF run_cons(1) run_cons.prems] show ?case
    by (auto simp: follower_run_append)
qed simp

text \<open>
  C37. A pipeline accounts for every message that it takes: unless it is waiting to hand an error on, it has reported to Raft, in order,
  each message that failed as unreachable and each snapshot as failed or finished, nothing else, and the statistics of its follower are
  those of its append messages. The error of a message that the peer refuses as removed is handed on before its reports.
\<close>

theorem pipeline_accounts:
  assumes "pipeline_start E False p = Some h0" "picks k us (pl_picker p)" "handle_run E h0 is h" "\<forall>m e. ha_pos h \<noteq> At_error_send m e"
  shows "filter is_report (ha_effects h) = concat (map reports_of is) \<and>
    pl_follower_stats (ha_pipe h) = follower_run (concat (map stats_of is)) (pl_follower_stats p)"
proof -
  have h0: "picks k us (pl_picker (ha_pipe h0))" "owed failure_reports h0 = []" "owed failure_stats h0 = []" "ha_effects h0 = []"
      "pl_follower_stats (ha_pipe h0) = pl_follower_stats p"
    using assms(1,2) by (auto simp: pipeline_start_def Let_def owed_def)
  have "owed failure_reports h = []" "owed failure_stats h = []" using assms(4) by (auto simp: owed_def split: handle_pos.splits)
  then show ?thesis using run_accounts[OF assms(3) h0(1)] h0 by simp
qed

section \<open>The pipeline stalls\<close>

lemma step_stalls:
  assumes chan: "\<And>n j. 0 < n \<Longrightarrow> j \<le> n \<Longrightarrow> cl_full (he_chan E) ((cl_send (he_chan E) ^^ j) (cl_new (he_chan E) n)) \<longleftrightarrow> j = n"
    and "handle_step E h i h'" "i \<noteq> Drain_done" "pl_done (ha_pipe h) = (cl_send (he_chan E) ^^ j) (cl_new (he_chan E) 64)" "j \<le> 64"
    and pk: "picks k us (pl_picker (ha_pipe h))" and c: "c = j + (if ha_pos h \<in> {At_select, Ended} then 0 else 1)"
  shows "\<exists>j'. pl_done (ha_pipe h') = (cl_send (he_chan E) ^^ j') (cl_new (he_chan E) 64) \<and> j' \<le> 64 \<and>
    c + (if is_msg_in i then 1 else 0) = j' + (if ha_pos h' \<in> {At_select, Ended} then 0 else 1)"
  using assms(2-)
proof (induction rule: handle_step.induct)
  case (message h m reply d now h')
  from message(2) message.prems(4) show ?case by (rule handle_msgE) (use message in \<open>auto split: if_splits\<close>)
next
  case (done_sent h)
  then have "j < 64" using chan[of 64 j] by auto
  then show ?case using done_sent by (intro exI[of _ "Suc j"]) auto
qed auto

lemma run_stalls:
  assumes chan: "\<And>n j. 0 < n \<Longrightarrow> j \<le> n \<Longrightarrow> cl_full (he_chan E) ((cl_send (he_chan E) ^^ j) (cl_new (he_chan E) n)) \<longleftrightarrow> j = n"
    and "handle_run E h is h'" "Drain_done \<notin> set is" "pl_done (ha_pipe h) = (cl_send (he_chan E) ^^ j) (cl_new (he_chan E) 64)" "j \<le> 64"
    and "picks k us (pl_picker (ha_pipe h))" "c = j + (if ha_pos h \<in> {At_select, Ended} then 0 else 1)"
  shows "c + length (filter is_msg_in is) \<le> 65"
  using assms(2-)
proof (induction arbitrary: j k c rule: handle_run.induct)
  case (run_cons h i h1 "is" h2)
  obtain j' where j': "pl_done (ha_pipe h1) = (cl_send (he_chan E) ^^ j') (cl_new (he_chan E) 64)" "j' \<le> 64"
    "c + (if is_msg_in i then 1 else 0) = j' + (if ha_pos h1 \<in> {At_select, Ended} then 0 else 1)"
    using step_stalls[OF chan run_cons(1) _ run_cons.prems(2,3,4,5)] run_cons.prems(1) by auto
  obtain k' where "picks k' us (pl_picker (ha_pipe h1))" using step_accounts(3)[OF run_cons(1) run_cons.prems(4)] by blast
  from run_cons.IH[OF _ j'(1,2) this j'(3)] run_cons.prems(1) show ?case by (simp split: if_splits)
qed simp

text \<open>
  C39. A pipeline stalls: every message puts a token into the channel \<open>done\<close>, which has room for 64, so that unless another task takes tokens
  out (which no code of the server does), a pipeline handles at most 65 messages in its life, the last of them forever.
\<close>

theorem pipeline_stalls:
  assumes "\<And>n j. 0 < n \<Longrightarrow> j \<le> n \<Longrightarrow> cl_full (he_chan E) ((cl_send (he_chan E) ^^ j) (cl_new (he_chan E) n)) \<longleftrightarrow> j = n"
    "pipeline_start E False p = Some h0" "picks k us (pl_picker p)" "handle_run E h0 is h" "Drain_done \<notin> set is"
  shows "length (filter is_msg_in is) \<le> 65"
  using run_stalls[OF assms(1,4,5), of 0 k us 0] assms(2,3) by (auto simp: pipeline_start_def Let_def)

section \<open>Snapshots\<close>

text \<open>
  A snapshot whose request gets a reply is reported to Raft exactly once, as finished if the reply is the status 204 and as failed otherwise,
  and after a failure the next URL is picked; but when the request itself fails, the sender panics and nothing is reported.
\<close>

lemma snap_send_reports:
  assumes "picks k us (sn_picker s)" "snap_send E m reply stopped now s = Some (s', es)"
  shows "\<exists>resp. reply = Inr resp \<and>
    filter is_report es = (if \<not> stopped \<and> hp_status resp = 204 then [Report_snapshot (m_to m) Finish]
      else [Report_unreachable (m_to m), Report_snapshot (m_to m) Failure]) \<and>
    picks (if \<not> stopped \<and> hp_status resp = 204 then k else (k + 1) mod length us) us (sn_picker s') \<and>
    ps_active (sn_status s') = (\<not> stopped \<and> hp_status resp = 204)"
proof -
  have pick: "picker_pick (sn_picker s) = Some (us ! k)" using assms(1) picker_fails_over(1) unfolding picks_def by blast
  obtain req res where r: "snap_post E req reply stopped s = Some res" "snap_sent E m (us ! k) req res now s = Some (s', es)"
    using assms(2) unfolding snap_send_def by (auto simp: pick split: bind_splits)
  obtain resp where resp: "reply = Inr resp" "if stopped then res = Inl ''stopped'' else check_post_response (he_status_str E) resp req = Some res"
    using r(1) by (cases reply) (auto simp: snap_post_def unwrap_ok_def split: bind_splits if_splits)
  have ok: "(\<exists>u. res = Inr u) \<longleftrightarrow> \<not> stopped \<and> hp_status resp = 204"
    using resp(2) check_post_ok[of "he_status_str E" resp req res] by (auto split: if_splits)
  show ?thesis
  proof (cases res)
    case (Inl err)
    have d: "\<not> ps_active (ps_deactivate (sn_status s))" by (simp add: ps_deactivate_def)
    show ?thesis using Inl r(2) ok resp(1) picks_next[OF assms(1)] d by (auto simp: snap_sent_def split: bind_splits if_splits)
  next
    case (Inr u)
    have "ps_active (ps_activate now (sn_status s))" by (simp add: ps_activate_def)
    then show ?thesis using Inr r(2) ok resp(1) assms(1) by (auto simp: snap_sent_def)
  qed
qed

section \<open>A pipeline run\<close>

text \<open>The steps as a function, on which runs are evaluated.\<close>

fun handle_next :: "('u, 'c) http_env \<Rightarrow> handle_input \<Rightarrow> ('u, 'c) handler \<Rightarrow> ('u, 'c) handler option" where
  "handle_next E Stop_signal h = (if ha_pos h = At_select then Some (at_pos Ended h) else None)"
| "handle_next E (Msg_in m reply d now) h = (if ha_pos h = At_select then handle_msg E m reply d now h else None)"
| "handle_next E Go_on h = (case ha_pos h of
      At_error_send m e \<Rightarrow> if cl_full (he_chan E) (pl_errorc (ha_pipe h)) then None
        else Some (handle_failed m (add_effects [Sent_error e] (on_pipe (\<lambda>p. p\<lparr>pl_errorc := cl_send (he_chan E) (pl_errorc p)\<rparr>) h)))
    | At_done_send \<Rightarrow> if cl_full (he_chan E) (pl_done (ha_pipe h)) then None
        else Some (at_pos At_select (on_pipe (\<lambda>p. p\<lparr>pl_done := cl_send (he_chan E) (pl_done p)\<rparr>) h))
    | _ \<Rightarrow> None)"
| "handle_next E Drain_done h = Some (on_pipe (\<lambda>p. p\<lparr>pl_done := cl_recv (he_chan E) (pl_done p)\<rparr>) h)"
| "handle_next E Drain_error h = Some (on_pipe (\<lambda>p. p\<lparr>pl_errorc := cl_recv (he_chan E) (pl_errorc p)\<rparr>) h)"

lemma handle_step_iff: "handle_step E h i h' \<longleftrightarrow> handle_next E i h = Some h'"
  by (cases i) (auto simp: handle_step.simps split: handle_pos.splits if_splits)

fun handle_nexts :: "('u, 'c) http_env \<Rightarrow> handle_input list \<Rightarrow> ('u, 'c) handler \<Rightarrow> ('u, 'c) handler option" where
  "handle_nexts E [] h = Some h"
| "handle_nexts E (i # is) h = handle_next E i h \<bind> handle_nexts E is"

lemma handle_run_iff: "handle_run E h is h' \<longleftrightarrow> handle_nexts E is h = Some h'"
proof (induction "is" arbitrary: h)
  case (Cons i "is")
  then show ?case by (subst handle_run.simps) (auto simp: handle_step_iff split: bind_splits)
qed (auto intro: run_nil elim: handle_run_nil)

definition sample_chan :: "(nat \<times> nat) chan_lib" where
  "sample_chan = \<lparr>cl_new = (\<lambda>n. (n, 0)), cl_full = (\<lambda>(n, k). n \<le> k), cl_send = (\<lambda>(n, k). (n, k + 1)), cl_recv = (\<lambda>(n, k). (n, k - 1))\<rparr>"

definition sample_url_lib :: "string url_lib" where
  "sample_url_lib = \<lparr>ul_parse = Inr, ul_str = (\<lambda>s. s), ul_scheme = (\<lambda>_. ''http''), ul_addrs = (\<lambda>s. Inr [s]), ul_path = (\<lambda>_. ''/''),
     ul_set_path = (\<lambda>p u. u @ p), ul_le = (\<lambda>a b. length a \<le> length b)\<rparr>"

definition sample_http :: "(string, nat \<times> nat) http_env" where
  "sample_http = \<lparr>he_urls = sample_url_lib, he_valid = (\<lambda>_. True), he_status_str = string_of_nat, he_chan = sample_chan, he_encode = (\<lambda>m. Inr [])\<rparr>"

definition sample_pipeline :: "(string, nat \<times> nat) pipeline" where
  "sample_pipeline = \<lparr>pl_peer_id = 1, pl_tr = \<lparr>tr_id = 2, tr_urls = [''a''], tr_cluster_id = 3, tr_errorc = None, tr_pipeline_client = True\<rparr>,
     pl_picker = picker_new [''a'', ''b''], pl_status = peer_status_new 2 1, pl_errorc = (1, 0), pl_follower_stats = follower_default,
     pl_msgc = (64, 0), pl_stopc = (1, 0), pl_done = (64, 0)\<rparr>"

definition sample_append :: message where
  "sample_append = message_default\<lparr>m_type := MsgAppend, m_to := 1\<rparr>"

text \<open>A message that fails, and the token that it leaves.\<close>

definition sample_failure :: "handle_input list" where
  "sample_failure = [Msg_in sample_append (Inl ''refused'') 5 1, Go_on]"

definition sample_ready :: "nat \<Rightarrow> (string, nat \<times> nat) handler \<Rightarrow> bool" where
  "sample_ready j h \<longleftrightarrow> ha_pos h = At_select \<and> (\<exists>k. picks k [''a'', ''b''] (pl_picker (ha_pipe h))) \<and>
     tr_pipeline_client (pl_tr (ha_pipe h)) \<and> pl_done (ha_pipe h) = (64, j)"

lemma sample_refused:
  assumes "sample_ready j h"
  shows "\<exists>h'. handle_next sample_http (Msg_in sample_append (Inl ''refused'') 5 1) h = Some h' \<and> ha_pos h' = At_done_send \<and>
    (j < 64 \<longrightarrow> (\<exists>h2. handle_next sample_http Go_on h' = Some h2 \<and> sample_ready (Suc j) h2))"
proof -
  obtain k where h: "ha_pos h = At_select" "picks k [''a'', ''b''] (pl_picker (ha_pipe h))" "tr_pipeline_client (pl_tr (ha_pipe h))" "pl_done (ha_pipe h) = (64, j)"
    using assms unfolding sample_ready_def by blast
  have pick: "picker_pick (pl_picker (ha_pipe h)) = Some ([''a'', ''b''] ! k)"
    "\<exists>pk. picker_unreachable ([''a'', ''b''] ! k) (pl_picker (ha_pipe h)) = Some pk"
    using h(2) picker_fails_over[of "pl_picker (ha_pipe h)" k] unfolding picks_def by auto
  then have "\<exists>h'. handle_msg sample_http sample_append (Inl ''refused'') 5 1 h = Some h'"
    using h(3) by (auto simp: handle_msg_def sample_http_def unwrap_ok_def post_request_def create_POST_request_def post_reply_def Let_def)
  then obtain h' where h': "handle_msg sample_http sample_append (Inl ''refused'') 5 1 h = Some h'" by blast
  have "\<exists>pk req. h' = handle_failed sample_append (on_pipe (\<lambda>p. p\<lparr>pl_picker := pk\<rparr>) (add_effects [Posted req] h))"
    using h' by (auto simp: handle_msg_def post_reply_def split: bind_splits) blast
  then have "ha_pos h' = At_done_send" "tr_pipeline_client (pl_tr (ha_pipe h'))" "pl_done (ha_pipe h') = (64, j)" using h(3,4) by auto
  moreover obtain k' where "picks k' [''a'', ''b''] (pl_picker (ha_pipe h'))"
    using step_accounts(3)[OF handle_step.message[OF h(1) h'] h(2)] by blast
  ultimately show ?thesis using h(1) h' by (auto simp: sample_ready_def sample_http_def sample_chan_def)
qed

lemma handle_nexts_append: "handle_nexts E (is @ js) h = handle_nexts E is h \<bind> handle_nexts E js"
  by (induction "is" arbitrary: h) (auto split: bind_splits)

lemma sample_failures:
  assumes "pipeline_start sample_http False sample_pipeline = Some h0" "j \<le> 64"
  shows "\<exists>h. handle_nexts sample_http (concat (replicate j sample_failure)) h0 = Some h \<and> sample_ready j h"
  using assms(2)
proof (induction j)
  case 0
  have "picks 0 [''a'', ''b''] (pl_picker sample_pipeline)" by (simp add: picks_def sample_pipeline_def picker_new_def)
  then show ?case using assms(1)
    by (auto simp: sample_ready_def pipeline_start_def sample_http_def sample_chan_def Let_def sample_pipeline_def)
next
  case (Suc j)
  then obtain h where h: "handle_nexts sample_http (concat (replicate j sample_failure)) h0 = Some h" "sample_ready j h" by auto
  have "concat (replicate (Suc j) sample_failure) = concat (replicate j sample_failure) @ sample_failure"
    by (metis concat.simps concat_append append_Nil2 replicate_Suc replicate_append_same)
  then show ?case using h(1) sample_refused[OF h(2)] Suc.prems
    by (auto simp: handle_nexts_append sample_failure_def simp del: handle_next.simps replicate.simps)
qed

lemma sample_start: "\<exists>h0. pipeline_start sample_http False sample_pipeline = Some h0 \<and> picks 0 [''a'', ''b''] (pl_picker (ha_pipe h0)) \<and> ha_effects h0 = []"
  by (simp add: pipeline_start_def Let_def sample_pipeline_def picks_def picker_new_def)

theorem pipeline_tries_every_url_witness:
  "\<exists>h0 h req. pipeline_start sample_http False sample_pipeline = Some h0 \<and> handle_run sample_http h0 (sample_failure @ sample_failure) h \<and>
     Posted req \<in> set (ha_effects h) \<and> hr_uri req = ''b/raft''"
proof -
  obtain h0 where h0: "pipeline_start sample_http False sample_pipeline = Some h0" "picks 0 [''a'', ''b''] (pl_picker (ha_pipe h0))" "ha_effects h0 = []"
    using sample_start by blast
  obtain h where h: "handle_run sample_http h0 (sample_failure @ sample_failure) h"
    using sample_failures[OF h0(1), of 2] by (auto simp: handle_run_iff numeral_2_eq_2)
  have "\<exists>req. Posted req \<in> set (drop (length (ha_effects h0)) (ha_effects h)) \<and> hr_uri req = raft_uri sample_http ''b''"
    by (rule pipeline_tries_every_url[OF h0(2) h]) (simp_all add: sample_failure_def failed_reply_def)
  then show ?thesis using h0 h by (auto simp: raft_uri_def sample_http_def sample_url_lib_def)
qed

theorem pipeline_accounts_witness:
  "\<exists>h0 h. pipeline_start sample_http False sample_pipeline = Some h0 \<and> handle_run sample_http h0 sample_failure h \<and>
     filter is_report (ha_effects h) = [Report_unreachable 1] \<and> co_fail (fo_counts (pl_follower_stats (ha_pipe h))) = 1"
proof -
  obtain h0 where h0: "pipeline_start sample_http False sample_pipeline = Some h0" "picks 0 [''a'', ''b''] (pl_picker (ha_pipe h0))"
    using sample_start by blast
  obtain h where h: "handle_run sample_http h0 sample_failure h" "sample_ready 1 h"
    using sample_failures[OF h0(1), of 1] by (auto simp: handle_run_iff)
  have pk: "picks 0 [''a'', ''b''] (pl_picker sample_pipeline)" by (simp add: picks_def sample_pipeline_def picker_new_def)
  have "\<forall>m e. ha_pos h \<noteq> At_error_send m e" using h(2) by (simp add: sample_ready_def)
  from pipeline_accounts[OF h0(1) pk h(1) this] show ?thesis using h0(1) h(1)
    by (auto simp: sample_failure_def failed_reply_def failure_reports_def sample_append_def is_msg_snap_def sample_pipeline_def
        follower_fail_def follower_default_def)
qed

text \<open>The bound is reached: the 65th message is taken and waits.\<close>

theorem pipeline_stalls_witness:
  "\<exists>h0 h. pipeline_start sample_http False sample_pipeline = Some h0 \<and>
     handle_run sample_http h0 (concat (replicate 64 sample_failure) @ [Msg_in sample_append (Inl ''refused'') 5 1]) h \<and> ha_pos h = At_done_send \<and>
     length (filter is_msg_in (concat (replicate 64 sample_failure) @ [Msg_in sample_append (Inl ''refused'') 5 1])) = 65 \<and>
     \<not> (\<exists>is h'. handle_run sample_http h0 is h' \<and> Drain_done \<notin> set is \<and> length (filter is_msg_in is) = 66)"
proof -
  obtain h0 where h0: "pipeline_start sample_http False sample_pipeline = Some h0" using sample_start by blast
  obtain h1 where h1: "handle_nexts sample_http (concat (replicate 64 sample_failure)) h0 = Some h1" "sample_ready 64 h1"
    using sample_failures[OF h0, of 64] by auto
  obtain h where h: "handle_next sample_http (Msg_in sample_append (Inl ''refused'') 5 1) h1 = Some h" "ha_pos h = At_done_send"
    using sample_refused[OF h1(2)] by blast
  have "handle_run sample_http h0 (concat (replicate 64 sample_failure) @ [Msg_in sample_append (Inl ''refused'') 5 1]) h"
    using h1(1) h(1) by (simp add: handle_run_iff handle_nexts_append)
  moreover have "length (filter is_msg_in (concat (replicate n sample_failure))) = n" for n
    by (induction n) (simp_all add: sample_failure_def)
  moreover have "length (filter is_msg_in is) \<le> 65" if "handle_run sample_http h0 is h'" "Drain_done \<notin> set is" for "is" h'
  proof (rule pipeline_stalls[OF _ h0 _ that])
    show "picks 0 [''a'', ''b''] (pl_picker sample_pipeline)" by (simp add: picks_def sample_pipeline_def picker_new_def)
    have "((\<lambda>(n, k). (n, k + 1)) ^^ j) (n, 0) = (n, j)" for n j :: nat by (induction j) auto
    then show "cl_full (he_chan sample_http) ((cl_send (he_chan sample_http) ^^ j) (cl_new (he_chan sample_http) n)) \<longleftrightarrow> j = n"
      if "0 < n" "j \<le> n" for n j using that by (auto simp: sample_http_def sample_chan_def)
  qed
  ultimately show ?thesis using h0 h(2) by fastforce
qed

end
