(* ===== verification/Snap_Store.thy ===== *)
theory Snap_Store
  imports Http_Types
begin

text \<open>
  Files of a server: the store of snapshots (\<open>server/src/etcdserver/api/rafthttp/snap/snap_shotter.rs\<close>, \<open>util/util.rs\<close>) and the helpers for
  directories (\<open>client/src/pkg/fileutil\<close>). The file system is a list of paths with what is there, in the order in which directories list
  it; \<open>dk_denied\<close> says which operations the system refuses although the path is right, with its message. The
  codecs of snapshots and the checksum are arguments. Errors are their messages, and text is ASCII.
\<close>

section \<open>The file system\<close>

datatype node = Dir nat | File nat bytes

datatype fs_op = Op_read | Op_write | Op_remove | Op_rename | Op_list | Op_metadata | Op_mkdir | Op_chmod

record disk =
  dk_nodes :: "(string \<times> node) list"
  dk_denied :: "fs_op \<Rightarrow> string \<Rightarrow> string option"
  dk_dir_mode :: nat

abbreviation node_at :: "disk \<Rightarrow> string \<Rightarrow> node option" where
  "node_at d p \<equiv> map_of (dk_nodes d) p"

definition no_such_file :: string where
  "no_such_file = ''No such file or directory (os error 2)''"

text \<open>An operation: refused by the system, or done.\<close>

definition allowed :: "fs_op \<Rightarrow> string \<Rightarrow> disk \<Rightarrow> string + 'a \<Rightarrow> string + 'a" where
  "allowed op p d r = (case dk_denied d op p of Some e \<Rightarrow> Inl e | None \<Rightarrow> r)"

text \<open>\<open>PathBuf::push\<close>, the last component of a path, and \<open>set_extension\<close>.\<close>

definition path_push :: "string \<Rightarrow> string \<Rightarrow> string" where
  "path_push d n = (if n \<noteq> [] \<and> hd n = CHR ''/'' then n
     else if d = [] \<or> last d = CHR ''/'' then d @ n else d @ ''/'' @ n)"

definition file_name :: "string \<Rightarrow> string" where
  "file_name p = rev (takeWhile (\<lambda>c. c \<noteq> CHR ''/'') (rev p))"

definition parent_part :: "string \<Rightarrow> string" where
  "parent_part p = rev (dropWhile (\<lambda>c. c \<noteq> CHR ''/'') (rev p))"

definition file_stem :: "string \<Rightarrow> string" where
  "file_stem n = (let before = rev (drop 1 (dropWhile (\<lambda>c. c \<noteq> CHR ''.'') (rev n))) in if before = [] then n else before)"

definition set_extension :: "string \<Rightarrow> string \<Rightarrow> string" where
  "set_extension ext p = parent_part p @ file_stem (file_name p) @ ''.'' @ ext"

definition ends_with :: "string \<Rightarrow> string \<Rightarrow> bool" where
  "ends_with suf s \<longleftrightarrow> length suf \<le> length s \<and> drop (length s - length suf) s = suf"

definition starts_with :: "string \<Rightarrow> string \<Rightarrow> bool" where
  "starts_with pre s \<longleftrightarrow> take (length pre) s = pre"

text \<open>The name of a path in a directory, if it is directly in it.\<close>

definition child_of :: "string \<Rightarrow> string \<Rightarrow> string option" where
  "child_of d p = (let n = file_name p in if n \<noteq> [] \<and> p = path_push d n then Some n else None)"

definition fs_read_dir :: "string \<Rightarrow> disk \<Rightarrow> string + string list" where
  "fs_read_dir p d = (case node_at d p of
       Some (Dir _) \<Rightarrow> allowed Op_list p d (Inr (List.map_filter (child_of p) (map fst (dk_nodes d))))
     | Some (File _ _) \<Rightarrow> Inl ''Not a directory (os error 20)''
     | None \<Rightarrow> Inl no_such_file)"

definition fs_read :: "string \<Rightarrow> disk \<Rightarrow> string + bytes" where
  "fs_read p d = (case node_at d p of
       Some (File _ bs) \<Rightarrow> allowed Op_read p d (Inr bs)
     | Some (Dir _) \<Rightarrow> Inl ''Is a directory (os error 21)''
     | None \<Rightarrow> Inl no_such_file)"

definition fs_remove_file :: "string \<Rightarrow> disk \<Rightarrow> string + disk" where
  "fs_remove_file p d = (case node_at d p of
       Some (File _ _) \<Rightarrow> allowed Op_remove p d (Inr (d\<lparr>dk_nodes := amap_del p (dk_nodes d)\<rparr>))
     | Some (Dir _) \<Rightarrow> Inl ''Is a directory (os error 21)''
     | None \<Rightarrow> Inl no_such_file)"

definition fs_rename :: "string \<Rightarrow> string \<Rightarrow> disk \<Rightarrow> string + disk" where
  "fs_rename p q d = (case node_at d p of
       None \<Rightarrow> Inl no_such_file
     | Some x \<Rightarrow> allowed Op_rename p d (Inr (d\<lparr>dk_nodes := amap_set q x (amap_del p (dk_nodes d))\<rparr>)))"

text \<open>Opening a file for writing, truncated or new with the given mode, and writing the content.\<close>

definition fs_write :: "string \<Rightarrow> bytes \<Rightarrow> nat \<Rightarrow> disk \<Rightarrow> string + disk" where
  "fs_write p content mode d = (case node_at d p of
       Some (Dir _) \<Rightarrow> Inl ''Is a directory (os error 21)''
     | Some (File m _) \<Rightarrow> allowed Op_write p d (Inr (d\<lparr>dk_nodes := amap_set p (File m content) (dk_nodes d)\<rparr>))
     | None \<Rightarrow> allowed Op_write p d (Inr (d\<lparr>dk_nodes := amap_set p (File mode content) (dk_nodes d)\<rparr>)))"

text \<open>The mode of \<open>MetadataExt\<close> has the kind of the file in its upper bits.\<close>

definition node_mode :: "node \<Rightarrow> nat" where
  "node_mode x = (case x of Dir m \<Rightarrow> 16384 + m | File m _ \<Rightarrow> 32768 + m)"

definition fs_mode :: "string \<Rightarrow> disk \<Rightarrow> string + nat" where
  "fs_mode p d = (case node_at d p of None \<Rightarrow> Inl no_such_file | Some x \<Rightarrow> allowed Op_metadata p d (Inr (node_mode x)))"

text \<open>\<open>create_dir_all\<close> makes a directory and those above it that are missing.\<close>

definition dirs_above :: "string \<Rightarrow> string list" where
  "dirs_above p = filter (\<lambda>q. q \<noteq> []) (map (\<lambda>i. take i p) (filter (\<lambda>i. p ! i = CHR ''/'') [0..<length p])) @ [p]"

fun fs_create_dirs :: "string list \<Rightarrow> disk \<Rightarrow> string + disk" where
  "fs_create_dirs [] d = Inr d"
| "fs_create_dirs (p # ps) d = (case node_at d p of
      Some (Dir _) \<Rightarrow> fs_create_dirs ps d
    | Some (File _ _) \<Rightarrow> Inl ''File exists (os error 17)''
    | None \<Rightarrow> (case allowed Op_mkdir p d (Inr (d\<lparr>dk_nodes := amap_set p (Dir (dk_dir_mode d)) (dk_nodes d)\<rparr>)) of
          Inl e \<Rightarrow> Inl e
        | Inr d' \<Rightarrow> fs_create_dirs ps d'))"

definition fs_set_permissions :: "string \<Rightarrow> nat \<Rightarrow> disk \<Rightarrow> string + disk" where
  "fs_set_permissions p m d = (case node_at d p of
       None \<Rightarrow> Inl no_such_file
     | Some x \<Rightarrow> allowed Op_chmod p d (Inr (d\<lparr>dk_nodes := amap_set p (case x of Dir _ \<Rightarrow> Dir m | File _ bs \<Rightarrow> File m bs) (dk_nodes d)\<rparr>)))"

section \<open>The store of snapshots\<close>

definition snap_suffix :: string where
  "snap_suffix = ''.snap''"

text \<open>The protobuf codecs of a Raft snapshot and of a stored one (checksum and data), and the checksum.\<close>

record snap_codec =
  sc_encode :: "snapshot \<Rightarrow> bytes"
  sc_decode :: "bytes \<Rightarrow> string + snapshot"
  sc_encode_file :: "nat \<times> bytes \<Rightarrow> bytes"
  sc_decode_file :: "bytes \<Rightarrow> string + nat \<times> bytes"
  sc_crc :: "bytes \<Rightarrow> nat"

definition write_and_sync_file :: "string \<Rightarrow> bytes \<Rightarrow> nat \<Rightarrow> disk \<Rightarrow> (string + unit) \<times> disk" where
  "write_and_sync_file p content perm d = (case fs_write p content perm d of Inl e \<Rightarrow> (Inl e, d) | Inr d' \<Rightarrow> (Inr (), d'))"

text \<open>
  \<open>digest\<close> is a constant: each mention of it is a new digest. The data are fed to one that is dropped, and the checksum is that of another one,
  which has seen nothing.
\<close>

definition digest_of :: "snap_codec \<Rightarrow> bytes \<Rightarrow> nat" where
  "digest_of C data = sc_crc C []"

definition snap_file_name :: "snapshot \<Rightarrow> string" where
  "snap_file_name s = string_of_nat (snap_index s) @ ''-'' @ string_of_nat (snap_term s) @ snap_suffix"

definition snap_save :: "snap_codec \<Rightarrow> string \<Rightarrow> snapshot \<Rightarrow> disk \<Rightarrow> (string + unit) \<times> disk" where
  "snap_save C dir s d =
     (let fname = snap_file_name s;
          data = sc_encode C s;
          bytes = sc_encode_file C (digest_of C data, data)
      in write_and_sync_file (path_push dir fname) bytes 102 d)"

definition save_snap :: "snap_codec \<Rightarrow> string \<Rightarrow> snapshot \<Rightarrow> disk \<Rightarrow> ((string + unit) \<times> disk) panics" where
  "save_snap C dir s d = (if snapshot_is_empty s then None else Some (snap_save C dir s d))"

definition snap_names :: "string \<Rightarrow> disk \<Rightarrow> string + string list" where
  "snap_names dir d = (case fs_read_dir dir d of
       Inl e \<Rightarrow> Inl e
     | Inr names \<Rightarrow> Inr (filter (\<lambda>n. ends_with snap_suffix (path_push dir n)) names))"

text \<open>The files are removed by their bare names, so in the working directory of the process.\<close>

fun cleanup_snapdir :: "string list \<Rightarrow> disk \<Rightarrow> (string + string list) \<times> disk" where
  "cleanup_snapdir [] d = (Inr [], d)"
| "cleanup_snapdir (n # ns) d =
     (if starts_with ''db.tmp'' n
      then (case fs_remove_file n d of Inl e \<Rightarrow> (Inl e, d) | Inr d' \<Rightarrow> cleanup_snapdir ns d')
      else (case cleanup_snapdir ns d of (r, d') \<Rightarrow> (map_sum id ((#) n) r, d')))"

text \<open>\<open>trim_end_matches\<close> takes the suffix off as often as it is there.\<close>

function trim_end_matches :: "string \<Rightarrow> string \<Rightarrow> string" where
  "trim_end_matches suf s = (if suf \<noteq> [] \<and> ends_with suf s then trim_end_matches suf (take (length s - length suf) s) else s)"
  by pat_completeness auto
termination
  by (relation "measure (\<lambda>(suf, s). length s)") (auto simp: ends_with_def intro!: diff_less)

declare trim_end_matches.simps [simp del]

fun release_loop :: "string \<Rightarrow> nat \<Rightarrow> string list \<Rightarrow> disk \<Rightarrow> ((string + unit) \<times> disk) panics" where
  "release_loop dir idx [] d = Some (Inr (), d)"
| "release_loop dir idx (n # ns) d =
     (if ends_with ''.snap.db'' n then do {
        index \<leftarrow> unwrap_ok (parse_u64 (trim_end_matches ''.snap.db'' n));
        if index < idx
        then (case fs_remove_file (path_push dir n) d of
            Inl e \<Rightarrow> Some (Inl e, d)
          | Inr d' \<Rightarrow> release_loop dir idx ns d')
        else release_loop dir idx ns d }
      else release_loop dir idx ns d)"

definition release_snapdbs :: "string \<Rightarrow> snapshot \<Rightarrow> disk \<Rightarrow> ((string + unit) \<times> disk) panics" where
  "release_snapdbs dir s d = (case fs_read_dir dir d of
       Inl e \<Rightarrow> Some (Inl e, d)
     | Inr names \<Rightarrow> release_loop dir (snap_index s) names d)"

definition snap_read :: "snap_codec \<Rightarrow> string \<Rightarrow> disk \<Rightarrow> (string + snapshot) panics" where
  "snap_read C p d = (case fs_read p d of
       Inl e \<Rightarrow> Some (Inl e)
     | Inr bs \<Rightarrow>
         if bs = [] then Some (Inl ''empty snapshot file'')
         else do {
           (stored, data) \<leftarrow> unwrap_ok (sc_decode_file C bs);
           let crc = digest_of C data;
           if crc \<noteq> stored then Some (Inl ''crc mismatch'')
           else do { s \<leftarrow> unwrap_ok (sc_decode C data); Some (Inr s) } })"

definition check_suffix :: "string list \<Rightarrow> string + string list" where
  "check_suffix names = Inr (filter (ends_with snap_suffix) names)"

definition load_snap :: "snap_codec \<Rightarrow> string \<Rightarrow> string \<Rightarrow> disk \<Rightarrow> ((string + snapshot) \<times> disk) panics" where
  "load_snap C dir name d = do {
     let fpath = path_push (path_push [] dir) name;
     r \<leftarrow> snap_read C fpath d;
     Some (case r of
         Inl e \<Rightarrow> (case fs_rename fpath (set_extension ''broken'' fpath) d of
             Inl e' \<Rightarrow> (Inl e', d)
           | Inr d' \<Rightarrow> (Inl ''failed to renamed snap file'', d'))
       | Inr s \<Rightarrow> (Inr s, d)) }"

fun load_loop :: "snap_codec \<Rightarrow> string \<Rightarrow> (snapshot \<Rightarrow> bool) \<Rightarrow> string list \<Rightarrow> disk \<Rightarrow> ((string + snapshot) \<times> disk) panics" where
  "load_loop C dir match_fn [] d = Some (Inl ''no matching snapshot found'', d)"
| "load_loop C dir match_fn (n # ns) d = do {
     (r, d') \<leftarrow> load_snap C dir n d;
     case r of
       Inr s \<Rightarrow> if match_fn s then Some (Inr s, d') else load_loop C dir match_fn ns d'
     | Inl _ \<Rightarrow> load_loop C dir match_fn ns d' }"

definition load_matching :: "snap_codec \<Rightarrow> string \<Rightarrow> (snapshot \<Rightarrow> bool) \<Rightarrow> disk \<Rightarrow> ((string + snapshot) \<times> disk) panics" where
  "load_matching C dir match_fn d = do {
     names \<leftarrow> unwrap_ok (snap_names dir d);
     load_loop C dir match_fn names d }"

definition snap_load :: "snap_codec \<Rightarrow> string \<Rightarrow> disk \<Rightarrow> ((string + snapshot) \<times> disk) panics" where
  "snap_load C dir d = load_matching C dir (\<lambda>_. True) d"

section \<open>Directories\<close>

definition PrivateDirMode :: nat where
  "PrivateDirMode = 511"

definition is_dir_writeable :: "string \<Rightarrow> disk \<Rightarrow> (string + unit) \<times> disk" where
  "is_dir_writeable dir d = (let path = path_push dir ''.touch'' in
     case fs_write path ''test'' 438 d of
       Inl e \<Rightarrow> (Inl e, d)
     | Inr d1 \<Rightarrow> (case fs_remove_file path d1 of Inl e \<Rightarrow> (Inl e, d1) | Inr d2 \<Rightarrow> (Inr (), d2)))"

definition fs_exists :: "string \<Rightarrow> disk \<Rightarrow> bool" where
  "fs_exists p d = (case fs_mode p d of Inl _ \<Rightarrow> False | Inr _ \<Rightarrow> True)"

fun octal :: "nat \<Rightarrow> string" where
  "octal n = (if n < 8 then [digit_char n] else octal (n div 8) @ [digit_char (n mod 8)])"

declare octal.simps [simp del]

definition check_dir_permission :: "string \<Rightarrow> nat \<Rightarrow> disk \<Rightarrow> string + unit" where
  "check_dir_permission dir perm d =
     (if \<not> fs_exists dir d then Inl (''directory '' @ dir @ '' empty, cannot check permission'')
      else (case fs_mode dir d of
          Inl e \<Rightarrow> Inl e
        | Inr mode \<Rightarrow>
            if mode \<noteq> perm then Inl (''directory '' @ dir @ '' exist with permission '' @ octal mode @ '', need '' @ octal perm)
            else Inr ()))"

text \<open>If the directory is there, its permission is checked, but what the check says is only logged.\<close>

definition torch_dir_all :: "string \<Rightarrow> disk \<Rightarrow> (string + unit) \<times> disk" where
  "torch_dir_all dir d =
     (if fs_exists dir d then is_dir_writeable dir d
      else (case fs_create_dirs (dirs_above dir) d of
          Inl e \<Rightarrow> (Inl (''create dir error '' @ dir @ '',reason => '' @ e), d)
        | Inr d1 \<Rightarrow> (case fs_set_permissions dir PrivateDirMode d1 of
              Inl e \<Rightarrow> (Inl (''set permission error '' @ dir), d1)
            | Inr d2 \<Rightarrow> is_dir_writeable dir d2)))"

text \<open>\<open>read_dir\<close> sorts the names; an option leaves those with an ending.\<close>

definition read_dir :: "string \<Rightarrow> string \<Rightarrow> disk \<Rightarrow> string + string list" where
  "read_dir p ext d = (case fs_read_dir p d of
       Inl e \<Rightarrow> Inl e
     | Inr names \<Rightarrow> (let sorted = sort_by (\<le>) names in Inr (if ext \<noteq> [] then filter (ends_with ext) sorted else sorted)))"

definition dir_empty :: "string \<Rightarrow> disk \<Rightarrow> bool" where
  "dir_empty p d = (case read_dir p [] d of Inl _ \<Rightarrow> False | Inr names \<Rightarrow> length names = 0)"

definition create_dir_all :: "string \<Rightarrow> disk \<Rightarrow> (string + unit) \<times> disk" where
  "create_dir_all dir d = (case torch_dir_all dir d of
       (Inl e, d1) \<Rightarrow> (Inl (''create error '' @ dir @ '' , reason =>'' @ e), d1)
     | (Inr _, d1) \<Rightarrow> (case read_dir dir [] d1 of
           Inl e \<Rightarrow> (Inl (''err =>'' @ e), d1)
         | Inr names \<Rightarrow> (if length names \<noteq> 0 then (Inl (''directory '' @ dir @ '' not empty''), d1) else (Inr (), d1))))"

text \<open>The loop of \<open>remove_match_file\<close> runs over \<open>iter().next()\<close>: over the first name, if there is one.\<close>

definition remove_match_file :: "string \<Rightarrow> (string \<Rightarrow> bool) \<Rightarrow> disk \<Rightarrow> ((string + unit) \<times> disk) panics" where
  "remove_match_file dir match_func d =
     (if \<not> fs_exists dir d then Some (Inl (''directory '' @ dir @ '' does not exist''), d)
      else do {
        names \<leftarrow> unwrap_ok (read_dir dir [] d);
        Some (case names of
            [] \<Rightarrow> (Inr (), d)
          | n # _ \<Rightarrow>
              if match_func n
              then (case fs_remove_file (dir @ ''/'' @ n) d of
                  Inl e \<Rightarrow> (Inl (''remove file '' @ dir @ ''/'' @ n @ '' error,reason =>'' @ e), d)
                | Inr d' \<Rightarrow> (Inr (), d'))
              else (Inr (), d)) })"

text \<open>
  \<open>zero_to_end\<close> on an open file, its content and its position; \<open>fallocate\<close> with \<open>FALLOC_FL_ZERO_RANGE\<close> is an argument. When it fails, the
  file stays cut.
\<close>

definition zero_to_end :: "(nat \<Rightarrow> nat \<Rightarrow> bytes \<Rightarrow> string + bytes) \<Rightarrow> bytes \<times> nat \<Rightarrow> ((string + unit) \<times> (bytes \<times> nat)) panics" where
  "zero_to_end fallocate f = (case f of (bs, off) \<Rightarrow> do {
     let lenf = length bs;
     let cut = (if off \<le> lenf then take off bs else bs @ replicate (off - lenf) (CHR 0x00));
     n \<leftarrow> usub lenf off;
     Some (case fallocate off n cut of
         Inl e \<Rightarrow> (Inl e, (cut, lenf))
       | Inr bs' \<Rightarrow> (Inr (), (bs', off))) })"

section \<open>Saved snapshots are read back\<close>

lemma fs_write_read:
  assumes "fs_write p bs m d = Inr d'"
  shows "\<exists>m'. node_at d' p = Some (File m' bs)" "dk_denied d' = dk_denied d"
  using assms by (auto simp: fs_write_def allowed_def split: option.splits node.splits)

text \<open>
  A snapshot that has been saved is read back from its file, and is what \<open>load\<close> returns if its file is the only one, given that the codecs decode what they
  encode.
\<close>

theorem snapshot_saved_is_loaded:
  assumes "sc_decode C (sc_encode C s) = Inr s" "\<And>x. sc_decode_file C (sc_encode_file C x) = Inr x"
    "sc_encode_file C (digest_of C (sc_encode C s), sc_encode C s) \<noteq> []"
    "save_snap C dir s d = Some (Inr (), d')" "dk_denied d Op_read (path_push dir (snap_file_name s)) = None"
  shows "snap_read C (path_push dir (snap_file_name s)) d' = Some (Inr s) \<and>
    (snap_names dir d' = Inr [snap_file_name s] \<longrightarrow> dir \<noteq> [] \<longrightarrow> snap_load C dir d' = Some (Inr s, d'))"
proof -
  have "fs_write (path_push dir (snap_file_name s)) (sc_encode_file C (digest_of C (sc_encode C s), sc_encode C s)) 102 d = Inr d'"
    using assms(4) by (auto simp: save_snap_def snap_save_def write_and_sync_file_def Let_def split: if_splits sum.splits)
  from fs_write_read[OF this] assms(1,2,3,5)
  have r: "snap_read C (path_push dir (snap_file_name s)) d' = Some (Inr s)"
    by (auto simp: snap_read_def fs_read_def allowed_def unwrap_ok_def digest_of_def)
  moreover have "path_push (path_push [] dir) n = path_push dir n" for n by (simp add: path_push_def)
  ultimately show ?thesis by (simp add: snap_load_def load_matching_def load_snap_def unwrap_ok_def)
qed

text \<open>
  The checksum of a stored snapshot detects nothing: the checksum that \<open>save\<close> writes does not depend on the snapshot, and a file with that checksum and any data that
  decode is read as what the data decode to.
\<close>

theorem snapshot_crc_detects_nothing:
  assumes "\<And>x. sc_decode_file C (sc_encode_file C x) = Inr x" "sc_decode C data = Inr s'"
    "node_at d p = Some (File m (sc_encode_file C (digest_of C (sc_encode C s), data)))"
    "sc_encode_file C (digest_of C (sc_encode C s), data) \<noteq> []" "dk_denied d Op_read p = None"
  shows "snap_read C p d = Some (Inr s')"
  using assms by (auto simp: snap_read_def fs_read_def allowed_def unwrap_ok_def digest_of_def)

section \<open>Releasing database files\<close>

lemma fs_remove_node: "fs_remove_file p d = Inr d' \<Longrightarrow> d' = d\<lparr>dk_nodes := amap_del p (dk_nodes d)\<rparr>"
  by (auto simp: fs_remove_file_def allowed_def split: option.splits node.splits)

definition old_snapdb :: "nat \<Rightarrow> string \<Rightarrow> bool" where
  "old_snapdb idx n \<longleftrightarrow> ends_with ''.snap.db'' n \<and> (\<exists>i<idx. parse_u64 (trim_end_matches ''.snap.db'' n) = Inr i)"

lemma release_loop_exact:
  assumes "inj_on (path_push dir) (set names)" "distinct names"
    "\<forall>n\<in>set names. ends_with ''.snap.db'' n \<longrightarrow> (\<exists>i. parse_u64 (trim_end_matches ''.snap.db'' n) = Inr i)"
    "\<forall>n\<in>set names. old_snapdb idx n \<longrightarrow> dk_denied d Op_remove (path_push dir n) = None \<and> (\<exists>m bs. node_at d (path_push dir n) = Some (File m bs))"
  shows "\<exists>d'. release_loop dir idx names d = Some (Inr (), d') \<and>
    (\<forall>p. node_at d' p = (if \<exists>n\<in>set names. old_snapdb idx n \<and> p = path_push dir n then None else node_at d p))"
  using assms
proof (induction names arbitrary: d)
  case (Cons n ns)
  show ?case
  proof (cases "old_snapdb idx n")
    case False
    then have "release_loop dir idx (n # ns) d = release_loop dir idx ns d"
      using Cons.prems(3) by (auto simp: old_snapdb_def unwrap_ok_def)
    then show ?thesis using Cons.IH[of d] Cons.prems False by auto
  next
    case True
    define d1 where "d1 = d\<lparr>dk_nodes := amap_del (path_push dir n) (dk_nodes d)\<rparr>"
    have "fs_remove_file (path_push dir n) d = Inr d1"
      using Cons.prems(4) True by (auto simp: fs_remove_file_def allowed_def d1_def)
    then have step: "release_loop dir idx (n # ns) d = release_loop dir idx ns d1"
      using True by (auto simp: old_snapdb_def unwrap_ok_def)
    have ne: "path_push dir n' \<noteq> path_push dir n" if "n' \<in> set ns" for n'
      using that Cons.prems(1,2) by (auto simp: inj_on_def)
    have "\<exists>d'. release_loop dir idx ns d1 = Some (Inr (), d') \<and>
      (\<forall>p. node_at d' p = (if \<exists>n\<in>set ns. old_snapdb idx n \<and> p = path_push dir n then None else node_at d1 p))"
      using Cons.prems ne by (intro Cons.IH) (auto simp: d1_def inj_on_def)
    then show ?thesis unfolding step using True by (fastforce simp: d1_def)
  qed
qed simp

lemma path_push_child: "child_of dir p = Some n \<Longrightarrow> p = path_push dir n"
  by (auto simp: child_of_def Let_def split: if_splits)

text \<open>
  Releasing the database files of a directory for a snapshot removes exactly the files \<open>i.snap.db\<close> with \<open>i\<close> below the index of the snapshot, and changes nothing else, if the numbers are
  decimal and the system lets the files be removed.
\<close>

theorem release_snapdbs_exact:
  assumes "fs_read_dir dir d = Inr names" "amap_wf (dk_nodes d)"
    "\<forall>n\<in>set names. ends_with ''.snap.db'' n \<longrightarrow> (\<exists>i. parse_u64 (trim_end_matches ''.snap.db'' n) = Inr i)"
    "\<forall>n\<in>set names. old_snapdb (snap_index s) n \<longrightarrow> dk_denied d Op_remove (path_push dir n) = None \<and> (\<exists>m bs. node_at d (path_push dir n) = Some (File m bs))"
  shows "\<exists>d'. release_snapdbs dir s d = Some (Inr (), d') \<and>
    (\<forall>p. node_at d' p = (if \<exists>n\<in>set names. old_snapdb (snap_index s) n \<and> p = path_push dir n then None else node_at d p))"
proof -
  have names: "names = List.map_filter (child_of dir) (map fst (dk_nodes d))"
    using assms(1) by (auto simp: fs_read_dir_def allowed_def split: option.splits node.splits)
  have inj: "inj_on (path_push dir) (set names)"
  proof (rule inj_onI)
    fix a b assume ab: "a \<in> set names" "b \<in> set names" "path_push dir a = path_push dir b"
    then obtain p q where "child_of dir p = Some a" "child_of dir q = Some b" unfolding names by (auto simp: map_filter_def)
    moreover have "p = q" using calculation ab(3) path_push_child by metis
    ultimately show "a = b" by simp
  qed
  have "distinct (List.map_filter (child_of dir) ps)" if "distinct ps" for ps
    using that
  proof (induction ps)
    case (Cons p ps)
    show ?case
    proof (cases "child_of dir p")
      case None
      then show ?thesis using Cons by (simp add: map_filter_simps)
    next
      case (Some n)
      have "n \<notin> set (List.map_filter (child_of dir) ps)"
      proof
        assume "n \<in> set (List.map_filter (child_of dir) ps)"
        then obtain q where "q \<in> set ps" "child_of dir q = Some n" by (auto simp: map_filter_def)
        then show False using path_push_child Some Cons.prems by (metis distinct.simps(2))
      qed
      then show ?thesis using Some Cons by (simp add: map_filter_simps)
    qed
  qed (simp add: map_filter_simps)
  then have "distinct names" unfolding names using assms(2) by blast
  from release_loop_exact[OF inj this assms(3,4)] show ?thesis using assms(1) by (simp add: release_snapdbs_def)
qed

section \<open>What the helpers for directories do not do\<close>

text \<open>Only the first name of a directory is looked at.\<close>

lemma remove_match_file_first_only:
  assumes "fs_exists dir d" "read_dir dir [] d = Inr (n # ns)" "\<not> f n"
  shows "remove_match_file dir f d = Some (Inr (), d)"
  using assms by (simp add: remove_match_file_def unwrap_ok_def)

text \<open>The mode that is compared has the kind of the file in it, so that no permission matches.\<close>

lemma check_dir_permission_never: "perm < 16384 \<Longrightarrow> check_dir_permission dir perm d \<noteq> Inr ()"
  by (auto simp: check_dir_permission_def fs_exists_def fs_mode_def allowed_def node_mode_def split: option.splits sum.splits node.splits)

text \<open>A directory that is found writable is left as it was, up to a file \<open>.touch\<close>.\<close>

lemma is_dir_writeable_keeps:
  assumes "is_dir_writeable dir d = (Inr (), d')"
  shows "node_at d' p = (if p = path_push dir ''.touch'' then None else node_at d p)"
  using assms by (auto simp: is_dir_writeable_def Let_def fs_write_def allowed_def split: sum.splits option.splits node.splits dest!: fs_remove_node)

text \<open>With a \<open>fallocate\<close> that fills a range with zeros, the file is zero from its position on.\<close>

lemma zero_to_end_spec:
  assumes "\<And>off n bs. n > 0 \<Longrightarrow> fallocate off n bs = Inr (take off bs @ replicate n (CHR 0x00) @ drop (off + n) bs)" "off < length bs"
  shows "zero_to_end fallocate (bs, off) = Some (Inr (), (take off bs @ replicate (length bs - off) (CHR 0x00), off))"
  using assms by (simp add: zero_to_end_def Let_def usub_le)

section \<open>A store\<close>

definition sample_codec :: "snapshot \<Rightarrow> snap_codec" where
  "sample_codec s0 = \<lparr>sc_encode = (\<lambda>_. ''x''), sc_decode = (\<lambda>_. Inr s0),
     sc_encode_file = (\<lambda>(c, bs). replicate c (CHR ''1'') @ CHR ''0'' # bs),
     sc_decode_file = (\<lambda>bs. Inr (length (takeWhile (\<lambda>c. c = CHR ''1'') bs), drop 1 (dropWhile (\<lambda>c. c = CHR ''1'') bs))),
     sc_crc = length\<rparr>"

lemma sample_codec_file: "sc_decode_file (sample_codec s0) (sc_encode_file (sample_codec s0) x) = Inr x"
proof -
  have "takeWhile (\<lambda>c. c = CHR ''1'') (replicate n (CHR ''1'') @ CHR ''0'' # bs) = replicate n (CHR ''1'')"
    "dropWhile (\<lambda>c. c = CHR ''1'') (replicate n (CHR ''1'') @ CHR ''0'' # bs) = CHR ''0'' # bs" for n bs
    by (induction n) auto
  then show ?thesis by (cases x) (simp add: sample_codec_def)
qed

definition sample_snap :: snapshot where
  "sample_snap = snapshot_default\<lparr>snap_metadata := (snap_metadata snapshot_default)\<lparr>sm_index := 3, sm_term := 2\<rparr>\<rparr>"

definition sample_disk :: disk where
  "sample_disk = \<lparr>dk_nodes = [(''/s'', Dir 511), (''/s/2.snap.db'', File 102 []), (''/s/7.snap.db'', File 102 [])], dk_denied = (\<lambda>_ _. None), dk_dir_mode = 493\<rparr>"

definition sample_saved :: disk where
  "sample_saved = snd (snap_save (sample_codec sample_snap) ''/s'' sample_snap sample_disk)"

lemma sample_saved_eval:
  "save_snap (sample_codec sample_snap) ''/s'' sample_snap sample_disk = Some (Inr (), sample_saved)"
  "snap_names ''/s'' sample_saved = Inr [snap_file_name sample_snap]"
proof -
  have "map_option fst (save_snap (sample_codec sample_snap) ''/s'' sample_snap sample_disk) = Some (Inr ())" by code_simp
  then show "save_snap (sample_codec sample_snap) ''/s'' sample_snap sample_disk = Some (Inr (), sample_saved)"
    by (auto simp: save_snap_def sample_saved_def split: if_splits)
  show "snap_names ''/s'' sample_saved = Inr [snap_file_name sample_snap]" by code_simp
qed

theorem snapshot_saved_is_loaded_witness:
  "snap_load (sample_codec sample_snap) ''/s'' sample_saved = Some (Inr sample_snap, sample_saved)"
proof -
  have "sc_decode (sample_codec sample_snap) (sc_encode (sample_codec sample_snap) sample_snap) = Inr sample_snap"
    "sc_encode_file (sample_codec sample_snap) (digest_of (sample_codec sample_snap) (sc_encode (sample_codec sample_snap) sample_snap),
       sc_encode (sample_codec sample_snap) sample_snap) \<noteq> []"
    "dk_denied sample_disk Op_read (path_push ''/s'' (snap_file_name sample_snap)) = None"
    by (simp_all add: sample_codec_def sample_disk_def)
  from snapshot_saved_is_loaded[OF this(1) sample_codec_file this(2) sample_saved_eval(1) this(3)] sample_saved_eval(2)
  show ?thesis by simp
qed

theorem snapshot_crc_detects_nothing_witness:
  "snap_read (sample_codec sample_snap) ''/s/f''
     \<lparr>dk_nodes = [(''/s/f'', File 102 (sc_encode_file (sample_codec sample_snap) (digest_of (sample_codec sample_snap) (sc_encode (sample_codec sample_snap) snapshot_default), ''damaged'')))],
      dk_denied = (\<lambda>_ _. None), dk_dir_mode = 493\<rparr> = Some (Inr sample_snap)"
  by (rule snapshot_crc_detects_nothing[where s = snapshot_default and data = "''damaged''", OF sample_codec_file])
    (simp_all add: sample_codec_def)

theorem release_snapdbs_exact_witness:
  "\<exists>d'. release_snapdbs ''/s'' sample_snap sample_disk = Some (Inr (), d') \<and>
     node_at d' ''/s/2.snap.db'' = None \<and> node_at d' ''/s/7.snap.db'' = Some (File 102 [])"
proof -
  have names: "fs_read_dir ''/s'' sample_disk = Inr [''2.snap.db'', ''7.snap.db'']" by code_simp
  have trimmed: "trim_end_matches ''.snap.db'' ''2.snap.db'' = ''2''" "trim_end_matches ''.snap.db'' ''7.snap.db'' = ''7''"
    by (simp_all add: trim_end_matches.simps ends_with_def)
  have parsed: "ends_with ''.snap.db'' ''2.snap.db''" "parse_u64 (trim_end_matches ''.snap.db'' ''2.snap.db'') = Inr 2"
    "parse_u64 (trim_end_matches ''.snap.db'' ''7.snap.db'') = Inr 7" "path_push ''/s'' ''2.snap.db'' = ''/s/2.snap.db''" "path_push ''/s'' ''7.snap.db'' = ''/s/7.snap.db''"
    by (simp_all add: trimmed ends_with_def parse_u64_def to_digit_def path_push_def)
  then have old: "old_snapdb (snap_index sample_snap) ''2.snap.db''" "\<not> old_snapdb (snap_index sample_snap) ''7.snap.db''"
    by (auto simp: old_snapdb_def sample_snap_def)
  have "\<exists>d'. release_snapdbs ''/s'' sample_snap sample_disk = Some (Inr (), d') \<and>
    (\<forall>p. node_at d' p = (if \<exists>n\<in>set [''2.snap.db'', ''7.snap.db'']. old_snapdb (snap_index sample_snap) n \<and> p = path_push ''/s'' n then None else node_at sample_disk p))"
    by (rule release_snapdbs_exact[OF names]) (use parsed old in \<open>auto simp: sample_disk_def\<close>)
  then obtain d' where d': "release_snapdbs ''/s'' sample_snap sample_disk = Some (Inr (), d')"
    "node_at d' p = (if \<exists>n\<in>set [''2.snap.db'', ''7.snap.db'']. old_snapdb (snap_index sample_snap) n \<and> p = path_push ''/s'' n then None else node_at sample_disk p)" for p
    by blast
  have "node_at d' ''/s/2.snap.db'' = None" "node_at d' ''/s/7.snap.db'' = Some (File 102 [])"
    using parsed(4,5) old by (auto simp: d'(2) sample_disk_def)
  then show ?thesis using d'(1) by blast
qed

end
