(* ===== verification/Spec2Isabelle.thy ===== *)
theory Spec2Isabelle
  imports Network_Safety Network_Filter Ready_Cycle Async_Runs Datadriven_Parse Datadriven_Rewrite
    Http_Pipeline Snap_Store
begin

text \<open>
  A verification library for the Raft implementation \<open>raft-rs\<close> of this repository (\<open>src/raft-rs\<close>), and for the parts of the
  server and client packages (\<open>src/server\<close>, \<open>src/client\<close>) that are more than calls of other libraries.

  \<^bold>\<open>The program.\<close> A node of a cluster is a \<open>Raft\<close> (\<open>raft.rs\<close>): a term, a vote, a role, a log and a
  tracker of its peers. The log (\<open>raft_log.rs\<close>) joins the entries in the application's storage
  (\<open>storage.rs\<close>, a trait with the implementation \<open>MemStorage\<close>) with those not yet written
  (\<open>log_unstable.rs\<close>). The tracker (\<open>tracker.rs\<close>) holds the membership, one \<open>Progress\<close> per peer
  (\<open>tracker/progress.rs\<close>) with its window of messages in flight (\<open>tracker/inflights.rs\<close>), and the votes
  of an election; quorums are counted by \<open>quorum/*.rs\<close>, memberships are changed by \<open>confchange/*.rs\<close>.
  Linearizable reads wait in \<open>read_only.rs\<close>. The application drives the node through \<open>RawNode\<close>
  (\<open>raw_node.rs\<close>): it feeds messages and ticks, takes a \<open>Ready\<close>, persists and applies what it holds, and
  advances. \<open>node.rs\<close> runs a \<open>RawNode\<close> in a task of an asynchronous runtime and lets clients talk to it over
  channels. Around the crate are the simulated network and the data-driven tests that it is tested with. The server package
  carries messages between nodes over HTTP: a pipeline per peer posts messages to one of the peer's URLs, reports failures to Raft and
  keeps statistics; snapshots have a sender of their own, and are stored in files.

  \<^bold>\<open>Conventions.\<close> A function that can panic is a function into \<open>option\<close>, with \<open>None\<close> for the panic; a
  \<open>Result\<close> is a sum with \<open>Inl\<close> for the error; a method with \<open>&mut self\<close> takes and returns the record. A
  \<open>u64\<close> is a natural number: subtraction below zero is a panic, as in a build with overflow checks, and
  additions are not bounded (indexes and terms of a running system stay far below \<open>2^64\<close>; where a
  constant of the width is used, as in the committed index of an empty quorum, it is written out). A
  \<open>HashMap\<close> that is iterated over is an association list with distinct keys. What is not under \<open>src\<close> is a
  parameter: the record \<open>env\<close> (\<open>Storage\<close>) holds the storage operations, the random generator, and the
  protobuf encoder and parser. The locale \<open>log_storage\<close> states what the log relies on of a storage, and
  is interpreted on \<open>MemStorage\<close>. Logging is left out.

  \<^bold>\<open>Theories and sources.\<close>
  \<^item> \<open>Prelude\<close>: the panic monad, checked operations, association lists, and \<open>outcome\<close> with the collections
    \<open>vcg\<close> and \<open>frames\<close>, which carry the proofs about what an operation leaves alone.
  \<^item> \<open>Proto\<close>: messages, entries, snapshots, configuration changes (\<open>proto\<close>), and the errors (\<open>errors.rs\<close>).
  \<^item> \<open>Util\<close>, \<open>Storage\<close>, \<open>Unstable\<close>, \<open>Raft_Log\<close>: \<open>util.rs\<close>, \<open>storage.rs\<close>, \<open>log_unstable.rs\<close>, \<open>raft_log.rs\<close>.
    \<open>Raft_Log\<close> gives the log as one list of entries over a base position and the effect of every operation
    on that list.
  \<^item> \<open>Quorum\<close>, \<open>Inflights\<close>, \<open>Progress\<close>, \<open>Tracker\<close>, \<open>Conf_Change\<close>: \<open>quorum.rs\<close>, \<open>tracker.rs\<close> and
    \<open>confchange.rs\<close> with their directories. The locale \<open>quorum_system\<close> has the two laws of quorums, and
    is interpreted on majorities and joint majorities; the ring buffer refines a bounded list.
  \<^item> \<open>Read_Only\<close>, \<open>Config\<close>, \<open>Status\<close>: \<open>read_only.rs\<close>, \<open>config.rs\<close>, \<open>status.rs\<close>.
  \<^item> \<open>Raft_Core\<close>, \<open>Raft_Step\<close>: \<open>raft.rs\<close>; the state, sending, appending and the roles in the first, elections,
    every message handler, \<open>step\<close>, ticks, snapshots and reconfiguration in the second.
  \<^item> \<open>Raw_Node\<close>: \<open>raw_node.rs\<close>.
  \<^item> \<open>Async_Node\<close>: \<open>node.rs\<close> and \<open>async_ch.rs\<close>; the loop \<open>run\<close> position by position, the branches of its \<open>select!\<close>,
    and the calls of the clients. What a \<open>select!\<close> receives, and which branch completes, are inputs of the model.
  \<^item> \<open>Network\<close>: \<open>harness/src/interface.rs\<close> and \<open>harness/src/network.rs\<close>, the simulated network that the tests of the crate
    run on.
  \<^item> \<open>Datadriven\<close>: \<open>datadriven/src\<close>, the library of data-driven tests: the parser of a directive line (the regular expression
    \<open>RE\<close> as a matching function), the reader of a test file, and the run of its directives against a tested function with a
    state of its own. \<open>Datadriven_Parse\<close> and \<open>Datadriven_Rewrite\<close> have its properties.
  \<^item> \<open>Http_Stats\<close>, \<open>Http_Types\<close>, \<open>Http_Pipeline\<close>: \<open>server/src/etcdserver/api/rafthttp\<close>; statistics (\<open>v2state\<close>), identifiers, URLs, the status of
    a peer, requests, versions and readers, and the tasks that send: the pipeline as a step relation over the points where its task
    waits. The crates \<open>url\<close>, \<open>hyper\<close>, \<open>semver\<close> and \<open>async_channel\<close> are records of functions; the locale \<open>byte_source\<close> has what a \<open>Read\<close> promises, and is
    interpreted on byte slices.
  \<^item> \<open>Snap_Store\<close>: the store of snapshots of the server (\<open>snap/snap_shotter.rs\<close>) and the file utilities of the client (\<open>pkg/fileutil\<close>), over a
    model of the file system.
  \<^item> \<open>Raft_Frames\<close>, \<open>Raft_Law\<close>: one rule for every function of a node, up to the law of a step that covers
    all inputs of a node (\<open>node_handle\<close>).
  \<^item> \<open>Raft_Samples\<close>: concrete nodes, built by \<open>Raft::new\<close>, on which the model is evaluated.
  \<^item> \<open>Node_Life\<close>, \<open>Node_Elections\<close>, \<open>Node_Start\<close>, \<open>Replication\<close>, \<open>Ready_Cycle\<close>, \<open>Election\<close>: the properties that
    span components.
  \<^item> \<open>Log_Frames\<close>, \<open>Log_Sends\<close>, \<open>Log_Growth\<close>, \<open>Log_Moves\<close>: what every function of a node does to its log and to the
    messages it posts, up to \<open>node_handle\<close>; \<open>Log_Safety\<close>, \<open>Log_Links\<close>, \<open>Log_Matching\<close>: the properties of logs that rest
    on it. The locale \<open>reading_storage\<close> has what they need of a storage, and is interpreted on \<open>MemStorage\<close>.
  \<^item> \<open>Network_Conf\<close>, \<open>Network_Runs\<close>, \<open>Network_Tests\<close>, \<open>Network_Safety\<close>, \<open>Network_Filter\<close>: the simulated network refines the cluster
    of \<open>Log_Matching\<close>, and what its filter does.
  \<^item> \<open>Async_Loop\<close>, \<open>Async_Runs\<close>: what a step of the asynchronous node leaves alone, and its properties.

  \<^bold>\<open>What is shown.\<close>
  \<^item> Of a cluster (\<open>Election\<close>): at most one leader per term, in every run with fixed membership, for any loss,
    repetition, reordering and forging of messages other than granted votes, and with restarts from the
    stored hard state. Log matching (\<open>Log_Matching\<close>) in every such run in which, besides, append messages are received
    only if a node has sent them and \<open>batch_append\<close> is off: two logs that have a term in common at a position agree up to
    it. Storages are written and compacted in between, snapshots may be invented, and a node may restart
    from any log it had.
  \<^item> Of a node: terms, votes and marks never go back, whatever the input; committed entries stay, and a leader only
    appends to its log; the election timeout stays in its
    interval; the election clock leads to a campaign; the answer to a vote request is exactly the voting
    rule; pre-votes change nothing; \<open>Raft::new\<close> succeeds and is well typed.
  \<^item> Of replication: the commit rule of the leader, proposals, termination of the sending loop, and
    agreement of the two logs after an append message; log matching on the follower's side.
  \<^item> Of the asynchronous node: its client calls do what the methods of \<open>RawNode\<close> do, a \<open>Ready\<close> that is due is handed
    over completely if no tick interleaves, marks and terms never go back in any run, and the loop publishes at
    most one \<open>Ready\<close> in its life because it panics at every \<open>advance\<close>.
  \<^item> Of the simulated network: every test on it, snapshots ignored, is a run of the cluster model, so that its peers never show two leaders
    of a term or logs that do not match; isolating a peer drops exactly the messages from and to it.
  \<^item> Of the data-driven tests: a printed directive line is read back, and a file that rewrite mode has written passes in test mode
    (but for outputs with separator lines or form feeds, which two lemmas show to fail).
  \<^item> Of the server: a pipeline accounts for every message and tries every URL of its peer, but stalls after 65 messages; the statistics of a
    follower are exact, but for the minimum; a saved snapshot is loaded, but its checksum detects nothing; the versions, the request
    window, the URLs and the readers do what they should, or the lemmas say what they do instead.
  \<^item> Of the parts: quorums (elections and commit indexes, group commit included), membership changes (old and
    new quorums meet, refusals, restoring), the window and the progress of a peer, the log and its storage,
    reads, size limits, the \<open>Ready\<close> cycle, validation of configurations, parsing of configuration changes.

  \<^bold>\<open>Loops.\<close> Most loops are structural recursion. The loops over a text that consume more than one character a turn
  (\<open>split_ascii_whitespace\<close>, \<open>split_loop\<close>, \<open>run_directives\<close>, \<open>trim_end_matches\<close>) have the length of what is left as their measure.
  \<open>campaign\<close> and \<open>poll\<close> call each other and have a
  measure (a pre-vote leads to a vote, a vote to nothing further). The loops of \<open>send_append_aggressively\<close> and
  \<open>all_entries\<close> have no bound in the code and are \<open>partial_function (option)\<close>, so that \<open>None\<close> also stands for
  not returning; both are proved to return. The loop of \<open>Network::send\<close>, which ends when the nodes fall silent, is one too; what is shown of
  it is shown of the sends that return. No fuel is used.

  \<^bold>\<open>Not modelled.\<close> The channels and the scheduling of the asynchronous runtime (\<open>InnerChan\<close>, \<open>Channel\<close>). The locks \<open>SafeRawNode\<close> and \<open>RwLock\<close>, logging, formatting, and the JSON and protobuf codecs are
  left out. The cluster models have fixed membership, and their restarts find the last hard state stored.
  The file access of \<open>datadriven\<close> (\<open>run_test\<close>, \<open>walk\<close>), \<open>benches\<close>, examples, the channels of \<open>src/server\<close> and the TLS and socket
  helpers of \<open>src/client\<close> are input and output around other libraries. Floating-point numbers of the statistics are real numbers.

  \<^bold>\<open>Plan.\<close> Next: leader completeness and state machine safety for the cluster model, and membership changes in it.
\<close>

end
